(* ===== verification/Nb_Prelude.thy ===== *)
theory Nb_Prelude
  imports Main "HOL-Library.Sublist"
begin

text \<open>
  Shared vocabulary of the development. Text of the program is a HOL \<open>string\<close>: the model
  covers code units below 256, and the one routine that depends on wider units (the UTF-8
  encoder of \<^verbatim>\<open>res/updater.js\<close>) has its own type in the theory \<open>Updater_Js\<close>.
  This theory holds the operations on text that the JavaScript engine and Qt provide and that
  several components call (splitting, joining, searching, trimming, decimal and radix
  printing), with the laws the components rest on, and the collection \<open>text_laws\<close> that
  carries them into the component proofs.
\<close>

named_theorems text_laws \<open>laws of the shared text operations\<close>
named_theorems store_laws \<open>laws of stores and keyed collections\<close>

section \<open>Splitting and joining\<close>

text \<open>
  \<open>split_str sep s\<close> is JavaScript's \<open>s.split(sep)\<close> and Qt's \<open>s.split(sep)\<close> for a
  non-empty separator: cut at each leftmost, non-overlapping occurrence.
\<close>

definition cons_hd :: "'a \<Rightarrow> 'a list list \<Rightarrow> 'a list list" where
  "cons_hd x ws = (case ws of [] \<Rightarrow> [[x]] | w # ws' \<Rightarrow> (x # w) # ws')"

function split_str :: "'a list \<Rightarrow> 'a list \<Rightarrow> 'a list list" where
  "split_str sep [] = [[]]"
| "split_str sep (x # xs) =
     (if sep \<noteq> [] \<and> prefix sep (x # xs)
      then [] # split_str sep (drop (length sep - 1) xs)
      else cons_hd x (split_str sep xs))"
  by pat_completeness auto
termination
  by (relation "measure (\<lambda>(sep, s). length s)") auto

fun join_str :: "'a list \<Rightarrow> 'a list list \<Rightarrow> 'a list" where
  "join_str sep [] = []"
| "join_str sep [w] = w"
| "join_str sep (w # v # ws) = w @ sep @ join_str sep (v # ws)"

lemma split_str_nonempty [simp]: "split_str sep s \<noteq> []"
  by (cases s) (auto simp: cons_hd_def split: list.splits)

lemma join_cons_hd: "ws \<noteq> [] \<Longrightarrow> join_str sep (cons_hd x ws) = x # join_str sep ws"
  by (cases ws; cases "tl ws") (auto simp: cons_hd_def)

lemma join_Nil_Cons: "ws \<noteq> [] \<Longrightarrow> join_str sep ([] # ws) = sep @ join_str sep ws"
  by (cases ws) auto

lemma prefix_drop_pred:
  assumes "sep \<noteq> []" and "prefix sep (x # xs)"
  shows "sep @ drop (length sep - 1) xs = x # xs"
  using assms by (cases sep) (auto simp: prefix_def)

lemma join_split_str [text_laws]: "join_str sep (split_str sep s) = s"
proof (induction sep s rule: split_str.induct)
  case (2 sep x xs)
  then show ?case
    using prefix_drop_pred [of sep x xs] by (auto simp: join_cons_hd join_Nil_Cons)
qed simp

lemma split_str_char:
  "split_str [c] (x # xs) = (if x = c then [] # split_str [c] xs else cons_hd x (split_str [c] xs))"
  by auto

lemma set_cons_hd: "w \<in> set (cons_hd x ws) \<Longrightarrow> w = [x] \<or> w \<in> set ws \<or> (\<exists>v\<in>set ws. w = x # v)"
  by (auto simp: cons_hd_def split: list.splits)

lemma split_str_char_free [text_laws]:
  "w \<in> set (split_str [c] s) \<Longrightarrow> c \<notin> set w"
proof (induction s arbitrary: w)
  case (Cons x xs)
  show ?case
  proof (cases "x = c")
    case True
    with Cons show ?thesis by auto
  next
    case False
    with Cons.prems have "w \<in> set (cons_hd x (split_str [c] xs))" by simp
    with Cons.IH False show ?thesis by (auto dest!: set_cons_hd)
  qed
qed simp

lemma split_str_char_none: "c \<notin> set s \<Longrightarrow> split_str [c] s = [s]"
  by (induction s) (auto simp: cons_hd_def)

lemma split_str_char_append:
  "c \<notin> set w \<Longrightarrow> split_str [c] (w @ c # s) = w # split_str [c] s"
  by (induction w) (auto simp: cons_hd_def)

lemma split_join_char [text_laws]:
  assumes "ws \<noteq> []" and "\<forall>w\<in>set ws. c \<notin> set w"
  shows "split_str [c] (join_str [c] ws) = ws"
  using assms
proof (induction "[c]" ws rule: join_str.induct)
  case (2 w)
  then show ?case by (simp add: split_str_char_none)
next
  case (3 w v ws)
  then show ?case using split_str_char_append [of c w "join_str [c] (v # ws)"] by simp
qed simp

section \<open>Searching\<close>

text \<open>The first occurrence of a pattern: the text before it and the text after it.\<close>

fun find_sub :: "'a list \<Rightarrow> 'a list \<Rightarrow> ('a list \<times> 'a list) option" where
  "find_sub pat [] = (if pat = [] then Some ([], []) else None)"
| "find_sub pat (x # xs) =
     (if prefix pat (x # xs) then Some ([], drop (length pat) (x # xs))
      else map_option (\<lambda>(b, a). (x # b, a)) (find_sub pat xs))"

lemma find_sub_Some: "find_sub pat s = Some (b, a) \<Longrightarrow> s = b @ pat @ a"
proof (induction s arbitrary: b)
  case (Cons x xs)
  show ?case
  proof (cases "prefix pat (x # xs)")
    case True
    with Cons.prems show ?thesis by (auto simp: prefix_def)
  next
    case False
    with Cons.prems obtain b' where "find_sub pat xs = Some (b', a)" and "b = x # b'"
      by auto
    with Cons.IH show ?thesis by simp
  qed
qed (auto split: if_splits)

lemma find_sub_None_iff: "find_sub pat s = None \<longleftrightarrow> \<not> sublist pat s"
  by (induction s) (auto simp: sublist_Cons_right)

text \<open>The index of the first occurrence of an element (\<open>indexOf\<close>; \<open>None\<close> stands for \<open>-1\<close>).\<close>

fun index_of :: "'a \<Rightarrow> 'a list \<Rightarrow> nat option" where
  "index_of c [] = None"
| "index_of c (x # xs) = (if x = c then Some 0 else map_option Suc (index_of c xs))"

lemma index_of_None_iff: "index_of c s = None \<longleftrightarrow> c \<notin> set s"
  by (induction s) auto

lemma index_of_append [text_laws]: "c \<notin> set w \<Longrightarrow> index_of c (w @ c # s) = Some (length w)"
  by (induction w) auto

lemma index_of_SomeD:
  "index_of c s = Some i \<Longrightarrow> i < length s \<and> s ! i = c \<and> c \<notin> set (take i s)"
  by (induction s arbitrary: i) (auto split: if_splits)

lemma prefix_before_elem: "prefix q (u @ c # r) \<Longrightarrow> c \<notin> set q \<Longrightarrow> prefix q u"
proof (induction u arbitrary: q)
  case Nil
  then show ?case by (cases q) auto
next
  case (Cons x u)
  then show ?case by (cases q) auto
qed

section \<open>Trimming\<close>

lemma set_dropWhile_subset: "set (dropWhile P xs) \<subseteq> set xs"
  by (induction xs) auto

definition trim_with :: "('a \<Rightarrow> bool) \<Rightarrow> 'a list \<Rightarrow> 'a list" where
  "trim_with sp s = rev (dropWhile sp (rev (dropWhile sp s)))"

lemma trim_with_id [text_laws]:
  assumes "s = [] \<or> (\<not> sp (hd s) \<and> \<not> sp (last s))"
  shows "trim_with sp s = s"
proof -
  from assms have "dropWhile sp s = s" and "dropWhile sp (rev s) = rev s"
    by (auto simp: dropWhile_eq_self_iff hd_rev)
  then show ?thesis by (simp add: trim_with_def)
qed

lemma trim_with_ends:
  assumes "trim_with sp s \<noteq> []"
  shows "\<not> sp (hd (trim_with sp s)) \<and> \<not> sp (last (trim_with sp s))"
proof -
  let ?u = "dropWhile sp s" and ?v = "dropWhile sp (rev (dropWhile sp s))"
  from assms have v: "?v \<noteq> []" by (simp add: trim_with_def)
  then have "\<not> sp (hd ?v)" by (rule hd_dropWhile)
  moreover have "hd (rev ?v) = hd ?u"
  proof -
    from v have "takeWhile sp (rev ?u) @ ?v = rev ?u" by simp
    then have "?u = rev ?v @ rev (takeWhile sp (rev ?u))" by (metis rev_append rev_rev_ident)
    with v show ?thesis by (metis hd_append rev_is_Nil_conv)
  qed
  moreover from v have "?u \<noteq> []" by (metis dropWhile.simps(1) rev.simps(1))
  then have "\<not> sp (hd ?u)" by (rule hd_dropWhile)
  ultimately show ?thesis using v by (simp add: trim_with_def last_rev)
qed

lemma trim_with_idem [text_laws]: "trim_with sp (trim_with sp s) = trim_with sp s"
  using trim_with_ends [of sp s] by (intro trim_with_id) auto

lemma set_trim_with: "set (trim_with sp s) \<subseteq> set s"
  using set_dropWhile_subset [of sp s] set_dropWhile_subset [of sp "rev (dropWhile sp s)"]
  by (auto simp: trim_with_def)

section \<open>Letter case\<close>

text \<open>Lower-casing of the code units below 256.\<close>

definition lower_char :: "char \<Rightarrow> char" where
  "lower_char c =
     (let n = (of_char c :: nat)
      in if (65 \<le> n \<and> n \<le> 90) \<or> (192 \<le> n \<and> n \<le> 222 \<and> n \<noteq> 215) then char_of (n + 32) else c)"

lemma lower_char_idem [simp]: "lower_char (lower_char c) = lower_char c"
proof -
  have "(of_char c :: nat) < 256" by (metis of_char_mod_256 mod_less_divisor zero_less_numeral)
  then show ?thesis by (auto simp: lower_char_def Let_def)
qed

section \<open>Numbers as text\<close>

definition digit_chr :: "nat \<Rightarrow> char" where
  "digit_chr d = (if d < 10 then char_of (48 + d) else char_of (87 + d))"

function show_radix :: "nat \<Rightarrow> nat \<Rightarrow> string" where
  "show_radix b n =
     (if b < 2 \<or> n < b then [digit_chr n] else show_radix b (n div b) @ [digit_chr (n mod b)])"
  by pat_completeness auto
termination
  by (relation "measure (\<lambda>(b, n). n)") (auto simp: div_less_dividend)

declare show_radix.simps [simp del]

definition show_nat :: "nat \<Rightarrow> string" where
  "show_nat = show_radix 10"

definition show_int :: "int \<Rightarrow> string" where
  "show_int i = (if i < 0 then CHR ''-'' # show_nat (nat (- i)) else show_nat (nat i))"

definition is_digit :: "char \<Rightarrow> bool" where
  "is_digit c \<longleftrightarrow> 48 \<le> (of_char c :: nat) \<and> (of_char c :: nat) \<le> 57"

definition digit_val :: "char \<Rightarrow> nat" where
  "digit_val c = of_char c - 48"

definition nat_of_digits :: "string \<Rightarrow> nat" where
  "nat_of_digits ds = foldl (\<lambda>n c. 10 * n + digit_val c) 0 ds"

lemma of_char_digit_chr: "d < 10 \<Longrightarrow> (of_char (digit_chr d) :: nat) = 48 + d"
  by (simp add: digit_chr_def)

lemma digit_chr_digit: "d < 10 \<Longrightarrow> is_digit (digit_chr d) \<and> digit_val (digit_chr d) = d"
  by (simp add: is_digit_def digit_val_def of_char_digit_chr)

lemma nat_of_digits_append: "nat_of_digits (ds @ [c]) = 10 * nat_of_digits ds + digit_val c"
  by (simp add: nat_of_digits_def)

lemma show_nat_unfold:
  "show_nat n = (if n < 10 then [digit_chr n] else show_nat (n div 10) @ [digit_chr (n mod 10)])"
  by (simp add: show_nat_def show_radix.simps [of 10 n])

lemma show_nat_digits: "\<forall>c\<in>set (show_nat n). is_digit c"
proof (induction n rule: less_induct)
  case (less n)
  show ?case
    using less [of "n div 10"] by (subst show_nat_unfold) (auto simp: digit_chr_digit)
qed

lemma show_nat_nonempty [simp]: "show_nat n \<noteq> []"
  by (subst show_nat_unfold) simp

lemma nat_of_show_nat [text_laws]: "nat_of_digits (show_nat n) = n"
proof (induction n rule: less_induct)
  case (less n)
  show ?case
  proof (cases "n < 10")
    case True
    then show ?thesis
      by (subst show_nat_unfold) (simp add: nat_of_digits_def digit_chr_digit)
  next
    case False
    then have "nat_of_digits (show_nat (n div 10)) = n div 10" by (intro less) simp
    with False show ?thesis
      by (subst show_nat_unfold) (simp add: nat_of_digits_append digit_chr_digit)
  qed
qed

end
