(* ===== verification/Js_Text.thy ===== *)
theory Js_Text
  imports Nb_Prelude
begin

text \<open>
  The part of the ECMAScript library that the scripts under \<^verbatim>\<open>res/\<close> and
  \<^verbatim>\<open>pages/\<close> use: numbers with \<open>NaN\<close>, dynamic values, \<open>String(v)\<close>,
  \<open>trim\<close>, \<open>parseInt\<close>, \<open>replace\<close> with a string pattern, lower-casing and
  the stable \<open>Array.prototype.sort\<close>. Numbers are the integers that the scripts compute
  with, exact below \<open>2^53\<close>, and \<open>NaN\<close>.
\<close>

section \<open>Numbers\<close>

datatype js_num = NaN | Num int

fun num_lt :: "js_num \<Rightarrow> js_num \<Rightarrow> bool" where
  "num_lt (Num a) (Num b) = (a < b)"
| "num_lt _ _ = False"

text \<open>\<open>n || 0\<close>: \<open>NaN\<close> and \<open>0\<close> are falsy.\<close>

fun num_or_zero :: "js_num \<Rightarrow> js_num" where
  "num_or_zero NaN = Num 0"
| "num_or_zero (Num a) = Num a"

definition js_space :: "char \<Rightarrow> bool" where
  "js_space c \<longleftrightarrow> (of_char c :: nat) \<in> {9, 10, 11, 12, 13, 32, 160}"

definition js_trim :: "string \<Rightarrow> string" where
  "js_trim = trim_with js_space"

definition parseInt :: "string \<Rightarrow> js_num" where
  "parseInt s =
     (let t = dropWhile js_space s;
          neg = (case t of c # _ \<Rightarrow> c = CHR ''-'' | [] \<Rightarrow> False);
          u = (case t of c # r \<Rightarrow> (if c = CHR ''-'' \<or> c = CHR ''+'' then r else t) | [] \<Rightarrow> []);
          ds = takeWhile is_digit u
      in if ds = [] then NaN
         else Num (if neg then - int (nat_of_digits ds) else int (nat_of_digits ds)))"

lemma digit_not_space: "is_digit c \<Longrightarrow> \<not> js_space c"
  by (auto simp: is_digit_def js_space_def)

lemma digit_not_sign: "is_digit c \<Longrightarrow> c \<noteq> CHR ''-'' \<and> c \<noteq> CHR ''+''"
  by (auto simp: is_digit_def)

lemma parseInt_digits:
  assumes "ds \<noteq> []" and "\<forall>c\<in>set ds. is_digit c"
    and "r = [] \<or> \<not> is_digit (hd r)"
  shows "parseInt (ds @ r) = Num (int (nat_of_digits ds))"
proof -
  from assms obtain d ds' where ds: "ds = d # ds'" by (cases ds) auto
  with assms have d: "\<not> js_space d" "d \<noteq> CHR ''-''" "d \<noteq> CHR ''+''"
    using digit_not_space digit_not_sign by auto
  have "takeWhile is_digit (ds @ r) = ds"
    using assms by (cases r) (auto simp: takeWhile_append)
  with ds d show ?thesis by (simp add: parseInt_def)
qed

lemma parseInt_show_nat [text_laws]: "parseInt (show_nat n) = Num (int n)"
  using parseInt_digits [of "show_nat n" "[]"] show_nat_digits [of n]
  by (simp add: nat_of_show_nat)

section \<open>Dynamic values\<close>

datatype jsval =
    Undefined
  | Null
  | JBool bool
  | JNum js_num
  | JStr string
  | JArr "jsval list"
  | JObj "(string \<times> jsval) list"

text \<open>\<open>String(v)\<close>; an array joins its elements with commas, \<open>null\<close> and \<open>undefined\<close>
  elements printing as nothing.\<close>

fun js_String :: "jsval \<Rightarrow> string" where
  "js_String Undefined = ''undefined''"
| "js_String Null = ''null''"
| "js_String (JBool b) = (if b then ''true'' else ''false'')"
| "js_String (JNum NaN) = ''NaN''"
| "js_String (JNum (Num i)) = show_int i"
| "js_String (JStr s) = s"
| "js_String (JArr vs) =
     join_str '','' (map (\<lambda>v. if v = Undefined \<or> v = Null then '''' else js_String v) vs)"
| "js_String (JObj _) = ''[object Object]''"

fun js_truthy :: "jsval \<Rightarrow> bool" where
  "js_truthy Undefined = False"
| "js_truthy Null = False"
| "js_truthy (JBool b) = b"
| "js_truthy (JNum n) = (n \<noteq> NaN \<and> n \<noteq> Num 0)"
| "js_truthy (JStr s) = (s \<noteq> '''')"
| "js_truthy (JArr _) = True"
| "js_truthy (JObj _) = True"

section \<open>Strings\<close>

text \<open>
  \<open>s.replace(pat, rep)\<close> with a string pattern replaces the first occurrence; the replacement
  text may hold the sequences \<open>$$\<close>, \<open>$&\<close>, \<open>$`\<close> and \<open>$'\<close>.
\<close>

fun js_expand :: "string \<Rightarrow> string \<Rightarrow> string \<Rightarrow> string \<Rightarrow> string" where
  "js_expand m b a [] = []"
| "js_expand m b a [c] = [c]"
| "js_expand m b a (c # d # r) =
     (if c \<noteq> CHR ''$'' then c # js_expand m b a (d # r)
      else if d = CHR ''$'' then CHR ''$'' # js_expand m b a r
      else if d = CHR ''&'' then m @ js_expand m b a r
      else if d = CHR ''`'' then b @ js_expand m b a r
      else if d = CHR 0x27 then a @ js_expand m b a r
      else c # js_expand m b a (d # r))"

definition js_replace :: "string \<Rightarrow> string \<Rightarrow> string \<Rightarrow> string" where
  "js_replace pat rep s =
     (case find_sub pat s of None \<Rightarrow> s | Some (b, a) \<Rightarrow> b @ js_expand pat b a rep @ a)"

lemma js_expand_plain: "CHR ''$'' \<notin> set r \<Longrightarrow> js_expand m b a r = r"
  by (induction m b a r rule: js_expand.induct) auto

lemma js_replace_plain [text_laws]:
  "CHR ''$'' \<notin> set rep \<Longrightarrow>
   js_replace pat rep s = (case find_sub pat s of None \<Rightarrow> s | Some (b, a) \<Rightarrow> b @ rep @ a)"
  by (simp add: js_replace_def js_expand_plain split: option.splits)

lemma js_replace_absent: "\<not> sublist pat s \<Longrightarrow> js_replace pat rep s = s"
  by (simp add: js_replace_def find_sub_None_iff [symmetric])

definition js_toLowerCase :: "string \<Rightarrow> string" where
  "js_toLowerCase = map lower_char"

lemma js_toLowerCase_simps [simp]:
  "length (js_toLowerCase s) = length s"
  "js_toLowerCase (js_toLowerCase s) = js_toLowerCase s"
  by (simp_all add: js_toLowerCase_def)

section \<open>Sorting\<close>

text \<open>
  \<open>xs.sort(cmp)\<close> is stable; for a consistent comparison the stable result is unique, and
  insertion sort computes it. \<open>cmp x y\<close> is the sign that the script's callback returns.
\<close>

fun js_insert :: "('a \<Rightarrow> 'a \<Rightarrow> int) \<Rightarrow> 'a \<Rightarrow> 'a list \<Rightarrow> 'a list" where
  "js_insert cmp x [] = [x]"
| "js_insert cmp x (y # ys) = (if cmp x y \<le> 0 then x # y # ys else y # js_insert cmp x ys)"

fun js_sort :: "('a \<Rightarrow> 'a \<Rightarrow> int) \<Rightarrow> 'a list \<Rightarrow> 'a list" where
  "js_sort cmp [] = []"
| "js_sort cmp (x # xs) = js_insert cmp x (js_sort cmp xs)"

lemma set_js_insert [simp]: "set (js_insert cmp x xs) = insert x (set xs)"
  by (induction xs) auto

lemma set_js_sort [simp]: "set (js_sort cmp xs) = set xs"
  by (induction xs) auto

lemma js_sort_Nil_iff [simp]: "js_sort cmp xs = [] \<longleftrightarrow> xs = []"
  by (metis set_empty set_js_sort)

text \<open>The contract a comparison must meet on the values it is given.\<close>

locale consistent_comparator =
  fixes cmp :: "'a \<Rightarrow> 'a \<Rightarrow> int" and dom_ok :: "'a \<Rightarrow> bool"
  assumes cmp_total: "dom_ok x \<Longrightarrow> dom_ok y \<Longrightarrow> cmp x y \<le> 0 \<or> cmp y x \<le> 0"
    and cmp_trans: "dom_ok x \<Longrightarrow> dom_ok y \<Longrightarrow> dom_ok z \<Longrightarrow> cmp x y \<le> 0 \<Longrightarrow> cmp y z \<le> 0 \<Longrightarrow> cmp x z \<le> 0"
begin

lemma insert_sorted:
  assumes "sorted_wrt (\<lambda>a b. cmp a b \<le> 0) xs" and "\<forall>a\<in>set xs. dom_ok a" and "dom_ok x"
  shows "sorted_wrt (\<lambda>a b. cmp a b \<le> 0) (js_insert cmp x xs)"
  using assms
proof (induction xs)
  case (Cons y ys)
  show ?case
  proof (cases "cmp x y \<le> 0")
    case True
    with Cons.prems show ?thesis by (auto intro: cmp_trans [of x y])
  next
    case False
    with cmp_total [of x y] Cons.prems have "cmp y x \<le> 0" by auto
    with Cons False show ?thesis by auto
  qed
qed simp

lemma sort_sorted:
  "\<forall>a\<in>set xs. dom_ok a \<Longrightarrow> sorted_wrt (\<lambda>a b. cmp a b \<le> 0) (js_sort cmp xs)"
  by (induction xs) (auto intro: insert_sorted)

lemma sort_last_max:
  assumes "\<forall>a\<in>set xs. dom_ok a" and "x \<in> set xs" and "x \<noteq> last (js_sort cmp xs)"
  shows "cmp x (last (js_sort cmp xs)) \<le> 0"
proof -
  from assms have ne: "js_sort cmp xs \<noteq> []" by auto
  then obtain ys z where eq: "js_sort cmp xs = ys @ [z]" by (metis append_butlast_last_id)
  moreover have "sorted_wrt (\<lambda>a b. cmp a b \<le> 0) (ys @ [z])"
    using sort_sorted [OF assms(1)] eq by simp
  moreover have "x \<in> set (ys @ [z])"
    using assms(2) eq by (metis set_js_sort)
  ultimately show ?thesis using assms(3) by (auto simp: sorted_wrt_append)
qed

end

end
