(* ===== verification/Updater_Js.thy ===== *)
theory Updater_Js
  imports Js_Text "HOL-Library.Word"
begin

unbundle bit_operations_syntax

text \<open>
  The script prelude \<^verbatim>\<open>res/updater.js\<close>, which every script of the program is
  evaluated after. Its wrappers coerce their arguments and call a method of the object
  \<open>window\<close>; a call is a value of \<open>host_call\<close>, and what the host answers is a field of
  the record \<open>host\<close>, an argument of every script. The methods the host really exports are
  the list \<open>window_methods\<close> (\<^verbatim>\<open>src/gharqad/js/js_updater.cpp\<close>). The second half
  is the UTF-8 and hexadecimal encoder; its strings are lists of 16-bit code units.
\<close>

section \<open>Coercions\<close>

definition js_n :: "jsval \<Rightarrow> string" where
  "js_n v = (if v = Undefined \<or> v = Null then '''' else js_String v)"

definition js_b :: "jsval \<Rightarrow> bool" where
  "js_b v = (\<not> (\<not> js_truthy v))"

definition js_a :: "jsval \<Rightarrow> string list" where
  "js_a v =
     (if v = Undefined \<or> v = Null then []
      else case v of JArr vs \<Rightarrow> map js_n vs | _ \<Rightarrow> [js_n v])"

text \<open>\<open>Object.entries\<close> and \<open>Object.fromEntries\<close>: a later entry of a key replaces the
  value in place.\<close>

fun js_entries :: "jsval \<Rightarrow> (string \<times> jsval) list" where
  "js_entries (JObj kvs) = kvs"
| "js_entries (JArr vs) = map (\<lambda>(i, v). (show_nat i, v)) (enumerate 0 vs)"
| "js_entries (JStr s) = map (\<lambda>(i, c). (show_nat i, JStr [c])) (enumerate 0 s)"
| "js_entries _ = []"

fun obj_set :: "string \<Rightarrow> 'v \<Rightarrow> (string \<times> 'v) list \<Rightarrow> (string \<times> 'v) list" where
  "obj_set k v [] = [(k, v)]"
| "obj_set k v ((k', v') # kvs) = (if k = k' then (k, v) # kvs else (k', v') # obj_set k v kvs)"

definition obj_from_entries :: "(string \<times> 'v) list \<Rightarrow> (string \<times> 'v) list" where
  "obj_from_entries kvs = foldl (\<lambda>obj (k, v). obj_set k v obj) [] kvs"

definition js_o :: "jsval \<Rightarrow> (string \<times> jsval) list" where
  "js_o v = (if v = Undefined \<or> v = Null then [] else obj_from_entries (js_entries v))"

lemma map_of_obj_set [store_laws]: "map_of (obj_set k v kvs) = (map_of kvs)(k \<mapsto> v)"
  by (induction kvs) (auto simp: fun_eq_iff)

lemma keys_obj_set [store_laws]:
  "fst ` set (obj_set k v kvs) = insert k (fst ` set kvs)"
proof (induction kvs)
  case (Cons kv kvs)
  then show ?case by (cases kv; cases "k = fst kv") (simp_all add: insert_commute)
qed simp

lemma distinct_obj_set: "distinct (map fst kvs) \<Longrightarrow> distinct (map fst (obj_set k v kvs))"
proof (induction kvs)
  case (Cons kv kvs)
  then show ?case using keys_obj_set [of k v kvs] by (cases kv) auto
qed simp

lemma obj_set_new: "k \<notin> fst ` set kvs \<Longrightarrow> obj_set k v kvs = kvs @ [(k, v)]"
  by (induction kvs) auto

lemma obj_from_entries_distinct:
  "distinct (map fst kvs) \<Longrightarrow> obj_from_entries kvs = kvs"
proof (induction kvs rule: rev_induct)
  case (snoc kv kvs)
  then show ?case by (cases kv) (auto simp: obj_from_entries_def obj_set_new)
qed (simp add: obj_from_entries_def)

section \<open>The host and the wrappers\<close>

record http_response =
  http_error :: string
  http_text :: string

record host =
  translate_fn :: "string \<Rightarrow> string"
  file_exists_fn :: "string \<Rightarrow> bool"
  http_fn :: "string \<Rightarrow> http_response"
  ask_fn :: "string \<Rightarrow> string \<Rightarrow> string list \<Rightarrow> int"
  download_fn :: "string \<Rightarrow> string \<Rightarrow> bool \<Rightarrow> string"
  jsdelivr_fn :: "string \<Rightarrow> string"
  curdir_fn :: string
  locale_fn :: string

datatype host_call =
    HPrint string
  | HAsk string string "string list"
  | HOpenUrl string
  | HDownload string string bool
  | HWarning string string
  | HInfo string string
  | HLog string string
  | HHttp string

definition window_methods :: "string list" where
  "window_methods =
     [''print'', ''log'', ''warning'', ''info'', ''file_exists'', ''ask'', ''get_jsdelivr_link'',
      ''translate'', ''get_locale'', ''download'', ''curdir'', ''open_url'']"

datatype js_error = TypeError string | ReferenceError string | SyntaxError string

definition print :: "jsval \<Rightarrow> host_call" where
  "print s = HPrint (js_n s)"

definition ask :: "host \<Rightarrow> jsval \<Rightarrow> jsval \<Rightarrow> jsval \<Rightarrow> int \<times> host_call list" where
  "ask h message title arr =
     (ask_fn h (js_n message) (js_n title) (js_a arr),
      [HAsk (js_n message) (js_n title) (js_a arr)])"

text \<open>\<open>curdir\<close> calls \<open>window.tempdir\<close>: a property the host does not export is
  \<open>undefined\<close>, and calling it is a \<open>TypeError\<close>.\<close>

definition call_window :: "string \<Rightarrow> 'a \<Rightarrow> js_error + 'a" where
  "call_window name answer = (if name \<in> set window_methods then Inr answer else Inl (TypeError name))"

definition curdir :: "host \<Rightarrow> js_error + string" where
  "curdir h = call_window ''tempdir'' (curdir_fn h)"

definition curdir_path :: "host \<Rightarrow> jsval \<Rightarrow> string" where
  "curdir_path h filename = curdir_fn h @ ''/'' @ js_n filename"

definition open_url :: "string \<Rightarrow> host_call" where
  "open_url url = HOpenUrl url"

definition tempdir_path :: "host \<Rightarrow> string" where
  "tempdir_path h = curdir_path h (JStr ''temp'')"

definition download :: "host \<Rightarrow> jsval \<Rightarrow> jsval \<Rightarrow> jsval \<Rightarrow> string \<times> host_call list" where
  "download h url fileName ifexists =
     (download_fn h (js_n url) (js_n fileName) (js_b ifexists),
      [HDownload (js_n url) (js_n fileName) (js_b ifexists)])"

definition warning :: "jsval \<Rightarrow> jsval \<Rightarrow> host_call" where
  "warning message title = HWarning (js_n message) (js_n title)"

definition info :: "jsval \<Rightarrow> jsval \<Rightarrow> host_call" where
  "info message title = HInfo (js_n message) (js_n title)"

definition log :: "jsval \<Rightarrow> jsval \<Rightarrow> host_call" where
  "log message title = HLog (js_n message) (js_n title)"

definition translate :: "host \<Rightarrow> jsval \<Rightarrow> string" where
  "translate h message = translate_fn h (js_n message)"

definition get_jsdelivr_link :: "host \<Rightarrow> jsval \<Rightarrow> string" where
  "get_jsdelivr_link h message = jsdelivr_fn h (js_n message)"

definition file_exists :: "host \<Rightarrow> jsval \<Rightarrow> bool" where
  "file_exists h message = file_exists_fn h (js_n message)"

definition get_locale :: "host \<Rightarrow> string" where
  "get_locale h = locale_fn h"

definition httpget :: "host \<Rightarrow> string \<Rightarrow> jsval \<Rightarrow> jsval \<Rightarrow> http_response \<times> host_call list" where
  "httpget h url message title =
     (let message' = (if message = Undefined then JStr ''Requesting update error: %1'' else message);
          title' = (if title = Undefined then JStr ''Updater'' else title);
          p = http_fn h url;
          er = http_error p
      in (p, HHttp url #
             (if er \<noteq> ''''
              then [warning
                      (JStr (js_replace ''%2'' url
                        (js_replace ''%1'' er (translate h (JStr (js_n message'))))))
                      (JStr (translate h (JStr (js_n title'))))]
              else [])))"

lemma js_n_simps [simp]:
  "js_n (JStr s) = s" "js_n Undefined = ''''" "js_n Null = ''''"
  by (simp_all add: js_n_def)

lemma js_a_strings [simp]: "js_a (JArr (map JStr ss)) = ss"
  by (simp add: js_a_def comp_def)

section \<open>UTF-8\<close>

type_synonym u16 = "16 word"

definition is_high :: "u16 \<Rightarrow> bool" where
  "is_high u \<longleftrightarrow> 0xD800 \<le> unat u \<and> unat u \<le> 0xDBFF"

definition is_low :: "u16 \<Rightarrow> bool" where
  "is_low u \<longleftrightarrow> 0xDC00 \<le> unat u \<and> unat u \<le> 0xDFFF"

text \<open>\<open>str.codePointAt(i)\<close>, for the suffix of \<open>str\<close> that starts at \<open>i\<close>.\<close>

fun codePointAt :: "u16 \<Rightarrow> u16 list \<Rightarrow> nat" where
  "codePointAt u [] = unat u"
| "codePointAt u (v # us) =
     (if is_high u \<and> is_low v
      then (unat u - 0xD800) * 0x400 + (unat v - 0xDC00) + 0x10000 else unat u)"

definition utf8_bytes :: "nat \<Rightarrow> nat list" where
  "utf8_bytes cp =
     (if cp \<le> 0x7F then [cp]
      else if cp \<le> 0x7FF then
        [0xC0 OR drop_bit 6 cp, 0x80 OR (cp AND 0x3F)]
      else if cp \<le> 0xFFFF then
        [0xE0 OR drop_bit 12 cp, 0x80 OR (drop_bit 6 cp AND 0x3F), 0x80 OR (cp AND 0x3F)]
      else
        [0xF0 OR drop_bit 18 cp, 0x80 OR (drop_bit 12 cp AND 0x3F),
         0x80 OR (drop_bit 6 cp AND 0x3F), 0x80 OR (cp AND 0x3F)])"

function utf8Encode :: "u16 list \<Rightarrow> nat list" where
  "utf8Encode [] = []"
| "utf8Encode (u # us) =
     (let codePoint = codePointAt u us
      in utf8_bytes codePoint @ utf8Encode (if codePoint > 0xFFFF then drop 1 us else us))"
  by pat_completeness auto
termination
  by (relation "measure length") auto

function pad_loop :: "nat \<Rightarrow> string \<Rightarrow> string \<Rightarrow> string" where
  "pad_loop padLength padString pad =
     (if padString \<noteq> [] \<and> length pad < padLength
      then pad_loop padLength padString (pad @ padString) else pad)"
  by pat_completeness auto
termination
  by (relation "measure (\<lambda>(n, p, pad). n - length pad)") (auto simp: diff_less_mono2)

declare pad_loop.simps [simp del]

definition customPadStart :: "string \<Rightarrow> nat \<Rightarrow> string \<Rightarrow> string" where
  "customPadStart str targetLength padString =
     (if length str \<ge> targetLength then str
      else let padString' = (if padString = '''' then '' '' else padString);
               padLength = targetLength - length str;
               pad = pad_loop padLength padString' ''''
           in take padLength pad @ str)"

definition utf8EncodeHex :: "u16 list option \<Rightarrow> string" where
  "utf8EncodeHex str =
     (let bytes = utf8Encode (case str of None \<Rightarrow> [] | Some s \<Rightarrow> s)
      in concat (map (\<lambda>b. customPadStart (show_radix 16 b) 2 ''0'') bytes))"

definition stringToHex :: "u16 list option \<Rightarrow> string" where
  "stringToHex str = utf8EncodeHex str"

section \<open>Correctness of the encoder\<close>

text \<open>The code points that a sequence of UTF-16 units stands for, and back.\<close>

function code_points :: "u16 list \<Rightarrow> nat list" where
  "code_points [] = []"
| "code_points (u # us) =
     codePointAt u us # code_points (if codePointAt u us > 0xFFFF then drop 1 us else us)"
  by pat_completeness auto
termination
  by (relation "measure length") auto

definition utf16_units :: "nat \<Rightarrow> u16 list" where
  "utf16_units cp =
     (if cp \<le> 0xFFFF then [word_of_nat cp]
      else [word_of_nat (0xD800 + (cp - 0x10000) div 0x400),
            word_of_nat (0xDC00 + (cp - 0x10000) mod 0x400)])"

text \<open>A decoder after RFC 3629: lead byte by its range, then continuation bytes.\<close>

definition is_cont :: "nat \<Rightarrow> bool" where
  "is_cont b \<longleftrightarrow> 0x80 \<le> b \<and> b < 0xC0"

function utf8_decode :: "nat list \<Rightarrow> nat list option" where
  "utf8_decode [] = Some []"
| "utf8_decode (a # bs) =
     (if a < 0x80 then map_option ((#) a) (utf8_decode bs)
      else if 0xC0 \<le> a \<and> a < 0xE0 then
        (case bs of b # r \<Rightarrow>
           if is_cont b then map_option ((#) ((a - 0xC0) * 64 + (b - 0x80))) (utf8_decode r) else None
         | _ \<Rightarrow> None)
      else if 0xE0 \<le> a \<and> a < 0xF0 then
        (case bs of b # c # r \<Rightarrow>
           if is_cont b \<and> is_cont c
           then map_option ((#) ((a - 0xE0) * 4096 + (b - 0x80) * 64 + (c - 0x80))) (utf8_decode r)
           else None
         | _ \<Rightarrow> None)
      else if 0xF0 \<le> a \<and> a < 0xF8 then
        (case bs of b # c # d # r \<Rightarrow>
           if is_cont b \<and> is_cont c \<and> is_cont d
           then map_option ((#) ((a - 0xF0) * 262144 + (b - 0x80) * 4096 + (c - 0x80) * 64 + (d - 0x80)))
                  (utf8_decode r)
           else None
         | _ \<Rightarrow> None)
      else None)"
  by pat_completeness auto
termination
  by (relation "measure length") (auto split: if_splits)

declare utf8_decode.simps(2) [simp del]

lemma or_shifted_nat: "x < 2 ^ k \<Longrightarrow> (y * 2 ^ k) OR x = y * 2 ^ k + (x::nat)"
proof -
  assume "x < 2 ^ k"
  then have x: "take_bit k x = x" by (simp add: take_bit_nat_eq_self)
  have "\<not> bit (push_bit k y) n \<or> \<not> bit x n" for n
    using bit_take_bit_iff [of k x n] x by (auto simp: bit_push_bit_iff)
  then have "push_bit k y + x = push_bit k y OR x"
    by (rule disjunctive_add)
  then show ?thesis by (simp add: push_bit_eq_mult mult.commute)
qed

lemma low6: "(x::nat) AND 0x3F = x mod 64"
proof -
  have "x AND mask 6 = take_bit 6 x" by (simp add: take_bit_eq_mask)
  then show ?thesis by (simp add: mask_eq_exp_minus_1 take_bit_eq_mod)
qed

lemma lead_bytes:
  "x < 64 \<Longrightarrow> 0x80 OR x = 0x80 + (x::nat)" "x < 32 \<Longrightarrow> 0xC0 OR x = 0xC0 + (x::nat)"
  "x < 16 \<Longrightarrow> 0xE0 OR x = 0xE0 + (x::nat)" "x < 8 \<Longrightarrow> 0xF0 OR x = 0xF0 + (x::nat)"
  using or_shifted_nat [of x 6 2] or_shifted_nat [of x 5 6] or_shifted_nat [of x 4 14]
    or_shifted_nat [of x 3 30] by simp_all

text \<open>The bit operations of the source as arithmetic.\<close>

lemma utf8_bytes_arith:
  assumes "cp < 0x200000"
  shows "utf8_bytes cp =
     (if cp \<le> 0x7F then [cp]
      else if cp \<le> 0x7FF then [0xC0 + cp div 64, 0x80 + cp mod 64]
      else if cp \<le> 0xFFFF then [0xE0 + cp div 4096, 0x80 + cp div 64 mod 64, 0x80 + cp mod 64]
      else [0xF0 + cp div 262144, 0x80 + cp div 4096 mod 64, 0x80 + cp div 64 mod 64, 0x80 + cp mod 64])"
  using assms by (simp add: utf8_bytes_def low6 lead_bytes drop_bit_eq_div)

lemma unat_u16: "unat (u::u16) < 65536"
  using unsigned_less [of u] by simp

lemma codePointAt_bound: "codePointAt u us < 0x110000"
proof (cases us)
  case Nil
  then show ?thesis using unat_u16 [of u] by simp
next
  case (Cons v vs)
  then show ?thesis using unat_u16 [of u] by (auto simp: is_high_def is_low_def)
qed

lemma utf8_decode_lead:
  "a < 0x80 \<Longrightarrow> utf8_decode (a # r) = map_option ((#) a) (utf8_decode r)"
  "a < 32 \<Longrightarrow> b < 64 \<Longrightarrow>
     utf8_decode ((0xC0 + a) # (0x80 + b) # r) = map_option ((#) (a * 64 + b)) (utf8_decode r)"
  "a < 16 \<Longrightarrow> b < 64 \<Longrightarrow> c < 64 \<Longrightarrow>
     utf8_decode ((0xE0 + a) # (0x80 + b) # (0x80 + c) # r) =
     map_option ((#) (a * 4096 + b * 64 + c)) (utf8_decode r)"
  "a < 8 \<Longrightarrow> b < 64 \<Longrightarrow> c < 64 \<Longrightarrow> d < 64 \<Longrightarrow>
     utf8_decode ((0xF0 + a) # (0x80 + b) # (0x80 + c) # (0x80 + d) # r) =
     map_option ((#) (a * 262144 + b * 4096 + c * 64 + d)) (utf8_decode r)"
  by (simp_all add: utf8_decode.simps(2) is_cont_def)

lemma radix64_digits:
  fixes cp :: nat
  shows "cp div 64 * 64 + cp mod 64 = cp"
    and "cp div 4096 * 4096 + cp div 64 mod 64 * 64 + cp mod 64 = cp"
    and "cp div 262144 * 262144 + cp div 4096 mod 64 * 4096 + cp div 64 mod 64 * 64 + cp mod 64 = cp"
proof -
  have d: "cp div 4096 = cp div 64 div 64" "cp div 262144 = cp div 64 div 64 div 64"
    by (simp_all add: div_mult2_eq [symmetric])
  note e = div_mult_mod_eq [of cp 64] div_mult_mod_eq [of "cp div 64" 64]
    div_mult_mod_eq [of "cp div 64 div 64" 64]
  show "cp div 64 * 64 + cp mod 64 = cp" by (rule e(1))
  show "cp div 4096 * 4096 + cp div 64 mod 64 * 64 + cp mod 64 = cp"
    unfolding d using e by linarith
  show "cp div 262144 * 262144 + cp div 4096 mod 64 * 4096 + cp div 64 mod 64 * 64 + cp mod 64 = cp"
    unfolding d using e by linarith
qed

lemma utf8_decode_bytes:
  assumes "cp < 0x110000"
  shows "utf8_decode (utf8_bytes cp @ bs) = map_option ((#) cp) (utf8_decode bs)"
proof -
  consider "cp \<le> 0x7F" | "0x7F < cp" "cp \<le> 0x7FF" | "0x7FF < cp" "cp \<le> 0xFFFF" | "0xFFFF < cp"
    by linarith
  then show ?thesis
  proof cases
    case 1
    with assms show ?thesis by (simp add: utf8_bytes_arith utf8_decode_lead(1))
  next
    case 2
    with utf8_decode_lead(2) [of "cp div 64" "cp mod 64" bs] assms show ?thesis
      by (simp add: utf8_bytes_arith radix64_digits)
  next
    case 3
    with utf8_decode_lead(3) [of "cp div 4096" "cp div 64 mod 64" "cp mod 64" bs] assms show ?thesis
      by (simp add: utf8_bytes_arith radix64_digits)
  next
    case 4
    with utf8_decode_lead(4) [of "cp div 262144" "cp div 4096 mod 64" "cp div 64 mod 64" "cp mod 64" bs]
      assms show ?thesis
      by (simp add: utf8_bytes_arith radix64_digits)
  qed
qed

lemma utf8_decode_encode [text_laws]: "utf8_decode (utf8Encode s) = Some (code_points s)"
proof (induction s rule: utf8Encode.induct)
  case (2 u us)
  then show ?case by (simp add: Let_def utf8_decode_bytes codePointAt_bound)
qed simp

lemma utf16_units_codePointAt:
  "concat (map utf16_units (code_points s)) = s"
proof (induction s rule: code_points.induct)
  case (2 u us)
  show ?case
  proof (cases "codePointAt u us > 0xFFFF")
    case False
    then have "codePointAt u us = unat u"
      by (cases us) (auto split: if_splits)
    with 2 False show ?thesis by (simp add: utf16_units_def)
  next
    case True
    have "unat u \<le> 0xFFFF" using unat_u16 [of u] by simp
    with True obtain v vs where us: "us = v # vs" and h: "is_high u" "is_low v"
      by (cases us) (auto split: if_splits)
    let ?a = "unat u - 0xD800" and ?b = "unat v - 0xDC00"
    have "?b < 0x400" using h(2) by (auto simp: is_low_def)
    then have "(?a * 0x400 + ?b) div 0x400 = ?a" and "(?a * 0x400 + ?b) mod 0x400 = ?b"
      by simp_all
    with h us have "utf16_units (codePointAt u us) = [u, v]"
      by (simp add: utf16_units_def is_high_def is_low_def)
    with 2 True us show ?thesis by simp
  qed
qed simp

lemma utf8_bytes_range: "cp < 0x110000 \<Longrightarrow> b \<in> set (utf8_bytes cp) \<Longrightarrow> b < 256"
  by (auto simp: utf8_bytes_arith split: if_splits)

lemma utf8Encode_range: "b \<in> set (utf8Encode s) \<Longrightarrow> b < 256"
proof (induction s rule: utf8Encode.induct)
  case (2 u us)
  then show ?case
    using utf8_bytes_range [OF codePointAt_bound, of b u us] by (auto simp: Let_def)
qed simp

section \<open>Padding and hexadecimal text\<close>

lemma pad_loop_length: "p \<noteq> [] \<Longrightarrow> n \<le> length (pad_loop n p pad)"
proof (induction n p pad rule: pad_loop.induct)
  case (1 n p pad)
  then show ?case by (cases "length pad < n") (simp_all add: pad_loop.simps [of n p pad])
qed

definition hex_val :: "char \<Rightarrow> nat option" where
  "hex_val c =
     (let n = (of_char c :: nat)
      in if 48 \<le> n \<and> n \<le> 57 then Some (n - 48) else if 97 \<le> n \<and> n \<le> 102 then Some (n - 87) else None)"

fun unhex :: "string \<Rightarrow> nat list option" where
  "unhex [] = Some []"
| "unhex [_] = None"
| "unhex (c # d # r) =
     (case (hex_val c, hex_val d, unhex r) of
        (Some a, Some b, Some bs) \<Rightarrow> Some ((16 * a + b) # bs)
      | _ \<Rightarrow> None)"

lemma hex_val_digit_chr: "d < 16 \<Longrightarrow> hex_val (digit_chr d) = Some d"
  by (simp add: hex_val_def digit_chr_def)

lemma hex_byte:
  assumes "b < 256"
  shows "customPadStart (show_radix 16 b) 2 ''0'' = [digit_chr (b div 16), digit_chr (b mod 16)]"
proof (cases "b < 16")
  case True
  moreover have "pad_loop (Suc 0) ''0'' [] = ''0''"
    by (simp add: pad_loop.simps [of "Suc 0" "''0''"])
  moreover have "digit_chr 0 = CHR ''0''" by code_simp
  ultimately show ?thesis by (simp add: customPadStart_def show_radix.simps [of 16 b])
next
  case False
  moreover from assms have "b div 16 < 16" by simp
  ultimately show ?thesis
    by (simp add: customPadStart_def show_radix.simps [of 16 b] show_radix.simps [of 16 "b div 16"])
qed

lemma unhex_bytes:
  "\<forall>b\<in>set bs. b < 256 \<Longrightarrow>
   unhex (concat (map (\<lambda>b. customPadStart (show_radix 16 b) 2 ''0'') bs)) = Some bs"
  by (induction bs) (auto simp: hex_byte hex_val_digit_chr)

section \<open>Properties\<close>

text \<open>C34. The UTF-8 encoder of \<^verbatim>\<open>updater.js\<close> loses nothing: an RFC 3629
  decoder reads its output back, and the code points it reads are, as UTF-16 units, exactly the
  units of the input string (lone surrogates included).\<close>

theorem utf8Encode_roundtrip:
  "\<exists>cps. utf8_decode (utf8Encode s) = Some cps \<and> concat (map utf16_units cps) = s"
  by (simp add: utf8_decode_encode utf16_units_codePointAt)

text \<open>The hexadecimal text that the script produces is two digits per byte and reads back
  as the bytes of the UTF-8 encoding; \<open>null\<close> and \<open>undefined\<close> give the empty text.\<close>

theorem stringToHex_roundtrip:
  "unhex (stringToHex (Some s)) = Some (utf8Encode s) \<and> stringToHex None = ''''"
  by (simp add: stringToHex_def utf8EncodeHex_def unhex_bytes utf8Encode_range)

text \<open>\<open>customPadStart\<close> gives a text of exactly the requested length (or the argument
  itself when it is longer) that ends in its argument, for every padding text, the empty one
  included.\<close>

theorem customPadStart_length:
  "length (customPadStart str n p) = max n (length str) \<and> suffix str (customPadStart str n p)"
proof -
  let ?p = "if p = [] then '' '' else p"
  have "n - length str \<le> length (pad_loop (n - length str) ?p [])"
    by (rule pad_loop_length) simp
  then show ?thesis
    by (auto simp: customPadStart_def Let_def suffix_def max_def)
qed

text \<open>The wrapper \<open>curdir\<close> of \<^verbatim>\<open>updater.js\<close> can never return: it calls
  \<open>window.tempdir\<close>, which the host object does not export, while \<open>curdir_path\<close> reads the
  exported \<open>window.curdir\<close> and always has a value that ends in the file name.\<close>

theorem curdir_raises:
  "curdir h = Inl (TypeError ''tempdir'') \<and> call_window ''curdir'' (curdir_fn h) = Inr (curdir_fn h)
   \<and> suffix (js_n f) (curdir_path h f)"
  by (simp add: curdir_def call_window_def window_methods_def curdir_path_def suffix_def)

end
