(* ===== verification/Release_Check.thy ===== *)
theory Release_Check
  imports Updater_Js
begin

text \<open>
  The update script \<^verbatim>\<open>res/public/check_new_release.js\<close>: version parsing and
  comparison, the choice of the Windows package version, the platform set-up, the scan of the
  GitHub releases and the dialogue that decides whether the updater is started. The script's
  globals are the fields of \<open>scan_state\<close> (the scan) and \<open>outcome\<close> (what the program reads
  back after the script, plus the calls the script made). \<open>JSON.parse\<close> followed by the reads
  of the documented fields of the GitHub responses is a parameter: \<open>None\<close> when it throws.
\<close>

section \<open>Versions\<close>

definition parseVer :: "string \<Rightarrow> js_num list option" where
  "parseVer str =
     (let p = split_str ''.'' (js_replace ''-'' ''.'' (js_trim str))
      in if length p < 3 then None
         else let v = [parseInt (p ! 0), parseInt (p ! 1), parseInt (p ! 2), Num 4, Num 0, Num 0]
         in Some (if length p > 3 then
                    (if p ! 3 = ''alpha'' \<or> p ! 3 = ''beta'' \<or> p ! 3 = ''rc'' then
                       let w = v[3 := Num (if p ! 3 = ''alpha'' then 1 else if p ! 3 = ''beta'' then 2 else 3)]
                       in if length p > 4 then w[4 := num_or_zero (parseInt (p ! 4))] else w
                     else v[5 := num_or_zero (parseInt (p ! 3))])
                  else v))"

fun newer_loop :: "js_num list \<Rightarrow> js_num list \<Rightarrow> bool" where
  "newer_loop (v # ver) (c # cur) =
     (if num_lt c v then True else if num_lt v c then False else newer_loop ver cur)"
| "newer_loop _ _ = False"

definition isNewerVersion :: "string \<Rightarrow> string \<Rightarrow> bool" where
  "isNewerVersion curver version =
     (case (parseVer version, parseVer curver) of
        (Some ver, Some cur) \<Rightarrow> newer_loop ver cur
      | _ \<Rightarrow> False)"

record dir_entry =
  entry_type :: string
  entry_name :: string

definition ver_cmp :: "string \<Rightarrow> string \<Rightarrow> int" where
  "ver_cmp a b = (if a = b then 0 else if isNewerVersion a b then -1 else 1)"

definition latest_of :: "string list \<Rightarrow> string" where
  "latest_of versions = (if versions = [] then ''0.0.0'' else last (js_sort ver_cmp versions))"

definition winget_url :: "string \<Rightarrow> string" where
  "winget_url packageId =
     (let parts = split_str ''.'' packageId;
          publisher = parts ! 0;
          packageName = (if length parts > 1 then parts ! 1 else ''undefined'');
          firstLetter = js_toLowerCase (take 1 publisher)
      in ''https://api.github.com/repos/microsoft/winget-pkgs/contents/manifests/''
         @ firstLetter @ ''/'' @ publisher @ ''/'' @ packageName)"

definition getLatestWingetVersion ::
  "host \<Rightarrow> (string \<Rightarrow> dir_entry list option) \<Rightarrow> string \<Rightarrow> string" where
  "getLatestWingetVersion h parse packageId =
     (let res = http_fn h (winget_url packageId)
      in if http_error res \<noteq> '''' then ''0.0.0''
         else case parse (http_text res) of
           None \<Rightarrow> ''0.0.0''
         | Some data \<Rightarrow>
             latest_of (map entry_name (filter (\<lambda>d. entry_type d = ''dir'') data)))"

text \<open>\<open>isNewerAsset\<close> answers a boolean, or the (truthy) text \<open>'0.0.0'\<close> when the version to
  compare with is blank.\<close>

definition isNewerAsset :: "string \<Rightarrow> string \<Rightarrow> string option \<Rightarrow> jsval" where
  "isNewerAsset NKR_VERSION assetName curver =
     (let cur0 = (case curver of None \<Rightarrow> NKR_VERSION | Some c \<Rightarrow> if c = '''' then NKR_VERSION else c);
          cur = js_trim cur0
      in if cur = '''' then JStr ''0.0.0''
         else let spl = split_str ''-'' assetName
         in if length spl < 2 then JBool False
            else let version =
                   (if length spl \<ge> 3 \<and>
                       (sublist ''beta'' (spl ! 2) \<or> sublist ''alpha'' (spl ! 2) \<or> sublist ''rc'' (spl ! 2))
                    then spl ! 1 @ ''.'' @ spl ! 2 else spl ! 1)
                 in JBool (isNewerVersion cur version))"

section \<open>Platform\<close>

record platform =
  search :: string
  archive_extension :: string
  chocolatey_package :: bool
  winget_package :: bool
  keep_running :: bool

definition js_is_true_text :: "jsval \<Rightarrow> bool" where
  "js_is_true_text v = (case v of JStr s \<Rightarrow> s = ''true'' | JArr _ \<Rightarrow> js_String v = ''true'' | _ \<Rightarrow> False)"

definition appimage_search :: "string \<Rightarrow> string option" where
  "appimage_search s =
     (if s = ''linux-amd64'' then Some ''x86_64-linux''
      else if s = ''linux-arm64'' then Some ''aarch64-linux''
      else if s = ''linux-arm32'' then Some ''armhf-linux''
      else if s = ''linux-i386'' then Some ''i686-linux''
      else None)"

definition setup_platform ::
  "host \<Rightarrow> string \<Rightarrow> (string \<Rightarrow> jsval) \<Rightarrow> (string \<Rightarrow> jsval) \<Rightarrow> string \<Rightarrow> platform" where
  "setup_platform h app_dir env globalMap search0 =
     (let appimage = file_exists h (env ''APPIMAGE'') \<and>
            file_exists h (JStr (app_dir @ ''/'' @ js_String (env ''NEKOBOX_APPIMAGE_CUSTOM_EXECUTABLE'')));
          (s, ext) = (if appimage
                      then (case appimage_search search0 of
                              Some s' \<Rightarrow> (s', ''.AppImage'') | None \<Rightarrow> (search0, ''.tar.gz''))
                      else (search0, ''.tar.gz''));
          win = sublist ''windows'' s
      in \<lparr> search = s,
           archive_extension = (if win then ''-installer.exe'' else ext),
           chocolatey_package = win \<and> js_is_true_text (globalMap ''chocolatey_package''),
           winget_package = win \<and> js_is_true_text (globalMap ''winget_package''),
           keep_running = win \<rparr>)"

section \<open>The scan of the releases\<close>

record asset =
  asset_name :: string
  browser_download_url :: string

record release =
  prerelease :: bool
  tag_name :: string
  body :: string
  html_url :: string
  assets :: "asset list"

record scan_cfg =
  cfg_version :: string
  cfg_platform :: platform
  cfg_allow_beta :: bool
  cfg_bound :: string

record scan_state =
  exitFlag :: bool
  stopFlag :: bool
  is_newer :: jsval
  note_pre_release :: string
  release_url :: string
  release_note :: string
  assets_name :: string
  latest_tag_name :: string
  release_download_url :: string
  release_array :: "(string \<times> string) list"

definition init_scan :: scan_state where
  "init_scan =
     \<lparr> exitFlag = False, stopFlag = False, is_newer = JBool False, note_pre_release = '''',
       release_url = '''', release_note = '''', assets_name = '''', latest_tag_name = '''',
       release_download_url = '''', release_array = [] \<rparr>"

definition asset_matches :: "scan_cfg \<Rightarrow> asset \<Rightarrow> bool" where
  "asset_matches c a \<longleftrightarrow>
     sublist (search (cfg_platform c)) (asset_name a) \<and>
     suffix (archive_extension (cfg_platform c)) (asset_name a) \<and>
     (cfg_bound c = '''' \<or>
      \<not> js_truthy (isNewerAsset (cfg_version c) (asset_name a) (Some (cfg_bound c))))"

definition take_asset :: "scan_cfg \<Rightarrow> release \<Rightarrow> asset \<Rightarrow> scan_state \<Rightarrow> scan_state" where
  "take_asset c r a st =
     (if exitFlag st then
        (if js_truthy (isNewerAsset (cfg_version c) (asset_name a) None)
         then st\<lparr>release_array := release_array st @ [(tag_name r, body r)]\<rparr>
         else st\<lparr>stopFlag := True\<rparr>)
      else
        let newer = isNewerAsset (cfg_version c) (asset_name a) None
        in st\<lparr> note_pre_release := (if prerelease r then '' (Pre-release)'' else ''''),
               release_url := html_url r,
               release_note := body r,
               assets_name := asset_name a,
               latest_tag_name := tag_name r,
               release_array := release_array st @ [(tag_name r, body r)],
               release_download_url := browser_download_url a,
               exitFlag := True,
               is_newer := newer,
               stopFlag := \<not> js_truthy newer \<rparr>)"

fun scan_assets :: "scan_cfg \<Rightarrow> release \<Rightarrow> asset list \<Rightarrow> scan_state \<Rightarrow> scan_state" where
  "scan_assets c r [] st = st"
| "scan_assets c r (a # as) st =
     (if asset_matches c a then take_asset c r a st else scan_assets c r as st)"

fun scan_releases :: "scan_cfg \<Rightarrow> release list \<Rightarrow> scan_state \<Rightarrow> scan_state" where
  "scan_releases c [] st = st"
| "scan_releases c (r # rs) st =
     (if \<not> cfg_allow_beta c \<and> prerelease r then scan_releases c rs st
      else let st' = scan_assets c r (assets r) st
           in if exitFlag st' \<and> stopFlag st' then st' else scan_releases c rs st')"

text \<open>The release note: with more than one release, at most five of them.\<close>

fun note_loop :: "nat \<Rightarrow> (string \<times> string) list \<Rightarrow> string \<Rightarrow> string" where
  "note_loop i [] note = note"
| "note_loop i ((t, b) # rest) note =
     (if i > 4 then note else note_loop (Suc i) rest (note @ [CHR 0x0A] @ t @ '': '' @ b))"

definition compose_note :: "scan_state \<Rightarrow> string" where
  "compose_note st =
     (case release_array st of
        ar # ar2 # rest \<Rightarrow> note_loop 1 (ar2 # rest) (fst ar @ '': '' @ snd ar)
      | _ \<Rightarrow> release_note st)"

section \<open>The dialogue\<close>

record script_env =
  button_clicked :: bool
  updater_exists :: bool
  software_name :: string

record outcome =
  out_is_newer :: bool
  archive_name :: string
  updater_args :: "string list"
  calls :: "host_call list"

definition options_args :: "(string \<times> jsval) list \<Rightarrow> string \<Rightarrow> string list" where
  "options_args options tag =
     (if options = [] then []
      else concat (map (\<lambda>(k, v). (''-'' @ k) # (if v = JBool True then [] else [js_String v])) options)
           @ [''-version'', tag, ''-name'', ''nekobox''])"

text \<open>Fetching the update: the errors, the updater options, the archive and the calls made.\<close>

definition fetch_update ::
  "host \<Rightarrow> platform \<Rightarrow> scan_state \<Rightarrow> string \<Rightarrow> string \<times> (string \<times> jsval) list \<times> string \<times> host_call list" where
  "fetch_update h pf st archive =
     (if \<not> winget_package pf then
        let (errors, c1) = download h (JStr (release_download_url st)) (JStr archive) (JBool True);
            tag = latest_tag_name st;
            (options, c2) =
              (if chocolatey_package pf then
                 let (nupkg_errors, c) =
                   download h
                     (JStr (''https://github.com/fabbiodev/nekobox/releases/download/'' @ tag
                            @ ''/nekobox.'' @ tag @ ''.nupkg''))
                     (JStr (''downloads/nekobox.'' @ tag @ ''.nupkg'')) (JBool True)
                 in (if nupkg_errors = ''''
                     then [(''chocolatey_source'', JStr (curdir_path h (JStr ''downloads'')))] else [], c)
               else ([], []))
        in (errors, options, curdir_path h (JStr archive), c1 @ c2)
      else ('''', [(''winget_install'', JBool True)], ''qr243vbi.NekoBox'', []))"

definition found_message :: "host \<Rightarrow> scan_state \<Rightarrow> string" where
  "found_message h st =
     js_replace ''%2'' (compose_note st)
       (js_replace ''%1'' (assets_name st)
          (translate h (JStr (''Update found: %1'' @ [CHR 0x0A] @ ''Release note:'' @ [CHR 0x0A] @ ''%2''))))"

definition ask_update :: "host \<Rightarrow> script_env \<Rightarrow> scan_state \<Rightarrow> int \<times> host_call list" where
  "ask_update h env st =
     ask h (JStr (found_message h st)) (JStr (software_name env))
       (JArr (map JStr ([translate h (JStr ''Cancel''), translate h (JStr ''Open in browser'')]
                        @ (if updater_exists env then [translate h (JStr ''Update'')] else []))))"

definition ask_restart :: "host \<Rightarrow> script_env \<Rightarrow> int \<times> host_call list" where
  "ask_restart h env =
     ask h (JStr (translate h (JStr ''Update is ready, restart to install?''))) (JStr (software_name env))
       (JArr (map JStr [translate h (JStr ''No''), translate h (JStr ''Yes'')]))"

definition install_update :: "host \<Rightarrow> script_env \<Rightarrow> platform \<Rightarrow> scan_state \<Rightarrow> string \<Rightarrow> outcome" where
  "install_update h env pf st archive =
     (let (errors, options, archive', c) = fetch_update h pf st archive
      in if errors = '''' then
           let (index2, c2) = ask_restart h env
           in \<lparr> out_is_newer = (index2 = 1), archive_name = archive',
                updater_args = (if index2 = 1 then options_args options (latest_tag_name st) else []),
                calls = c @ c2 \<rparr>
         else \<lparr> out_is_newer = False, archive_name = archive', updater_args = [],
                calls = c @ [warning (JStr errors)
                               (JStr (translate h (JStr ''Failed to download update assets'')))] \<rparr>)"

definition log_scan :: "host \<Rightarrow> scan_state \<Rightarrow> host_call" where
  "log_scan h st =
     (let newer = js_truthy (is_newer st)
      in log (JStr (translate h (JStr
           (''assets version is'' @ (if newer then '''' else '' not'') @ '' newer''
            @ (if newer \<and> release_download_url st = '''' then '', but download url is empty'' else '''')))))
           (JStr ''Warn''))"

definition decide_update :: "host \<Rightarrow> script_env \<Rightarrow> platform \<Rightarrow> scan_state \<Rightarrow> outcome" where
  "decide_update h env pf st =
     (let archive = ''downloads/'' @ assets_name st
      in if release_download_url st = '''' \<or> \<not> js_truthy (is_newer st) then
           \<lparr> out_is_newer = False, archive_name = archive, updater_args = [],
             calls = log_scan h st #
               (if button_clicked env
                then [warning (JStr (translate h (JStr ''No update''))) (JStr (software_name env))] else []) \<rparr>
         else
           let (index, c1) = ask_update h env st
           in if index = 1 then
                \<lparr> out_is_newer = False, archive_name = archive, updater_args = [],
                  calls = log_scan h st # c1 @ [open_url (release_url st)] \<rparr>
              else if index = 2 then
                let out = install_update h env pf st archive
                in out\<lparr>calls := log_scan h st # c1 @ calls out\<rparr>
              else
                \<lparr> out_is_newer = False, archive_name = archive, updater_args = [],
                  calls = log_scan h st # c1 \<rparr>)"

text \<open>The whole script.\<close>

definition scan_config ::
  "host \<Rightarrow> (string \<Rightarrow> dir_entry list option) \<Rightarrow> platform \<Rightarrow> string \<Rightarrow> jsval \<Rightarrow> scan_cfg" where
  "scan_config h parse_dir pf NKR_VERSION allow_beta_update =
     \<lparr> cfg_version = NKR_VERSION, cfg_platform = pf, cfg_allow_beta = js_truthy allow_beta_update,
       cfg_bound = (if winget_package pf
                    then getLatestWingetVersion h parse_dir ''qr243vbi.NekoBox'' else '''') \<rparr>"

definition check_new_release ::
  "host \<Rightarrow> script_env \<Rightarrow> (string \<Rightarrow> release list option) \<Rightarrow> (string \<Rightarrow> dir_entry list option)
   \<Rightarrow> platform \<Rightarrow> string \<Rightarrow> jsval \<Rightarrow> outcome" where
  "check_new_release h env parse parse_dir pf NKR_VERSION allow_beta_update =
     (let c0 = [log (JStr ''Checking new version'') (JStr ''Info'')];
          resp = http_fn h ''https://api.github.com/repos/fabbiodev/nekobox/releases'';
          data = parse (http_text resp);
          resp_error = (if http_error resp \<noteq> '''' then http_error resp
                        else if data = None then ''Invalid JSON from GitHub'' else '''')
      in if resp_error \<noteq> '''' then
           \<lparr> out_is_newer = False, archive_name = '''', updater_args = [],
             calls = c0 @ (if button_clicked env
               then [warning (JStr (js_replace ''%1'' resp_error
                                (translate h (JStr ''Requesting update error: %1''))))
                             (JStr (software_name env))] else []) \<rparr>
         else
           let c = scan_config h parse_dir pf NKR_VERSION allow_beta_update;
               st = scan_releases c (the data) init_scan;
               out = decide_update h env pf st
           in out\<lparr>calls := c0 @ calls out\<rparr>)"

section \<open>The version order\<close>

fun num_int :: "js_num \<Rightarrow> int" where
  "num_int NaN = 0"
| "num_int (Num i) = i"

text \<open>The key of a version text: its six fields, when all of them are numbers.\<close>

definition ver_key :: "string \<Rightarrow> int list option" where
  "ver_key s = (case parseVer s of None \<Rightarrow> None
     | Some v \<Rightarrow> if NaN \<in> set v then None else Some (map num_int v))"

abbreviation ver_less :: "int list \<Rightarrow> int list \<Rightarrow> bool" where
  "ver_less \<equiv> ord_class.lexordp"

abbreviation ver_le :: "int list \<Rightarrow> int list \<Rightarrow> bool" where
  "ver_le \<equiv> ord_class.lexordp_eq"

definition ver_print :: "int list \<Rightarrow> string" where
  "ver_print k =
     (case k of
        [a, b, c, stage, n, r] \<Rightarrow>
          join_str ''.'' (map show_int [a, b, c]) @
          (if stage = 4 then (if r = 0 then '''' else ''.'' @ show_int r)
           else ''-'' @ (if stage = 1 then ''alpha'' else if stage = 2 then ''beta'' else ''rc'')
                @ (if n = 0 then '''' else ''.'' @ show_int n))
      | _ \<Rightarrow> '''')"

definition canonical_ver :: "string \<Rightarrow> bool" where
  "canonical_ver s = (case ver_key s of None \<Rightarrow> False | Some k \<Rightarrow> ver_print k = s)"

lemma parseVer_length: "parseVer s = Some v \<Longrightarrow> length v = 6"
  by (auto simp: parseVer_def Let_def split: if_splits)

lemma newer_loop_key:
  assumes "NaN \<notin> set ver" and "NaN \<notin> set cur" and "length ver = length cur"
  shows "newer_loop ver cur = ver_less (map num_int cur) (map num_int ver)"
  using assms
proof (induction ver cur rule: newer_loop.induct)
  case (1 v ver c cur)
  then show ?case by (cases v; cases c) auto
qed auto

lemma isNewerVersion_key:
  assumes "ver_key cur = Some a" and "ver_key ver = Some b"
  shows "isNewerVersion cur ver = ver_less a b"
proof -
  from assms obtain v c where vc: "parseVer ver = Some v" "parseVer cur = Some c"
    and "NaN \<notin> set v" "NaN \<notin> set c" "a = map num_int c" "b = map num_int v"
    by (auto simp: ver_key_def split: option.splits if_splits)
  moreover from vc have "length v = length c" by (simp add: parseVer_length)
  ultimately show ?thesis by (simp add: isNewerVersion_def newer_loop_key)
qed

lemma canonical_verE:
  assumes "canonical_ver s"
  obtains k where "ver_key s = Some k" and "ver_print k = s"
  using assms by (auto simp: canonical_ver_def split: option.splits)

lemma ver_cmp_canonical:
  assumes "canonical_ver x" "ver_key x = Some a" and "canonical_ver y" "ver_key y = Some b"
  shows "ver_cmp x y \<le> 0 \<longleftrightarrow> ver_le a b"
proof -
  from assms have "ver_print a = x" and "ver_print b = y"
    by (simp_all add: canonical_ver_def)
  then have "x = y \<longleftrightarrow> a = b"
    using assms(2,4) by (metis option.inject)
  then show ?thesis
    using isNewerVersion_key [OF assms(2,4)] by (simp add: ver_cmp_def lexordp_eq_conv_lexord)
qed

interpretation winget: consistent_comparator ver_cmp canonical_ver
proof unfold_locales
  fix x y assume "canonical_ver x" "canonical_ver y"
  then show "ver_cmp x y \<le> 0 \<or> ver_cmp y x \<le> 0"
    by (metis canonical_verE ver_cmp_canonical lexordp_eq_linear)
next
  fix x y z assume ok: "canonical_ver x" "canonical_ver y" "canonical_ver z"
    and le: "ver_cmp x y \<le> 0" "ver_cmp y z \<le> 0"
  from ok obtain a b c where "ver_key x = Some a" "ver_key y = Some b" "ver_key z = Some c"
    by (metis canonical_verE)
  with ok le show "ver_cmp x z \<le> 0"
    by (auto simp: ver_cmp_canonical intro: lexordp_eq_trans)
qed

lemma latest_of_max:
  assumes "\<forall>v\<in>set vs. canonical_ver v" and "vs \<noteq> []"
  shows "latest_of vs \<in> set vs \<and> (\<forall>v\<in>set vs. \<not> isNewerVersion (latest_of vs) v)"
proof -
  let ?m = "last (js_sort ver_cmp vs)"
  have in_vs: "?m \<in> set vs" using assms(2) last_in_set [of "js_sort ver_cmp vs"] by simp
  have "\<not> isNewerVersion ?m v" if v: "v \<in> set vs" for v
  proof -
    from assms(1) v in_vs obtain a b where k: "ver_key v = Some a" "ver_key ?m = Some b"
      by (metis canonical_verE)
    have "v = ?m \<or> ver_cmp v ?m \<le> 0"
      using winget.sort_last_max [OF assms(1) v] by blast
    then have "ver_le a b"
      using k assms(1) v in_vs ver_cmp_canonical [of v a ?m b] by (auto simp: lexordp_eq_refl)
    then show ?thesis
      using isNewerVersion_key [OF k(2) k(1)] by (simp add: lexordp_conv_lexordp_eq)
  qed
  with in_vs assms(2) show ?thesis by (simp add: latest_of_def)
qed

section \<open>The scan against its specification\<close>

text \<open>The asset a release offers, and the sequence of offers of a list of releases.\<close>

definition release_pick :: "scan_cfg \<Rightarrow> release \<Rightarrow> (release \<times> asset) option" where
  "release_pick c r =
     (if \<not> cfg_allow_beta c \<and> prerelease r then None
      else map_option (Pair r) (find (asset_matches c) (assets r)))"

definition picks :: "scan_cfg \<Rightarrow> release list \<Rightarrow> (release \<times> asset) list" where
  "picks c rs = List.map_filter (release_pick c) rs"

definition newer_pick :: "scan_cfg \<Rightarrow> release \<times> asset \<Rightarrow> bool" where
  "newer_pick c p = js_truthy (isNewerAsset (cfg_version c) (asset_name (snd p)) None)"

definition note_entry :: "release \<times> asset \<Rightarrow> string \<times> string" where
  "note_entry p = (tag_name (fst p), body (fst p))"

lemma scan_assets_find:
  "scan_assets c r as st =
     (case find (asset_matches c) as of None \<Rightarrow> st | Some a \<Rightarrow> take_asset c r a st)"
  by (induction as) auto

lemma picks_simps:
  "picks c [] = []"
  "picks c (r # rs) = (case release_pick c r of None \<Rightarrow> picks c rs | Some p \<Rightarrow> p # picks c rs)"
  by (simp_all add: picks_def List.map_filter_def split: option.splits)

lemma scan_releases_step:
  "scan_releases c (r # rs) st =
     (case release_pick c r of
        None \<Rightarrow> if (cfg_allow_beta c \<or> \<not> prerelease r) \<and> exitFlag st \<and> stopFlag st then st
                else scan_releases c rs st
      | Some (r', a) \<Rightarrow>
          (let st' = take_asset c r' a st
           in if exitFlag st' \<and> stopFlag st' then st' else scan_releases c rs st'))"
  by (auto simp: release_pick_def scan_assets_find Let_def split: option.splits)

lemma scan_after_exit:
  assumes "exitFlag st" and "\<not> stopFlag st"
  shows "scan_releases c rs st =
     st\<lparr> release_array := release_array st @ map note_entry (takeWhile (newer_pick c) (picks c rs)),
         stopFlag := list_ex (\<lambda>p. \<not> newer_pick c p) (picks c rs) \<rparr>"
  using assms
proof (induction rs arbitrary: st)
  case (Cons r rs)
  show ?case
  proof (cases "release_pick c r")
    case None
    with Cons show ?thesis by (auto simp: scan_releases_step picks_simps simp del: scan_releases.simps)
  next
    case (Some p)
    then obtain r' a where p: "p = (r', a)" by (cases p)
    show ?thesis
    proof (cases "newer_pick c p")
      case True
      with Cons Some p show ?thesis
        by (simp add: scan_releases_step picks_simps take_asset_def newer_pick_def note_entry_def
            del: scan_releases.simps)
    next
      case False
      with Cons Some p show ?thesis
        by (simp add: scan_releases_step picks_simps take_asset_def newer_pick_def
            del: scan_releases.simps)
    qed
  qed
qed (simp add: picks_simps)

lemma scan_before_exit:
  assumes "\<not> exitFlag st"
  shows "scan_releases c rs st =
     (case picks c rs of
        [] \<Rightarrow> st
      | (r, a) # ps \<Rightarrow>
          let st' = take_asset c r a st
          in if newer_pick c (r, a) then
               st'\<lparr> release_array := release_array st' @ map note_entry (takeWhile (newer_pick c) ps),
                    stopFlag := list_ex (\<lambda>p. \<not> newer_pick c p) ps \<rparr>
             else st')"
  using assms
proof (induction rs)
  case (Cons r rs)
  show ?case
  proof (cases "release_pick c r")
    case None
    with Cons show ?thesis by (auto simp: scan_releases_step picks_simps simp del: scan_releases.simps)
  next
    case (Some p)
    then obtain r' a where p: "p = (r', a)" by (cases p)
    with Cons.prems have "exitFlag (take_asset c r' a st)"
      "stopFlag (take_asset c r' a st) = (\<not> newer_pick c (r', a))"
      by (simp_all add: take_asset_def Let_def newer_pick_def)
    with Some p show ?thesis
      by (simp add: scan_releases_step picks_simps scan_after_exit Let_def del: scan_releases.simps)
  qed
qed (simp add: picks_simps)

lemma note_loop_join:
  "note_loop i rest nt =
     nt @ concat (map (\<lambda>(t, b). [CHR 0x0A] @ t @ '': '' @ b) (take (5 - i) rest))"
proof (induction i rest nt rule: note_loop.induct)
  case (2 i t b rest nt)
  show ?case
  proof (cases "i > 4")
    case False
    then have "5 - i = Suc (5 - Suc i)" by simp
    with 2 False show ?thesis by simp
  qed simp
qed simp

lemma join_str_prefixed:
  "join_str sep (w # ws) = w @ concat (map (\<lambda>v. sep @ v) ws)"
  by (induction ws arbitrary: w) auto

lemma ver_less_index:
  "length a = length b \<Longrightarrow>
   ver_less a b \<longleftrightarrow> (\<exists>i<length a. take i a = take i b \<and> a ! i < b ! i)"
proof (induction a b rule: list_induct2)
  case (Cons x xs y ys)
  have "(\<exists>i<length (x # xs). take i (x # xs) = take i (y # ys) \<and> (x # xs) ! i < (y # ys) ! i)
    \<longleftrightarrow> x < y \<or> (x = y \<and> (\<exists>i<length xs. take i xs = take i ys \<and> xs ! i < ys ! i))"
    by (auto simp: less_Suc_eq_0_disj)
  then show ?case using Cons by auto
qed simp

lemma ver_key_length: "ver_key s = Some k \<Longrightarrow> length k = 6"
  by (auto simp: ver_key_def parseVer_length split: option.splits if_splits)

lemma download_calls:
  "HDownload u f b \<in> set (snd (snd (snd (fetch_update h pf st a)))) \<Longrightarrow> b \<and> \<not> winget_package pf"
  by (auto simp: fetch_update_def download_def js_b_def Let_def split: if_splits)

section \<open>Properties\<close>

text \<open>C33. On version texts whose fields are numbers, \<open>isNewerVersion\<close> is the strict
  lexicographic order on (major, minor, patch, stage, stage number, revision): the first field
  that differs decides, and it is greater in the newer version.\<close>

theorem isNewerVersion_lexicographic:
  assumes "ver_key cur = Some a" and "ver_key ver = Some b"
  shows "isNewerVersion cur ver \<longleftrightarrow> (\<exists>i<6. take i a = take i b \<and> a ! i < b ! i)"
  using isNewerVersion_key [OF assms] ver_less_index [of a b] assms
  by (simp add: ver_key_length)

theorem isNewerVersion_lexicographic_witness:
  "isNewerVersion ''5.11.28-beta.3'' ''5.11.28''"
proof -
  have b: "ver_key ''5.11.28-beta.3'' = Some [5, 11, 28, 2, 3, 0]" by code_simp
  have s: "ver_key ''5.11.28'' = Some [5, 11, 28, 4, 0, 0]" by code_simp
  have "\<exists>i<6. take i [5, 11, 28, 2, 3, 0] = take i [5, 11, 28, 4, 0, (0::int)]
      \<and> [5, 11, 28, 2, 3, 0] ! i < [5, 11, 28, 4, 0, (0::int)] ! i"
    by (rule exI [of _ 3]) simp
  then show ?thesis using isNewerVersion_lexicographic [OF b s] by simp
qed

text \<open>When the Windows package index answers with version directories in canonical form,
  \<open>getLatestWingetVersion\<close> returns one of them, and none of the others is newer.\<close>

theorem getLatestWingetVersion_max:
  assumes "http_error (http_fn h (winget_url pkg)) = ''''"
    and "parse (http_text (http_fn h (winget_url pkg))) = Some data"
    and "names = map entry_name (filter (\<lambda>d. entry_type d = ''dir'') data)"
    and "names \<noteq> []" and "\<forall>v\<in>set names. canonical_ver v"
  shows "getLatestWingetVersion h parse pkg \<in> set names
    \<and> (\<forall>v\<in>set names. \<not> isNewerVersion (getLatestWingetVersion h parse pkg) v)"
proof -
  have "getLatestWingetVersion h parse pkg = latest_of names"
    using assms(1-3) by (simp add: getLatestWingetVersion_def Let_def)
  with latest_of_max [OF assms(5,4)] show ?thesis by simp
qed

definition sample_host :: host where
  "sample_host =
     \<lparr> translate_fn = id, file_exists_fn = (\<lambda>_. False),
       http_fn = (\<lambda>_. \<lparr> http_error = '''', http_text = ''[]'' \<rparr>),
       ask_fn = (\<lambda>_ _ bs. int (length bs) - 1), download_fn = (\<lambda>_ _ _. ''''), jsdelivr_fn = id,
       curdir_fn = ''/opt/nekobox'', locale_fn = ''en_US'' \<rparr>"

definition sample_dirs :: "dir_entry list" where
  "sample_dirs =
     [\<lparr> entry_type = ''dir'', entry_name = ''5.9.30'' \<rparr>, \<lparr> entry_type = ''dir'', entry_name = ''5.11.28'' \<rparr>,
      \<lparr> entry_type = ''file'', entry_name = ''README'' \<rparr>]"

theorem getLatestWingetVersion_max_witness:
  "\<not> isNewerVersion (getLatestWingetVersion sample_host (\<lambda>_. Some sample_dirs) ''qr243vbi.NekoBox'') ''5.11.28''"
proof -
  have e: "http_error (http_fn sample_host (winget_url ''qr243vbi.NekoBox'')) = ''''"
    by (simp add: sample_host_def)
  have d: "(\<lambda>_. Some sample_dirs) (http_text (http_fn sample_host (winget_url ''qr243vbi.NekoBox''))) = Some sample_dirs"
    by (rule refl)
  have n: "[''5.9.30'', ''5.11.28''] = map entry_name (filter (\<lambda>d. entry_type d = ''dir'') sample_dirs)"
    by (simp add: sample_dirs_def)
  have "canonical_ver ''5.9.30''" and "canonical_ver ''5.11.28''" by code_simp+
  then have c: "\<forall>v\<in>set [''5.9.30'', ''5.11.28'']. canonical_ver v" by simp
  show ?thesis using getLatestWingetVersion_max [OF e d n _ c] by simp
qed

text \<open>C11. The scan of the releases, with its flags and breaks, computes the specification over
  the offers (the first matching asset of each release that is not a skipped pre-release): with
  no offer nothing is chosen; otherwise the first offer is the update, and the release notes are
  those of the first offer and, when it is newer, of the offers that follow it up to the first
  that is not newer than the running version.\<close>

theorem scan_releases_spec:
  "case picks c rs of
     [] \<Rightarrow> scan_releases c rs init_scan = init_scan
   | (r, a) # ps \<Rightarrow>
       (let st = scan_releases c rs init_scan
        in exitFlag st \<and> assets_name st = asset_name a \<and> latest_tag_name st = tag_name r
           \<and> release_download_url st = browser_download_url a \<and> release_url st = html_url r
           \<and> js_truthy (is_newer st) = newer_pick c (r, a)
           \<and> release_array st = note_entry (r, a) #
               (if newer_pick c (r, a) then map note_entry (takeWhile (newer_pick c) ps) else []))"
  by (auto simp: scan_before_exit init_scan_def take_asset_def newer_pick_def note_entry_def Let_def
      split: list.splits)

text \<open>The release note shown to the user is the note of the release alone, or, when several
  releases are newer, the lines "tag: body" of the first five of them.\<close>

theorem compose_note_five:
  "compose_note st =
     (if length (release_array st) > 1
      then join_str [CHR 0x0A] (map (\<lambda>(t, b). t @ '': '' @ b) (take 5 (release_array st)))
      else release_note st)"
proof (cases "release_array st")
  case (Cons ar rest)
  then show ?thesis
    by (cases rest)
      (auto simp: compose_note_def note_loop_join join_str_prefixed numeral_eq_Suc
        case_prod_unfold comp_def)
qed (simp add: compose_note_def)

text \<open>C1. The updater is started exactly when the chosen asset is newer and has a download
  address, the user chose "Update", the download (if there is one) reported no error, and the
  user confirmed the restart.\<close>

theorem decide_update_starts_iff:
  "out_is_newer (decide_update h env pf st) \<longleftrightarrow>
     js_truthy (is_newer st) \<and> release_download_url st \<noteq> '''' \<and> fst (ask_update h env st) = 2
     \<and> fst (fetch_update h pf st (''downloads/'' @ assets_name st)) = ''''
     \<and> fst (ask_restart h env) = 1"
  by (auto simp: decide_update_def install_update_def Let_def split: prod.splits)

text \<open>The script downloads only after the user chose "Update" for an asset that is newer,
  never for a package that the Windows package manager installs, and each download skips a file
  that is already there.\<close>

theorem download_needs_consent:
  assumes "HDownload u f b \<in> set (calls (check_new_release h env parse parse_dir pf ver beta))"
  shows "\<exists>rs. parse (http_text (http_fn h ''https://api.github.com/repos/fabbiodev/nekobox/releases'')) = Some rs
    \<and> js_truthy (is_newer (scan_releases (scan_config h parse_dir pf ver beta) rs init_scan))
    \<and> fst (ask_update h env (scan_releases (scan_config h parse_dir pf ver beta) rs init_scan)) = 2
    \<and> \<not> winget_package pf \<and> b"
proof -
  let ?resp = "http_fn h ''https://api.github.com/repos/fabbiodev/nekobox/releases''"
  obtain rs where rs: "parse (http_text ?resp) = Some rs"
    using assms by (auto simp: check_new_release_def Let_def log_def warning_def split: if_splits)
  let ?st = "scan_releases (scan_config h parse_dir pf ver beta) rs init_scan"
  have d: "HDownload u f b \<in> set (calls (decide_update h env pf ?st))"
    using assms rs by (auto simp: check_new_release_def Let_def log_def warning_def split: if_splits)
  have "js_truthy (is_newer ?st) \<and> fst (ask_update h env ?st) = 2
    \<and> HDownload u f b \<in> set (calls (install_update h env pf ?st (''downloads/'' @ assets_name ?st)))"
    using d by (auto simp: decide_update_def Let_def log_scan_def log_def warning_def open_url_def
        ask_update_def ask_def split: if_splits)
  moreover have "HDownload u f b \<in> set (calls (install_update h env pf ?st a)) \<Longrightarrow> b \<and> \<not> winget_package pf" for a
    using download_calls [of u f b h pf ?st a]
    by (auto simp: install_update_def Let_def ask_restart_def ask_def warning_def
        split: if_splits prod.splits)
  ultimately show ?thesis using rs by blast
qed

definition sample_platform :: platform where
  "sample_platform =
     \<lparr> search = ''linux-amd64'', archive_extension = ''.tar.gz'', chocolatey_package = False,
       winget_package = False, keep_running = False \<rparr>"

definition sample_env :: script_env where
  "sample_env = \<lparr> button_clicked = True, updater_exists = True, software_name = ''NekoBox'' \<rparr>"

definition sample_releases :: "release list" where
  "sample_releases =
     [\<lparr> prerelease = False, tag_name = ''5.12.0'', body = ''fixes'', html_url = ''h'',
        assets = [\<lparr> asset_name = ''nekobox-5.12.0-linux-amd64.tar.gz'', browser_download_url = ''u'' \<rparr>] \<rparr>]"

lemma sample_download:
  "HDownload ''u'' ''downloads/nekobox-5.12.0-linux-amd64.tar.gz'' True
     \<in> set (calls (check_new_release sample_host sample_env (\<lambda>_. Some sample_releases) (\<lambda>_. None)
            sample_platform ''5.11.28'' (JBool False)))"
  by code_simp

theorem download_needs_consent_witness:
  "fst (ask_update sample_host sample_env
      (scan_releases (scan_config sample_host (\<lambda>_. None) sample_platform ''5.11.28'' (JBool False))
         sample_releases init_scan)) = 2"
  using download_needs_consent [OF sample_download] by auto

end
