(* ===== verification/Route_Profiles.thy ===== *)
theory Route_Profiles
  imports Updater_Js
begin

text \<open>
  The scripts \<^verbatim>\<open>res/public/check_routeprofiles.js\<close> (the list of downloadable
  routing profiles, their display names and the download of one of them) and
  \<^verbatim>\<open>res/public/announcement_message.js\<close> (the greeting at the first start).
  \<open>route_profile_names\<close> is an object of the script, an association list without repeated
  keys; a value is \<open>undefined\<close> where a line of the translation file has no second field.
\<close>

section \<open>Listing\<close>

record rp_state =
  route_profiles :: "string list"
  route_profile_names :: "(string \<times> jsval) list"

definition wanted_asset :: "string \<Rightarrow> bool" where
  "wanted_asset profile \<longleftrightarrow>
     suffix ''.json'' profile \<and>
     (prefix ''bypass'' (js_toLowerCase profile) \<or> prefix ''proxy'' (js_toLowerCase profile))"

definition add_asset :: "rp_state \<Rightarrow> string \<Rightarrow> rp_state" where
  "add_asset st path =
     (if wanted_asset path then
        let profile = take (length path - 5) path
        in st\<lparr> route_profiles := route_profiles st @ [profile],
               route_profile_names :=
                 obj_set profile (JStr (map (\<lambda>c. if c = CHR ''_'' then CHR '' '' else c) profile))
                   (route_profile_names st) \<rparr>
      else st)"

definition add_line :: "(string \<times> jsval) list \<Rightarrow> string \<Rightarrow> (string \<times> jsval) list" where
  "add_line names line =
     (let ll = split_str '':'' line
      in obj_set (ll ! 0) (if length ll > 1 then JStr (ll ! 1) else Undefined) names)"

text \<open>The whole script: an answer that is not a tree of the API makes it throw.\<close>

definition load_route_profiles ::
  "host \<Rightarrow> (string \<Rightarrow> string list option) \<Rightarrow> js_error + rp_state" where
  "load_route_profiles h parse =
     (let resp = http_fn h ''https://api.github.com/repos/qr243vbi/ruleset/git/trees/routeprofiles''
      in case parse (http_text resp) of
           None \<Rightarrow> Inl (SyntaxError ''JSON.parse'')
         | Some tree \<Rightarrow>
             let st = foldl add_asset \<lparr> route_profiles = [], route_profile_names = [] \<rparr> tree;
                 resp2 = http_fn h (''https://raw.githubusercontent.com/qr243vbi/ruleset/refs/heads/main/''
                                    @ get_locale h @ ''.tx'')
             in Inr (if http_error resp2 = '''' then
                       st\<lparr>route_profile_names :=
                         foldl add_line (route_profile_names st) (split_str [CHR 0x0A] (http_text resp2))\<rparr>
                     else st))"

section \<open>Downloading one profile\<close>

definition obj_get :: "string \<Rightarrow> (string \<times> jsval) list \<Rightarrow> jsval" where
  "obj_get k kvs = (case map_of kvs k of None \<Rightarrow> Undefined | Some v \<Rightarrow> v)"

definition route_profile_get_json ::
  "host \<Rightarrow> rp_state \<Rightarrow> string \<Rightarrow> (string \<times> string \<times> bool) option \<times> host_call list" where
  "route_profile_get_json h st profile =
     (let url = ''https://raw.githubusercontent.com/qr243vbi/ruleset/routeprofiles/'' @ profile @ ''.json'';
          resp = http_fn h (get_jsdelivr_link h (JStr url));
          tx = http_text resp;
          title = JStr (translate h (JStr ''Download Profiles''))
      in if http_error resp \<noteq> '''' then
           (None, [warning (JStr (js_replace ''%1'' (http_error resp @ [CHR 0x0A] @ tx)
                              (translate h (JStr ''Requesting profile error: %1'')))) title])
         else
           (Some (tx, url, prefix ''bypas'' (js_toLowerCase profile)),
            [info (JStr (js_replace ''%1''
                     (let v = obj_get profile (route_profile_names st)
                      in if js_truthy v then js_String v else profile)
                     (translate h (JStr ''Requesting profile success: %1'')))) title]))"

section \<open>Announcement\<close>

definition announcement_text :: "nat \<Rightarrow> string" where
  "announcement_text n_languages =
     ''NekoBox is a cross-platform network client built for managing and utilizing modern proxy protocols. It provides a flexible interface for configuring routing, profiles, and connection settings. Available in ''
     @ show_nat n_languages @ '' languages, making NekoBox is accessible to users around the world.''"

definition announcement_message :: "host \<Rightarrow> bool \<Rightarrow> nat \<Rightarrow> string \<Rightarrow> host_call list" where
  "announcement_message h first_start n_languages software =
     (if first_start then
        let (index, c) = ask h (JStr (announcement_text n_languages)) (JStr software)
              (JArr (map JStr [translate h (JStr ''OK''), translate h (JStr ''Open homepage''),
                               translate h (JStr ''Open support channel'')]))
        in c @ (if index = 1 then [open_url ''https://github.com/fabbiodev/nekobox'']
                else if index = 2 then [open_url ''https://matrix.to/#/#NyameBox:matrix.org'']
                else [])
      else [])"

section \<open>Lemmas\<close>

lemma wanted_split:
  "wanted_asset path \<Longrightarrow> path = take (length path - 5) path @ ''.json''"
  by (auto simp: wanted_asset_def suffix_def)

lemma add_assets_profiles:
  "route_profiles (foldl add_asset st tree) =
     route_profiles st @ map (\<lambda>p. take (length p - 5) p) (filter wanted_asset tree)"
  by (induction tree arbitrary: st) (auto simp: add_asset_def Let_def)

lemma add_assets_names:
  "fst ` set (route_profile_names st) \<subseteq> fst ` set (route_profile_names (foldl add_asset st tree))
   \<and> (\<lambda>p. take (length p - 5) p) ` set (filter wanted_asset tree)
     \<subseteq> fst ` set (route_profile_names (foldl add_asset st tree))"
proof (induction tree arbitrary: st)
  case (Cons p tree)
  from Cons.IH [of "add_asset st p"] show ?case
    by (auto simp: add_asset_def keys_obj_set Let_def split: if_splits)
qed simp

lemma add_lines_keys:
  "fst ` set names \<subseteq> fst ` set (foldl add_line names ls)"
proof (induction ls arbitrary: names)
  case (Cons l ls)
  from Cons.IH [of "add_line names l"] show ?case
    by (auto simp: add_line_def keys_obj_set Let_def)
qed simp

lemma load_names_cover:
  "load_route_profiles h parse = Inr st \<Longrightarrow>
   set (route_profiles st) \<subseteq> fst ` set (route_profile_names st)"
  using add_assets_names [of "\<lparr> route_profiles = [], route_profile_names = [] \<rparr>"] add_lines_keys
  by (fastforce simp: load_route_profiles_def Let_def add_assets_profiles split: option.splits if_splits)

lemma listed_prefix:
  assumes "load_route_profiles h parse = Inr st" and "p \<in> set (route_profiles st)"
  shows "wanted_asset (p @ ''.json'')"
proof -
  from assms obtain path where "wanted_asset path" and "p = take (length path - 5) path"
    by (auto simp: load_route_profiles_def Let_def add_assets_profiles split: option.splits if_splits)
  with wanted_split [of path] show ?thesis by simp
qed

section \<open>Properties\<close>

text \<open>After a successful load every listed profile has a display name, the listed profiles
  are exactly the \<^verbatim>\<open>.json\<close> files of the tree whose names start with \<open>bypass\<close> or
  \<open>proxy\<close> (in any case), in the order of the tree, without the extension.\<close>

theorem load_route_profiles_listed:
  assumes "parse (http_text (http_fn h ''https://api.github.com/repos/qr243vbi/ruleset/git/trees/routeprofiles'')) = Some tree"
  shows "\<exists>st. load_route_profiles h parse = Inr st
    \<and> map (\<lambda>p. p @ ''.json'') (route_profiles st) = filter wanted_asset tree
    \<and> set (route_profiles st) \<subseteq> fst ` set (route_profile_names st)"
proof -
  obtain st where st: "load_route_profiles h parse = Inr st"
    and ps: "route_profiles st = map (\<lambda>p. take (length p - 5) p) (filter wanted_asset tree)"
    using assms by (auto simp: load_route_profiles_def Let_def add_assets_profiles)
  have "map (\<lambda>p. p @ ''.json'') (route_profiles st) = map id (filter wanted_asset tree)"
    unfolding ps map_map by (rule map_cong) (auto simp: wanted_split [symmetric])
  with st load_names_cover [OF st] show ?thesis by simp
qed

definition sample_tree_host :: host where
  "sample_tree_host =
     \<lparr> translate_fn = id, file_exists_fn = (\<lambda>_. False),
       http_fn = (\<lambda>_. \<lparr> http_error = '''', http_text = ''Bypass_LAN:Home'' \<rparr>),
       ask_fn = (\<lambda>_ _ _. 0), download_fn = (\<lambda>_ _ _. ''''), jsdelivr_fn = id,
       curdir_fn = ''/opt/nekobox'', locale_fn = ''en_US'' \<rparr>"

theorem load_route_profiles_listed_witness:
  "\<exists>st. load_route_profiles sample_tree_host (\<lambda>_. Some [''Bypass_LAN.json'', ''README.md'']) = Inr st
    \<and> map (\<lambda>p. p @ ''.json'') (route_profiles st) = [''Bypass_LAN.json'']"
proof -
  have f: "filter wanted_asset [''Bypass_LAN.json'', ''README.md''] = [''Bypass_LAN.json'']"
    by code_simp
  from load_route_profiles_listed [of "\<lambda>_. Some [''Bypass_LAN.json'', ''README.md'']" sample_tree_host
      "[''Bypass_LAN.json'', ''README.md'']"]
  show ?thesis unfolding f by auto
qed

text \<open>For a listed profile whose download succeeds, the third field of the answer says
  exactly whether the profile's name starts with \<open>bypass\<close> (the script tests the shorter
  \<open>bypas\<close>), and the second field is the address the profile came from.\<close>

theorem route_profile_bypass_flag:
  assumes "load_route_profiles h parse = Inr st" and "p \<in> set (route_profiles st)"
    and "fst (route_profile_get_json h st p) = Some (tx, url, flag)"
  shows "flag \<longleftrightarrow> prefix ''bypass'' (js_toLowerCase (p @ ''.json''))"
proof -
  have w: "wanted_asset (p @ ''.json'')" by (rule listed_prefix [OF assms(1,2)])
  have flag: "flag \<longleftrightarrow> prefix ''bypas'' (js_toLowerCase p)"
    using assms(3) by (auto simp: route_profile_get_json_def Let_def split: if_splits)
  show ?thesis
  proof
    assume "flag"
    then have "prefix ''bypas'' (js_toLowerCase (p @ ''.json''))"
      unfolding flag js_toLowerCase_def by (simp add: prefix_prefix)
    with w show "prefix ''bypass'' (js_toLowerCase (p @ ''.json''))"
      by (auto simp: wanted_asset_def prefix_def)
  next
    assume b: "prefix ''bypass'' (js_toLowerCase (p @ ''.json''))"
    then have b5: "prefix ''bypas'' (js_toLowerCase (p @ ''.json''))" by (auto simp: prefix_def)
    have "js_toLowerCase (p @ ''.json'') = js_toLowerCase p @ CHR ''.'' # ''json''"
      by (simp add: js_toLowerCase_def) code_simp
    with b5 have "prefix ''bypas'' (js_toLowerCase p)"
      using prefix_before_elem [of "''bypas''" "js_toLowerCase p" "CHR ''.''" "''json''"] by simp
    then show "flag" by (simp add: flag)
  qed
qed

theorem route_profile_bypass_flag_witness:
  "fst (route_profile_get_json sample_tree_host
      \<lparr> route_profiles = [''Bypass_LAN''], route_profile_names = [(''Bypass_LAN'', JStr ''Home'')] \<rparr> ''Bypass_LAN'')
     = Some (''Bypass_LAN:Home'',
             ''https://raw.githubusercontent.com/qr243vbi/ruleset/routeprofiles/Bypass_LAN.json'', True)"
proof -
  let ?st = "\<lparr> route_profiles = [''Bypass_LAN''], route_profile_names = [(''Bypass_LAN'', JStr ''Home'')] \<rparr>"
  have st: "load_route_profiles sample_tree_host (\<lambda>_. Some [''Bypass_LAN.json'']) = Inr ?st"
    by code_simp
  have p: "''Bypass_LAN'' \<in> set (route_profiles ?st)" by simp
  obtain tx url b where g: "fst (route_profile_get_json sample_tree_host ?st ''Bypass_LAN'') = Some (tx, url, b)"
    and t: "tx = ''Bypass_LAN:Home''"
      "url = ''https://raw.githubusercontent.com/qr243vbi/ruleset/routeprofiles/Bypass_LAN.json''"
    by (simp add: route_profile_get_json_def sample_tree_host_def Let_def)
  have "prefix ''bypass'' (js_toLowerCase (''Bypass_LAN'' @ ''.json''))" by code_simp
  then have "b" using route_profile_bypass_flag [OF st p g] by simp
  with g t show ?thesis by simp
qed

end
