(* ===== verification/Site_Search.thy ===== *)
theory Site_Search
  imports Js_Text
begin

text \<open>
  The search box of the documentation site (\<^verbatim>\<open>pages/static/goyo.js\<close>): the debounced
  key handler, the excerpt ("teaser") of a hit and the theme switch. The fuzzy matcher
  \<open>Fuse\<close> is a third-party library: its \<open>search\<close> is a parameter of the handler. A teaser is
  kept as the list of the pieces the source joins; the pieces \<open>BoldOpen\<close>, \<open>BoldClose\<close> and
  \<open>Ellipsis\<close> are the three literals it inserts.
\<close>

section \<open>Debouncing\<close>

text \<open>The timer of \<open>debounce\<close> and its two events: a call of the returned function, and the
  expiry of the pending timer, which runs \<open>func\<close> with the arguments of the last call.\<close>

datatype 'a db_event = DCall 'a | DFire

fun debounce_step :: "'a option \<Rightarrow> 'a db_event \<Rightarrow> 'a option \<times> 'a list" where
  "debounce_step timeout (DCall args) = (Some args, [])"
| "debounce_step timeout DFire = (None, (case timeout of None \<Rightarrow> [] | Some args \<Rightarrow> [args]))"

fun debounce_run :: "'a option \<Rightarrow> 'a db_event list \<Rightarrow> 'a option \<times> 'a list" where
  "debounce_run timeout [] = (timeout, [])"
| "debounce_run timeout (e # es) =
     (let (t1, out1) = debounce_step timeout e; (t2, out2) = debounce_run t1 es in (t2, out1 @ out2))"

section \<open>The teaser\<close>

definition TERM_WEIGHT :: nat where "TERM_WEIGHT = 40"
definition NORMAL_WORD_WEIGHT :: nat where "NORMAL_WORD_WEIGHT = 2"
definition FIRST_WORD_WEIGHT :: nat where "FIRST_WORD_WEIGHT = 8"
definition TEASER_MAX_WORDS :: nat where "TEASER_MAX_WORDS = 30"

type_synonym weighted = "string \<times> nat \<times> nat"

record scan =
  weighted_words :: "weighted list"
  scan_index :: nat
  term_found :: bool

fun scan_words :: "string list \<Rightarrow> string list \<Rightarrow> nat \<Rightarrow> scan \<Rightarrow> scan" where
  "scan_words stemmed [] v st = st"
| "scan_words stemmed (word # ws) v st =
     (if length word > 0 then
        let hit = (\<exists>t\<in>set stemmed. prefix t (js_toLowerCase word));
            v' = (if hit then TERM_WEIGHT else v)
        in scan_words stemmed ws NORMAL_WORD_WEIGHT
             (st\<lparr> weighted_words := weighted_words st @ [(word, v', scan_index st)],
                  term_found := term_found st \<or> hit,
                  scan_index := scan_index st + length word + 1 \<rparr>)
      else scan_words stemmed ws v (st\<lparr>scan_index := scan_index st + length word + 1\<rparr>))"

fun scan_sentences :: "string list \<Rightarrow> string list \<Rightarrow> scan \<Rightarrow> scan" where
  "scan_sentences stemmed [] st = st"
| "scan_sentences stemmed (s # ss) st =
     (let st' = scan_words stemmed (split_str '' '' s) FIRST_WORD_WEIGHT st
      in scan_sentences stemmed ss (st'\<lparr>scan_index := scan_index st' + 1\<rparr>))"

definition scan_body :: "string \<Rightarrow> string list \<Rightarrow> scan" where
  "scan_body page terms =
     scan_sentences (map js_toLowerCase terms) (split_str ''. '' (js_toLowerCase page))
       \<lparr> weighted_words = [], scan_index = 0, term_found = False \<rparr>"

text \<open>The sums of the weights of all windows of \<open>windowSize\<close> words, kept by sliding.\<close>

fun slide :: "nat list \<Rightarrow> nat list \<Rightarrow> nat \<Rightarrow> nat list" where
  "slide (w # ws) (v # vs) curSum = (let s = curSum - w + v in s # slide ws vs s)"
| "slide _ _ curSum = []"

definition window_weights :: "nat list \<Rightarrow> nat \<Rightarrow> nat list" where
  "window_weights ws k = (let s0 = sum_list (take k ws) in s0 # slide ws (drop k ws) s0)"

text \<open>The search for the heaviest window runs from the last window to the first.\<close>

fun best_window :: "nat \<Rightarrow> nat list \<Rightarrow> nat \<Rightarrow> nat \<Rightarrow> nat" where
  "best_window 0 weights maxFound best = best"
| "best_window (Suc i) weights maxFound best =
     (if weights ! i > maxFound then best_window i weights (weights ! i) i
      else best_window i weights maxFound best)"

datatype piece = Text string | BoldOpen | BoldClose | Ellipsis

definition substring :: "string \<Rightarrow> nat \<Rightarrow> nat \<Rightarrow> string" where
  "substring s a b = (let lo = min a b; hi = max a b in take (hi - lo) (drop lo s))"

fun teaser_pieces :: "string \<Rightarrow> weighted list \<Rightarrow> nat \<Rightarrow> piece list" where
  "teaser_pieces page [] startIndex = []"
| "teaser_pieces page ((word, v, i) # ws) startIndex =
     (if startIndex < i then [Text (substring page startIndex i)] else []) @
     (if v = TERM_WEIGHT then [BoldOpen] else []) @
     [Text (substring page i (i + length word))] @
     (if v = TERM_WEIGHT then [BoldClose] else []) @
     teaser_pieces page ws (i + length word)"

definition windowSize :: "scan \<Rightarrow> nat" where
  "windowSize st = min (length (weighted_words st)) TEASER_MAX_WORDS"

definition maxSumIndex :: "scan \<Rightarrow> nat" where
  "maxSumIndex st =
     (let weights = window_weights (map (fst \<circ> snd) (weighted_words st)) (windowSize st)
      in if term_found st then best_window (length weights) weights 0 0 else 0)"

definition makeTeaser :: "string \<Rightarrow> string list \<Rightarrow> piece list" where
  "makeTeaser page terms =
     (let st = scan_body page terms; ws = weighted_words st
      in if ws = [] then [Text page]
         else teaser_pieces page (take (windowSize st) (drop (maxSumIndex st) ws))
                (snd (snd (ws ! maxSumIndex st))) @ [Ellipsis])"

section \<open>The key handler\<close>

record hit =
  hit_title :: string
  hit_body :: string
  hit_id :: string

record result_item =
  item_title :: string
  item_teaser :: "piece list"
  item_href :: string

record search_ui =
  results_display :: string
  header_text :: string
  items :: "result_item list"
  currentTerm :: string

definition MAX_ITEMS :: nat where "MAX_ITEMS = 10"

definition formatSearchResultItem :: "hit \<Rightarrow> string list \<Rightarrow> result_item" where
  "formatSearchResultItem item terms =
     \<lparr> item_title = hit_title item, item_teaser = makeTeaser (hit_body item) terms, item_href = hit_id item \<rparr>"

definition search_keyup :: "(string \<Rightarrow> hit list) \<Rightarrow> string \<Rightarrow> search_ui \<Rightarrow> search_ui" where
  "search_keyup fuse_search input ui =
     (let term = js_trim input
      in if term = currentTerm ui then ui
         else let ui1 = ui\<lparr>results_display := (if term = '''' then ''none'' else ''block''), items := []\<rparr>
         in if term = '''' then ui1
            else let results = filter (\<lambda>r. hit_body r \<noteq> '''') (fuse_search term)
            in if results = [] then ui1\<lparr>header_text := ''No results for '' @ [CHR 0x27] @ term @ [CHR 0x27]\<rparr>
               else ui1\<lparr> currentTerm := term,
                         header_text := show_nat (length results) @ '' results for '' @ [CHR 0x27] @ term
                                        @ [CHR 0x27] @ '':'',
                         items := map (\<lambda>r. formatSearchResultItem r (split_str '' '' term))
                                    (take (min (length results) MAX_ITEMS) results) \<rparr>)"

section \<open>The theme switch\<close>

record theme_ui =
  data_theme :: string
  checked :: bool
  stored_theme :: "string option"

definition initTheme :: "string option \<Rightarrow> string option \<Rightarrow> theme_ui" where
  "initTheme fallback stored =
     (let fallbackTheme = (case fallback of None \<Rightarrow> ''night'' | Some f \<Rightarrow> if f = '''' then ''night'' else f);
          currentTheme = (case stored of None \<Rightarrow> fallbackTheme | Some t \<Rightarrow> if t = '''' then fallbackTheme else t)
      in \<lparr> data_theme = currentTheme, checked = (currentTheme = ''night''), stored_theme = stored \<rparr>)"

definition changeTheme :: "bool \<Rightarrow> theme_ui \<Rightarrow> theme_ui" where
  "changeTheme now_checked ui =
     (let t = (if now_checked then ''night'' else ''lofi'')
      in ui\<lparr> data_theme := t, checked := now_checked, stored_theme := Some t \<rparr>)"

section \<open>Correctness of the teaser\<close>

text \<open>A scan is sound for a text when every recorded word stands in it at its offset, and the
  words follow each other without overlap, up to the current offset.\<close>

fun ordered_words :: "nat \<Rightarrow> weighted list \<Rightarrow> nat \<Rightarrow> bool" where
  "ordered_words lo [] hi = (lo \<le> hi)"
| "ordered_words lo ((w, v, i) # ws) hi = (lo \<le> i \<and> w \<noteq> [] \<and> ordered_words (i + length w) ws hi)"

definition words_at :: "string \<Rightarrow> weighted list \<Rightarrow> bool" where
  "words_at s ws = (\<forall>(w, v, i)\<in>set ws. i + length w \<le> length s \<and> take (length w) (drop i s) = w)"

lemma ordered_words_append:
  "ordered_words lo (ws @ [(w, v, i)]) hi \<longleftrightarrow>
   (\<exists>m. ordered_words lo ws m \<and> m \<le> i \<and> w \<noteq> [] \<and> i + length w \<le> hi)"
  by (induction lo ws hi rule: ordered_words.induct) auto

lemma ordered_words_mono: "ordered_words lo ws m \<Longrightarrow> m \<le> hi \<Longrightarrow> ordered_words lo ws hi"
  by (induction lo ws m rule: ordered_words.induct) auto

lemma scan_words_sound:
  assumes "words_at s (weighted_words st)" and "ordered_words 0 (weighted_words st) (scan_index st)"
    and "ws \<noteq> []" and "s = take (scan_index st) s @ join_str '' '' ws @ rest"
    and "scan_index st \<le> length s"
    and "st' = scan_words stemmed ws v st"
  shows "words_at s (weighted_words st') \<and> ordered_words 0 (weighted_words st') (scan_index st')
    \<and> scan_index st' = scan_index st + length (join_str '' '' ws) + 1"
  using assms
proof (induction ws arbitrary: v st)
  case (Cons w ws)
  let ?k = "scan_index st"
  define st1 where "st1 = (if length w > 0 then
      st\<lparr> weighted_words := weighted_words st @ [(w, if \<exists>t\<in>set stemmed. prefix t (js_toLowerCase w) then TERM_WEIGHT else v, ?k)],
          term_found := term_found st \<or> (\<exists>t\<in>set stemmed. prefix t (js_toLowerCase w)),
          scan_index := ?k + length w + 1 \<rparr>
      else st\<lparr>scan_index := ?k + length w + 1\<rparr>)"
  have run: "st' = scan_words stemmed ws (if length w > 0 then NORMAL_WORD_WEIGHT else v) st1"
    using Cons.prems(6) by (simp add: st1_def Let_def)
  have w_at: "take (length w) (drop ?k s) = w" and w_in: "?k + length w \<le> length s"
  proof -
    have "prefix w (join_str '' '' (w # ws) @ rest)" by (cases ws) auto
    moreover have "drop ?k s = join_str '' '' (w # ws) @ rest"
      using Cons.prems(4,5) by (metis append_eq_conv_conj length_take min.absorb2)
    ultimately have "prefix w (drop ?k s)" by simp
    then show "take (length w) (drop ?k s) = w" by (auto simp: prefix_def)
    from \<open>prefix w (drop ?k s)\<close> have "length w \<le> length (drop ?k s)" by (rule prefix_length_le)
    with Cons.prems(5) show "?k + length w \<le> length s" by simp
  qed
  have st1: "words_at s (weighted_words st1)" "ordered_words 0 (weighted_words st1) (scan_index st1)"
    "scan_index st1 = ?k + length w + 1"
    using Cons.prems(1,2) w_at w_in
    by (auto simp: st1_def words_at_def ordered_words_append intro: ordered_words_mono)
  show ?case
  proof (cases "ws = []")
    case True
    with run st1 show ?thesis by simp
  next
    case False
    then have j: "join_str '' '' (w # ws) = w @ '' '' @ join_str '' '' ws" by (cases ws) auto
    have s: "s = take ?k s @ w @ '' '' @ join_str '' '' ws @ rest"
      using Cons.prems(4) j by simp
    have l: "?k + length w + 1 \<le> length s"
      using arg_cong [OF s, of length] Cons.prems(5) by simp
    have "take (?k + length w + 1) s = take ?k s @ w @ '' ''"
      using arg_cong [OF s, of "take (?k + length w + 1)"] Cons.prems(5) by simp
    then have "s = take (scan_index st1) s @ join_str '' '' ws @ rest"
      using s st1(3) by simp
    moreover have "scan_index st1 \<le> length s" using l st1(3) by simp
    ultimately have IH: "words_at s (weighted_words st') \<and>
      ordered_words 0 (weighted_words st') (scan_index st') \<and>
      scan_index st' = scan_index st1 + length (join_str '' '' ws) + 1"
      by (intro Cons.IH [OF st1(1,2) False _ _ run])
    then have "scan_index st' = ?k + length (join_str '' '' (w # ws)) + 1"
      using st1(3) j by simp
    with IH show ?thesis by blast
  qed
qed simp

lemma scan_sentences_sound:
  assumes "words_at s (weighted_words st)" and "ordered_words 0 (weighted_words st) (scan_index st)"
    and "ss \<noteq> []" and "s = take (scan_index st) s @ join_str ''. '' ss" and "scan_index st \<le> length s"
    and "st' = scan_sentences stemmed ss st"
  shows "words_at s (weighted_words st') \<and> ordered_words 0 (weighted_words st') (scan_index st')"
  using assms
proof (induction ss arbitrary: st)
  case (Cons x ss)
  let ?k = "scan_index st"
  define rest where "rest = (if ss = [] then '''' else ''. '' @ join_str ''. '' ss)"
  have "join_str ''. '' (x # ss) = x @ rest" by (cases ss) (auto simp: rest_def)
  with Cons.prems(4) have s: "s = take ?k s @ x @ rest" by simp
  define st1 where "st1 = scan_words stemmed (split_str '' '' x) FIRST_WORD_WEIGHT st"
  have w: "words_at s (weighted_words st1) \<and> ordered_words 0 (weighted_words st1) (scan_index st1)
      \<and> scan_index st1 = ?k + length (join_str '' '' (split_str '' '' x)) + 1"
    using Cons.prems(1,2,5) s
    by (intro scan_words_sound [of s st _ rest st1 stemmed FIRST_WORD_WEIGHT])
      (simp_all add: join_split_str st1_def)
  define st2 where "st2 = st1\<lparr>scan_index := scan_index st1 + 1\<rparr>"
  have run: "st' = scan_sentences stemmed ss st2"
    using Cons.prems(6) by (simp add: st1_def st2_def Let_def)
  have w2: "words_at s (weighted_words st2)" "ordered_words 0 (weighted_words st2) (scan_index st2)"
    "scan_index st2 = ?k + length x + 2"
    using w by (auto simp: st2_def join_split_str intro: ordered_words_mono)
  show ?case
  proof (cases "ss = []")
    case True
    with run w2 show ?thesis by simp
  next
    case False
    then have s2: "s = take ?k s @ x @ ''. '' @ join_str ''. '' ss" using s by (simp add: rest_def)
    have "take (?k + length x + 2) s = take ?k s @ x @ ''. ''"
      using arg_cong [OF s2, of "take (?k + length x + 2)"] Cons.prems(5) by simp
    then have "s = take (scan_index st2) s @ join_str ''. '' ss" using s2 w2(3) by simp
    moreover have "scan_index st2 \<le> length s"
      using arg_cong [OF s2, of length] w2(3) Cons.prems(5) by simp
    ultimately show ?thesis by (intro Cons.IH [OF w2(1,2) False _ _ run])
  qed
qed simp

lemma scan_body_sound:
  "words_at (js_toLowerCase page) (weighted_words (scan_body page terms))
   \<and> (\<exists>hi. ordered_words 0 (weighted_words (scan_body page terms)) hi)"
  using scan_sentences_sound [of "js_toLowerCase page" "\<lparr> weighted_words = [], scan_index = 0, term_found = False \<rparr>"
      "split_str ''. '' (js_toLowerCase page)" "scan_body page terms" "map js_toLowerCase terms"]
  by (auto simp: scan_body_def join_split_str words_at_def)

text \<open>The text of a teaser without its marks.\<close>

fun plain :: "piece list \<Rightarrow> string" where
  "plain [] = []"
| "plain (Text s # ps) = s @ plain ps"
| "plain (_ # ps) = plain ps"

lemma plain_append [simp]: "plain (ps @ qs) = plain ps @ plain qs"
  by (induction ps rule: plain.induct) auto

lemma substring_append:
  assumes "a \<le> b" and "b \<le> c"
  shows "substring s a b @ substring s b c = substring s a c"
proof -
  from assms have "c - a = (b - a) + (c - b)" and "b = (b - a) + a" by simp_all
  then have "take (c - a) (drop a s) = take (b - a) (drop a s) @ take (c - b) (drop b s)"
    by (metis drop_drop take_add)
  with assms show ?thesis by (simp add: substring_def Let_def min_def max_def)
qed

lemma plain_teaser_pieces:
  assumes "ordered_words start ws hi"
  shows "\<exists>e\<ge>start. plain (teaser_pieces page ws start) = substring page start e"
  using assms
proof (induction page ws start rule: teaser_pieces.induct)
  case (1 page start)
  show ?case by (auto simp: substring_def intro: exI [of _ start])
next
  case (2 page w v i ws start)
  then obtain e where e: "e \<ge> i + length w"
    "plain (teaser_pieces page ws (i + length w)) = substring page (i + length w) e" by auto
  have "start \<le> i" using 2(2) by simp
  moreover from this have "plain (if start < i then [Text (substring page start i)] else []) = substring page start i"
    by (simp add: substring_def)
  ultimately have "plain (teaser_pieces page ((w, v, i) # ws) start) = substring page start e"
    using e substring_append [of i "i + length w" e page] substring_append [of start i e page] by auto
  with e \<open>start \<le> i\<close> show ?case by (intro exI [of _ e]) simp
qed

lemma ordered_words_le: "ordered_words lo ws hi \<Longrightarrow> lo \<le> hi"
  by (induction lo ws hi rule: ordered_words.induct) auto

lemma ordered_words_take: "ordered_words lo ws hi \<Longrightarrow> ordered_words lo (take m ws) hi"
proof (induction lo ws hi arbitrary: m rule: ordered_words.induct)
  case (2 lo w v i ws hi)
  then show ?case using ordered_words_le [of "i + length w" ws hi] by (cases m) auto
qed simp

lemma ordered_words_drop:
  "ordered_words lo ws hi \<Longrightarrow> j < length ws \<Longrightarrow> ordered_words (snd (snd (ws ! j))) (drop j ws) hi"
proof (induction lo ws hi arbitrary: j rule: ordered_words.induct)
  case (2 lo w v i ws hi)
  then show ?case by (cases j) auto
qed simp

section \<open>The heaviest window\<close>

lemma best_window_max:
  "(best_window n weights m b = b \<and> (\<forall>i<n. weights ! i \<le> m))
   \<or> (best_window n weights m b < n \<and> m < weights ! best_window n weights m b
       \<and> (\<forall>i<n. weights ! i \<le> weights ! best_window n weights m b))"
proof (induction n arbitrary: m b)
  case (Suc n)
  show ?case
  proof (cases "weights ! n > m")
    case True
    with Suc.IH [of "weights ! n" n] show ?thesis by (auto simp: less_Suc_eq)
  next
    case False
    with Suc.IH [of m b] show ?thesis by (auto simp: less_Suc_eq)
  qed
qed simp

lemma window_sum_step:
  assumes "j + k < length ws" and "0 < k"
  shows "sum_list (take k (drop (Suc j) ws)) = sum_list (take k (drop j ws)) - ws ! j + (ws ! (j + k) :: nat)"
proof -
  obtain k' where k: "k = Suc k'" using assms(2) by (cases k) auto
  have "take k (drop (Suc j) ws) = take k' (drop (Suc j) ws) @ [ws ! (j + k)]"
    unfolding k using assms k by (subst take_Suc_conv_app_nth) auto
  moreover have "drop j ws = ws ! j # drop (Suc j) ws"
    using assms by (simp add: Cons_nth_drop_Suc)
  then have "take k (drop j ws) = ws ! j # take k' (drop (Suc j) ws)" by (simp add: k)
  ultimately show ?thesis by simp
qed

lemma slide_sums:
  assumes "j + k \<le> length ws" and "0 < k"
  shows "slide (drop j ws) (drop (j + k) ws) (sum_list (take k (drop j ws)))
    = map (\<lambda>i. sum_list (take k (drop i ws))) [Suc j..<Suc (length ws - k)]"
  using assms
proof (induction "length ws - (j + k)" arbitrary: j)
  case 0
  then have "drop (j + k) ws = []" and "length ws - k = j" by auto
  then show ?case by (cases "drop j ws") auto
next
  case (Suc n)
  then have lt: "j + k < length ws" by simp
  then have d: "drop j ws = ws ! j # drop (Suc j) ws" "drop (j + k) ws = ws ! (j + k) # drop (Suc j + k) ws"
    by (simp_all add: Cons_nth_drop_Suc)
  have "[Suc j..<Suc (length ws - k)] = Suc j # [Suc (Suc j)..<Suc (length ws - k)]"
    using lt by (intro upt_conv_Cons) simp
  moreover have "slide (drop (Suc j) ws) (drop (Suc j + k) ws) (sum_list (take k (drop (Suc j) ws)))
      = map (\<lambda>i. sum_list (take k (drop i ws))) [Suc (Suc j)..<Suc (length ws - k)]"
    using Suc lt by (intro Suc.hyps(1)) auto
  ultimately show ?case
    unfolding d using window_sum_step [OF lt Suc.prems(2)] d(1) by (simp add: Let_def)
qed

lemma window_weights_sums:
  assumes "k \<le> length ws" and "0 < k"
  shows "window_weights ws k = map (\<lambda>i. sum_list (take k (drop i ws))) [0..<Suc (length ws - k)]"
proof -
  have "[0..<Suc (length ws - k)] = 0 # [Suc 0..<Suc (length ws - k)]" by (rule upt_conv_Cons) simp
  with slide_sums [of 0 k ws] assms show ?thesis by (simp add: window_weights_def Let_def)
qed

lemma maxSumIndex_bound:
  assumes "weighted_words st \<noteq> []"
  shows "maxSumIndex st + windowSize st \<le> length (weighted_words st)"
    and "maxSumIndex st < length (weighted_words st)"
proof -
  let ?ws = "map (fst \<circ> snd) (weighted_words st)"
  let ?W = "window_weights ?ws (windowSize st)"
  have k: "windowSize st \<le> length ?ws" "0 < windowSize st"
    using assms by (auto simp: windowSize_def TEASER_MAX_WORDS_def)
  have "maxSumIndex st < length ?W"
    using best_window_max [of "length ?W" ?W 0 0] window_weights_sums [OF k]
    by (auto simp: maxSumIndex_def Let_def)
  then have "maxSumIndex st \<le> length (weighted_words st) - windowSize st"
    using window_weights_sums [OF k] by simp
  with k show "maxSumIndex st + windowSize st \<le> length (weighted_words st)" by simp
  with k show "maxSumIndex st < length (weighted_words st)" by simp
qed

section \<open>Properties\<close>

text \<open>A teaser, its marks and its ellipsis aside, is a contiguous excerpt of the page: the offsets that the
  scan of the lower-cased page records are the offsets of the words in the page itself.\<close>

theorem makeTeaser_excerpt: "sublist (plain (makeTeaser page terms)) page"
proof (cases "weighted_words (scan_body page terms) = []")
  case True
  then show ?thesis by (simp add: makeTeaser_def)
next
  case False
  let ?st = "scan_body page terms" let ?ws = "weighted_words (scan_body page terms)"
  obtain hi where "ordered_words 0 ?ws hi" using scan_body_sound [of page terms] by blast
  then have "ordered_words (snd (snd (?ws ! maxSumIndex ?st)))
      (take (windowSize ?st) (drop (maxSumIndex ?st) ?ws)) hi"
    using maxSumIndex_bound(2) [OF False] by (intro ordered_words_take ordered_words_drop)
  from plain_teaser_pieces [OF this, of page] obtain a b
    where ab: "plain (makeTeaser page terms) = substring page a b"
    using False by (auto simp: makeTeaser_def Let_def)
  have "sublist (substring page a b) page"
    by (metis substring_def append_take_drop_id sublist_append_leftI sublist_append_rightI sublist_order.order.trans)
  then show ?thesis by (simp add: ab)
qed

text \<open>When a search term occurs, the excerpt shows the window of words with the greatest
  total weight: no other window of the same number of words weighs more.\<close>

theorem maxSumIndex_heaviest:
  assumes "term_found st" and "weighted_words st \<noteq> []"
    and "j + windowSize st \<le> length (weighted_words st)"
  shows "sum_list (map (fst \<circ> snd) (take (windowSize st) (drop j (weighted_words st))))
    \<le> sum_list (map (fst \<circ> snd) (take (windowSize st) (drop (maxSumIndex st) (weighted_words st))))"
proof -
  let ?ws = "map (fst \<circ> snd) (weighted_words st)" and ?k = "windowSize st"
  let ?W = "window_weights ?ws ?k"
  have k: "?k \<le> length ?ws" "0 < ?k"
    using assms(2) by (auto simp: windowSize_def TEASER_MAX_WORDS_def)
  have m: "maxSumIndex st = best_window (length ?W) ?W 0 0"
    using assms(1) by (simp add: maxSumIndex_def Let_def)
  have nth: "?W ! i = sum_list (take ?k (drop i ?ws))" if "i + ?k \<le> length ?ws" for i
  proof -
    from that have "0 + i < Suc (length ?ws - ?k)" by simp
    then have "[0..<Suc (length ?ws - ?k)] ! i = i" by (metis add_0 nth_upt)
    with that show ?thesis
      unfolding window_weights_sums [OF k] by (simp del: upt_Suc)
  qed
  have "j < length ?W" using assms(3) window_weights_sums [OF k] by (simp del: upt_Suc)
  then have "?W ! j \<le> ?W ! maxSumIndex st"
    using best_window_max [of "length ?W" ?W 0 0] unfolding m by auto
  then show ?thesis
    using nth [of j] nth [of "maxSumIndex st"] assms(3) maxSumIndex_bound(1) [OF assms(2)]
    by (simp add: take_map drop_map)
qed

theorem maxSumIndex_heaviest_witness:
  "sum_list (map (fst \<circ> snd) (take 3 (drop 0 (weighted_words (scan_body ''one two proxy'' [''pro''])))))
    \<le> sum_list (map (fst \<circ> snd) (take 3 (drop (maxSumIndex (scan_body ''one two proxy'' [''pro'']))
        (weighted_words (scan_body ''one two proxy'' [''pro''])))))"
proof -
  let ?st = "scan_body ''one two proxy'' [''pro'']"
  have f: "term_found ?st" by code_simp
  have n: "weighted_words ?st \<noteq> []" by code_simp
  have l: "length (weighted_words ?st) = 3" by code_simp
  then have w: "windowSize ?st = 3" by (simp add: windowSize_def TEASER_MAX_WORDS_def)
  show ?thesis using maxSumIndex_heaviest [OF f n, of 0] l w by simp
qed

text \<open>A burst of calls of a debounced function runs it once, with the arguments of the last
  call, when the timer expires; a timer that expires with nothing pending runs nothing.\<close>

theorem debounce_last_call:
  "debounce_run timeout (map DCall as @ [DCall a, DFire]) = (None, [a])
   \<and> debounce_run None [DFire] = (None, [])"
proof -
  have "debounce_run timeout (map DCall as @ es)
      = debounce_run (if as = [] then timeout else Some (last as)) es" for es
    by (induction as arbitrary: timeout) auto
  then show ?thesis by simp
qed

text \<open>Clearing the search box and typing the previous term again leaves the result list
  hidden and empty: the handler does not reset \<open>currentTerm\<close> when the box is cleared, so the
  repeated term counts as unchanged.\<close>

theorem search_repeat_hidden:
  assumes "term \<noteq> ''''" and "js_trim term = term" and "currentTerm ui = term"
  shows "let ui1 = search_keyup fuse '''' ui; ui2 = search_keyup fuse term ui1
    in results_display ui2 = ''none'' \<and> items ui2 = []"
  using assms by (simp add: search_keyup_def Let_def js_trim_def trim_with_def)

theorem search_repeat_hidden_witness:
  "let ui = search_keyup (\<lambda>_. [\<lparr> hit_title = ''T'', hit_body = ''b'', hit_id = ''/x'' \<rparr>]) ''tun''
        \<lparr> results_display = '''', header_text = '''', items = [], currentTerm = '''' \<rparr>;
      ui1 = search_keyup (\<lambda>_. [\<lparr> hit_title = ''T'', hit_body = ''b'', hit_id = ''/x'' \<rparr>]) '''' ui;
      ui2 = search_keyup (\<lambda>_. [\<lparr> hit_title = ''T'', hit_body = ''b'', hit_id = ''/x'' \<rparr>]) ''tun'' ui1
   in length (items ui) = 1 \<and> results_display ui2 = ''none'' \<and> items ui2 = []"
proof -
  let ?f = "\<lambda>_. [\<lparr> hit_title = ''T'', hit_body = ''b'', hit_id = ''/x'' \<rparr>]"
  let ?ui = "search_keyup ?f ''tun'' \<lparr> results_display = '''', header_text = '''', items = [], currentTerm = '''' \<rparr>"
  have t: "js_trim ''tun'' = ''tun''" by code_simp
  then have c: "currentTerm ?ui = ''tun''" and l: "length (items ?ui) = 1"
    by (simp_all add: search_keyup_def Let_def MAX_ITEMS_def)
  show ?thesis
    using search_repeat_hidden [of "''tun''" ?ui ?f, OF _ t c] l by (simp add: Let_def)
qed

end
