(* ===== verification/Docs_Page.thy ===== *)
theory Docs_Page
  imports Nb_Prelude
begin

text \<open>
  The page scripts of the documentation site: the table of contents of
  \<^verbatim>\<open>src/pages/static/goyo.js\<close> (which link is active and which of its sections are open),
  its keyboard shortcut, and the copy buttons of \<^verbatim>\<open>src/pages/static/js/copy_code.js\<close> and
  \<^verbatim>\<open>src/pages/static/js/copy_heading_link.js\<close>. An element is known by a number; a link of the
  table carries its ancestors, nearest first, each with whether it is a \<open>details\<close> element.
  What the browser decides (which heading is in view, whether the clipboard accepted the text, when
  a timer fires) arrives as an event.
\<close>

section \<open>The table of contents\<close>

type_synonym elem = nat

record toc_link =
  l_elem :: elem
  l_href :: string
  l_ancestors :: "(elem \<times> bool) list"

record toc_state =
  t_active :: "elem set"
  t_open :: "elem set"

text \<open>\<open>closest("details")\<close> along a list of elements, nearest first, with what lies above the
  element found.\<close>

fun closest :: "(elem \<times> bool) list \<Rightarrow> (elem \<times> (elem \<times> bool) list) option" where
  "closest [] = None"
| "closest ((e, is_details) # up) = (if is_details then Some (e, up) else closest up)"

text \<open>The loop that opens the sections around a link. \<open>None\<close> is the error of reading
  \<open>closest\<close> of the missing parent of an outermost element.\<close>

lemma closest_shorter: "closest up = Some (e, up') \<Longrightarrow> length up' < length up"
  by (induction up) (auto split: if_splits)

function open_parents :: "(elem \<times> bool) list \<Rightarrow> elem set \<Rightarrow> elem set option" where
  "open_parents up opened =
     (case closest up of
        None \<Rightarrow> Some opened
      | Some (e, up') \<Rightarrow> if up' = [] then None else open_parents up' (insert e opened))"
  by pat_completeness auto
termination
  by (relation "measure (\<lambda>(up, _). length up)") (auto dest: closest_shorter)

declare open_parents.simps [simp del]

definition link_for :: "toc_link list \<Rightarrow> string \<Rightarrow> toc_link option" where
  "link_for links i = find (\<lambda>l. l_href l = CHR ''#'' # i) links"

definition activate :: "toc_link list \<Rightarrow> string \<Rightarrow> toc_state \<Rightarrow> toc_state option" where
  "activate links i s =
     (case link_for links i of
        None \<Rightarrow> Some s
      | Some l \<Rightarrow>
          (case open_parents (l_ancestors l) (t_open s) of
             None \<Rightarrow> None
           | Some opened \<Rightarrow> Some (s\<lparr>t_active := insert (l_elem l) (t_active s), t_open := opened\<rparr>)))"

text \<open>One entry that the observer reports: the heading's identifier and whether it is in view.\<close>

definition observe_entry :: "toc_link list \<Rightarrow> elem set \<Rightarrow> string \<times> bool \<Rightarrow> toc_state \<Rightarrow> toc_state option" where
  "observe_entry links tocDetails = (\<lambda>(i, isIntersecting) s.
     if isIntersecting
     then activate links i
            (s\<lparr>t_active := t_active s - l_elem ` set links, t_open := t_open s - tocDetails\<rparr>)
     else Some s)"

fun observe :: "toc_link list \<Rightarrow> elem set \<Rightarrow> (string \<times> bool) list \<Rightarrow> toc_state \<Rightarrow> toc_state option" where
  "observe links tocDetails [] s = Some s"
| "observe links tocDetails (entry # entries) s =
     (case observe_entry links tocDetails entry s of
        None \<Rightarrow> None | Some s' \<Rightarrow> observe links tocDetails entries s')"

text \<open>The initial state: the first heading whose top is inside the window.\<close>

definition initToc :: "toc_link list \<Rightarrow> int \<Rightarrow> (string \<times> int) list \<Rightarrow> toc_state \<Rightarrow> toc_state option" where
  "initToc links innerHeight headings s =
     (case find (\<lambda>(_, top). 0 \<le> top \<and> top \<le> innerHeight) headings of
        None \<Rightarrow> Some s | Some (i, _) \<Rightarrow> activate links i s)"

section \<open>The search shortcut\<close>

record search_modal =
  m_checked :: bool
  m_focus_timers :: nat

text \<open>The result says whether the browser's own action is prevented.\<close>

definition modal_change :: "bool \<Rightarrow> search_modal \<Rightarrow> search_modal" where
  "modal_change has_input m =
     (if has_input \<and> m_checked m then m\<lparr>m_focus_timers := m_focus_timers m + 1\<rparr> else m)"

definition keydown ::
  "bool \<Rightarrow> bool \<Rightarrow> bool \<Rightarrow> string \<Rightarrow> search_modal option \<Rightarrow> bool \<times> search_modal option" where
  "keydown has_input metaKey ctrlKey key modal =
     (if (metaKey \<or> ctrlKey) \<and> key = ''k''
      then (True, map_option (\<lambda>m. modal_change has_input (m\<lparr>m_checked := \<not> m_checked m\<rparr>)) modal)
      else (False, modal))"

section \<open>Copy buttons\<close>

text \<open>A button with its label and the timers it has started, each with the time it fires.\<close>

record copy_button =
  b_label :: string
  b_timers :: "nat list"

datatype copy_event =
    Written nat
  | Write_failed nat
  | Timer

definition new_code_button :: copy_button where
  "new_code_button = \<lparr> b_label = ''Copy'', b_timers = [] \<rparr>"

definition new_heading_link :: copy_button where
  "new_heading_link = \<lparr> b_label = ''Copy link'', b_timers = [] \<rparr>"

text \<open>The steps of the two scripts; \<open>Timer\<close> is the oldest timer firing.\<close>

fun copy_code_step :: "copy_event \<Rightarrow> copy_button \<Rightarrow> copy_button" where
  "copy_code_step (Written now) b = b\<lparr>b_label := ''Copied!'', b_timers := b_timers b @ [now + 2000]\<rparr>"
| "copy_code_step (Write_failed now) b = b"
| "copy_code_step Timer b =
     (if b_timers b = [] then b else b\<lparr>b_label := ''Copy'', b_timers := tl (b_timers b)\<rparr>)"

fun copy_heading_step :: "copy_event \<Rightarrow> copy_button \<Rightarrow> copy_button" where
  "copy_heading_step (Written now) b = b\<lparr>b_label := ''Copied!'', b_timers := b_timers b @ [now + 2000]\<rparr>"
| "copy_heading_step (Write_failed now) b = b\<lparr>b_label := ''Failed to copy'', b_timers := b_timers b @ [now + 2000]\<rparr>"
| "copy_heading_step Timer b =
     (if b_timers b = [] then b else b\<lparr>b_label := ''Copy link'', b_timers := tl (b_timers b)\<rparr>)"

text \<open>The link that a heading gets, and the address its button copies; resolving an address
  against the page's is an argument.\<close>

definition heading_href :: "string \<Rightarrow> string" where
  "heading_href i = CHR ''#'' # i"

definition copied_url :: "(string \<Rightarrow> string \<Rightarrow> string) \<Rightarrow> string \<Rightarrow> string \<Rightarrow> string" where
  "copied_url resolve location i = resolve (heading_href i) location"

section \<open>Lemmas\<close>

definition sections :: "(elem \<times> bool) list \<Rightarrow> elem set" where
  "sections up = {e. (e, True) \<in> set up}"

lemma closest_sections:
  "closest up = Some (e, up') \<Longrightarrow> sections up = insert e (sections up') \<and> (up' \<noteq> [] \<longrightarrow> last up' = last up)"
  by (induction up) (auto simp: sections_def split: if_splits)

lemma closest_None: "closest up = None \<Longrightarrow> sections up = {}"
  by (induction up) (auto simp: sections_def split: if_splits)

lemma closest_last: "closest up = Some (e, []) \<Longrightarrow> snd (last up)"
  by (induction up) (auto split: if_splits)

lemma open_parents_sections:
  assumes "up = [] \<or> \<not> snd (last up)"
  shows "open_parents up opened = Some (opened \<union> sections up)"
  using assms
proof (induction up opened rule: open_parents.induct)
  case (1 up opened)
  show ?case
  proof (cases "closest up")
    case None
    with closest_None [OF this] show ?thesis by (subst open_parents.simps) simp
  next
    case (Some r)
    obtain e up' where r: "closest up = Some (e, up')" using Some by (cases r) auto
    have ne: "up' \<noteq> []" using r 1(2) closest_last [of up e] by (cases up) auto
    have "up' = [] \<or> \<not> snd (last up')" using closest_sections [OF r] ne 1(2) r by (cases up) auto
    from 1(1) [OF r refl ne this] have "open_parents up' (insert e opened) = Some (insert e opened \<union> sections up')" .
    with r ne closest_sections [OF r] show ?thesis by (subst open_parents.simps) auto
  qed
qed

definition well_placed :: "toc_link list \<Rightarrow> bool" where
  "well_placed links \<longleftrightarrow> list_all (\<lambda>l. l_ancestors l = [] \<or> \<not> snd (last (l_ancestors l))) links"

lemma link_for_SomeD: "link_for links i = Some l \<Longrightarrow> l \<in> set links \<and> l_href l = CHR ''#'' # i"
  by (auto simp: link_for_def find_Some_iff)

lemma activate_result:
  assumes "well_placed links"
  shows "activate links i s = Some (case link_for links i of None \<Rightarrow> s
    | Some l \<Rightarrow> s\<lparr>t_active := insert (l_elem l) (t_active s), t_open := t_open s \<union> sections (l_ancestors l)\<rparr>)"
  using assms open_parents_sections
  by (auto simp: activate_def well_placed_def list_all_iff dest: link_for_SomeD split: option.split)

text \<open>What the table shows after the heading \<open>i\<close> came into view.\<close>

definition toc_shows :: "toc_link list \<Rightarrow> elem set \<Rightarrow> string \<Rightarrow> toc_state \<Rightarrow> bool" where
  "toc_shows links tocDetails i s \<longleftrightarrow>
     (case link_for links i of
        None \<Rightarrow> t_active s = {} \<and> t_open s \<inter> tocDetails = {}
      | Some l \<Rightarrow> t_active s = {l_elem l} \<and> t_open s \<inter> tocDetails = sections (l_ancestors l) \<inter> tocDetails)"

lemma observe_entry_result:
  assumes "well_placed links" and "t_active s \<subseteq> l_elem ` set links"
  shows "\<exists>s'. observe_entry links tocDetails (i, b) s = Some s' \<and> t_active s' \<subseteq> l_elem ` set links
    \<and> (if b then toc_shows links tocDetails i s' else s' = s)"
  using assms
  by (auto simp: observe_entry_def activate_result [OF assms(1)] toc_shows_def dest: link_for_SomeD split: option.split)

lemma observe_append:
  "observe links ds (es @ fs) s = (case observe links ds es s of None \<Rightarrow> None | Some s' \<Rightarrow> observe links ds fs s')"
  by (induction es arbitrary: s) (auto split: option.split)

lemma observe_total:
  assumes "well_placed links" and "t_active s \<subseteq> l_elem ` set links"
  shows "\<exists>s'. observe links ds es s = Some s' \<and> t_active s' \<subseteq> l_elem ` set links
    \<and> (list_all (\<lambda>(_, b). \<not> b) es \<longrightarrow> s' = s)"
  using assms(2)
proof (induction es arbitrary: s)
  case (Cons e es)
  obtain i b where e: "e = (i, b)" by force
  obtain s1 where s1: "observe_entry links ds (i, b) s = Some s1" "t_active s1 \<subseteq> l_elem ` set links" "\<not> b \<longrightarrow> s1 = s"
    using observe_entry_result [OF assms(1) Cons.prems, of ds i b] by (auto split: if_splits)
  from Cons.IH [OF s1(2)] s1 e show ?case by auto
qed auto

definition heading_run :: "copy_event list \<Rightarrow> copy_button" where
  "heading_run events = foldl (\<lambda>b e. copy_heading_step e b) new_heading_link events"

definition code_run :: "copy_event list \<Rightarrow> copy_button" where
  "code_run events = foldl (\<lambda>b e. copy_code_step e b) new_code_button events"

lemma copy_heading_timer:
  "b_timers b \<noteq> [] \<Longrightarrow> copy_heading_step Timer b = b\<lparr>b_label := ''Copy link'', b_timers := tl (b_timers b)\<rparr>"
  by simp

lemma copy_code_timer:
  "b_timers b \<noteq> [] \<Longrightarrow> copy_code_step Timer b = b\<lparr>b_label := ''Copy'', b_timers := tl (b_timers b)\<rparr>"
  by simp

lemma timers_restore:
  assumes step: "\<And>b. b_timers b \<noteq> [] \<Longrightarrow> step b = b\<lparr>b_label := idle, b_timers := tl (b_timers b)\<rparr>"
    and "b_timers b \<noteq> [] \<or> b_label b = idle"
  shows "b_label ((step ^^ length (b_timers b)) b) = idle"
  using assms(2)
proof (induction "length (b_timers b)" arbitrary: b)
  case (Suc n)
  have ne: "b_timers b \<noteq> []" using Suc.hyps(2) by auto
  have "length (b_timers (step b)) = n" "b_label (step b) = idle"
    using Suc.hyps(2) by (simp_all add: step [OF ne])
  then have "b_label ((step ^^ n) (step b)) = idle" using Suc.hyps(1) [of "step b"] by simp
  then show ?case using Suc.hyps(2) [symmetric] by (simp only: funpow_Suc_right comp_def)
qed simp

lemma heading_run_lent: "b_timers (heading_run events) = [] \<Longrightarrow> b_label (heading_run events) = ''Copy link''"
proof (induction events rule: rev_induct)
  case (snoc e es)
  then show ?case by (cases e) (auto simp: heading_run_def split: if_splits)
qed (simp add: heading_run_def new_heading_link_def)

lemma code_run_lent: "b_timers (code_run events) = [] \<Longrightarrow> b_label (code_run events) = ''Copy''"
proof (induction events rule: rev_induct)
  case (snoc e es)
  then show ?case by (cases e) (auto simp: code_run_def split: if_splits)
qed (simp add: code_run_def new_code_button_def)

section \<open>Properties\<close>

text \<open>The table of contents follows the last heading that came into view: whatever the observer
  reported before and whatever left the view afterwards, exactly that heading's link is active and
  exactly the sections around it are open; a heading without a link leaves nothing active.
  No report makes the script fail.\<close>

theorem toc_follows_last_heading:
  assumes "well_placed links" and "t_active s \<subseteq> l_elem ` set links" and "list_all (\<lambda>(_, b). \<not> b) later"
  shows "\<exists>s'. observe links tocDetails (before @ (i, True) # later) s = Some s' \<and> toc_shows links tocDetails i s'"
proof -
  obtain s1 where s1: "observe links tocDetails before s = Some s1" "t_active s1 \<subseteq> l_elem ` set links"
    using observe_total [OF assms(1,2)] by blast
  obtain s2 where s2: "observe_entry links tocDetails (i, True) s1 = Some s2" "t_active s2 \<subseteq> l_elem ` set links"
      "toc_shows links tocDetails i s2"
    using observe_entry_result [OF assms(1) s1(2), of tocDetails i True] by auto
  have "observe links tocDetails later s2 = Some s2" using observe_total [OF assms(1) s2(2)] assms(3) by blast
  with s1 s2 show ?thesis by (simp add: observe_append)
qed

definition sample_links :: "toc_link list" where
  "sample_links =
     [\<lparr> l_elem = 1, l_href = ''#a'', l_ancestors = [(10, False), (20, True), (30, True), (0, False)] \<rparr>,
      \<lparr> l_elem = 2, l_href = ''#b'', l_ancestors = [(40, True), (0, False)] \<rparr>]"

theorem toc_follows_last_heading_witness:
  "\<exists>s'. observe sample_links {20, 30, 40} [(''b'', True), (''a'', True), (''b'', False)] \<lparr> t_active = {}, t_open = {40} \<rparr> = Some s'
     \<and> toc_shows sample_links {20, 30, 40} ''a'' s'"
  using toc_follows_last_heading [of sample_links "\<lparr> t_active = {}, t_open = {40} \<rparr>" "[(''b'', False)]" "{20, 30, 40}"
      "[(''b'', True)]" "''a''"]
  by (simp add: sample_links_def well_placed_def)

text \<open>The label of a copy button is only lent: after any clicks, successes, failures and timers,
  it is the idle label once the timers that are still running have fired.\<close>

theorem copy_label_restored:
  "b_label (((copy_heading_step Timer) ^^ length (b_timers (heading_run events))) (heading_run events)) = ''Copy link''
   \<and> b_label (((copy_code_step Timer) ^^ length (b_timers (code_run events))) (code_run events)) = ''Copy''"
proof
  show "b_label (((copy_heading_step Timer) ^^ length (b_timers (heading_run events))) (heading_run events)) = ''Copy link''"
    by (rule timers_restore) (auto simp: heading_run_lent copy_heading_timer)
  show "b_label (((copy_code_step Timer) ^^ length (b_timers (code_run events))) (code_run events)) = ''Copy''"
    by (rule timers_restore) (auto simp: code_run_lent copy_code_timer)
qed

end
