(* ===== verification/Qt_Base.thy ===== *)
theory Qt_Base
  imports Nb_Prelude "HOL-Library.Char_ord" "HOL-Library.List_Lexorder" "HOL-Library.Word"
begin

text \<open>
  The part of Qt's value library that the C++ components use: \<open>QString\<close> trimming, integer
  conversion and sections, and \<open>QJsonValue\<close>. A \<open>QJsonObject\<close> keeps its keys sorted and
  unique; it is an association list with that invariant, and \<open>obj[key] = value\<close> is the
  sorted insertion \<open>qset\<close>. JSON numbers are the integers the program stores in them.
  The locale \<open>keyed_store\<close> is the contract of every keyed collection of the program, with the
  law that folding insertions over a list makes the last binding of a key win.
\<close>

section \<open>QString\<close>

definition qt_space :: "char \<Rightarrow> bool" where
  "qt_space c \<longleftrightarrow> (of_char c :: nat) \<in> {9, 10, 11, 12, 13, 32, 133, 160}"

definition trimmed :: "string \<Rightarrow> string" where
  "trimmed = trim_with qt_space"

text \<open>\<open>QString::toInt()\<close>: 0 when the text is not an integer of 32 bits.\<close>

definition toInt_ok :: "string \<Rightarrow> int option" where
  "toInt_ok s =
     (let t = trimmed s;
          neg = (t \<noteq> [] \<and> hd t = CHR ''-'');
          ds = (if t \<noteq> [] \<and> (hd t = CHR ''-'' \<or> hd t = CHR ''+'') then tl t else t);
          v = (if neg then - int (nat_of_digits ds) else int (nat_of_digits ds))
      in if ds \<noteq> [] \<and> list_all is_digit ds \<and> - (2 ^ 31) \<le> v \<and> v < 2 ^ 31 then Some v else None)"

definition toInt :: "string \<Rightarrow> int" where
  "toInt s = (case toInt_ok s of None \<Rightarrow> 0 | Some v \<Rightarrow> v)"

text \<open>\<open>s.section(sep, 1)\<close>: what follows the first separator.\<close>

definition section1 :: "char \<Rightarrow> string \<Rightarrow> string" where
  "section1 sep s = (case index_of sep s of None \<Rightarrow> [] | Some i \<Rightarrow> drop (Suc i) s)"

lemma trimmed_show_int: "trimmed (show_int i) = show_int i"
proof -
  have sp: "is_digit c \<Longrightarrow> \<not> qt_space c" for c by (auto simp: is_digit_def qt_space_def)
  have n: "\<not> qt_space (hd (show_nat n))" "\<not> qt_space (last (show_nat n))" for n
    using show_nat_digits [of n] sp hd_in_set [of "show_nat n"] last_in_set [of "show_nat n"] by auto
  have "\<not> qt_space (CHR ''-'')" by (simp add: qt_space_def)
  with n show ?thesis
    unfolding trimmed_def by (intro trim_with_id) (auto simp: show_int_def)
qed

lemma toInt_ok_show_int [text_laws]:
  assumes "- (2 ^ 31) \<le> i" and "i < 2 ^ 31"
  shows "toInt_ok (show_int i) = Some i"
proof -
  have d: "list_all is_digit (show_nat n)" for n using show_nat_digits [of n] by (simp add: list_all_iff)
  have h: "hd (show_nat n) \<noteq> CHR ''-''" "hd (show_nat n) \<noteq> CHR ''+''" for n
  proof -
    have "is_digit (hd (show_nat n))" using show_nat_digits [of n] by simp
    then show "hd (show_nat n) \<noteq> CHR ''-''" and "hd (show_nat n) \<noteq> CHR ''+''"
      by (auto simp: is_digit_def)
  qed
  show ?thesis
    using assms d h trimmed_show_int [of i]
    by (auto simp: toInt_ok_def Let_def show_int_def nat_of_show_nat)
qed

lemma toInt_show_int [text_laws]:
  "- (2 ^ 31) \<le> i \<Longrightarrow> i < 2 ^ 31 \<Longrightarrow> toInt (show_int i) = i"
  by (simp add: toInt_def toInt_ok_show_int)

section \<open>QJsonValue\<close>

datatype json =
    QNull
  | QBool bool
  | QNum int
  | QStr string
  | QArr "json list"
  | QObj "(string \<times> json) list"

type_synonym jobject = "(string \<times> json) list"

fun qset :: "'k::linorder \<Rightarrow> 'v \<Rightarrow> ('k \<times> 'v) list \<Rightarrow> ('k \<times> 'v) list" where
  "qset k v [] = [(k, v)]"
| "qset k v ((k', v') # kvs) =
     (if k < k' then (k, v) # (k', v') # kvs
      else if k = k' then (k, v) # kvs
      else (k', v') # qset k v kvs)"

definition qsorted :: "('k::linorder \<times> 'v) list \<Rightarrow> bool" where
  "qsorted kvs \<longleftrightarrow> sorted_wrt (<) (map fst kvs)"

lemma qset_lookup: "map_of (qset k v kvs) = (map_of kvs)(k \<mapsto> v)"
  by (induction kvs) (auto simp: fun_eq_iff)

lemma keys_qset [simp]: "fst ` set (qset k v kvs) = insert k (fst ` set kvs)"
proof (induction kvs)
  case (Cons kv kvs)
  then show ?case by (cases kv; cases k "fst kv" rule: linorder_cases) (simp_all add: insert_commute)
qed simp

lemma qset_sorted: "qsorted kvs \<Longrightarrow> qsorted (qset k v kvs)"
proof (induction kvs)
  case (Cons kv kvs)
  then have IH: "qsorted (qset k v kvs)" by (simp add: qsorted_def)
  show ?case
  proof (cases k "fst kv" rule: linorder_cases)
    case greater
    have "\<forall>x\<in>set (map fst (qset k v kvs)). fst kv < x"
      using Cons.prems greater keys_qset [of k v kvs] by (auto simp: qsorted_def simp del: keys_qset)
    with IH greater less_not_sym [OF greater] show ?thesis by (cases kv) (auto simp: qsorted_def)
  next
    case less
    with Cons.prems show ?thesis by (cases kv) (force simp: qsorted_def)
  next
    case equal
    with Cons.prems show ?thesis by (cases kv) (simp add: qsorted_def)
  qed
qed (simp add: qsorted_def)

text \<open>The contract of a keyed collection.\<close>

locale keyed_store =
  fixes put :: "'k \<Rightarrow> 'v \<Rightarrow> 's \<Rightarrow> 's" and get :: "'s \<Rightarrow> 'k \<Rightarrow> 'v option" and ok :: "'s \<Rightarrow> bool"
  assumes get_put: "ok s \<Longrightarrow> get (put k v s) k' = (if k' = k then Some v else get s k')"
    and ok_put: "ok s \<Longrightarrow> ok (put k v s)"
begin

lemma ok_put_all: "ok s \<Longrightarrow> ok (foldl (\<lambda>t (k, v). put k v t) s kvs)"
  by (induction kvs arbitrary: s) (auto simp: ok_put)

lemma get_put_all:
  "ok s \<Longrightarrow>
   get (foldl (\<lambda>t (k, v). put k v t) s kvs) k =
     (case map_of (rev kvs) k of None \<Rightarrow> get s k | Some v \<Rightarrow> Some v)"
  by (induction kvs rule: rev_induct) (auto simp: get_put ok_put_all)

lemma put_put_other:
  "ok s \<Longrightarrow> k \<noteq> k' \<Longrightarrow> get (put k v (put k' v' s)) = get (put k' v' (put k v s))"
  by (auto simp: get_put ok_put fun_eq_iff)

end

interpretation qobject: keyed_store qset map_of qsorted
  by unfold_locales (simp_all add: qset_lookup qset_sorted)

text \<open>Reading and optional insertion.\<close>

definition qset_if :: "bool \<Rightarrow> string \<Rightarrow> json \<Rightarrow> jobject \<Rightarrow> jobject" where
  "qset_if b k v obj = (if b then qset k v obj else obj)"

lemma qset_if_lookup [simp]:
  "map_of (qset_if b k v kvs) k' = (if b \<and> k' = k then Some v else map_of kvs k')"
  by (simp add: qset_if_def qset_lookup)

lemma qset_if_sorted: "qsorted kvs \<Longrightarrow> qsorted (qset_if b k v kvs)"
  by (simp add: qset_if_def qset_sorted)

text \<open>The conversions of \<open>QJsonValue\<close>: the default where the type is another.\<close>

fun json_toString :: "json \<Rightarrow> string" where
  "json_toString (QStr s) = s"
| "json_toString _ = ''''"

fun json_toInt :: "json \<Rightarrow> int" where
  "json_toInt (QNum i) = (if - (2 ^ 31) \<le> i \<and> i < 2 ^ 31 then i else 0)"
| "json_toInt _ = 0"

fun json_toBool :: "json \<Rightarrow> bool" where
  "json_toBool (QBool b) = b"
| "json_toBool _ = False"

fun json_toArray :: "json \<Rightarrow> json list" where
  "json_toArray (QArr xs) = xs"
| "json_toArray _ = []"

fun json_toObject :: "json \<Rightarrow> jobject" where
  "json_toObject (QObj kvs) = kvs"
| "json_toObject _ = []"

text \<open>\<open>obj[key]\<close> on a constant object: \<open>Undefined\<close> (here \<open>QNull\<close>) where the key is absent.\<close>

definition qat :: "jobject \<Rightarrow> string \<Rightarrow> json" where
  "qat obj k = (case map_of obj k of None \<Rightarrow> QNull | Some v \<Rightarrow> v)"

definition QJsonArray2QListStr :: "json list \<Rightarrow> string list" where
  "QJsonArray2QListStr arr = map json_toString arr"

end
