(* ===== verification/Route_Rule.thy ===== *)
theory Route_Rule
  imports Qt_Base
begin

text \<open>
  One routing rule (\<open>RouteRule\<close> of \<^verbatim>\<open>src/nekobox/dataStore/RouteEntity.h\<close> and
  \<^verbatim>\<open>src/gharqad/dataStore/RouteEntity.cpp\<close>): its fields, the JSON it contributes to
  the core configuration, and the field access of the rule editor. The fields carry the
  source's names with the prefix \<open>r_\<close>. \<open>simpleAction\<close> has no initialiser in the source:
  \<open>None\<close> is its value before it is set. \<open>get_rule_json\<close> corrects the action of the rule
  it is called on, so it returns the rule as well. Profiles are reached through an
  argument (\<open>GetProfile\<close> of the profile manager); \<open>QUrl\<close> and \<open>qHash\<close> are the record \<open>qurl\<close>.
\<close>

section \<open>Identifiers and enumerations\<close>

definition proxyID :: int where "proxyID = -1"
definition directID :: int where "directID = -2"
definition blockID :: int where "blockID = -3"
definition dnsOutID :: int where "dnsOutID = -4"
definition INVALID_ID :: int where "INVALID_ID = -99999"

lemmas outbound_ids = proxyID_def directID_def blockID_def dnsOutID_def INVALID_ID_def

definition outboundIDToString :: "int \<Rightarrow> string" where
  "outboundIDToString i =
     (if i = proxyID then ''proxy'' else if i = directID then ''direct''
      else if i = blockID then ''block'' else if i = dnsOutID then ''dns'' else ''unknown'')"

definition stringToOutboundID :: "string \<Rightarrow> int" where
  "stringToOutboundID out =
     (if out = ''proxy'' then proxyID else if out = ''direct'' then directID
      else if out = ''block'' then blockID else if out = ''dns_out'' then dnsOutID else proxyID)"

datatype inputType = trufalse | select | text_input
datatype ruleType = custom | simpleAddress | simpleProcessName | simpleProcessPath
datatype simpleAction = direct | block | proxy

fun ruleType_id :: "ruleType \<Rightarrow> int" where
  "ruleType_id custom = 0"
| "ruleType_id simpleAddress = 1"
| "ruleType_id simpleProcessName = 2"
| "ruleType_id simpleProcessPath = 3"

fun simpleAction_id :: "simpleAction \<Rightarrow> int" where
  "simpleAction_id direct = 0"
| "simpleAction_id block = 1"
| "simpleAction_id proxy = 2"

fun simpleActionToString :: "simpleAction \<Rightarrow> string" where
  "simpleActionToString direct = ''direct''"
| "simpleActionToString block = ''block''"
| "simpleActionToString proxy = ''proxy''"

fun ruleTypeToString :: "ruleType \<Rightarrow> string" where
  "ruleTypeToString custom = ''custom''"
| "ruleTypeToString simpleAddress = ''Address''"
| "ruleTypeToString simpleProcessName = ''Process Name''"
| "ruleTypeToString simpleProcessPath = ''Process Path''"

section \<open>The rule\<close>

record RouteRule =
  r_name :: string
  r_type :: int
  r_simpleAction :: "int option"
  r_ip_version :: string
  r_network :: string
  r_protocol :: string
  r_inbound :: "string list"
  r_domain :: "string list"
  r_domain_suffix :: "string list"
  r_domain_keyword :: "string list"
  r_domain_regex :: "string list"
  r_source_ip_cidr :: "string list"
  r_source_ip_is_private :: bool
  r_ip_cidr :: "string list"
  r_ip_is_private :: bool
  r_source_port :: "string list"
  r_source_port_range :: "string list"
  r_port :: "string list"
  r_port_range :: "string list"
  r_process_name :: "string list"
  r_process_path :: "string list"
  r_process_path_regex :: "string list"
  r_rule_set :: "string list"
  r_invert :: bool
  r_outboundID :: int
  r_action :: string
  r_rejectMethod :: string
  r_no_drop :: bool
  r_override_address :: string
  r_override_port :: string
  r_sniffers :: "string list"
  r_sniffOverrideDest :: bool
  r_strategy :: string

definition new_RouteRule :: RouteRule where
  "new_RouteRule =
     \<lparr> r_name = '''', r_type = ruleType_id custom, r_simpleAction = None, r_ip_version = '''',
       r_network = '''', r_protocol = '''', r_inbound = [], r_domain = [], r_domain_suffix = [],
       r_domain_keyword = [], r_domain_regex = [], r_source_ip_cidr = [],
       r_source_ip_is_private = False, r_ip_cidr = [], r_ip_is_private = False, r_source_port = [],
       r_source_port_range = [], r_port = [], r_port_range = [], r_process_name = [],
       r_process_path = [], r_process_path_regex = [], r_rule_set = [], r_invert = False,
       r_outboundID = directID, r_action = ''route'', r_rejectMethod = '''', r_no_drop = False,
       r_override_address = '''', r_override_port = '''', r_sniffers = [],
       r_sniffOverrideDest = False, r_strategy = '''' \<rparr>"

section \<open>Profiles and rule-set names\<close>

text \<open>What a rule reads of a profile: its type, its display name, the core object its bean
  builds (\<open>None\<close> for a null bean) and, for a chain, the identifiers of its members.\<close>

record profile_view =
  pv_type :: string
  pv_name :: string
  pv_DisplayName :: string
  pv_bean :: "jobject option"
  pv_chain :: "int list"

record qurl =
  url_isValid :: "string \<Rightarrow> bool"
  url_fileName :: "string \<Rightarrow> string"
  url_hash :: "string \<Rightarrow> nat"

definition get_rule_set_name_1 :: "qurl \<Rightarrow> string \<Rightarrow> string" where
  "get_rule_set_name_1 q ruleSet =
     (let filename = url_fileName q ruleSet
      in if url_isValid q ruleSet \<and> (suffix ''.srs'' filename \<or> suffix ''.json'' filename)
         then map (\<lambda>c. if c = CHR ''.'' then CHR ''-'' else c) filename @ ''-''
              @ show_nat (url_hash q ruleSet)
         else ruleSet)"

text \<open>\<open>getOutboundObject\<close> follows the members of a chain. A chain that contains itself makes
  the source recurse for ever, so the model spends one unit of fuel per call and \<open>None\<close> is a
  recursion that has not ended.\<close>

definition chain_members :: "(int \<Rightarrow> profile_view option) \<Rightarrow> profile_view \<Rightarrow> int list" where
  "chain_members pm p = filter (\<lambda>i. case pm i of None \<Rightarrow> False | Some q \<Rightarrow> pv_bean q \<noteq> None) (pv_chain p)"

fun getOutboundObject :: "nat \<Rightarrow> (int \<Rightarrow> profile_view option) \<Rightarrow> profile_view option \<Rightarrow> jobject option" where
  "getOutboundObject 0 pm prof = None"
| "getOutboundObject (Suc n) pm None = Some [(''type'', QStr ''proxy'')]"
| "getOutboundObject (Suc n) pm (Some p) =
     (case pv_bean p of
        None \<Rightarrow> Some [(''type'', QStr ''proxy'')]
      | Some outbound \<Rightarrow>
          if pv_type p = ''chain'' then
            let members = map (\<lambda>i. getOutboundObject n pm (pm i)) (chain_members pm p)
            in if list_all (\<lambda>m. m \<noteq> None) members
               then Some (qset ''chain'' (QArr (map (QObj \<circ> the) members))
                       (qset ''tag'' (QStr (pv_DisplayName p)) (qset ''type'' (QStr ''chain'') [])))
               else None
          else Some (qset ''tag'' (QStr (pv_DisplayName p)) outbound))"

section \<open>The JSON of a rule\<close>

definition get_as_array :: "bool \<Rightarrow> (string \<Rightarrow> string) \<Rightarrow> string list \<Rightarrow> json" where
  "get_as_array castToNum converter strs =
     QArr (map (\<lambda>item. let conv = converter item
                       in if castToNum then QNum (toInt conv) else QStr conv) strs)"

definition isValidStrArray :: "string list \<Rightarrow> bool" where
  "isValidStrArray arr = list_ex (\<lambda>item. trimmed item \<noteq> '''') arr"

definition add_strs :: "string \<Rightarrow> string list \<Rightarrow> jobject \<Rightarrow> jobject" where
  "add_strs key strs = qset_if (isValidStrArray strs) key (get_as_array False id strs)"

definition add_nums :: "string \<Rightarrow> string list \<Rightarrow> jobject \<Rightarrow> jobject" where
  "add_nums key strs = qset_if (isValidStrArray strs) key (get_as_array True id strs)"

definition add_text :: "string \<Rightarrow> string \<Rightarrow> jobject \<Rightarrow> jobject" where
  "add_text key t = qset_if (t \<noteq> '''') key (QStr t)"

definition add_flag :: "string \<Rightarrow> bool \<Rightarrow> jobject \<Rightarrow> jobject" where
  "add_flag key b = qset_if b key (QBool b)"

definition match_json :: "qurl \<Rightarrow> bool \<Rightarrow> RouteRule \<Rightarrow> jobject" where
  "match_json q forView r =
     (let o1 = qset_if (r_ip_version r \<noteq> '''') ''ip_version'' (QNum (toInt (r_ip_version r))) [];
          o2 = add_text ''protocol'' (r_protocol r) (add_text ''network'' (r_network r) o1);
          o3 = add_strs ''domain'' (r_domain r) (add_strs ''inbound'' (r_inbound r) o2);
          o4 = add_strs ''domain_keyword'' (r_domain_keyword r) (add_strs ''domain_suffix'' (r_domain_suffix r) o3);
          o5 = add_strs ''source_ip_cidr'' (r_source_ip_cidr r) (add_strs ''domain_regex'' (r_domain_regex r) o4);
          o6 = add_strs ''ip_cidr'' (r_ip_cidr r) (add_flag ''source_ip_is_private'' (r_source_ip_is_private r) o5);
          o7 = add_nums ''source_port'' (r_source_port r) (add_flag ''ip_is_private'' (r_ip_is_private r) o6);
          o8 = add_nums ''port'' (r_port r) (add_strs ''source_port_range'' (r_source_port_range r) o7);
          o9 = add_strs ''process_name'' (r_process_name r) (add_strs ''port_range'' (r_port_range r) o8);
          o10 = add_strs ''process_path_regex'' (r_process_path_regex r) (add_strs ''process_path'' (r_process_path r) o9);
          o11 = qset_if (isValidStrArray (r_rule_set r)) ''rule_set''
                  (get_as_array False (if forView then id else get_rule_set_name_1 q) (r_rule_set r)) o10
      in add_flag ''invert'' (r_invert r) o11)"

definition fix_action :: "RouteRule \<Rightarrow> string" where
  "fix_action r =
     (if r_action r = ''route'' then
        (if r_outboundID r = -3 then ''reject'' else if r_outboundID r = -4 then ''hijack-dns'' else ''route'')
      else r_action r)"

text \<open>The outbound of a routing action; \<open>None\<close> is the early return for a missing profile (and,
  for an export, a chain that recurses beyond the fuel).\<close>

definition outbound_json ::
  "(int \<Rightarrow> profile_view option) \<Rightarrow> nat \<Rightarrow> bool \<Rightarrow> bool \<Rightarrow> string \<Rightarrow> RouteRule \<Rightarrow> json option" where
  "outbound_json pm fuel for_export forView outboundTag r =
     (if forView then
        (if r_outboundID r = -1 then Some (QStr ''proxy'')
         else if r_outboundID r = -2 then Some (QStr ''direct'')
         else if r_outboundID r = -3 then Some (QStr ''block'')
         else case pm (r_outboundID r) of
                None \<Rightarrow> None
              | Some prof \<Rightarrow>
                  (if for_export then map_option QObj (getOutboundObject fuel pm (Some prof))
                   else Some (QStr (pv_DisplayName prof))))
      else Some (if outboundTag \<noteq> '''' then QStr outboundTag else QNum (r_outboundID r)))"

definition get_rule_json ::
  "(int \<Rightarrow> profile_view option) \<Rightarrow> qurl \<Rightarrow> nat \<Rightarrow> bool \<Rightarrow> bool \<Rightarrow> string \<Rightarrow> RouteRule \<Rightarrow> RouteRule \<times> jobject" where
  "get_rule_json pm q fuel for_export forView outboundTag r0 =
     (let r = r0\<lparr>r_action := fix_action r0\<rparr>;
          a = r_action r;
          o1 = qset ''action'' (QStr a) (match_json q forView r);
          o2 = (if a = ''reject''
                then add_flag ''no_drop'' (r_no_drop r) (add_text ''reject_method'' (r_rejectMethod r) o1)
                else o1);
          o3 = (if a = ''route'' \<or> a = ''route-options''
                then qset_if (toInt (r_override_port r) > 0) ''override_port'' (QNum (toInt (r_override_port r)))
                       (add_text ''override_address'' (r_override_address r) o2)
                else o2);
          o5 = (\<lambda>o4. let o' = (if a = ''sniff'' then add_flag ''override_destination'' (r_sniffOverrideDest r) o4 else o4)
                     in if a = ''resolve'' then add_text ''strategy'' (r_strategy r) o' else o')
      in if a = ''route'' then
           (case outbound_json pm fuel for_export forView outboundTag r of
              None \<Rightarrow> (r, [])
            | Some out \<Rightarrow> (r, o5 (qset ''outbound'' out o3)))
         else (r, o5 o3))"

definition isEmpty :: "(int \<Rightarrow> profile_view option) \<Rightarrow> qurl \<Rightarrow> RouteRule \<Rightarrow> RouteRule \<times> bool" where
  "isEmpty pm q r0 =
     (let (r, ruleJson) = get_rule_json pm q 0 False False '''' r0; a = r_action r
      in (r, if a = ''route'' \<or> a = ''route-options'' \<or> a = ''hijack-dns'' then length ruleJson \<le> 1
             else if a = ''sniff'' \<or> a = ''resolve'' \<or> a = ''reject'' then length ruleJson < 1
             else False))"

section \<open>The rule editor\<close>

definition get_attributes :: "string list" where
  "get_attributes =
     [''ip_version'', ''network'', ''protocol'', ''inbound'', ''domain'', ''domain_suffix'',
      ''domain_keyword'', ''domain_regex'', ''source_ip_cidr'', ''source_ip_is_private'', ''ip_cidr'',
      ''ip_is_private'', ''source_port'', ''source_port_range'', ''port'', ''port_range'',
      ''process_name'', ''process_path'', ''process_path_regex'', ''rule_set'', ''invert'', ''action'',
      ''outbound'', ''override_address'', ''override_port'', ''method'', ''no_drop'',
      ''override_destination'', ''strategy'']"

definition get_input_type :: "string \<Rightarrow> inputType" where
  "get_input_type f =
     (if f = ''invert'' \<or> f = ''source_ip_is_private'' \<or> f = ''ip_is_private'' \<or> f = ''no_drop''
         \<or> f = ''override_destination'' then trufalse
      else if f = ''ip_version'' \<or> f = ''network'' \<or> f = ''protocol'' \<or> f = ''action'' \<or> f = ''method''
         \<or> f = ''strategy'' \<or> f = ''outbound'' then select
      else text_input)"

definition SniffProtocols :: "string list" where
  "SniffProtocols = [''http'', ''tls'', ''quic'', ''stun'', ''dns'', ''bittorrent'', ''dtls'', ''ssh'', ''rdp'']"

definition ActionTypes :: "string list" where
  "ActionTypes = [''route'', ''reject'', ''hijack-dns'', ''route-options'', ''sniff'', ''resolve'']"

definition rejectMethods :: "string list" where
  "rejectMethods = [''default'', ''drop'']"

definition DomainStrategy :: "string list" where
  "DomainStrategy = ['''', ''ipv4_only'', ''ipv6_only'', ''prefer_ipv4'', ''prefer_ipv6'']"

definition get_values_for_field :: "string \<Rightarrow> string list" where
  "get_values_for_field f =
     (if f = ''ip_version'' then ['''', ''4'', ''6'']
      else if f = ''network'' then ['''', ''tcp'', ''udp'']
      else if f = ''protocol'' then '''' # SniffProtocols
      else if f = ''action'' then ActionTypes
      else if f = ''method'' then '''' # rejectMethods
      else if f = ''strategy'' then '''' # DomainStrategy
      else [])"

text \<open>The fields that hold a list of texts, with how the editor reads and writes them.\<close>

definition list_fields :: "(string \<times> (RouteRule \<Rightarrow> string list) \<times> (string list \<Rightarrow> RouteRule \<Rightarrow> RouteRule)) list" where
  "list_fields =
     [(''inbound'', r_inbound, \<lambda>v r. r\<lparr>r_inbound := v\<rparr>),
      (''domain'', r_domain, \<lambda>v r. r\<lparr>r_domain := v\<rparr>),
      (''domain_suffix'', r_domain_suffix, \<lambda>v r. r\<lparr>r_domain_suffix := v\<rparr>),
      (''domain_keyword'', r_domain_keyword, \<lambda>v r. r\<lparr>r_domain_keyword := v\<rparr>),
      (''domain_regex'', r_domain_regex, \<lambda>v r. r\<lparr>r_domain_regex := v\<rparr>),
      (''source_ip_cidr'', r_source_ip_cidr, \<lambda>v r. r\<lparr>r_source_ip_cidr := v\<rparr>),
      (''ip_cidr'', r_ip_cidr, \<lambda>v r. r\<lparr>r_ip_cidr := v\<rparr>),
      (''source_port'', r_source_port, \<lambda>v r. r\<lparr>r_source_port := v\<rparr>),
      (''source_port_range'', r_source_port_range, \<lambda>v r. r\<lparr>r_source_port_range := v\<rparr>),
      (''port'', r_port, \<lambda>v r. r\<lparr>r_port := v\<rparr>),
      (''port_range'', r_port_range, \<lambda>v r. r\<lparr>r_port_range := v\<rparr>),
      (''process_name'', r_process_name, \<lambda>v r. r\<lparr>r_process_name := v\<rparr>),
      (''process_path'', r_process_path, \<lambda>v r. r\<lparr>r_process_path := v\<rparr>),
      (''process_path_regex'', r_process_path_regex, \<lambda>v r. r\<lparr>r_process_path_regex := v\<rparr>),
      (''rule_set'', r_rule_set, \<lambda>v r. r\<lparr>r_rule_set := v\<rparr>)]"

text \<open>The fields that hold one text.\<close>

definition text_fields :: "(string \<times> (RouteRule \<Rightarrow> string) \<times> (string \<Rightarrow> RouteRule \<Rightarrow> RouteRule)) list" where
  "text_fields =
     [(''ip_version'', r_ip_version, \<lambda>v r. r\<lparr>r_ip_version := v\<rparr>),
      (''network'', r_network, \<lambda>v r. r\<lparr>r_network := v\<rparr>),
      (''protocol'', r_protocol, \<lambda>v r. r\<lparr>r_protocol := v\<rparr>),
      (''action'', r_action, \<lambda>v r. r\<lparr>r_action := v\<rparr>),
      (''method'', r_rejectMethod, \<lambda>v r. r\<lparr>r_rejectMethod := v\<rparr>),
      (''strategy'', r_strategy, \<lambda>v r. r\<lparr>r_strategy := v\<rparr>),
      (''override_address'', r_override_address, \<lambda>v r. r\<lparr>r_override_address := v\<rparr>),
      (''override_port'', r_override_port, \<lambda>v r. r\<lparr>r_override_port := v\<rparr>),
      (''outbound'', (\<lambda>r. show_int (r_outboundID r)), \<lambda>v r. r\<lparr>r_outboundID := toInt v\<rparr>)]"

text \<open>The fields that hold a flag.\<close>

definition bool_fields :: "(string \<times> (RouteRule \<Rightarrow> bool) \<times> (bool \<Rightarrow> RouteRule \<Rightarrow> RouteRule)) list" where
  "bool_fields =
     [(''source_ip_is_private'', r_source_ip_is_private, \<lambda>v r. r\<lparr>r_source_ip_is_private := v\<rparr>),
      (''ip_is_private'', r_ip_is_private, \<lambda>v r. r\<lparr>r_ip_is_private := v\<rparr>),
      (''invert'', r_invert, \<lambda>v r. r\<lparr>r_invert := v\<rparr>),
      (''no_drop'', r_no_drop, \<lambda>v r. r\<lparr>r_no_drop := v\<rparr>),
      (''override_destination'', r_sniffOverrideDest, \<lambda>v r. r\<lparr>r_sniffOverrideDest := v\<rparr>)]"

definition get_current_value_string :: "string \<Rightarrow> RouteRule \<Rightarrow> string list" where
  "get_current_value_string f r =
     (case map_of text_fields f of
        Some (get, _) \<Rightarrow> [get r]
      | None \<Rightarrow> (case map_of list_fields f of Some (get, _) \<Rightarrow> get r | None \<Rightarrow> []))"

definition get_current_value_bool :: "string \<Rightarrow> RouteRule \<Rightarrow> string" where
  "get_current_value_bool f r =
     (case map_of bool_fields f of
        Some (get, _) \<Rightarrow> (if get r then ''true'' else ''false'') | None \<Rightarrow> '''')"

definition filterEmpty :: "string list \<Rightarrow> string list" where
  "filterEmpty base = map trimmed (filter (\<lambda>item. trimmed item \<noteq> '''') base)"

text \<open>\<open>set_field_value\<close> reads \<open>value[0]\<close> for a field that is not a list; on an empty list that
  read is out of range, \<open>None\<close>.\<close>

definition set_field_value :: "string \<Rightarrow> string list \<Rightarrow> RouteRule \<Rightarrow> RouteRule option" where
  "set_field_value f v r =
     (case map_of list_fields f of
        Some (_, upd) \<Rightarrow> Some (upd (filterEmpty v) r)
      | None \<Rightarrow>
          (case map_of text_fields f of
             Some (_, upd) \<Rightarrow> (case v of [] \<Rightarrow> None | x # _ \<Rightarrow> Some (upd x r))
           | None \<Rightarrow>
               (case map_of bool_fields f of
                  Some (_, upd) \<Rightarrow> (case v of [] \<Rightarrow> None | x # _ \<Rightarrow> Some (upd (x = ''true'') r))
                | None \<Rightarrow> Some r)))"

definition get_processPath_direct_rule :: "string \<Rightarrow> RouteRule" where
  "get_processPath_direct_rule processPath =
     new_RouteRule\<lparr> r_name := ''AutoGenerated direct extra core'', r_action := ''route'',
                    r_outboundID := -2, r_process_path := [processPath] \<rparr>"

section \<open>Lemmas\<close>

lemmas add_defs = add_strs_def add_nums_def add_text_def add_flag_def

lemma add_lookup [simp]:
  "map_of (add_strs k v kvs) k' = (if isValidStrArray v \<and> k' = k then Some (get_as_array False id v) else map_of kvs k')"
  "map_of (add_nums k v kvs) k' = (if isValidStrArray v \<and> k' = k then Some (get_as_array True id v) else map_of kvs k')"
  "map_of (add_text k t kvs) k' = (if t \<noteq> '''' \<and> k' = k then Some (QStr t) else map_of kvs k')"
  "map_of (add_flag k b kvs) k' = (if b \<and> k' = k then Some (QBool b) else map_of kvs k')"
  by (simp_all add: add_defs)

lemma add_sorted:
  "qsorted kvs \<Longrightarrow> qsorted (add_strs k v kvs)" "qsorted kvs \<Longrightarrow> qsorted (add_nums k v kvs)"
  "qsorted kvs \<Longrightarrow> qsorted (add_text k t kvs)" "qsorted kvs \<Longrightarrow> qsorted (add_flag k b kvs)"
  by (simp_all add: add_defs qset_if_sorted)

lemma qsorted_Nil [simp]: "qsorted []"
  by (simp add: qsorted_def)

lemma match_json_sorted: "qsorted (match_json q forView r)"
  unfolding match_json_def Let_def by (intro add_sorted qset_if_sorted qsorted_Nil)

lemma get_rule_json_sorted: "qsorted (snd (get_rule_json pm q n ex view tag r))"
  unfolding get_rule_json_def Let_def
  by (auto intro!: add_sorted qset_if_sorted qset_sorted match_json_sorted split: option.splits)

lemma filterEmpty_trimmed: "x \<in> set (filterEmpty v) \<Longrightarrow> trimmed x = x \<and> x \<noteq> ''''"
  by (auto simp: filterEmpty_def trimmed_def trim_with_idem)

lemma filterEmpty_idem [simp]: "filterEmpty (filterEmpty v) = filterEmpty v"
  by (induction v) (auto simp: filterEmpty_def trimmed_def trim_with_idem)

lemma filterEmpty_valid: "isValidStrArray (filterEmpty v) \<longleftrightarrow> filterEmpty v \<noteq> []"
proof
  assume "filterEmpty v \<noteq> []"
  then obtain x where "x \<in> set (filterEmpty v)" by (cases "filterEmpty v") auto
  with filterEmpty_trimmed show "isValidStrArray (filterEmpty v)"
    by (auto simp: isValidStrArray_def list_ex_iff)
qed (auto simp: isValidStrArray_def)

text \<open>Writing a field leaves every other field of the editor as it was.\<close>

definition frame_ok :: "(string \<times> 'g \<times> ('v \<Rightarrow> RouteRule \<Rightarrow> RouteRule)) list \<Rightarrow>
    (string \<times> (RouteRule \<Rightarrow> 'w) \<times> 'u) list \<Rightarrow> bool" where
  "frame_ok fs gs \<longleftrightarrow>
     list_all (\<lambda>(k, _, u). list_all (\<lambda>(k', g, _). k = k' \<or> (\<forall>v r. g (u v r) = g r)) gs) fs"

lemma frame_okD:
  assumes "frame_ok fs gs" and "map_of fs k = Some (g, u)" and "map_of gs k' = Some (g', u')" and "k \<noteq> k'"
  shows "g' (u v r) = g' r"
  using assms(1,4) map_of_SomeD [OF assms(2)] map_of_SomeD [OF assms(3)]
  by (fastforce simp: frame_ok_def list_all_iff)

lemma fields_frame:
  "frame_ok text_fields text_fields" "frame_ok text_fields list_fields" "frame_ok text_fields bool_fields"
  "frame_ok list_fields text_fields" "frame_ok list_fields list_fields" "frame_ok list_fields bool_fields"
  "frame_ok bool_fields text_fields" "frame_ok bool_fields list_fields" "frame_ok bool_fields bool_fields"
  unfolding frame_ok_def by (simp_all add: text_fields_def list_fields_def bool_fields_def)

lemma fields_get_put:
  "map_of list_fields k = Some (g, u) \<Longrightarrow> g (u v r) = v"
  "map_of text_fields k = Some (g', u') \<Longrightarrow> k \<noteq> ''outbound'' \<Longrightarrow> g' (u' v' r) = v'"
  "map_of bool_fields k = Some (g'', u'') \<Longrightarrow> g'' (u'' v'' r) = v''"
proof -
  have "list_all (\<lambda>(k, g, u). \<forall>v r. g (u v r) = v) list_fields" by (simp add: list_fields_def)
  then show "map_of list_fields k = Some (g, u) \<Longrightarrow> g (u v r) = v"
    by (fastforce simp: list_all_iff dest: map_of_SomeD)
  have "list_all (\<lambda>(k, g, u). k = ''outbound'' \<or> (\<forall>v r. g (u v r) = v)) text_fields"
    by (simp add: text_fields_def)
  then show "map_of text_fields k = Some (g', u') \<Longrightarrow> k \<noteq> ''outbound'' \<Longrightarrow> g' (u' v' r) = v'"
    by (fastforce simp: list_all_iff dest: map_of_SomeD)
  have "list_all (\<lambda>(k, g, u). \<forall>v r. g (u v r) = v) bool_fields" by (simp add: bool_fields_def)
  then show "map_of bool_fields k = Some (g'', u'') \<Longrightarrow> g'' (u'' v'' r) = v''"
    by (fastforce simp: list_all_iff dest: map_of_SomeD)
qed

lemma fields_disjoint:
  "map_of text_fields k = Some x \<Longrightarrow> map_of list_fields k = None \<and> map_of bool_fields k = None"
  "map_of list_fields k = Some y \<Longrightarrow> map_of text_fields k = None \<and> map_of bool_fields k = None"
  "map_of bool_fields k = Some z \<Longrightarrow> map_of text_fields k = None \<and> map_of list_fields k = None"
proof -
  have "list_all (\<lambda>(k, _). map_of list_fields k = None \<and> map_of bool_fields k = None) text_fields"
    by (simp add: text_fields_def list_fields_def bool_fields_def)
  then show "map_of text_fields k = Some x \<Longrightarrow> map_of list_fields k = None \<and> map_of bool_fields k = None"
    by (fastforce simp: list_all_iff dest: map_of_SomeD)
  have "list_all (\<lambda>(k, _). map_of text_fields k = None \<and> map_of bool_fields k = None) list_fields"
    by (simp add: text_fields_def list_fields_def bool_fields_def)
  then show "map_of list_fields k = Some y \<Longrightarrow> map_of text_fields k = None \<and> map_of bool_fields k = None"
    by (fastforce simp: list_all_iff dest: map_of_SomeD)
  have "list_all (\<lambda>(k, _). map_of text_fields k = None \<and> map_of list_fields k = None) bool_fields"
    by (simp add: text_fields_def list_fields_def bool_fields_def)
  then show "map_of bool_fields k = Some z \<Longrightarrow> map_of text_fields k = None \<and> map_of list_fields k = None"
    by (fastforce simp: list_all_iff dest: map_of_SomeD)
qed

lemma written_frame:
  assumes "frame_ok fs text_fields" "frame_ok fs list_fields" "frame_ok fs bool_fields"
    and "map_of fs f = Some (get, u)" and "f \<noteq> g"
  shows "get_current_value_string g (u v r) = get_current_value_string g r
    \<and> get_current_value_bool g (u v r) = get_current_value_bool g r"
proof -
  note fr = frame_okD [OF assms(1) assms(4) _ assms(5)] frame_okD [OF assms(2) assms(4) _ assms(5)]
    frame_okD [OF assms(3) assms(4) _ assms(5)]
  show ?thesis
    unfolding get_current_value_string_def get_current_value_bool_def
    by (simp add: fr split: option.split)
qed

lemma set_field_value_frame:
  assumes "set_field_value f v r = Some r'" and "f \<noteq> g"
  shows "get_current_value_string g r' = get_current_value_string g r
    \<and> get_current_value_bool g r' = get_current_value_bool g r"
proof -
  consider (l) get u where "map_of list_fields f = Some (get, u)" "r' = u (filterEmpty v) r"
    | (t) get u where "map_of text_fields f = Some (get, u)" "r' = u (hd v) r"
    | (b) get u where "map_of bool_fields f = Some (get, u)" "r' = u (hd v = ''true'') r"
    | (n) "r' = r"
    using assms(1) unfolding set_field_value_def by (auto split: option.splits list.splits)
  then show ?thesis
  proof cases
    case l
    then show ?thesis using written_frame [OF fields_frame(4,5,6) l(1) assms(2)] by simp
  next
    case t
    then show ?thesis using written_frame [OF fields_frame(1,2,3) t(1) assms(2)] by simp
  next
    case b
    then show ?thesis using written_frame [OF fields_frame(7,8,9) b(1) assms(2)] by simp
  qed simp
qed

lemma keys_of_lookup: "map_of kvs k \<noteq> None \<Longrightarrow> k \<in> fst ` set kvs"
  by (metis map_of_eq_None_iff)

lemma two_keys_length:
  assumes "map_of kvs k \<noteq> None" and "map_of kvs k' \<noteq> None" and "k \<noteq> k'"
  shows "2 \<le> length kvs"
proof -
  have "{k, k'} \<subseteq> fst ` set kvs" using keys_of_lookup [OF assms(1)] keys_of_lookup [OF assms(2)] by simp
  then have "card {k, k'} \<le> card (fst ` set kvs)" by (intro card_mono) auto
  also have "\<dots> \<le> length kvs" by (metis card_image_le card_length finite_set le_trans)
  finally show ?thesis using assms(3) by simp
qed

lemma match_json_no_action: "map_of (match_json q view r) ''action'' = None" "map_of (match_json q view r) ''outbound'' = None"
  unfolding match_json_def Let_def by (simp_all only: add_lookup qset_if_lookup) simp_all

lemma get_rule_json_action:
  assumes "snd (get_rule_json pm q n ex view tag r) \<noteq> []"
  shows "map_of (snd (get_rule_json pm q n ex view tag r)) ''action'' = Some (QStr (fix_action r))"
  using assms by (auto simp: get_rule_json_def Let_def qset_lookup split: option.splits)

lemma get_rule_json_outbound:
  "map_of (snd (get_rule_json pm q n ex view tag r)) ''outbound'' =
     (if fix_action r = ''route'' then outbound_json pm n ex view tag (r\<lparr>r_action := ''route''\<rparr>) else None)"
  by (auto simp: get_rule_json_def Let_def qset_lookup match_json_no_action split: option.splits)

lemma outbound_json_core: "outbound_json pm n ex False tag r \<noteq> None"
  by (simp add: outbound_json_def)

lemma qset_nonempty [simp]: "qset k v kvs \<noteq> []"
  by (cases kvs) (auto split: if_splits)

lemma get_rule_json_core_nonempty: "snd (get_rule_json pm q n ex False tag r) \<noteq> []"
  using outbound_json_core [of pm n ex tag "r\<lparr>r_action := ''route''\<rparr>"]
  by (auto simp: get_rule_json_def Let_def add_defs qset_if_def split: option.splits)

lemma getOutboundObject_mono:
  "getOutboundObject n pm p = Some obj \<Longrightarrow> n \<le> m \<Longrightarrow> getOutboundObject m pm p = Some obj"
proof (induction n pm p arbitrary: m obj rule: getOutboundObject.induct)
  case (3 n pm p)
  obtain m' where m: "m = Suc m'" "n \<le> m'" using 3(3) by (cases m) auto
  show ?case
  proof (cases "pv_bean p")
    case None
    with 3 m show ?thesis by simp
  next
    case (Some outbound)
    show ?thesis
    proof (cases "pv_type p = ''chain''")
      case False
      with 3 m Some show ?thesis by simp
    next
      case True
      have all: "\<forall>i\<in>set (chain_members pm p). getOutboundObject n pm (pm i) \<noteq> None"
        using 3(2) Some True by (auto simp: list_all_iff Let_def split: if_splits)
      have "getOutboundObject m' pm (pm i) = getOutboundObject n pm (pm i)"
        if i: "i \<in> set (chain_members pm p)" for i
      proof -
        obtain ob where "getOutboundObject n pm (pm i) = Some ob" using all i by auto
        with 3(1) [OF Some True i this m(2)] show ?thesis by simp
      qed
      then have eq: "map (\<lambda>i. getOutboundObject m' pm (pm i)) (chain_members pm p)
          = map (\<lambda>i. getOutboundObject n pm (pm i)) (chain_members pm p)"
        by (intro map_cong) auto
      have "getOutboundObject (Suc m') pm (Some p) = getOutboundObject (Suc n) pm (Some p)"
        by (simp only: getOutboundObject.simps Let_def eq)
      with 3(2) m show ?thesis by simp
    qed
  qed
next
  case (2 n pm)
  then show ?case by (cases m) auto
qed simp

lemma getOutboundObject_acyclic:
  assumes rank: "\<And>i p j. pm i = Some p \<Longrightarrow> j \<in> set (pv_chain p) \<Longrightarrow> rank j < (rank i :: nat)"
  shows "rank i < n \<Longrightarrow> getOutboundObject n pm (pm i) \<noteq> None"
proof (induction n arbitrary: i)
  case (Suc n)
  show ?case
  proof (cases "pm i")
    case (Some p)
    have "getOutboundObject n pm (pm j) \<noteq> None" if "j \<in> set (chain_members pm p)" for j
      using that rank [OF Some, of j] Suc by (auto simp: chain_members_def)
    with Some show ?thesis by (auto simp: list_all_iff Let_def split: option.splits)
  qed simp
qed simp

section \<open>Properties\<close>

text \<open>The rule editor: \<open>set_field_value\<close> is undefined exactly on an empty list for a field that is
  not a list, and changes nothing for a name that is not a field. Else reading the field gives
  what was written: a list without its blank entries, the others trimmed; a text as it is; for the
  outbound the number the text stands for (0 if it is none); a flag as \<open>true\<close> exactly for \<open>true\<close>.
  Every other field reads as before.\<close>

theorem set_field_value_get:
  "case set_field_value f v r of
     None \<Rightarrow> v = [] \<and> (map_of text_fields f \<noteq> None \<or> map_of bool_fields f \<noteq> None)
   | Some r' \<Rightarrow>
       (v = [] \<longrightarrow> map_of text_fields f = None \<and> map_of bool_fields f = None)
       \<and> (map_of list_fields f \<noteq> None \<longrightarrow> get_current_value_string f r' = filterEmpty v)
       \<and> (map_of text_fields f \<noteq> None \<longrightarrow> get_current_value_string f r' = [if f = ''outbound'' then show_int (toInt (hd v)) else hd v])
       \<and> (map_of bool_fields f \<noteq> None \<longrightarrow> get_current_value_bool f r' = (if hd v = ''true'' then ''true'' else ''false''))
       \<and> (f \<notin> set get_attributes \<longrightarrow> r' = r)
       \<and> (\<forall>g. g \<noteq> f \<longrightarrow> get_current_value_string g r' = get_current_value_string g r
            \<and> get_current_value_bool g r' = get_current_value_bool g r)"
proof (cases "set_field_value f v r")
  case None
  then show ?thesis by (auto simp: set_field_value_def split: option.splits list.splits)
next
  case (Some r')
  have other: "get_current_value_string g r' = get_current_value_string g r
        \<and> get_current_value_bool g r' = get_current_value_bool g r" if "g \<noteq> f" for g
    using set_field_value_frame [OF Some that [symmetric]] .
  have "map_of list_fields f \<noteq> None \<Longrightarrow> get_current_value_string f r' = filterEmpty v"
    using Some by (auto simp: set_field_value_def get_current_value_string_def fields_get_put
        dest: fields_disjoint(2) split: option.splits)
  moreover have "map_of text_fields f \<noteq> None \<Longrightarrow> f \<noteq> ''outbound'' \<Longrightarrow> get_current_value_string f r' = [hd v]"
    using Some by (auto simp: set_field_value_def get_current_value_string_def fields_get_put
        dest: fields_disjoint(1) split: option.splits list.splits)
  moreover have "get_current_value_string f r' = [show_int (toInt (hd v))]" if "f = ''outbound''"
    using Some unfolding that
    by (auto simp: set_field_value_def get_current_value_string_def text_fields_def list_fields_def split: list.splits)
  moreover have "map_of bool_fields f \<noteq> None \<Longrightarrow>
      get_current_value_bool f r' = (if hd v = ''true'' then ''true'' else ''false'')"
    using Some by (auto simp: set_field_value_def get_current_value_bool_def fields_get_put
        dest: fields_disjoint(3) split: option.splits list.splits)
  moreover have "r' = r" if "f \<notin> set get_attributes"
  proof -
    have "f \<notin> fst ` set list_fields" "f \<notin> fst ` set text_fields" "f \<notin> fst ` set bool_fields"
      using that by (auto simp: get_attributes_def list_fields_def text_fields_def bool_fields_def)
    then have "map_of list_fields f = None" "map_of text_fields f = None" "map_of bool_fields f = None" by (simp_all add: map_of_eq_None_iff)
    then show ?thesis using Some by (simp add: set_field_value_def)
  qed
  moreover have "v = [] \<Longrightarrow> map_of text_fields f = None \<and> map_of bool_fields f = None"
    using Some by (auto simp: set_field_value_def dest: fields_disjoint split: option.splits)
  ultimately show ?thesis unfolding Some option.case using other by (intro conjI allI impI) auto
qed

theorem set_field_value_get_witness:
  "get_current_value_string ''domain'' (the (set_field_value ''domain'' ['' a.com '', ''''] new_RouteRule)) = [''a.com'']"
proof -
  have s: "set_field_value ''domain'' ['' a.com '', ''''] new_RouteRule
      = Some (new_RouteRule\<lparr>r_domain := filterEmpty ['' a.com '', '''']\<rparr>)"
    by (simp add: set_field_value_def list_fields_def)
  have "map_of list_fields ''domain'' \<noteq> None" by (simp add: list_fields_def)
  moreover have "filterEmpty ['' a.com '', ''''] = [''a.com'']" by code_simp
  ultimately show ?thesis using set_field_value_get [where f = "''domain''" and v = "['' a.com '', '''']" and r = new_RouteRule] by (simp add: s)
qed

text \<open>The JSON a rule contributes to the core: it always has an action, which is the rule's
  action except that a routed rule bound to \<open>block\<close> becomes a rejection and one bound to
  \<open>dns_out\<close> a DNS hijack; it names an outbound exactly when the corrected action is \<open>route\<close>,
  namely the tag it is given or else the outbound identifier; and its keys are sorted and
  distinct.\<close>

theorem get_rule_json_core:
  "let obj = snd (get_rule_json pm q fuel ex False tag r)
   in map_of obj ''action'' = Some (QStr (fix_action r))
      \<and> map_of obj ''outbound'' =
          (if fix_action r = ''route''
           then Some (if tag \<noteq> '''' then QStr tag else QNum (r_outboundID r)) else None)
      \<and> qsorted obj"
  using get_rule_json_action [OF get_rule_json_core_nonempty]
  by (simp add: Let_def get_rule_json_outbound outbound_json_def get_rule_json_sorted)

text \<open>\<open>isEmpty\<close> answers \<open>true\<close> only for rules whose corrected action is
  \<open>route-options\<close> or \<open>hijack-dns\<close>: the JSON of a \<open>route\<close> rule always has two keys and that of a
  \<open>sniff\<close>, \<open>resolve\<close> or \<open>reject\<close> rule at least one, so its thresholds are never met there, not
  even by a rule that matches nothing.\<close>

theorem isEmpty_never_route:
  assumes "snd (isEmpty pm q r)"
  shows "fix_action r = ''route-options'' \<or> fix_action r = ''hijack-dns''"
proof -
  let ?o = "snd (get_rule_json pm q 0 False False '''' r)"
  have act: "r_action (fst (get_rule_json pm q 0 False False '''' r)) = fix_action r"
    by (auto simp: get_rule_json_def Let_def split: option.splits)
  have key: "map_of ?o ''action'' \<noteq> None"
    using get_rule_json_action [OF get_rule_json_core_nonempty] by simp
  have "fix_action r = ''route'' \<Longrightarrow> 2 \<le> length ?o"
    using key by (intro two_keys_length [of _ "''action''" "''outbound''"])
      (simp_all add: get_rule_json_outbound outbound_json_def)
  moreover have "\<not> length ?o < 1" using get_rule_json_core_nonempty [of pm q 0 False "''''" r] by simp
  ultimately show ?thesis
    using assms act by (auto simp: isEmpty_def Let_def split_beta split: if_splits)
qed

definition sample_qurl :: qurl where
  "sample_qurl = \<lparr> url_isValid = (\<lambda>_. False), url_fileName = id, url_hash = length \<rparr>"

theorem isEmpty_never_route_witness:
  "fix_action (new_RouteRule\<lparr>r_action := ''hijack-dns''\<rparr>) = ''route-options''
   \<or> fix_action (new_RouteRule\<lparr>r_action := ''hijack-dns''\<rparr>) = ''hijack-dns''"
proof (rule isEmpty_never_route)
  show "snd (isEmpty (\<lambda>_. None) sample_qurl (new_RouteRule\<lparr>r_action := ''hijack-dns''\<rparr>))"
    by code_simp
qed

text \<open>When no chain reaches itself (a rank decreases from every chain to its members),
  \<open>getOutboundObject\<close> returns for every profile, and more fuel never changes its result.\<close>

theorem getOutboundObject_total:
  assumes "\<forall>i p j. pm i = Some p \<longrightarrow> j \<in> set (pv_chain p) \<longrightarrow> rank j < (rank i :: nat)"
  shows "\<exists>obj. \<forall>fuel > rank i. getOutboundObject fuel pm (pm i) = Some obj"
proof -
  have "getOutboundObject (Suc (rank i)) pm (pm i) \<noteq> None"
    using assms by (intro getOutboundObject_acyclic [of pm rank]) auto
  then obtain obj where "getOutboundObject (Suc (rank i)) pm (pm i) = Some obj" by blast
  then show ?thesis by (metis Suc_leI getOutboundObject_mono)
qed

theorem getOutboundObject_total_witness:
  "\<exists>obj. getOutboundObject 5
     ((\<lambda>i. if i = 1 then Some \<lparr> pv_type = ''chain'', pv_name = ''c'', pv_DisplayName = ''c'', pv_bean = Some [], pv_chain = [0] \<rparr>
           else None) :: int \<Rightarrow> profile_view option)
     (Some \<lparr> pv_type = ''chain'', pv_name = ''c'', pv_DisplayName = ''c'', pv_bean = Some [], pv_chain = [0] \<rparr>) = Some obj"
proof -
  let ?p = "\<lparr> pv_type = ''chain'', pv_name = ''c'', pv_DisplayName = ''c'', pv_bean = Some [], pv_chain = [0] \<rparr> :: profile_view"
  let ?pm = "\<lambda>i. if i = (1::int) then Some ?p else None"
  have "\<forall>i p j. ?pm i = Some p \<longrightarrow> j \<in> set (pv_chain p) \<longrightarrow> nat j < nat i" by (auto split: if_splits)
  from getOutboundObject_total [OF this, of 1] obtain obj
    where "\<forall>fuel > 1. getOutboundObject fuel ?pm (?pm 1) = Some obj" by auto
  then show ?thesis by auto
qed

text \<open>A chain profile that lists itself makes the export recurse without end: no amount of
  fuel produces a result.\<close>

theorem getOutboundObject_self_chain:
  assumes "pm i = Some p" and "pv_type p = ''chain''" and "pv_bean p \<noteq> None" and "i \<in> set (pv_chain p)"
  shows "getOutboundObject fuel pm (pm i) = None"
proof (induction fuel)
  case (Suc n)
  have "i \<in> set (chain_members pm p)" using assms by (auto simp: chain_members_def)
  with Suc have "\<not> list_all (\<lambda>m. m \<noteq> None) (map (\<lambda>i. getOutboundObject n pm (pm i)) (chain_members pm p))"
    by (force simp: list_all_iff)
  with assms show ?case by (auto simp: Let_def)
qed simp

theorem getOutboundObject_self_chain_witness:
  "getOutboundObject 100
     (\<lambda>i. Some \<lparr> pv_type = ''chain'', pv_name = ''c'', pv_DisplayName = ''c'', pv_bean = Some [], pv_chain = [7] \<rparr>)
     (Some \<lparr> pv_type = ''chain'', pv_name = ''c'', pv_DisplayName = ''c'', pv_bean = Some [], pv_chain = [7] \<rparr>) = None"
  using getOutboundObject_self_chain [of "\<lambda>i. Some \<lparr> pv_type = ''chain'', pv_name = ''c'',
      pv_DisplayName = ''c'', pv_bean = Some [], pv_chain = [7] \<rparr>" 7] by simp

end
