(* ===== verification/Route_Chain.thy ===== *)
theory Route_Chain
  imports Route_Rule
begin

text \<open>
  A routing profile (\<open>RoutingChain\<close> of \<^verbatim>\<open>src/nekobox/dataStore/RouteEntity.h\<close> and
  \<^verbatim>\<open>src/gharqad/dataStore/RouteEntity.cpp\<close>): the route section it generates, with the
  ad-block rule, the queries of the configuration builder, and the simple-rule editor, whose
  text is printed from the simple rules of an action and parsed back into them. Rules are
  shared objects in the source: \<open>get_route_rules\<close> corrects their actions in place, so it
  returns the chain as well.
\<close>

section \<open>The chain\<close>

record RoutingChain =
  c_id :: int
  c_chain_name :: string
  c_update_url :: string
  c_skip_update :: bool
  c_enabled :: bool
  c_priority :: int
  c_Rules :: "RouteRule list"
  c_defaultOutboundID :: int

definition new_RoutingChain :: RoutingChain where
  "new_RoutingChain =
     \<lparr> c_id = -1, c_chain_name = '''', c_update_url = '''', c_skip_update = False, c_enabled = True,
       c_priority = 100, c_Rules = [], c_defaultOutboundID = proxyID \<rparr>"

definition copy_RouteRule :: "RouteRule \<Rightarrow> RouteRule" where
  "copy_RouteRule other =
     \<lparr> r_name = r_name other, r_type = r_type other, r_simpleAction = r_simpleAction other,
       r_ip_version = r_ip_version other, r_network = r_network other, r_protocol = r_protocol other,
       r_inbound = [] @ r_inbound other, r_domain = [] @ r_domain other,
       r_domain_suffix = [] @ r_domain_suffix other, r_domain_keyword = [] @ r_domain_keyword other,
       r_domain_regex = [] @ r_domain_regex other, r_source_ip_cidr = [] @ r_source_ip_cidr other,
       r_source_ip_is_private = r_source_ip_is_private other, r_ip_cidr = [] @ r_ip_cidr other,
       r_ip_is_private = r_ip_is_private other, r_source_port = [] @ r_source_port other,
       r_source_port_range = [] @ r_source_port_range other, r_port = [] @ r_port other,
       r_port_range = [] @ r_port_range other, r_process_name = [] @ r_process_name other,
       r_process_path = [] @ r_process_path other,
       r_process_path_regex = [] @ r_process_path_regex other, r_rule_set = [] @ r_rule_set other,
       r_invert = r_invert other, r_outboundID = r_outboundID other, r_action = r_action other,
       r_rejectMethod = r_rejectMethod other, r_no_drop = r_no_drop other,
       r_override_address = r_override_address other, r_override_port = r_override_port other,
       r_sniffers = [] @ r_sniffers other, r_sniffOverrideDest = r_sniffOverrideDest other,
       r_strategy = r_strategy other \<rparr>"

definition copy_RoutingChain :: "RoutingChain \<Rightarrow> RoutingChain" where
  "copy_RoutingChain other =
     new_RoutingChain\<lparr> c_id := c_id other, c_chain_name := c_chain_name other,
       c_update_url := c_update_url other, c_skip_update := c_skip_update other,
       c_enabled := c_enabled other, c_priority := c_priority other,
       c_Rules := map copy_RouteRule (c_Rules other),
       c_defaultOutboundID := c_defaultOutboundID other \<rparr>"

definition GetDefaultChain :: RoutingChain where
  "GetDefaultChain =
     new_RoutingChain\<lparr> c_chain_name := ''Default'', c_update_url := '''', c_priority := 1,
       c_defaultOutboundID := proxyID,
       c_Rules := [new_RouteRule\<lparr>r_name := ''Route DNS'', r_action := ''hijack-dns'', r_protocol := ''dns''\<rparr>] \<rparr>"

section \<open>The route section\<close>

definition createAdblockRule :: jobject where
  "createAdblockRule =
     qset ''rule_set'' (QArr [QStr ''nekobox-adblocksingbox''])
       (qset ''action'' (QStr ''reject'') [])"

definition mapped_tag :: "(int \<Rightarrow> string option) \<Rightarrow> int \<Rightarrow> string" where
  "mapped_tag outboundMap i = (case outboundMap i of None \<Rightarrow> '''' | Some t \<Rightarrow> t)"

text \<open>The loop of \<open>get_route_rules\<close>. Its result carries the rules with their corrected
  actions, whether the ad-block rule was added and the array so far, \<open>None\<close> after the early
  return.\<close>

fun route_rules_loop ::
  "(RouteRule \<Rightarrow> RouteRule \<times> jobject) \<Rightarrow> bool \<Rightarrow> bool \<Rightarrow> jobject list \<Rightarrow> RouteRule list
   \<Rightarrow> RouteRule list \<times> bool \<times> jobject list option" where
  "route_rules_loop gen adblock_enable added res [] = ([], added, Some res)"
| "route_rules_loop gen adblock_enable added res (item # items) =
     (let (item', rule_json) = gen item
      in if rule_json = [] then (item' # items, added, None)
         else let hit = (\<not> added \<and> adblock_enable \<and> qat rule_json ''action'' = QStr ''route'');
                  res' = (if hit then res @ [createAdblockRule] else res);
                  (items', added', out) = route_rules_loop gen adblock_enable (added \<or> hit) (res' @ [rule_json]) items
              in (item' # items', added', out))"

definition get_route_rules ::
  "(int \<Rightarrow> profile_view option) \<Rightarrow> qurl \<Rightarrow> nat \<Rightarrow> bool \<Rightarrow> bool \<Rightarrow> bool \<Rightarrow> (int \<Rightarrow> string option)
   \<Rightarrow> RoutingChain \<Rightarrow> RoutingChain \<times> jobject list" where
  "get_route_rules pm q fuel adblock_enable for_export forView outboundMap c =
     (let gen = (\<lambda>item. get_rule_json pm q fuel for_export forView (mapped_tag outboundMap (r_outboundID item)) item);
          (rules, added, out) = route_rules_loop gen adblock_enable False [] (c_Rules c)
      in (c\<lparr>c_Rules := rules\<rparr>,
          case out of
            None \<Rightarrow> []
          | Some res \<Rightarrow> if \<not> added \<and> adblock_enable then res @ [createAdblockRule] else res))"

section \<open>Queries of the configuration builder\<close>

definition get_used_outbounds :: "RoutingChain \<Rightarrow> int list" where
  "get_used_outbounds c = map r_outboundID (c_Rules c)"

definition get_used_rule_sets :: "RoutingChain \<Rightarrow> string list" where
  "get_used_rule_sets c = concat (map r_rule_set (c_Rules c))"

definition with_label :: "string \<Rightarrow> string list \<Rightarrow> string list" where
  "with_label l xs = map (\<lambda>x. l @ x) xs"

definition get_direct_sites :: "RoutingChain \<Rightarrow> string list" where
  "get_direct_sites c =
     concat (map (\<lambda>item.
       if r_outboundID item = -2 then
         with_label ''ruleset:'' (filter (prefix ''geosite-'') (r_rule_set item))
         @ with_label ''domain:'' (r_domain item) @ with_label ''suffix:'' (r_domain_suffix item)
         @ with_label ''keyword:'' (r_domain_keyword item) @ with_label ''regex:'' (r_domain_regex item)
       else []) (c_Rules c))"

definition get_direct_ips :: "RoutingChain \<Rightarrow> string list" where
  "get_direct_ips c =
     concat (map (\<lambda>item.
       if r_outboundID item = -2 then
         with_label ''ruleset:'' (filter (prefix ''geoip-'') (r_rule_set item))
         @ with_label ''ip:'' (r_ip_cidr item)
       else []) (c_Rules c))"

section \<open>The simple-rule editor\<close>

definition is_simple :: "simpleAction \<Rightarrow> RouteRule \<Rightarrow> bool" where
  "is_simple a r \<longleftrightarrow> r_type r \<noteq> ruleType_id custom \<and> r_simpleAction r = Some (simpleAction_id a)"

definition newline :: char where "newline = CHR 0x0A"

definition simple_lines :: "RouteRule \<Rightarrow> string list" where
  "simple_lines item =
     with_label ''domain:'' (r_domain item) @ with_label ''suffix:'' (r_domain_suffix item)
     @ with_label ''keyword:'' (r_domain_keyword item) @ with_label ''regex:'' (r_domain_regex item)
     @ with_label ''ruleset:'' (r_rule_set item) @ with_label ''ip:'' (r_ip_cidr item)
     @ with_label ''processName:'' (r_process_name item)
     @ with_label ''processPath:'' (r_process_path item)"

definition GetSimpleRules :: "simpleAction \<Rightarrow> RoutingChain \<Rightarrow> string" where
  "GetSimpleRules action c =
     concat (map (\<lambda>item. if is_simple action item then concat (map (\<lambda>l. l @ [newline]) (simple_lines item)) else [])
               (c_Rules c))"

definition add_unique :: "'a \<Rightarrow> 'a list \<Rightarrow> 'a list" where
  "add_unique x xs = (if x \<in> set xs then xs else xs @ [x])"

definition add_simple_address_rule :: "string \<Rightarrow> RouteRule \<Rightarrow> RouteRule \<times> bool" where
  "add_simple_address_rule content r =
     (case index_of (CHR '':'') content of
        None \<Rightarrow> (r, False)
      | Some colonIdx \<Rightarrow>
          (let address = drop (Suc colonIdx) content; subType = take colonIdx content
           in if subType = ''domain'' then (r\<lparr>r_domain := add_unique address (r_domain r)\<rparr>, True)
              else if subType = ''suffix'' then (r\<lparr>r_domain_suffix := add_unique address (r_domain_suffix r)\<rparr>, True)
              else if subType = ''keyword'' then (r\<lparr>r_domain_keyword := add_unique address (r_domain_keyword r)\<rparr>, True)
              else if subType = ''regex'' then (r\<lparr>r_domain_regex := add_unique address (r_domain_regex r)\<rparr>, True)
              else if subType = ''ruleset'' then (r\<lparr>r_rule_set := add_unique address (r_rule_set r)\<rparr>, True)
              else if subType = ''ip'' then (r\<lparr>r_ip_cidr := add_unique address (r_ip_cidr r)\<rparr>, True)
              else (r, False)))"

definition add_simple_process_rule :: "string \<Rightarrow> RouteRule \<Rightarrow> ruleType \<Rightarrow> RouteRule \<times> bool" where
  "add_simple_process_rule content r t =
     (let sp = split_str '':'' content
      in if length sp < 2 then (r, False)
         else if hd sp = ''processPath'' \<and> t = simpleProcessPath
         then (r\<lparr>r_process_path := add_unique (section1 (CHR '':'') content) (r_process_path r)\<rparr>, True)
         else if hd sp = ''processName'' \<and> t = simpleProcessName \<and> length sp = 2
         then (r\<lparr>r_process_name := add_unique (sp ! 1) (r_process_name r)\<rparr>, True)
         else (r, False))"

definition add_simple_rule :: "string \<Rightarrow> RouteRule \<Rightarrow> ruleType \<Rightarrow> RouteRule \<times> bool" where
  "add_simple_rule content r t =
     (if t = simpleAddress then add_simple_address_rule content r else add_simple_process_rule content r t)"

definition new_simple_rule :: "ruleType \<Rightarrow> simpleAction \<Rightarrow> RouteRule" where
  "new_simple_rule t a =
     (let r = new_RouteRule\<lparr> r_name := ''Simple '' @ ruleTypeToString t @ '' -> '' @ simpleActionToString a,
                             r_type := ruleType_id t, r_simpleAction := Some (simpleAction_id a) \<rparr>
      in if a = block then r\<lparr>r_action := ''reject''\<rparr>
         else if a = direct then r\<lparr>r_action := ''route'', r_outboundID := -2\<rparr>
         else r\<lparr>r_action := ''route'', r_outboundID := -1\<rparr>)"

text \<open>One pass over the lines for one kind of rule: the rule, the indices of the lines that
  were added, and whether the rule is still empty.\<close>

fun simple_pass :: "ruleType \<Rightarrow> nat \<Rightarrow> string list \<Rightarrow> RouteRule \<Rightarrow> nat set \<Rightarrow> bool \<Rightarrow> RouteRule \<times> nat set \<times> bool" where
  "simple_pass t i [] r added ruleEmpty = (r, added, ruleEmpty)"
| "simple_pass t i (item # items) r added ruleEmpty =
     (if trimmed item = '''' then simple_pass t (Suc i) items r added ruleEmpty
      else let (r', ok) = add_simple_rule (trimmed item) r t
           in if ok then simple_pass t (Suc i) items r' (insert i added) False
              else simple_pass t (Suc i) items r' added ruleEmpty)"

fun simple_types :: "simpleAction \<Rightarrow> string list \<Rightarrow> ruleType list \<Rightarrow> RouteRule list \<Rightarrow> nat set \<Rightarrow> RouteRule list \<times> nat set" where
  "simple_types action items [] rules added = (rules, added)"
| "simple_types action items (t # ts) rules added =
     (let (r, added', ruleEmpty) = simple_pass t 0 items (new_simple_rule t action) added True
      in simple_types action items ts (if ruleEmpty then rules else rules @ [r]) added')"

definition UpdateSimpleRules :: "string \<Rightarrow> simpleAction \<Rightarrow> RoutingChain \<Rightarrow> RoutingChain \<times> string" where
  "UpdateSimpleRules content action c =
     (let items = split_str [newline] content;
          kept = filter (\<lambda>r. \<not> is_simple action r) (c_Rules c);
          (rules, added) = simple_types action items [simpleAddress, simpleProcessName, simpleProcessPath] kept {}
      in (c\<lparr>c_Rules := rules\<rparr>,
          concat (map (\<lambda>(i, item). if trimmed item = '''' \<or> i \<in> added then [] else ''Could not add '' @ item)
                    (zip [0..<length items] items))))"

section \<open>Lemmas on the route section\<close>

definition is_route_json :: "jobject \<Rightarrow> bool" where
  "is_route_json j \<longleftrightarrow> qat j ''action'' = QStr ''route''"

definition insert_adblock :: "jobject list \<Rightarrow> jobject list" where
  "insert_adblock js =
     takeWhile (Not \<circ> is_route_json) js @ [createAdblockRule] @ dropWhile (Not \<circ> is_route_json) js"

lemma route_rules_loop_plain:
  assumes "list_all (\<lambda>r. snd (gen r) \<noteq> []) rs" and "added \<or> \<not> en"
  shows "route_rules_loop gen en added res rs = (map (fst \<circ> gen) rs, added, Some (res @ map (snd \<circ> gen) rs))"
  using assms by (induction rs arbitrary: res) (auto simp: split_beta Let_def)

lemma route_rules_loop_adblock:
  assumes "list_all (\<lambda>r. snd (gen r) \<noteq> []) rs"
  shows "route_rules_loop gen True False res rs =
    (map (fst \<circ> gen) rs, list_ex is_route_json (map (snd \<circ> gen) rs),
     Some (res @ (let js = map (snd \<circ> gen) rs in if list_ex is_route_json js then insert_adblock js else js)))"
  using assms
proof (induction rs arbitrary: res)
  case (Cons r rs)
  show ?case
  proof (cases "is_route_json (snd (gen r))")
    case True
    with Cons.prems show ?thesis
      by (simp add: split_beta Let_def route_rules_loop_plain is_route_json_def insert_adblock_def)
  next
    case False
    with Cons.prems Cons.IH show ?thesis
      by (auto simp: split_beta Let_def is_route_json_def insert_adblock_def)
  qed
qed simp

lemma route_rules_loop_abort:
  "list_ex (\<lambda>r. snd (gen r) = []) rs \<Longrightarrow> snd (snd (route_rules_loop gen en added res rs)) = None"
  by (induction rs arbitrary: added res) (auto simp: split_beta Let_def)

lemma insert_adblock_none: "\<not> list_ex is_route_json js \<Longrightarrow> insert_adblock js = js @ [createAdblockRule]"
  by (simp add: insert_adblock_def list_ex_iff takeWhile_eq_all_conv dropWhile_eq_Nil_conv)

lemma get_rule_json_fst: "fst (get_rule_json pm q n ex view tag r) = r\<lparr>r_action := fix_action r\<rparr>"
  by (auto simp: get_rule_json_def Let_def split: option.splits)

lemma get_route_rules_total:
  assumes "list_all (\<lambda>r. snd (get_rule_json pm q n ex view (mapped_tag m (r_outboundID r)) r) \<noteq> []) (c_Rules c)"
  shows "get_route_rules pm q n en ex view m c =
    (c\<lparr>c_Rules := map (\<lambda>r. r\<lparr>r_action := fix_action r\<rparr>) (c_Rules c)\<rparr>,
     (if en then insert_adblock else id)
       (map (\<lambda>r. snd (get_rule_json pm q n ex view (mapped_tag m (r_outboundID r)) r)) (c_Rules c)))"
proof (cases en)
  case True
  then show ?thesis
    using route_rules_loop_adblock [OF assms, of "[]"] insert_adblock_none
    by (simp add: get_route_rules_def split_beta Let_def get_rule_json_fst comp_def)
next
  case False
  then show ?thesis
    using route_rules_loop_plain [OF assms, of False False "[]"]
    by (simp add: get_route_rules_def split_beta Let_def get_rule_json_fst comp_def)
qed

text \<open>C9. The route section of the core configuration has one entry per rule of the profile, in
  order, each the rule's own JSON under the tag its outbound is mapped to; with the ad-block
  filter enabled, exactly one rejecting rule is inserted, after every entry that precedes the
  first \<open>route\<close> entry and before that entry (at the end when there is none). The rules keep
  everything but their corrected action.\<close>

theorem get_route_rules_core:
  "get_route_rules pm q fuel en ex False outboundMap c =
     (c\<lparr>c_Rules := map (\<lambda>r. r\<lparr>r_action := fix_action r\<rparr>) (c_Rules c)\<rparr>,
      (if en then insert_adblock else id)
        (map (\<lambda>r. snd (get_rule_json pm q fuel ex False (mapped_tag outboundMap (r_outboundID r)) r)) (c_Rules c)))"
  by (rule get_route_rules_total) (simp add: list_all_iff get_rule_json_core_nonempty)

text \<open>The view and the export of a routing profile fail as a whole: when one routed rule
  names a profile that does not exist, no entry is produced at all.\<close>

theorem get_route_rules_missing:
  assumes "r \<in> set (c_Rules c)" and "r_action r = ''route''"
    and "r_outboundID r \<notin> {-1, -2, -3, -4}" and "pm (r_outboundID r) = None"
  shows "snd (get_route_rules pm q fuel en ex True outboundMap c) = []"
proof -
  have "snd (get_rule_json pm q fuel ex True tag r) = []" for tag
    using assms by (simp add: get_rule_json_def Let_def fix_action_def outbound_json_def)
  with assms(1) have "list_ex (\<lambda>r. snd (get_rule_json pm q fuel ex True (mapped_tag outboundMap (r_outboundID r)) r) = [])
      (c_Rules c)"
    by (auto simp: list_ex_iff)
  from route_rules_loop_abort [OF this, of en False "[]"] show ?thesis
    by (simp add: get_route_rules_def split_beta Let_def)
qed

theorem get_route_rules_missing_witness:
  "snd (get_route_rules (\<lambda>_. None) sample_qurl 0 True False True (\<lambda>_. None)
      (new_RoutingChain\<lparr>c_Rules := [new_RouteRule\<lparr>r_outboundID := 7\<rparr>]\<rparr>)) = []"
  by (rule get_route_rules_missing [of "new_RouteRule\<lparr>r_outboundID := 7\<rparr>"])
     (simp_all add: new_RouteRule_def)

section \<open>Lemmas on the simple-rule editor\<close>

text \<open>The reference reading of one line: its kind and address.\<close>

definition address_kinds :: "string list" where
  "address_kinds = [''domain'', ''suffix'', ''keyword'', ''regex'', ''ruleset'', ''ip'']"

definition simple_kinds :: "string list" where
  "simple_kinds = address_kinds @ [''processName'', ''processPath'']"

definition simple_parse :: "string \<Rightarrow> (string \<times> string) option" where
  "simple_parse item =
     (case index_of (CHR '':'') item of
        None \<Rightarrow> None
      | Some i \<Rightarrow> let k = take i item; a = drop (Suc i) item
                 in if k \<in> set simple_kinds \<and> (k = ''processName'' \<longrightarrow> CHR '':'' \<notin> set a) then Some (k, a) else None)"

definition kind_type :: "string \<Rightarrow> ruleType" where
  "kind_type k = (if k = ''processName'' then simpleProcessName
                  else if k = ''processPath'' then simpleProcessPath else simpleAddress)"

definition simple_field :: "string \<Rightarrow> RouteRule \<Rightarrow> string list" where
  "simple_field k r =
     (if k = ''domain'' then r_domain r else if k = ''suffix'' then r_domain_suffix r
      else if k = ''keyword'' then r_domain_keyword r else if k = ''regex'' then r_domain_regex r
      else if k = ''ruleset'' then r_rule_set r else if k = ''ip'' then r_ip_cidr r
      else if k = ''processName'' then r_process_name r
      else if k = ''processPath'' then r_process_path r else [])"

definition simple_add :: "RouteRule \<Rightarrow> string \<times> string \<Rightarrow> RouteRule" where
  "simple_add r = (\<lambda>(k, a).
     if k = ''domain'' then r\<lparr>r_domain := add_unique a (r_domain r)\<rparr>
     else if k = ''suffix'' then r\<lparr>r_domain_suffix := add_unique a (r_domain_suffix r)\<rparr>
     else if k = ''keyword'' then r\<lparr>r_domain_keyword := add_unique a (r_domain_keyword r)\<rparr>
     else if k = ''regex'' then r\<lparr>r_domain_regex := add_unique a (r_domain_regex r)\<rparr>
     else if k = ''ruleset'' then r\<lparr>r_rule_set := add_unique a (r_rule_set r)\<rparr>
     else if k = ''ip'' then r\<lparr>r_ip_cidr := add_unique a (r_ip_cidr r)\<rparr>
     else if k = ''processName'' then r\<lparr>r_process_name := add_unique a (r_process_name r)\<rparr>
     else if k = ''processPath'' then r\<lparr>r_process_path := add_unique a (r_process_path r)\<rparr> else r)"

lemma simple_kinds_cases:
  "k \<in> set simple_kinds \<longleftrightarrow> k \<in> set address_kinds \<or> k = ''processName'' \<or> k = ''processPath''"
  by (auto simp: simple_kinds_def)

lemma process_not_address [simp]: "''processName'' \<notin> set address_kinds" "''processPath'' \<notin> set address_kinds"
  by (simp_all add: address_kinds_def)

lemma kind_type_simps [simp]:
  "kind_type ''processName'' = simpleProcessName" "kind_type ''processPath'' = simpleProcessPath"
  "k \<in> set address_kinds \<Longrightarrow> kind_type k = simpleAddress"
  by (auto simp: kind_type_def address_kinds_def)

lemma simple_kind_no_colon: "k \<in> set simple_kinds \<Longrightarrow> CHR '':'' \<notin> set k \<and> newline \<notin> set k \<and> k \<noteq> [] \<and> \<not> qt_space (hd k)"
  by (auto simp: simple_kinds_def address_kinds_def newline_def qt_space_def)

lemma simple_parse_Some:
  assumes "simple_parse item = Some (k, a)"
  shows "item = k @ CHR '':'' # a \<and> k \<in> set simple_kinds \<and> (k = ''processName'' \<longrightarrow> CHR '':'' \<notin> set a)"
proof -
  obtain i where i: "index_of (CHR '':'') item = Some i" "k = take i item" "a = drop (Suc i) item"
      "k \<in> set simple_kinds" "k = ''processName'' \<longrightarrow> CHR '':'' \<notin> set a"
    using assms by (auto simp: simple_parse_def Let_def split: option.splits if_splits)
  with id_take_nth_drop [of i item] index_of_SomeD [OF i(1)] show ?thesis by simp
qed

lemma simple_parse_print:
  assumes "k \<in> set simple_kinds" and "k = ''processName'' \<longrightarrow> CHR '':'' \<notin> set a"
  shows "simple_parse (k @ CHR '':'' # a) = Some (k, a)"
  using assms simple_kind_no_colon [OF assms(1)] by (simp add: simple_parse_def index_of_append)

lemma split_colon:
  "index_of (CHR '':'') s = Some i \<Longrightarrow>
   split_str '':'' s = take i s # split_str '':'' (drop (Suc i) s)"
  using index_of_SomeD [of "CHR '':''" s i] split_str_char_append [of "CHR '':''" "take i s" "drop (Suc i) s"]
    id_take_nth_drop [of i s] by simp

lemma split_colon_none: "index_of (CHR '':'') s = None \<Longrightarrow> split_str '':'' s = [s]"
  by (simp add: index_of_None_iff split_str_char_none)

lemma length_split_char: "length (split_str [c] s) = Suc (length (filter ((=) c) s))"
  by (induction s) (auto simp: cons_hd_def split: list.splits)

lemma split_one: "length (split_str [c] s) = Suc 0 \<longleftrightarrow> c \<notin> set s"
  by (auto simp: length_split_char filter_empty_conv)

lemma address_rule_parse:
  "add_simple_address_rule item r =
     (case simple_parse item of
        Some (k, a) \<Rightarrow> if k \<in> set address_kinds then (simple_add r (k, a), True) else (r, False)
      | None \<Rightarrow> (r, False))"
proof (cases "index_of (CHR '':'') item")
  case (Some i)
  show ?thesis
  proof (cases "take i item \<in> set address_kinds")
    case True
    with Some show ?thesis
      by (auto simp: add_simple_address_rule_def simple_parse_def simple_kinds_def simple_add_def address_kinds_def Let_def)
  next
    case False
    with Some show ?thesis
      by (simp add: add_simple_address_rule_def simple_parse_def simple_kinds_def address_kinds_def Let_def)
  qed
qed (simp add: add_simple_address_rule_def simple_parse_def)

lemma process_rule_parse:
  assumes "t = simpleProcessName \<or> t = simpleProcessPath"
  shows "add_simple_process_rule item r t =
     (case simple_parse item of
        Some (k, a) \<Rightarrow> if kind_type k = t then (simple_add r (k, a), True) else (r, False)
      | None \<Rightarrow> (r, False))"
proof (cases "index_of (CHR '':'') item")
  case None
  then show ?thesis by (simp add: add_simple_process_rule_def simple_parse_def split_colon_none)
next
  case (Some i)
  let ?k = "take i item" and ?a = "drop (Suc i) item"
  have sp: "split_str '':'' item = ?k # split_str '':'' ?a" using Some by (rule split_colon)
  have one: "CHR '':'' \<notin> set ?a \<Longrightarrow> split_str '':'' ?a = [?a]" by (rule split_str_char_none)
  consider "?k = ''processName''" | "?k = ''processPath''" | "?k \<notin> {''processName'', ''processPath''}" by blast
  then show ?thesis
  proof cases
    case 1
    with assms Some sp one show ?thesis
      by (auto simp: add_simple_process_rule_def simple_parse_def Let_def simple_kinds_def simple_add_def split_one)
  next
    case 2
    with assms Some sp show ?thesis
      by (auto simp: add_simple_process_rule_def simple_parse_def Let_def simple_kinds_def simple_add_def section1_def)
  next
    case 3
    with assms Some sp show ?thesis
      by (auto simp: add_simple_process_rule_def simple_parse_def Let_def kind_type_def)
  qed
qed

lemma add_simple_rule_parse:
  assumes "t \<noteq> custom"
  shows "add_simple_rule item r t =
     (case simple_parse item of
        Some (k, a) \<Rightarrow> if kind_type k = t then (simple_add r (k, a), True) else (r, False)
      | None \<Rightarrow> (r, False))"
proof (cases "t = simpleAddress")
  case True
  have "k \<in> set address_kinds \<longleftrightarrow> kind_type k = simpleAddress" if "simple_parse item = Some (k, a)" for k a
    using simple_parse_Some [OF that] by (auto simp: simple_kinds_cases)
  with True show ?thesis by (auto simp: add_simple_rule_def address_rule_parse split: option.splits)
next
  case False
  with assms have "t = simpleProcessName \<or> t = simpleProcessPath" by (cases t) auto
  with False show ?thesis by (simp add: add_simple_rule_def process_rule_parse)
qed

text \<open>The lines an editor text gives to one type of rule, and the addresses of one kind.\<close>

definition line_parse :: "string \<Rightarrow> (string \<times> string) option" where
  "line_parse l = (if trimmed l = '''' then None else simple_parse (trimmed l))"

definition typed_lines :: "ruleType \<Rightarrow> string list \<Rightarrow> (string \<times> string) list" where
  "typed_lines t items = filter (\<lambda>(k, a). kind_type k = t) (List.map_filter line_parse items)"

definition addresses :: "string \<Rightarrow> string list \<Rightarrow> string list" where
  "addresses k items = map snd (filter (\<lambda>(k', a). k' = k) (List.map_filter line_parse items))"

definition uniq :: "'a list \<Rightarrow> 'a list" where
  "uniq xs = foldl (\<lambda>ys x. add_unique x ys) [] xs"

definition canonical_lines :: "string list \<Rightarrow> string list" where
  "canonical_lines items = concat (map (\<lambda>k. with_label (k @ '':'') (uniq (addresses k items))) simple_kinds)"

lemma map_filter_Cons: "List.map_filter f (x # xs) = (case f x of None \<Rightarrow> [] | Some y \<Rightarrow> [y]) @ List.map_filter f xs"
  by (auto simp: List.map_filter_def)

lemma map_filter_Nil [simp]: "List.map_filter f [] = []"
  by (simp add: List.map_filter_def)

lemma simple_pass_result:
  assumes "t \<noteq> custom"
  shows "simple_pass t i items r added e =
    (foldl simple_add r (typed_lines t items),
     added \<union> {i + j | j. j < length items \<and> (\<exists>k a. line_parse (items ! j) = Some (k, a) \<and> kind_type k = t)},
     e \<and> typed_lines t items = [])"
proof (induction items arbitrary: i r added e)
  case (Cons l items)
  let ?A = "\<lambda>i items. {i + j | j. j < length items \<and> (\<exists>k a. line_parse (items ! j) = Some (k, a) \<and> kind_type k = t)}"
  have step: "?A i (l # items) = (if \<exists>k a. line_parse l = Some (k, a) \<and> kind_type k = t then {i} else {}) \<union> ?A (Suc i) items"
  proof -
    have "x \<in> ?A i (l # items) \<longleftrightarrow>
        (x = i \<and> (\<exists>k a. line_parse l = Some (k, a) \<and> kind_type k = t)) \<or> x \<in> ?A (Suc i) items" for x
      by (simp add: less_Suc_eq_0_disj) (auto simp: less_Suc_eq_0_disj)
    then show ?thesis by auto
  qed
  consider "line_parse l = None" | k a where "line_parse l = Some (k, a)" by force
  then show ?case
  proof cases
    case 1
    then show ?thesis unfolding step
      by (auto simp: Cons.IH line_parse_def typed_lines_def map_filter_Cons add_simple_rule_parse [OF assms]
          split: if_splits)
  next
    case (2 k a)
    then have "trimmed l \<noteq> ''''" and "simple_parse (trimmed l) = Some (k, a)"
      by (auto simp: line_parse_def split: if_splits)
    with 2 show ?thesis unfolding step
      by (auto simp: Cons.IH typed_lines_def map_filter_Cons add_simple_rule_parse [OF assms])
  qed
qed (simp add: typed_lines_def)

lemma simple_field_add:
  "k \<in> set simple_kinds \<Longrightarrow>
   simple_field k (simple_add r (k', a)) = (if k' = k then add_unique a (simple_field k r) else simple_field k r)"
  by (auto simp: simple_field_def simple_add_def simple_kinds_def address_kinds_def)

lemma simple_field_foldl:
  assumes "k \<in> set simple_kinds"
  shows "simple_field k (foldl simple_add r ps) =
    foldl (\<lambda>xs a. add_unique a xs) (simple_field k r) (map snd (filter (\<lambda>(k', a). k' = k) ps))"
  by (induction ps arbitrary: r) (auto simp: simple_field_add [OF assms])

lemma simple_add_tag [simp]:
  "r_type (foldl simple_add r ps) = r_type r" "r_simpleAction (foldl simple_add r ps) = r_simpleAction r"
  "r_action (foldl simple_add r ps) = r_action r" "r_outboundID (foldl simple_add r ps) = r_outboundID r"
  by (induction ps arbitrary: r) (auto simp: simple_add_def split: if_splits)

lemma new_simple_rule_field [simp]: "simple_field k (new_simple_rule t a) = []"
  by (simp add: simple_field_def new_simple_rule_def new_RouteRule_def Let_def)

lemma new_simple_rule_simple: "t \<noteq> custom \<Longrightarrow> is_simple a (foldl simple_add (new_simple_rule t a) ps)"
  by (cases t) (simp_all add: is_simple_def new_simple_rule_def Let_def)

lemma simple_lines_fields:
  "simple_lines r = concat (map (\<lambda>k. with_label (k @ '':'') (simple_field k r)) simple_kinds)"
  by (simp add: simple_lines_def simple_kinds_def address_kinds_def simple_field_def)

lemma typed_field:
  assumes "k \<in> set simple_kinds"
  shows "simple_field k (foldl simple_add (new_simple_rule t a) (typed_lines t items)) =
    (if kind_type k = t then uniq (addresses k items) else [])"
proof -
  have "filter (\<lambda>(k', a). k' = k) (typed_lines t items) =
      (if kind_type k = t then filter (\<lambda>(k', a). k' = k) (List.map_filter line_parse items) else [])"
    by (auto simp: typed_lines_def filter_empty_conv intro: filter_cong)
  then show ?thesis by (simp add: simple_field_foldl [OF assms] addresses_def uniq_def)
qed

definition simple_rule_of :: "simpleAction \<Rightarrow> string list \<Rightarrow> ruleType \<Rightarrow> RouteRule" where
  "simple_rule_of a items t = foldl simple_add (new_simple_rule t a) (typed_lines t items)"

definition simple_rules_of :: "simpleAction \<Rightarrow> string list \<Rightarrow> RouteRule list" where
  "simple_rules_of a items =
     map (simple_rule_of a items)
       (filter (\<lambda>t. typed_lines t items \<noteq> []) [simpleAddress, simpleProcessName, simpleProcessPath])"

lemma simple_types_result:
  assumes "custom \<notin> set ts"
  shows "simple_types a items ts rules added =
    (rules @ map (simple_rule_of a items) (filter (\<lambda>t. typed_lines t items \<noteq> []) ts),
     added \<union> {j. j < length items \<and> (\<exists>k b. line_parse (items ! j) = Some (k, b) \<and> kind_type k \<in> set ts)})"
  using assms
proof (induction ts arbitrary: rules added)
  case (Cons t ts)
  then show ?case by (auto simp: simple_pass_result simple_rule_of_def)
qed simp

lemma kind_type_range: "kind_type k \<in> set [simpleAddress, simpleProcessName, simpleProcessPath]"
  by (simp add: kind_type_def)

lemma concat_zip_upt:
  "concat (map (\<lambda>(i, x). if P x \<or> i \<in> {j. j < length xs \<and> Q (xs ! j)} then [] else f x) (zip [0..<length xs] xs))
   = concat (map f (filter (\<lambda>x. \<not> P x \<and> \<not> Q x) xs))"
proof -
  have "map (\<lambda>(i, x). if P x \<or> i \<in> {j. j < length xs \<and> Q (xs ! j)} then [] else f x) (zip [0..<length xs] xs)
      = map (\<lambda>x. if P x \<or> Q x then [] else f x) xs"
    by (rule nth_equalityI) auto
  moreover have "concat (map (\<lambda>x. if P x \<or> Q x then [] else f x) xs) = concat (map f (filter (\<lambda>x. \<not> P x \<and> \<not> Q x) xs))" for xs
    by (induction xs) auto
  ultimately show ?thesis by metis
qed

lemma not_accepted: "(A \<and> \<not> (A \<and> x \<noteq> None)) \<longleftrightarrow> A \<and> x = None"
  by (cases x) auto

lemma UpdateSimpleRules_result:
  "UpdateSimpleRules content a c =
     (c\<lparr>c_Rules := filter (\<lambda>r. \<not> is_simple a r) (c_Rules c) @ simple_rules_of a (split_str [newline] content)\<rparr>,
      concat (map (\<lambda>l. ''Could not add '' @ l)
        (filter (\<lambda>l. trimmed l \<noteq> '''' \<and> simple_parse (trimmed l) = None) (split_str [newline] content))))"
proof -
  let ?items = "split_str [newline] content"
  have ex: "(\<exists>k b. line_parse l = Some (k, b)) \<longleftrightarrow> trimmed l \<noteq> '''' \<and> simple_parse (trimmed l) \<noteq> None" for l
    by (auto simp: line_parse_def)
  have added: "{j. j < length ?items \<and> (\<exists>k b. line_parse (?items ! j) = Some (k, b)
        \<and> kind_type k \<in> set [simpleAddress, simpleProcessName, simpleProcessPath])}
      = {j. j < length ?items \<and> (trimmed (?items ! j) \<noteq> '''' \<and> simple_parse (trimmed (?items ! j)) \<noteq> None)}"
    using ex kind_type_range by blast
  have flt: "filter (\<lambda>l. trimmed l \<noteq> '''' \<and> \<not> (trimmed l \<noteq> '''' \<and> simple_parse (trimmed l) \<noteq> None)) ?items
      = filter (\<lambda>l. trimmed l \<noteq> '''' \<and> simple_parse (trimmed l) = None) ?items"
    by (simp only: not_accepted)
  have "custom \<notin> set [simpleAddress, simpleProcessName, simpleProcessPath]" by simp
  from simple_types_result [OF this, of a ?items _ "{}"] show ?thesis
    by (simp only: UpdateSimpleRules_def Let_def added prod.case Un_empty_left simple_rules_of_def
        concat_zip_upt [where P = "\<lambda>l. trimmed l = ''''" and xs = ?items
          and Q = "\<lambda>l. trimmed l \<noteq> '''' \<and> simple_parse (trimmed l) \<noteq> None"] flt)
qed

lemma GetSimpleRules_append:
  "GetSimpleRules a (c\<lparr>c_Rules := xs @ ys\<rparr>) = GetSimpleRules a (c\<lparr>c_Rules := xs\<rparr>) @ GetSimpleRules a (c\<lparr>c_Rules := ys\<rparr>)"
  by (simp add: GetSimpleRules_def)

lemma GetSimpleRules_kept: "GetSimpleRules a (c\<lparr>c_Rules := filter (\<lambda>r. \<not> is_simple a r) xs\<rparr>) = []"
  by (induction xs) (auto simp: GetSimpleRules_def)

lemma simple_rule_of_lines:
  "simple_lines (simple_rule_of a items t) =
     concat (map (\<lambda>k. with_label (k @ '':'') (if kind_type k = t then uniq (addresses k items) else [])) simple_kinds)"
  unfolding simple_lines_fields simple_rule_of_def
  by (rule arg_cong [where f = concat], rule map_cong) (simp_all add: typed_field)

lemma untyped_lines:
  assumes "typed_lines t items = []" and "kind_type k = t"
  shows "addresses k items = []"
  using assms by (auto simp: typed_lines_def addresses_def filter_empty_conv)

lemma simple_rules_of_lines:
  "concat (map simple_lines (simple_rules_of a items)) = canonical_lines items"
proof -
  have none: "simple_lines (simple_rule_of a items t) = []" if "typed_lines t items = []" for t
    using untyped_lines [OF that] by (auto simp: simple_rule_of_lines with_label_def uniq_def)
  have eq: "concat (map simple_lines (map (simple_rule_of a items) (filter (\<lambda>t. typed_lines t items \<noteq> []) ts)))
      = concat (map (\<lambda>t. simple_lines (simple_rule_of a items t)) ts)" for ts
    by (induction ts) (auto simp: none)
  show ?thesis
    unfolding simple_rules_of_def eq
    by (simp add: simple_rule_of_lines canonical_lines_def simple_kinds_def
        address_kinds_def kind_type_def with_label_def)
qed

lemma concat_concat_lines:
  "concat (map (\<lambda>r. concat (map f (g r))) rs) = concat (map f (concat (map g rs)))"
  by (induction rs) auto

lemma GetSimpleRules_new:
  "GetSimpleRules a (c\<lparr>c_Rules := simple_rules_of a items\<rparr>) = concat (map (\<lambda>l. l @ [newline]) (canonical_lines items))"
proof -
  have "\<forall>r\<in>set (simple_rules_of a items). is_simple a r"
    by (auto simp: simple_rules_of_def simple_rule_of_def intro!: new_simple_rule_simple)
  then have "GetSimpleRules a (c\<lparr>c_Rules := simple_rules_of a items\<rparr>)
      = concat (map (\<lambda>r. concat (map (\<lambda>l. l @ [newline]) (simple_lines r))) (simple_rules_of a items))"
    unfolding GetSimpleRules_def by (auto intro!: arg_cong [where f = concat] map_cong)
  then show ?thesis by (simp add: concat_concat_lines simple_rules_of_lines)
qed

text \<open>Printing the canonical lines and reading them back.\<close>

lemma uniq_distinct: "distinct (uniq xs) \<and> set (uniq xs) = set xs"
proof -
  have "distinct ys \<Longrightarrow> distinct (foldl (\<lambda>ys x. add_unique x ys) ys xs)
      \<and> set (foldl (\<lambda>ys x. add_unique x ys) ys xs) = set ys \<union> set xs" for ys
    by (induction xs arbitrary: ys) (auto simp: add_unique_def)
  from this [of "[]"] show ?thesis by (simp add: uniq_def)
qed

lemma uniq_id: "distinct xs \<Longrightarrow> uniq xs = xs"
proof -
  have "distinct (ys @ xs) \<Longrightarrow> foldl (\<lambda>ys x. add_unique x ys) ys xs = ys @ xs" for ys
  proof (induction xs arbitrary: ys)
    case (Cons x xs)
    then have "add_unique x ys = ys @ [x]" by (simp add: add_unique_def)
    with Cons show ?case by simp
  qed simp
  from this [of "[]"] show "distinct xs \<Longrightarrow> uniq xs = xs" by (simp add: uniq_def)
qed

lemma addresses_iff: "b \<in> set (addresses k items) \<longleftrightarrow> (\<exists>l\<in>set items. line_parse l = Some (k, b))"
  by (force simp: addresses_def List.map_filter_def)

lemma trimmed_last: "trimmed l \<noteq> [] \<Longrightarrow> \<not> qt_space (last (trimmed l))"
  using trim_with_ends [of qt_space l] by (simp add: trimmed_def)

lemma trimmed_set: "set (trimmed l) \<subseteq> set l"
  by (simp add: trimmed_def set_trim_with)

lemma line_parse_canonical:
  assumes "line_parse l = Some (k, b)" and "newline \<notin> set l"
  shows "line_parse (k @ CHR '':'' # b) = Some (k, b)" and "newline \<notin> set (k @ CHR '':'' # b)"
proof -
  have t: "trimmed l \<noteq> []" "simple_parse (trimmed l) = Some (k, b)"
    using assms(1) by (auto simp: line_parse_def split: if_splits)
  from simple_parse_Some [OF t(2)] have p: "trimmed l = k @ CHR '':'' # b" "k \<in> set simple_kinds" by auto
  have k: "k \<noteq> []" "\<not> qt_space (hd k)" using simple_kind_no_colon [OF p(2)] by auto
  have "trimmed (k @ CHR '':'' # b) = k @ CHR '':'' # b"
    unfolding trimmed_def using k trimmed_last [OF t(1)] p(1) by (intro trim_with_id) auto
  then show "line_parse (k @ CHR '':'' # b) = Some (k, b)" using t p by (simp add: line_parse_def)
  show "newline \<notin> set (k @ CHR '':'' # b)" using trimmed_set [of l] p(1) assms(2) by auto
qed

lemma split_lines: "list_all (\<lambda>l. c \<notin> set l) ls \<Longrightarrow> split_str [c] (concat (map (\<lambda>l. l @ [c]) ls)) = ls @ [[]]"
proof (induction ls)
  case (Cons l ls)
  then show ?case using split_str_char_append [of c l "concat (map (\<lambda>l. l @ [c]) ls)"] by simp
qed simp

lemma canonical_lines_parse:
  assumes "list_all (\<lambda>l. newline \<notin> set l) items"
  shows "List.map_filter line_parse (canonical_lines items @ [[]]) =
      concat (map (\<lambda>k. map (Pair k) (uniq (addresses k items))) simple_kinds)"
    and "list_all (\<lambda>l. newline \<notin> set l \<and> line_parse l \<noteq> None) (canonical_lines items)"
proof -
  have line: "line_parse (k @ CHR '':'' # b) = Some (k, b) \<and> newline \<notin> set (k @ CHR '':'' # b)"
    if "b \<in> set (uniq (addresses k items))" for k b
    using that assms line_parse_canonical [of _ k b] uniq_distinct [of "addresses k items"]
    by (auto simp: addresses_iff list_all_iff)
  have one: "List.map_filter line_parse (with_label (k @ '':'') bs) = map (Pair k) bs"
    if "\<forall>b\<in>set bs. line_parse (k @ CHR '':'' # b) = Some (k, b)" for k bs
    using that by (induction bs) (auto simp: with_label_def map_filter_Cons)
  have app: "List.map_filter line_parse (xs @ ys) = List.map_filter line_parse xs @ List.map_filter line_parse ys" for xs ys
    by (simp add: List.map_filter_def)
  have "List.map_filter line_parse (concat (map (\<lambda>k. with_label (k @ '':'') (uniq (addresses k items))) ks))
      = concat (map (\<lambda>k. map (Pair k) (uniq (addresses k items))) ks)" for ks
    by (induction ks) (auto simp: app one line)
  moreover have "List.map_filter line_parse [[]] = []"
    by (simp add: map_filter_Cons line_parse_def trimmed_def trim_with_def)
  ultimately show "List.map_filter line_parse (canonical_lines items @ [[]]) =
      concat (map (\<lambda>k. map (Pair k) (uniq (addresses k items))) simple_kinds)"
    by (simp add: app canonical_lines_def)
  show "list_all (\<lambda>l. newline \<notin> set l \<and> line_parse l \<noteq> None) (canonical_lines items)"
    using line by (fastforce simp: canonical_lines_def with_label_def list_all_iff)
qed

lemma filter_kind_concat:
  "distinct ks \<Longrightarrow> k \<in> set ks \<Longrightarrow>
   map snd (filter (\<lambda>(k', b). k' = k) (concat (map (\<lambda>k. map (Pair k) (f k)) ks))) = f k"
proof (induction ks)
  case (Cons k' ks)
  have none: "filter (\<lambda>(k', b). k' = k) (concat (map (\<lambda>k. map (Pair k) (f k)) ks)) = []" if "k \<notin> set ks" for ks
    using that by (auto simp: filter_empty_conv)
  have "filter (\<lambda>(k', b). k' = k) (map (Pair k') (f k')) = (if k' = k then map (Pair k) (f k) else [])"
    by (auto simp: filter_empty_conv intro!: filter_True)
  with Cons none [of ks] show ?case by (auto simp: comp_def)
qed simp

lemma canonical_lines_again:
  assumes "list_all (\<lambda>l. newline \<notin> set l) items"
  shows "canonical_lines (canonical_lines items @ [[]]) = canonical_lines items"
proof -
  have "distinct simple_kinds" by (simp add: simple_kinds_def address_kinds_def)
  then have "addresses k (canonical_lines items @ [[]]) = uniq (addresses k items)" if "k \<in> set simple_kinds" for k
    using that canonical_lines_parse(1) [OF assms] by (simp add: addresses_def filter_kind_concat)
  then have "map (\<lambda>k. with_label (k @ '':'') (uniq (addresses k (canonical_lines items @ [[]])))) simple_kinds
      = map (\<lambda>k. with_label (k @ '':'') (uniq (addresses k items))) simple_kinds"
    by (intro map_cong) (auto simp: uniq_id uniq_distinct)
  from arg_cong [where f = concat, OF this] show ?thesis
    by (rule trans [OF canonical_lines_def trans [OF _ canonical_lines_def [symmetric]]])
qed

section \<open>Properties of the simple-rule editor\<close>

text \<open>C4. Updating the simple rules of an action keeps every other rule, in order and in front;
  appends at most one rule per kind (address, process name, process path), each carrying the
  action and the lines of its kind with duplicates dropped; and reports exactly the lines that
  are not blank and have no known label.\<close>

theorem UpdateSimpleRules_spec:
  "let lines = split_str [newline] content; (c', err) = UpdateSimpleRules content a c
   in c' = c\<lparr>c_Rules := filter (\<lambda>r. \<not> is_simple a r) (c_Rules c) @ simple_rules_of a lines\<rparr>
      \<and> concat (map simple_lines (filter (is_simple a) (c_Rules c'))) = canonical_lines lines
      \<and> err = concat (map (\<lambda>l. ''Could not add '' @ l)
                 (filter (\<lambda>l. trimmed l \<noteq> '''' \<and> simple_parse (trimmed l) = None) lines))"
proof -
  let ?new = "simple_rules_of a (split_str [newline] content)"
  have "filter (is_simple a) ?new = ?new"
    by (rule filter_True) (auto simp: simple_rules_of_def simple_rule_of_def intro!: new_simple_rule_simple)
  then show ?thesis
    using simple_rules_of_lines [of a "split_str [newline] content"]
    by (simp add: UpdateSimpleRules_result Let_def)
qed

text \<open>C35. The simple-rule editor is stable: once a text has been applied, the text that is shown
  for the action is accepted without a complaint and applying it again shows the same text.\<close>

theorem simple_rules_roundtrip:
  "let c' = fst (UpdateSimpleRules content a c);
       shown = GetSimpleRules a c';
       (c'', err) = UpdateSimpleRules shown a c'
   in err = '''' \<and> GetSimpleRules a c'' = shown"
proof -
  let ?items = "split_str [newline] content"
  have nl: "list_all (\<lambda>l. newline \<notin> set l) ?items"
    by (auto simp: list_all_iff split_str_char_free)
  let ?c = "fst (UpdateSimpleRules content a c)"
  have shown: "GetSimpleRules a (fst (UpdateSimpleRules t a d))
      = concat (map (\<lambda>l. l @ [newline]) (canonical_lines (split_str [newline] t)))" for t d
    by (simp add: UpdateSimpleRules_result GetSimpleRules_append GetSimpleRules_kept GetSimpleRules_new)
  note lines = canonical_lines_parse(2) [OF nl]
  have split: "split_str [newline] (GetSimpleRules a ?c) = canonical_lines ?items @ [[]]"
    using lines unfolding shown by (intro split_lines) (auto simp: list_all_iff)
  have "GetSimpleRules a (fst (UpdateSimpleRules (GetSimpleRules a ?c) a ?c)) = GetSimpleRules a ?c"
    by (simp only: shown split [unfolded shown] canonical_lines_again [OF nl])
  moreover have "filter (\<lambda>l. trimmed l \<noteq> '''' \<and> simple_parse (trimmed l) = None) (canonical_lines ?items @ [[]]) = []"
    using lines by (auto simp: filter_empty_conv list_all_iff line_parse_def trimmed_def trim_with_def split: if_splits)
  then have "snd (UpdateSimpleRules (GetSimpleRules a ?c) a ?c) = ''''"
    by (simp add: UpdateSimpleRules_result [of "GetSimpleRules a ?c"] split)
  ultimately show ?thesis by (simp add: Let_def split_beta)
qed

end
