(* ===== verification/Config_Item.thy ===== *)
theory Config_Item
  imports Qt_Base "HOL-Library.Countable"
begin

text \<open>
  The persistence layer of every stored object (\<open>JsonStore\<close> and its \<open>configItem\<close>s of
  \<^verbatim>\<open>src/gharqad/dataStore/ConfigItem.cpp\<close>, \<^verbatim>\<open>src/gharqad/dataStore/Configs.cpp\<close>).
  A stored object is the list of its named items in the order of its item map (a \<open>QMap\<close>
  keyed by the MD5 of the name), each item with its current value; a list of objects carries the
  object its \<open>createJsonStore\<close> makes, an enumeration its table of names. Integers keep their
  width. No class of the program registers an item of type \<open>double\<close>, so there is no such value.

  \<open>QDataStream\<close>, \<open>QJsonDocument\<close> and the hash are arguments: a record of codecs with the
  law that what was written is read back (\<open>stream_ok\<close>), a parser, and a function on names.
\<close>

section \<open>Items\<close>

type_synonym byte = "8 word"
type_synonym bytes = "8 word list"
type_synonym int32 = "32 word"

datatype cval =
    CInt int32
  | CLong "64 word"
  | CStr string
  | CBool bool
  | CBoolPtr bool
  | CStrList "string list"
  | CIntList "int32 list"
  | CStrMap jobject
  | CStore "(string \<times> cval) list option"
  | CShared "(string \<times> cval) list option"
  | CStoreList "(string \<times> cval) list" "(string \<times> cval) list list"
  | CEnum "(string \<times> int32) list" "int32 option"

type_synonym store = "(string \<times> cval) list"

text \<open>\<open>ConfigItemType\<close>.\<close>

fun item_type :: "cval \<Rightarrow> byte" where
  "item_type (CInt _) = 0"
| "item_type (CLong _) = 1"
| "item_type (CStr _) = 2"
| "item_type (CBool _) = 3"
| "item_type (CStrList _) = 4"
| "item_type (CIntList _) = 5"
| "item_type (CStore _) = 6"
| "item_type (CStoreList _ _) = 7"
| "item_type (CStrMap _) = 8"
| "item_type (CBoolPtr _) = 9"
| "item_type (CShared _) = 10"
| "item_type (CEnum _ _) = 12"

definition type_double :: byte where "type_double = 11"

definition item_at :: "(string \<Rightarrow> bytes) \<Rightarrow> bytes \<Rightarrow> store \<Rightarrow> (string \<times> cval) option" where
  "item_at hsh key fs = find (\<lambda>(n, _). hsh n = key) fs"

definition put_field :: "string \<Rightarrow> cval \<Rightarrow> store \<Rightarrow> store" where
  "put_field name v fs = map (\<lambda>(n, w). if n = name then (n, v) else (n, w)) fs"

section \<open>Enumerations\<close>

definition ModifyEnumName :: "string \<Rightarrow> string" where
  "ModifyEnumName name = filter (\<lambda>c. c \<noteq> CHR ''_'' \<and> c \<noteq> CHR ''-'') (map lower_char name)"

definition enum_of_name :: "(string \<times> int32) list \<Rightarrow> string \<Rightarrow> int32" where
  "enum_of_name m name =
     (case find (\<lambda>(n, _). ModifyEnumName n = ModifyEnumName name) m of
        Some (_, v) \<Rightarrow> v | None \<Rightarrow> 0)"

definition enum_name :: "(string \<times> int32) list \<Rightarrow> int32 \<Rightarrow> string" where
  "enum_name m v = (case find (\<lambda>(_, w). w = v) m of Some (n, _) \<Rightarrow> n | None \<Rightarrow> '''')"

definition enum_set_json :: "(string \<times> int32) list \<Rightarrow> int32 \<Rightarrow> json \<Rightarrow> int32" where
  "enum_set_json m old j =
     (case j of QStr s \<Rightarrow> enum_of_name m s | QNum i \<Rightarrow> word_of_int (json_toInt j) | _ \<Rightarrow> old)"

text \<open>\<open>JsonEnum::set(int)\<close> assigns the value and calls the class's \<open>trigger\<close> with the old value and the
  new one. A trigger may change the value again and a global state, the last argument. That of
  \<open>JsonEnum\<close> does nothing; only the storage type of the settings has one of its own, see
  \<open>SetConfigType\<close> in \<open>Db_Store\<close>, which leaves the values below as they are unless neither the
  old nor the new number is a storage type. \<open>enum_set_json\<close> and \<open>enum_set_bytes\<close> are the values
  that are set.\<close>

type_synonym 'c trigger = "int32 \<Rightarrow> int32 \<Rightarrow> 'c \<Rightarrow> int32 \<times> 'c"

definition no_trigger :: "'c trigger" where
  "no_trigger old_value new_value c = (new_value, c)"

definition JsonEnum_set :: "'c trigger \<Rightarrow> int32 \<Rightarrow> int32 \<Rightarrow> 'c \<Rightarrow> int32 \<times> 'c" where
  "JsonEnum_set trigger old value c = trigger old value c"

definition JsonEnum_set_json :: "'c trigger \<Rightarrow> (string \<times> int32) list \<Rightarrow> int32 \<Rightarrow> json \<Rightarrow> 'c \<Rightarrow> int32 \<times> 'c" where
  "JsonEnum_set_json trigger m old j c =
     (case j of
        QStr s \<Rightarrow> JsonEnum_set trigger old (enum_of_name m s) c
      | QNum i \<Rightarrow> JsonEnum_set trigger old (word_of_int (json_toInt j)) c
      | _ \<Rightarrow> (old, c))"

lemma enum_set_json_plain: "JsonEnum_set_json no_trigger m old j c = (enum_set_json m old j, c)"
  by (cases j) (simp_all add: JsonEnum_set_json_def JsonEnum_set_def no_trigger_def enum_set_json_def)

section \<open>JSON\<close>

definition json_toInteger :: "json \<Rightarrow> int" where
  "json_toInteger j = (case j of QNum i \<Rightarrow> if - (2 ^ 63) \<le> i \<and> i < 2 ^ 63 then i else 0 | _ \<Rightarrow> 0)"

definition QListStr2QJsonArray :: "string list \<Rightarrow> json list" where
  "QListStr2QJsonArray xs = map QStr (filter (\<lambda>item. trimmed item \<noteq> '''') xs)"

definition QListInt2QJsonArray :: "int32 list \<Rightarrow> json list" where
  "QListInt2QJsonArray xs = map (\<lambda>i. QNum (sint i)) xs"

definition QJsonArray2QListInt :: "json list \<Rightarrow> int32 list" where
  "QJsonArray2QListInt arr = map (\<lambda>j. word_of_int (json_toInt j)) arr"

text \<open>\<open>getNode\<close> of every item and the loop of \<open>ToJson\<close>, which inserts the items in map order.\<close>

function (sequential) getNode :: "cval \<Rightarrow> json" and to_json :: "jobject \<Rightarrow> store \<Rightarrow> jobject"
  and to_jsons :: "store list \<Rightarrow> json list" where
  "getNode (CInt i) = QNum (sint i)"
| "getNode (CLong i) = QNum (sint i)"
| "getNode (CStr s) = QStr s"
| "getNode (CBool b) = QBool b"
| "getNode (CBoolPtr b) = QBool b"
| "getNode (CStrList xs) = QArr (QListStr2QJsonArray xs)"
| "getNode (CIntList xs) = QArr (QListInt2QJsonArray xs)"
| "getNode (CStrMap m) = QObj m"
| "getNode (CStore None) = QNull"
| "getNode (CStore (Some fs)) = QObj (to_json [] fs)"
| "getNode (CShared None) = QNull"
| "getNode (CShared (Some fs)) = QObj (to_json [] fs)"
| "getNode (CStoreList tpl xs) = QArr (to_jsons xs)"
| "getNode (CEnum m None) = QStr ''''"
| "getNode (CEnum m (Some v)) = QStr (enum_name m v)"
| "to_json obj [] = obj"
| "to_json obj ((n, v) # fs) = to_json (qset n (getNode v) obj) fs"
| "to_jsons [] = []"
| "to_jsons (fs # rest) = QObj (to_json [] fs) # to_jsons rest"
  by pat_completeness auto
termination
  by (relation "measure (\<lambda>x. case x of Inl v \<Rightarrow> size v
        | Inr (Inl (obj, fs)) \<Rightarrow> size_list (size_prod (\<lambda>_. 0) size) fs
        | Inr (Inr xs) \<Rightarrow> size_list (size_list (size_prod (\<lambda>_. 0) size)) xs)") auto

definition ToJson :: "string list \<Rightarrow> store \<Rightarrow> jobject" where
  "ToJson without fs = to_json [] (filter (\<lambda>(n, _). n \<notin> set without) fs)"

text \<open>\<open>setNode\<close> of every item and the loop of \<open>FromJson\<close>. An item whose stored hash is the
  key's but whose name is another, and a key without an item, are skipped.\<close>

function (sequential) setNode :: "(string \<Rightarrow> bytes) \<Rightarrow> (string \<Rightarrow> json option) \<Rightarrow> cval \<Rightarrow> json \<Rightarrow> cval"
  and from_json :: "(string \<Rightarrow> bytes) \<Rightarrow> (string \<Rightarrow> json option) \<Rightarrow> store \<Rightarrow> jobject \<Rightarrow> store"
  and from_jsons :: "(string \<Rightarrow> bytes) \<Rightarrow> (string \<Rightarrow> json option) \<Rightarrow> store \<Rightarrow> json list \<Rightarrow> store list" where
  "setNode hsh doc (CInt i) j = (case j of QNum _ \<Rightarrow> CInt (word_of_int (json_toInt j)) | _ \<Rightarrow> CInt i)"
| "setNode hsh doc (CLong i) j = (case j of QNum _ \<Rightarrow> CLong (word_of_int (json_toInteger j)) | _ \<Rightarrow> CLong i)"
| "setNode hsh doc (CStr s) j = (case j of QStr t \<Rightarrow> CStr t | _ \<Rightarrow> CStr s)"
| "setNode hsh doc (CBool b) j = (case j of QBool c \<Rightarrow> CBool c | _ \<Rightarrow> CBool b)"
| "setNode hsh doc (CBoolPtr b) j = (case j of QBool c \<Rightarrow> CBoolPtr c | _ \<Rightarrow> CBoolPtr b)"
| "setNode hsh doc (CStrList xs) j =
     (case j of QArr arr \<Rightarrow> if arr \<noteq> [] then CStrList (QJsonArray2QListStr arr) else CStrList xs | _ \<Rightarrow> CStrList xs)"
| "setNode hsh doc (CIntList xs) j =
     (case j of QArr arr \<Rightarrow> if arr \<noteq> [] then CIntList (QJsonArray2QListInt arr) else CIntList xs | _ \<Rightarrow> CIntList xs)"
| "setNode hsh doc (CStrMap m) j =
     (case j of QObj kvs \<Rightarrow> CStrMap kvs
      | QStr s \<Rightarrow> CStrMap (case doc s of Some d \<Rightarrow> json_toObject d | None \<Rightarrow> [])
      | _ \<Rightarrow> CStrMap m)"
| "setNode hsh doc (CStore (Some fs)) (QObj kvs) = CStore (Some (from_json hsh doc fs kvs))"
| "setNode hsh doc (CShared (Some fs)) (QObj kvs) = CShared (Some (from_json hsh doc fs kvs))"
| "setNode hsh doc (CStoreList tpl xs) (QArr arr) = CStoreList tpl (from_jsons hsh doc tpl arr)"
| "setNode hsh doc (CEnum m (Some v)) j = CEnum m (Some (enum_set_json m v j))"
| "setNode hsh doc v j = v"
| "from_json hsh doc fs [] = fs"
| "from_json hsh doc fs ((key, j) # kvs) =
     (case item_at hsh (hsh key) fs of
        None \<Rightarrow> from_json hsh doc fs kvs
      | Some (name, v) \<Rightarrow>
          if name \<noteq> key then from_json hsh doc fs kvs
          else from_json hsh doc (put_field name (setNode hsh doc v j) fs) kvs)"
| "from_jsons hsh doc tpl [] = []"
| "from_jsons hsh doc tpl (QObj kvs # rest) = from_json hsh doc tpl kvs # from_jsons hsh doc tpl rest"
| "from_jsons hsh doc tpl (_ # rest) = tpl # from_jsons hsh doc tpl rest"
  by pat_completeness auto
termination
  by (relation "measure (\<lambda>x. case x of Inl (_, _, _, j) \<Rightarrow> size j
        | Inr (Inl (_, _, _, kvs)) \<Rightarrow> size_list (size_prod (\<lambda>_. 0) size) kvs
        | Inr (Inr (_, _, _, xs)) \<Rightarrow> size_list size xs)") auto

text \<open>Whether reading the object has to go through the class's fallback object as well.\<close>

definition json_fallback :: "(string \<Rightarrow> bytes) \<Rightarrow> store \<Rightarrow> jobject \<Rightarrow> bool" where
  "json_fallback hsh fs obj =
     list_ex (\<lambda>(key, _). case item_at hsh (hsh key) fs of None \<Rightarrow> True | Some (name, _) \<Rightarrow> name \<noteq> key) obj"

text \<open>\<open>FromJson\<close>: the object itself and, when a key is unknown and the class has one, its
  fallback object, which reads the same JSON.\<close>

definition FromJson ::
  "(string \<Rightarrow> bytes) \<Rightarrow> (string \<Rightarrow> json option) \<Rightarrow> store option \<Rightarrow> store \<Rightarrow> jobject \<Rightarrow> store \<times> store option" where
  "FromJson hsh doc fallback fs obj =
     (from_json hsh doc fs obj,
      if json_fallback hsh fs obj then map_option (\<lambda>fb. from_json hsh doc fb obj) fallback else None)"

section \<open>Binary form\<close>

record 'a codec =
  put_v :: "'a \<Rightarrow> bytes"
  get_v :: "bytes \<Rightarrow> 'a \<times> bytes"

definition codec_ok :: "'a codec \<Rightarrow> bool" where
  "codec_ok c \<longleftrightarrow> (\<forall>x rest. get_v c (put_v c x @ rest) = (x, rest))"

text \<open>The stream operators that the items use.\<close>

record qstream =
  s_byte :: "byte codec"
  s_int :: "int32 codec"
  s_long :: "64 word codec"
  s_bool :: "bool codec"
  s_str :: "string codec"
  s_strs :: "string list codec"
  s_ints :: "int32 list codec"
  s_map :: "jobject codec"
  s_bytes :: "bytes codec"
  s_arrays :: "bytes list codec"

definition stream_ok :: "qstream \<Rightarrow> bool" where
  "stream_ok S \<longleftrightarrow>
     codec_ok (s_byte S) \<and> codec_ok (s_int S) \<and> codec_ok (s_long S) \<and> codec_ok (s_bool S)
     \<and> codec_ok (s_str S) \<and> codec_ok (s_strs S) \<and> codec_ok (s_ints S) \<and> codec_ok (s_map S)
     \<and> codec_ok (s_bytes S) \<and> codec_ok (s_arrays S)"

text \<open>\<open>JsonEnum::operator QByteArray\<close> copies the \<open>int\<close> in the order of the (little-endian) host
  behind a zero byte; the assignment from bytes reads it back, or takes the bytes as a name. Reading
  \<open>value[0]\<close> of an empty array or four bytes of a shorter one is out of range.\<close>

datatype serr = OutOfFuel | BadRead

definition le32 :: "int32 \<Rightarrow> bytes" where
  "le32 w = [ucast w, ucast (drop_bit 8 w), ucast (drop_bit 16 w), ucast (drop_bit 24 w)]"

definition of_le32 :: "bytes \<Rightarrow> int32" where
  "of_le32 bs = word_of_nat (unat (bs ! 0) + 256 * unat (bs ! 1) + 65536 * unat (bs ! 2) + 16777216 * unat (bs ! 3))"

definition enum_bytes :: "int32 \<Rightarrow> bytes" where
  "enum_bytes v = 0 # le32 v"

definition enum_set_bytes :: "(string \<times> int32) list \<Rightarrow> bytes \<Rightarrow> serr + int32" where
  "enum_set_bytes m value =
     (case value of
        [] \<Rightarrow> Inl BadRead
      | b # bs \<Rightarrow> if b = 0 then (if length bs < 4 then Inl BadRead else Inr (of_le32 bs))
                 else Inr (enum_of_name m (map (\<lambda>x. char_of (unat x)) value)))"

text \<open>\<open>serialize\<close> of every item and the loop of \<open>ToBytes\<close>.\<close>

function (sequential) serialize :: "qstream \<Rightarrow> (string \<Rightarrow> bytes) \<Rightarrow> cval \<Rightarrow> bytes"
  and to_bytes :: "qstream \<Rightarrow> (string \<Rightarrow> bytes) \<Rightarrow> store \<Rightarrow> bytes"
  and to_bytes_all :: "qstream \<Rightarrow> (string \<Rightarrow> bytes) \<Rightarrow> store list \<Rightarrow> bytes list" where
  "serialize S hsh (CInt i) = put_v (s_int S) i"
| "serialize S hsh (CLong i) = put_v (s_long S) i"
| "serialize S hsh (CStr s) = put_v (s_str S) s"
| "serialize S hsh (CBool b) = put_v (s_bool S) b"
| "serialize S hsh (CBoolPtr b) = put_v (s_bool S) b"
| "serialize S hsh (CStrList xs) = put_v (s_strs S) xs"
| "serialize S hsh (CIntList xs) = put_v (s_ints S) xs"
| "serialize S hsh (CStrMap m) = put_v (s_map S) m"
| "serialize S hsh (CStore None) = put_v (s_bytes S) []"
| "serialize S hsh (CStore (Some fs)) = put_v (s_bytes S) (to_bytes S hsh fs)"
| "serialize S hsh (CShared None) = put_v (s_bytes S) []"
| "serialize S hsh (CShared (Some fs)) = put_v (s_bytes S) (to_bytes S hsh fs)"
| "serialize S hsh (CEnum m None) = put_v (s_bytes S) []"
| "serialize S hsh (CEnum m (Some v)) = put_v (s_bytes S) (enum_bytes v)"
| "serialize S hsh (CStoreList tpl xs) = put_v (s_arrays S) (to_bytes_all S hsh xs)"
| "to_bytes S hsh [] = []"
| "to_bytes S hsh ((n, v) # fs) =
     put_v (s_bytes S) (hsh n) @ put_v (s_byte S) (item_type v) @ serialize S hsh v @ to_bytes S hsh fs"
| "to_bytes_all S hsh [] = []"
| "to_bytes_all S hsh (fs # rest) = to_bytes S hsh fs # to_bytes_all S hsh rest"
  by pat_completeness auto
termination
  by (relation "measure (\<lambda>x. case x of Inl (_, _, v) \<Rightarrow> size v
        | Inr (Inl (_, _, fs)) \<Rightarrow> size_list (size_prod (\<lambda>_. 0) size) fs
        | Inr (Inr (_, _, xs)) \<Rightarrow> size_list (size_list (size_prod (\<lambda>_. 0) size)) xs)") auto

definition ToBytes :: "qstream \<Rightarrow> (string \<Rightarrow> bytes) \<Rightarrow> string list \<Rightarrow> store \<Rightarrow> bytes" where
  "ToBytes S hsh without fs = to_bytes S hsh (filter (\<lambda>(n, _). n \<notin> set without) fs)"

text \<open>\<open>getConfigItem(type)\<close> reading an item that the class does not have: what is read is dropped.
  The switch has no case for \<open>double\<close>, whose eight bytes are read as a byte array.\<close>

definition skip_item :: "qstream \<Rightarrow> byte \<Rightarrow> bytes \<Rightarrow> bytes" where
  "skip_item S t bs =
     (if t = 0 then snd (get_v (s_int S) bs)
      else if t = 1 then snd (get_v (s_long S) bs)
      else if t = 3 \<or> t = 9 then snd (get_v (s_bool S) bs)
      else if t = 2 then snd (get_v (s_str S) bs)
      else if t = 4 then snd (get_v (s_strs S) bs)
      else if t = 5 then snd (get_v (s_ints S) bs)
      else if t = 8 then snd (get_v (s_map S) bs)
      else if t = 7 then snd (get_v (s_arrays S) bs)
      else snd (get_v (s_bytes S) bs))"

text \<open>\<open>deserialize\<close> of every item and the loop of \<open>FromBytes\<close>, which ends at the end of the
  data. The codecs are arguments, so the loop spends one unit of fuel per item; the second result
  of \<open>from_bytes\<close> is the fallback flag.\<close>

fun deserialize :: "nat \<Rightarrow> qstream \<Rightarrow> (string \<Rightarrow> bytes) \<Rightarrow> cval \<Rightarrow> bytes \<Rightarrow> serr + (cval \<times> bytes)"
  and from_bytes :: "nat \<Rightarrow> qstream \<Rightarrow> (string \<Rightarrow> bytes) \<Rightarrow> store \<Rightarrow> bytes \<Rightarrow> serr + (store \<times> bool)"
  and from_bytes_all :: "nat \<Rightarrow> qstream \<Rightarrow> (string \<Rightarrow> bytes) \<Rightarrow> store \<Rightarrow> bytes list \<Rightarrow> serr + store list" where
  "deserialize 0 S hsh v bs = Inl OutOfFuel"
| "deserialize (Suc n) S hsh v bs =
     (case v of
        CInt _ \<Rightarrow> (let (x, r) = get_v (s_int S) bs in Inr (CInt x, r))
      | CLong _ \<Rightarrow> (let (x, r) = get_v (s_long S) bs in Inr (CLong x, r))
      | CStr _ \<Rightarrow> (let (x, r) = get_v (s_str S) bs in Inr (CStr x, r))
      | CBool _ \<Rightarrow> (let (x, r) = get_v (s_bool S) bs in Inr (CBool x, r))
      | CBoolPtr _ \<Rightarrow> (let (x, r) = get_v (s_bool S) bs in Inr (CBoolPtr x, r))
      | CStrList _ \<Rightarrow> (let (x, r) = get_v (s_strs S) bs in Inr (CStrList x, r))
      | CIntList _ \<Rightarrow> (let (x, r) = get_v (s_ints S) bs in Inr (CIntList x, r))
      | CStrMap _ \<Rightarrow> (let (x, r) = get_v (s_map S) bs in Inr (CStrMap x, r))
      | CStore None \<Rightarrow> Inr (CStore None, snd (get_v (s_bytes S) bs))
      | CStore (Some fs) \<Rightarrow>
          (let (arr, r) = get_v (s_bytes S) bs
           in case from_bytes n S hsh fs arr of Inl e \<Rightarrow> Inl e | Inr (fs', _) \<Rightarrow> Inr (CStore (Some fs'), r))
      | CShared None \<Rightarrow> Inr (CShared None, snd (get_v (s_bytes S) bs))
      | CShared (Some fs) \<Rightarrow>
          (let (arr, r) = get_v (s_bytes S) bs
           in case from_bytes n S hsh fs arr of Inl e \<Rightarrow> Inl e | Inr (fs', _) \<Rightarrow> Inr (CShared (Some fs'), r))
      | CEnum m None \<Rightarrow> Inr (CEnum m None, snd (get_v (s_bytes S) bs))
      | CEnum m (Some _) \<Rightarrow>
          (let (arr, r) = get_v (s_bytes S) bs
           in case enum_set_bytes m arr of Inl e \<Rightarrow> Inl e | Inr x \<Rightarrow> Inr (CEnum m (Some x), r))
      | CStoreList tpl _ \<Rightarrow>
          (let (arrs, r) = get_v (s_arrays S) bs
           in case from_bytes_all n S hsh tpl arrs of Inl e \<Rightarrow> Inl e | Inr xs \<Rightarrow> Inr (CStoreList tpl xs, r)))"
| "from_bytes 0 S hsh fs bs = Inl OutOfFuel"
| "from_bytes (Suc n) S hsh fs bs =
     (if bs = [] then Inr (fs, False)
      else let (key, bs1) = get_v (s_bytes S) bs; (t, bs2) = get_v (s_byte S) bs1
           in case item_at hsh key fs of
                Some (name, v) \<Rightarrow>
                  if item_type v = t
                  then (case deserialize n S hsh v bs2 of
                          Inl e \<Rightarrow> Inl e
                        | Inr (v', bs3) \<Rightarrow> from_bytes n S hsh (put_field name v' fs) bs3)
                  else map_sum id (\<lambda>(fs', _). (fs', True)) (from_bytes n S hsh fs (skip_item S t bs2))
              | None \<Rightarrow> map_sum id (\<lambda>(fs', _). (fs', True)) (from_bytes n S hsh fs (skip_item S t bs2)))"
| "from_bytes_all 0 S hsh tpl arrs = Inl OutOfFuel"
| "from_bytes_all (Suc n) S hsh tpl [] = Inr []"
| "from_bytes_all (Suc n) S hsh tpl (a # arrs) =
     (case from_bytes n S hsh tpl a of
        Inl e \<Rightarrow> Inl e
      | Inr (fs, _) \<Rightarrow>
          (case from_bytes_all n S hsh tpl arrs of Inl e \<Rightarrow> Inl e | Inr rest \<Rightarrow> Inr (fs # rest)))"

definition FromBytes ::
  "nat \<Rightarrow> qstream \<Rightarrow> (string \<Rightarrow> bytes) \<Rightarrow> store option \<Rightarrow> store \<Rightarrow> bytes \<Rightarrow> serr + (store \<times> store option)" where
  "FromBytes n S hsh fallback fs bs =
     (case from_bytes n S hsh fs bs of
        Inl e \<Rightarrow> Inl e
      | Inr (fs', fb) \<Rightarrow>
          (case (if fb then fallback else None) of
             None \<Rightarrow> Inr (fs', None)
           | Some st \<Rightarrow> map_sum id (\<lambda>(st', _). (fs', Some st')) (from_bytes n S hsh st bs)))"

section \<open>Shapes\<close>

text \<open>The shape of an object is what its class fixes: names, types, nested objects and tables.
  An object is well formed when the hashes of the names of each nested object are distinct and
  the members of a list have the shape of the list's template.\<close>

function (sequential) shape_v :: "cval \<Rightarrow> cval" and shape :: "store \<Rightarrow> store" where
  "shape_v (CInt _) = CInt 0"
| "shape_v (CLong _) = CLong 0"
| "shape_v (CStr _) = CStr ''''"
| "shape_v (CBool _) = CBool False"
| "shape_v (CBoolPtr _) = CBoolPtr False"
| "shape_v (CStrList _) = CStrList []"
| "shape_v (CIntList _) = CIntList []"
| "shape_v (CStrMap _) = CStrMap []"
| "shape_v (CStore None) = CStore None"
| "shape_v (CStore (Some fs)) = CStore (Some (shape fs))"
| "shape_v (CShared None) = CShared None"
| "shape_v (CShared (Some fs)) = CShared (Some (shape fs))"
| "shape_v (CStoreList tpl _) = CStoreList tpl []"
| "shape_v (CEnum m None) = CEnum m None"
| "shape_v (CEnum m (Some _)) = CEnum m (Some 0)"
| "shape [] = []"
| "shape ((n, v) # fs) = (n, shape_v v) # shape fs"
  by pat_completeness auto
termination
  by (relation "measure (case_sum size (size_list (size_prod (\<lambda>_. 0) size)))") auto

function (sequential) val_wf :: "(string \<Rightarrow> bytes) \<Rightarrow> cval \<Rightarrow> bool" and store_wf :: "(string \<Rightarrow> bytes) \<Rightarrow> store \<Rightarrow> bool"
  and stores_wf :: "(string \<Rightarrow> bytes) \<Rightarrow> store \<Rightarrow> store list \<Rightarrow> bool" where
  "val_wf hsh (CStore (Some fs)) = store_wf hsh fs"
| "val_wf hsh (CShared (Some fs)) = store_wf hsh fs"
| "val_wf hsh (CStoreList tpl xs) = stores_wf hsh tpl xs"
| "val_wf hsh v = True"
| "store_wf hsh [] = True"
| "store_wf hsh ((n, v) # fs) = (hsh n \<notin> hsh ` fst ` set fs \<and> val_wf hsh v \<and> store_wf hsh fs)"
| "stores_wf hsh tpl [] = True"
| "stores_wf hsh tpl (x # xs) = (shape x = shape tpl \<and> store_wf hsh x \<and> stores_wf hsh tpl xs)"
  by pat_completeness auto
termination
  by (relation "measure (\<lambda>x. case x of Inl (_, v) \<Rightarrow> size v
        | Inr (Inl (_, fs)) \<Rightarrow> size_list (size_prod (\<lambda>_. 0) size) fs
        | Inr (Inr (_, _, xs)) \<Rightarrow> size_list (size_list (size_prod (\<lambda>_. 0) size)) xs)") auto

abbreviation store_size :: "store \<Rightarrow> nat" where
  "store_size \<equiv> size_list (size_prod (\<lambda>_. 0) size)"

abbreviation stores_size :: "store list \<Rightarrow> nat" where
  "stores_size \<equiv> size_list store_size"

lemma shape_type: "shape_v v = shape_v w \<Longrightarrow> item_type v = item_type w"
  by (cases v rule: shape_v.cases; cases w rule: shape_v.cases) simp_all

lemma shape_Cons: "shape d = (n, v) # fs \<longleftrightarrow> (\<exists>w d'. d = (n, w) # d' \<and> shape_v w = v \<and> shape d' = fs)"
  by (cases d) auto

lemma shape_names: "shape d = shape s \<Longrightarrow> map fst d = map fst s"
proof (induction s arbitrary: d)
  case (Cons p s)
  obtain n v where p: "p = (n, v)" by force
  with Cons.prems have "shape d = (n, shape_v v) # shape s" by simp
  then obtain w d' where d: "d = (n, w) # d'" "shape d' = shape s" unfolding shape_Cons by blast
  from Cons.IH [OF d(2)] show ?case by (simp add: d(1) p)
next
  case Nil
  then show ?case by (cases d rule: shape.cases) simp_all
qed

lemma store_wf_distinct: "store_wf hsh fs \<Longrightarrow> distinct (map (hsh \<circ> fst) fs)"
proof (induction fs)
  case (Cons p fs)
  then show ?case by (cases p) (simp add: image_comp)
qed simp

lemma item_at_split:
  assumes "distinct (map (hsh \<circ> fst) (done @ (n, v) # fs))"
  shows "item_at hsh (hsh n) (done @ (n, v) # fs) = Some (n, v)"
  using assms by (induction "done") (auto simp: item_at_def)

lemma put_field_id: "n \<notin> fst ` set fs \<Longrightarrow> put_field n w fs = fs"
  by (induction fs) (auto simp: put_field_def)

lemma put_field_split:
  assumes "distinct (map (hsh \<circ> fst) (done @ (n, v) # fs))"
  shows "put_field n w (done @ (n, v) # fs) = done @ (n, w) # fs"
proof -
  have "n \<notin> fst ` set done" and "n \<notin> fst ` set fs" using assms by auto
  then have "put_field n w done = done" and "put_field n w fs = fs" by (simp_all add: put_field_id)
  then show ?thesis by (simp add: put_field_def)
qed

section \<open>Codecs\<close>

lemma codec_okD: "codec_ok c \<Longrightarrow> get_v c (put_v c x @ rest) = (x, rest)"
  by (simp add: codec_ok_def)

lemma stream_codecs:
  assumes "stream_ok S"
  shows "get_v (s_byte S) (put_v (s_byte S) b @ r) = (b, r)" "get_v (s_int S) (put_v (s_int S) i @ r) = (i, r)"
    "get_v (s_long S) (put_v (s_long S) l @ r) = (l, r)" "get_v (s_bool S) (put_v (s_bool S) t @ r) = (t, r)"
    "get_v (s_str S) (put_v (s_str S) str @ r) = (str, r)" "get_v (s_strs S) (put_v (s_strs S) strs @ r) = (strs, r)"
    "get_v (s_ints S) (put_v (s_ints S) is @ r) = (is, r)" "get_v (s_map S) (put_v (s_map S) m @ r) = (m, r)"
    "get_v (s_bytes S) (put_v (s_bytes S) bs @ r) = (bs, r)" "get_v (s_arrays S) (put_v (s_arrays S) bss @ r) = (bss, r)"
  using assms by (simp_all add: stream_ok_def codec_okD)

lemma codec_nonempty:
  assumes "codec_ok c" and "x \<noteq> y"
  shows "put_v c x \<noteq> []"
proof
  assume "put_v c x = []"
  with codec_okD [OF assms(1), of x "put_v c y @ []"] codec_okD [OF assms(1), of y "[]"] assms(2)
  show False by simp
qed

lemma to_bytes_nonempty: "stream_ok S \<Longrightarrow> to_bytes S hsh ((n, v) # fs) \<noteq> []"
proof -
  assume "stream_ok S"
  then have "codec_ok (s_byte S)" by (simp add: stream_ok_def)
  from codec_nonempty [OF this, of "item_type v" "item_type v + 1"] show ?thesis by simp
qed

lemma of_le32_le32: "of_le32 (le32 w @ r) = w"
proof -
  have n: "unat w = unat w mod 256 + 256 * (unat w div 256 mod 256) + 65536 * (unat w div 65536 mod 256)
      + 16777216 * (unat w div 16777216 mod 256)"
  proof -
    have "unat w < 2 ^ 32" using unsigned_less [of w] by simp
    then have "unat w = unat w mod 4294967296" by simp
    then show ?thesis
      using mod_mult2_eq [of "unat w" 256 256] mod_mult2_eq [of "unat w" 65536 256]
        mod_mult2_eq [of "unat w" 16777216 256] by simp
  qed
  have b: "unat (ucast (drop_bit k w) :: byte) = unat w div 2 ^ k mod 256" for k
    by (simp only: unsigned_ucast_eq unat_drop_bit_eq) (simp add: drop_bit_eq_div take_bit_eq_mod)
  have "of_le32 (le32 w @ r) = word_of_nat (unat w)"
    unfolding of_le32_def le32_def using b [of 0] b [of 8] b [of 16] b [of 24]
    by (subst n) simp
  then show ?thesis by simp
qed

lemma enum_roundtrip: "enum_set_bytes m (enum_bytes v) = Inr v"
  using of_le32_le32 [of v "[]"] by (simp add: enum_set_bytes_def enum_bytes_def le32_def)

section \<open>The binary round trip\<close>

lemma shape_v_eqs:
  "shape_v d = CInt 0 \<Longrightarrow> \<exists>x. d = CInt x" "shape_v d = CLong 0 \<Longrightarrow> \<exists>x. d = CLong x"
  "shape_v d = CStr '''' \<Longrightarrow> \<exists>x. d = CStr x" "shape_v d = CBool False \<Longrightarrow> \<exists>x. d = CBool x"
  "shape_v d = CBoolPtr False \<Longrightarrow> \<exists>x. d = CBoolPtr x" "shape_v d = CStrList [] \<Longrightarrow> \<exists>x. d = CStrList x"
  "shape_v d = CIntList [] \<Longrightarrow> \<exists>x. d = CIntList x" "shape_v d = CStrMap [] \<Longrightarrow> \<exists>x. d = CStrMap x"
  "shape_v d = CStore None \<Longrightarrow> d = CStore None" "shape_v d = CShared None \<Longrightarrow> d = CShared None"
  "shape_v d = CStore (Some fs) \<Longrightarrow> \<exists>gs. d = CStore (Some gs) \<and> shape gs = fs"
  "shape_v d = CShared (Some fs) \<Longrightarrow> \<exists>gs. d = CShared (Some gs) \<and> shape gs = fs"
  "shape_v d = CStoreList tpl [] \<Longrightarrow> \<exists>xs. d = CStoreList tpl xs"
  "shape_v d = CEnum m None \<Longrightarrow> d = CEnum m None" "shape_v d = CEnum m (Some 0) \<Longrightarrow> \<exists>x. d = CEnum m (Some x)"
  by (cases d rule: shape_v.cases; simp)+

lemma bytes_roundtrip:
  shows "\<And>d n rest. stream_ok S \<Longrightarrow> val_wf hsh v \<Longrightarrow> shape_v d = shape_v v \<Longrightarrow> size v < n \<Longrightarrow>
      deserialize n S hsh d (serialize S hsh v @ rest) = Inr (v, rest)"
    and "\<And>d n pre. stream_ok S \<Longrightarrow> store_wf hsh fs \<Longrightarrow> shape d = shape fs \<Longrightarrow> store_size fs < n \<Longrightarrow>
      distinct (map (hsh \<circ> fst) (pre @ fs)) \<Longrightarrow>
      from_bytes n S hsh (pre @ d) (to_bytes S hsh fs) = Inr (pre @ fs, False)"
    and "\<And>tpl n. stream_ok S \<Longrightarrow> stores_wf hsh tpl xs \<Longrightarrow> stores_size xs < n \<Longrightarrow>
      from_bytes_all n S hsh tpl (to_bytes_all S hsh xs) = Inr xs"
proof (induction S hsh v and S hsh fs and S hsh xs rule: serialize_to_bytes_to_bytes_all.induct)
  case (10 S hsh fs)
  obtain m where m: "n = Suc m" "store_size fs < m" using 10 by (cases n) auto
  obtain gs where gs: "d = CStore (Some gs)" "shape gs = shape fs" using 10 by (auto dest: shape_v_eqs)
  have "from_bytes m S hsh gs (to_bytes S hsh fs) = Inr (fs, False)"
    using 10(1) [OF 10(2) _ gs(2) m(2), of "[]"] 10(3) store_wf_distinct [of hsh fs] by (simp add: comp_def)
  then show ?case using 10(2) by (simp add: m(1) gs(1) stream_codecs)
next
  case (12 S hsh fs)
  obtain m where m: "n = Suc m" "store_size fs < m" using 12 by (cases n) auto
  obtain gs where gs: "d = CShared (Some gs)" "shape gs = shape fs" using 12 by (auto dest: shape_v_eqs)
  have "from_bytes m S hsh gs (to_bytes S hsh fs) = Inr (fs, False)"
    using 12(1) [OF 12(2) _ gs(2) m(2), of "[]"] 12(3) store_wf_distinct [of hsh fs] by (simp add: comp_def)
  then show ?case using 12(2) by (simp add: m(1) gs(1) stream_codecs)
next
  case (15 S hsh tpl xs)
  obtain m where m: "n = Suc m" "stores_size xs < m" using 15 by (cases n) auto
  obtain ys where "d = CStoreList tpl ys" using 15 by (auto dest: shape_v_eqs)
  with 15 m show ?case by (simp add: stream_codecs)
next
  case (16 S hsh)
  then show ?case by (cases n; cases d rule: shape.cases) auto
next
  case (17 S hsh k v fs)
  obtain m where m: "n = Suc m" "size v < m" "store_size fs < m" using 17 by (cases n) auto
  obtain w d' where d: "d = (k, w) # d'" "shape_v w = shape_v v" "shape d' = shape fs"
    using 17(5) by (auto simp: shape_Cons)
  have names: "map (hsh \<circ> fst) (pre @ (k, w) # d') = map (hsh \<circ> fst) (pre @ (k, v) # fs)"
    using arg_cong [OF shape_names [OF d(3)], of "map hsh"] by simp
  have "distinct (map (hsh \<circ> fst) (pre @ (k, v) # fs))" using 17(7) by (simp add: comp_def)
  then have dist: "distinct (map (hsh \<circ> fst) (pre @ (k, w) # d'))" by (simp only: names)
  note at = item_at_split [OF dist] and put = put_field_split [OF dist, of v]
  have val: "deserialize m S hsh w (serialize S hsh v @ to_bytes S hsh fs) = Inr (v, to_bytes S hsh fs)"
    using 17(4) m(2) d(2) by (intro 17(1) [OF 17(3)]) auto
  have rest: "from_bytes m S hsh ((pre @ [(k, v)]) @ d') (to_bytes S hsh fs) = Inr ((pre @ [(k, v)]) @ fs, False)"
    using 17(4,7) m(3) d(3) by (intro 17(2) [OF 17(3)]) auto
  show ?case
    using to_bytes_nonempty [OF 17(3), of hsh k v fs] rest 17(3)
    by (auto simp: m(1) d(1) stream_codecs at shape_type [OF d(2)] val put)
next
  case (19 S hsh x xs)
  obtain m where m: "n = Suc m" "store_size x < m" "stores_size xs < m" using 19 by (cases n) auto
  have "from_bytes m S hsh tpl (to_bytes S hsh x) = Inr (x, False)"
    using 19(1) [OF 19(3), of tpl m "[]"] 19(4) m(2) store_wf_distinct [of hsh x] by (simp add: comp_def)
  with 19 m show ?case by simp
qed ((case_tac n; auto dest!: shape_v_eqs simp: stream_codecs enum_roundtrip)+)

section \<open>The JSON round trip\<close>

text \<open>When the JSON of an object restores it in a fresh object: blank texts are dropped from a
  list, an empty list does not replace the list of the fresh object, and an enumeration
  survives when its value has a name.\<close>

function (sequential) json_keeps_v :: "cval \<Rightarrow> cval \<Rightarrow> bool" and json_keeps :: "store \<Rightarrow> store \<Rightarrow> bool"
  and json_keeps_all :: "store \<Rightarrow> store list \<Rightarrow> bool" where
  "json_keeps_v (CStrList d) (CStrList xs) = (list_all (\<lambda>x. trimmed x \<noteq> '''') xs \<and> (xs = [] \<longrightarrow> d = []))"
| "json_keeps_v (CIntList d) (CIntList xs) = (xs = [] \<longrightarrow> d = [])"
| "json_keeps_v (CEnum _ (Some _)) (CEnum m (Some v)) = (enum_of_name m (enum_name m v) = v)"
| "json_keeps_v (CStore (Some d)) (CStore (Some fs)) = json_keeps d fs"
| "json_keeps_v (CShared (Some d)) (CShared (Some fs)) = json_keeps d fs"
| "json_keeps_v (CStoreList d _) (CStoreList tpl xs) = json_keeps_all tpl xs"
| "json_keeps_v d v = True"
| "json_keeps ((_, d) # ds) ((_, v) # fs) = (json_keeps_v d v \<and> json_keeps ds fs)"
| "json_keeps ds fs = True"
| "json_keeps_all tpl [] = True"
| "json_keeps_all tpl (x # xs) = (json_keeps tpl x \<and> json_keeps_all tpl xs)"
  by pat_completeness auto
termination
  by (relation "measure (\<lambda>x. case x of Inl (_, v) \<Rightarrow> size v
        | Inr (Inl (_, fs)) \<Rightarrow> store_size fs | Inr (Inr (_, xs)) \<Rightarrow> stores_size xs)") auto

lemma to_json_lookup:
  "distinct (map fst fs) \<Longrightarrow>
   map_of (to_json obj fs) n = (case map_of fs n of Some v \<Rightarrow> Some (getNode v) | None \<Rightarrow> map_of obj n)"
proof (induction fs arbitrary: obj)
  case (Cons p fs)
  obtain k v where p: "p = (k, v)" by force
  with Cons.prems have "map_of fs k = None" by (simp add: map_of_eq_None_iff)
  with Cons p show ?case by (auto simp: qset_lookup split: option.splits)
qed simp

lemma to_json_sorted: "qsorted obj \<Longrightarrow> qsorted (to_json obj fs)"
proof (induction fs arbitrary: obj)
  case (Cons p fs)
  then show ?case by (cases p) (simp add: qset_sorted)
qed simp

lemma qsorted_distinct: "qsorted kvs \<Longrightarrow> distinct (map fst kvs)"
  unfolding qsorted_def by (auto simp: strict_sorted_iff)

lemma put_field_names [simp]: "map fst (put_field n v fs) = map fst fs"
  by (induction fs) (auto simp: put_field_def)

lemma map_of_put_field: "map_of (put_field n w fs) k = (if k = n \<and> n \<in> fst ` set fs then Some w else map_of fs k)"
proof (induction fs)
  case (Cons p fs)
  obtain m v where p: "p = (m, v)" by force
  show ?case
    using Cons unfolding put_field_def p by (cases "m = n"; cases "k = m") simp_all
qed (simp add: put_field_def)

lemma item_at_own:
  assumes "distinct (map (hsh \<circ> fst) fs)"
  shows "item_at hsh (hsh k) fs = Some (k, v) \<longleftrightarrow> map_of fs k = Some v"
  using assms
proof (induction fs)
  case (Cons p fs)
  obtain m w where p: "p = (m, w)" by force
  show ?case
  proof (cases "hsh m = hsh k")
    case True
    then have "m \<noteq> k \<Longrightarrow> map_of fs k = None"
      using Cons.prems p by (auto simp: map_of_eq_None_iff image_iff)
    with True p show ?thesis by (auto simp: item_at_def)
  next
    case False
    with Cons p show ?thesis by (auto simp: item_at_def)
  qed
qed (simp add: item_at_def)

lemma from_json_names [simp]: "map fst (from_json hsh doc fs obj) = map fst fs"
  by (induction obj arbitrary: fs) (auto split: option.split)

lemma from_json_lookup:
  assumes "distinct (map (hsh \<circ> fst) fs)" and "distinct (map fst obj)"
  shows "map_of (from_json hsh doc fs obj) n =
    (case map_of fs n of None \<Rightarrow> None
     | Some v \<Rightarrow> Some (case map_of obj n of None \<Rightarrow> v | Some j \<Rightarrow> setNode hsh doc v j))"
  using assms
proof (induction obj arbitrary: fs)
  case Nil
  then show ?case by (simp split: option.split)
next
  case (Cons p obj)
  obtain k j where p: "p = (k, j)" by force
  have k: "map_of obj k = None" using Cons.prems(2) p by (simp add: map_of_eq_None_iff)
  show ?case
  proof (cases "map_of fs k")
    case None
    then have "from_json hsh doc fs (p # obj) = from_json hsh doc fs obj"
      using item_at_own [OF Cons.prems(1), of k] p by (auto split: option.split)
    with None Cons k p show ?thesis by (auto split: option.split)
  next
    case (Some v)
    then have at: "item_at hsh (hsh k) fs = Some (k, v)" using item_at_own [OF Cons.prems(1)] by blast
    let ?fs = "put_field k (setNode hsh doc v j) fs"
    have "map (hsh \<circ> fst) ?fs = map hsh (map fst ?fs)" by (simp only: map_map)
    also have "\<dots> = map (hsh \<circ> fst) fs" by simp
    finally have d: "distinct (map (hsh \<circ> fst) ?fs)" using Cons.prems(1) by (simp add: comp_def)
    have "map_of (from_json hsh doc ?fs obj) n = (case map_of ?fs n of None \<Rightarrow> None
        | Some v \<Rightarrow> Some (case map_of obj n of None \<Rightarrow> v | Some j \<Rightarrow> setNode hsh doc v j))"
      using Cons.prems(2) by (intro Cons.IH [OF d]) simp
    with at Some k p show ?thesis by (auto simp: map_of_put_field rev_image_eqI dest: map_of_SomeD split: option.split)
  qed
qed

lemma fields_eqI:
  assumes "map fst fs = map fst gs" and "distinct (map fst gs)" and "\<And>n. map_of fs n = map_of gs n"
  shows "fs = gs"
proof (rule nth_equalityI)
  show len: "length fs = length gs" using assms(1) by (metis length_map)
  fix i assume i: "i < length fs"
  have f: "map_of fs (fst (fs ! i)) = Some (snd (fs ! i))" and g: "map_of gs (fst (gs ! i)) = Some (snd (gs ! i))"
    using i len assms(1,2) by (auto intro!: map_of_is_SomeI)
  have "fst (fs ! i) = fst (gs ! i)" using assms(1) i len by (metis nth_map)
  with f g assms(3) show "fs ! i = gs ! i" by (metis option.inject prod.collapse)
qed

lemma QJsonArray_strs:
  "list_all (\<lambda>x. trimmed x \<noteq> '''') xs \<Longrightarrow> QListStr2QJsonArray xs = map QStr xs"
  by (induction xs) (auto simp: QListStr2QJsonArray_def)

lemma strs_QJsonArray: "QJsonArray2QListStr (map QStr xs) = xs"
  by (simp add: QJsonArray2QListStr_def comp_def)

lemma word_json_int: "word_of_int (json_toInt (QNum (sint (i :: int32)))) = i"
  using sint_ge [of i] sint_lt [of i] by simp

lemma word_json_integer: "word_of_int (json_toInteger (QNum (sint (i :: 64 word)))) = i"
  using sint_ge [of i] sint_lt [of i] by (simp add: json_toInteger_def)

lemma ints_QJsonArray: "QJsonArray2QListInt (QListInt2QJsonArray xs) = xs"
  using word_json_int by (induction xs) (simp_all add: QJsonArray2QListInt_def QListInt2QJsonArray_def del: json_toInt.simps)

lemma QListInt2QJsonArray_Nil: "QListInt2QJsonArray xs = [] \<longleftrightarrow> xs = []"
  by (simp add: QListInt2QJsonArray_def)

lemma from_json_fields:
  assumes wf: "store_wf hsh fs" and shape: "shape d = shape fs"
    and vals: "\<And>n v w. map_of fs n = Some v \<Longrightarrow> map_of d n = Some w \<Longrightarrow> setNode hsh doc w (getNode v) = v"
  shows "from_json hsh doc d (to_json [] fs) = fs"
proof (rule fields_eqI)
  have names: "map fst d = map fst fs" by (rule shape_names [OF shape])
  have hd: "distinct (map (hsh \<circ> fst) fs)" by (rule store_wf_distinct [OF wf])
  then have dfs: "distinct (map fst fs)" by (metis distinct_map map_map)
  have "map (hsh \<circ> fst) d = map (hsh \<circ> fst) fs" using arg_cong [OF names, of "map hsh"] by simp
  with hd have dd: "distinct (map (hsh \<circ> fst) d)" by metis
  show "map fst (from_json hsh doc d (to_json [] fs)) = map fst fs" using names by simp
  show "distinct (map fst fs)" by (rule dfs)
  fix n
  have obj: "distinct (map fst (to_json [] fs))"
    by (intro qsorted_distinct to_json_sorted) (simp add: qsorted_def)
  have dom: "map_of d n = None \<longleftrightarrow> map_of fs n = None"
    using arg_cong [OF names, of set] by (simp add: map_of_eq_None_iff)
  show "map_of (from_json hsh doc d (to_json [] fs)) n = map_of fs n"
    unfolding from_json_lookup [OF dd obj] to_json_lookup [OF dfs]
    using dom vals [of n] by (auto split: option.split)
qed

lemma zip_lookup:
  assumes "shape d = shape fs" and "distinct (map fst fs)" and "map_of fs n = Some v" and "map_of d n = Some w"
  shows "shape_v w = shape_v v \<and> (json_keeps d fs \<longrightarrow> json_keeps_v w v)"
  using assms
proof (induction fs arbitrary: d)
  case (Cons p fs)
  obtain m u where p: "p = (m, u)" by force
  obtain x d' where d: "d = (m, x) # d'" "shape_v x = shape_v u" "shape d' = shape fs"
    using Cons.prems(1) p by (auto simp: shape_Cons)
  show ?case using Cons.IH [OF d(3)] Cons.prems d p by (auto split: if_splits)
qed simp

lemma store_wf_vals: "store_wf hsh fs \<Longrightarrow> (n, v) \<in> set fs \<Longrightarrow> val_wf hsh v"
proof (induction fs)
  case (Cons p fs)
  then show ?case by (cases p) auto
qed simp

lemma json_roundtrip_store:
  assumes IH: "\<And>n v w. (n, v) \<in> set fs \<Longrightarrow> val_wf hsh v \<Longrightarrow> shape_v w = shape_v v \<Longrightarrow> json_keeps_v w v
      \<Longrightarrow> setNode hsh doc w (getNode v) = v"
    and "store_wf hsh fs" and "shape d = shape fs" and "json_keeps d fs"
  shows "from_json hsh doc d (to_json [] fs) = fs"
proof (rule from_json_fields [OF assms(2,3)])
  have dist: "distinct (map fst fs)" using store_wf_distinct [OF assms(2)] by (metis distinct_map map_map)
  fix n v w
  assume "map_of fs n = Some v" and "map_of d n = Some w"
  then show "setNode hsh doc w (getNode v) = v"
    using zip_lookup [OF assms(3) dist] assms(4) store_wf_vals [OF assms(2)]
    by (intro IH [of n]) (auto dest: map_of_SomeD)
qed

lemma json_roundtrip_all:
  fixes obj :: jobject and fs :: store
  shows "\<And>d. val_wf hsh v \<Longrightarrow> shape_v d = shape_v v \<Longrightarrow> json_keeps_v d v \<Longrightarrow> setNode hsh doc d (getNode v) = v"
    and "\<And>n v d. (n, v) \<in> set fs \<Longrightarrow> val_wf hsh v \<Longrightarrow> shape_v d = shape_v v \<Longrightarrow> json_keeps_v d v \<Longrightarrow>
      setNode hsh doc d (getNode v) = v"
    and "\<And>tpl. stores_wf hsh tpl xs \<Longrightarrow> json_keeps_all tpl xs \<Longrightarrow> from_jsons hsh doc tpl (to_jsons xs) = xs"
proof (induction v and obj fs and xs rule: getNode_to_json_to_jsons.induct)
  case (1 i)
  then show ?case using word_json_int [of i] by (auto dest!: shape_v_eqs simp del: json_toInt.simps)
next
  case (2 i)
  then show ?case using word_json_integer [of i] by (auto dest!: shape_v_eqs)
next
  case (6 xs)
  then obtain ys where d: "d = CStrList ys" by (auto dest: shape_v_eqs)
  with 6 show ?case by (auto simp: QJsonArray_strs strs_QJsonArray)
next
  case (7 xs)
  then obtain ys where d: "d = CIntList ys" by (auto dest: shape_v_eqs)
  with 7 show ?case by (auto simp: ints_QJsonArray QListInt2QJsonArray_Nil)
next
  case (10 fs)
  then obtain gs where gs: "d = CStore (Some gs)" "shape gs = shape fs" by (auto dest: shape_v_eqs)
  with 10 have "from_json hsh doc gs (to_json [] fs) = fs" by (intro json_roundtrip_store) auto
  with gs show ?case by simp
next
  case (12 fs)
  then obtain gs where gs: "d = CShared (Some gs)" "shape gs = shape fs" by (auto dest: shape_v_eqs)
  with 12 have "from_json hsh doc gs (to_json [] fs) = fs" by (intro json_roundtrip_store) auto
  with gs show ?case by simp
next
  case (15 m v)
  then obtain x where "d = CEnum m (Some x)" by (auto dest: shape_v_eqs)
  with 15 show ?case by (simp add: enum_set_json_def)
next
  case (17 obj n v fs)
  then show ?case by auto
next
  case (19 fs xs)
  then have "from_json hsh doc tpl (to_json [] fs) = fs" by (intro json_roundtrip_store) auto
  with 19 show ?case by simp
qed (auto dest!: shape_v_eqs)

section \<open>Files\<close>

text \<open>\<open>content\<close>: the JSON text or the binary form behind a magic word, and the choice between the
  readers. \<open>False\<close> sends \<open>LoadFromFile\<close> to the INI reader. The JSON printer and parser are
  arguments. These are the object's own part of a read. What the class's fallback object does after
  it (a second reading of the same data into that object and its \<open>fallback_job\<close>, which may use the
  storage) is the function \<open>f_job\<close> of the class's format in \<open>Db_Store\<close>, run exactly when the
  flag of \<open>from_bytes\<close> or \<open>json_fallback\<close> is set, and given for the one class that has a fallback object
  in \<open>Group_Load\<close>. \<open>Inl\<close> is a read outside the data or too little fuel; the properties give
  more fuel than the object has items.\<close>

definition magic :: bytes where
  "magic = [78, 101, 107, 111, 66, 111, 120]"

definition content_out :: "qstream \<Rightarrow> (string \<Rightarrow> bytes) \<Rightarrow> (json \<Rightarrow> bytes) \<Rightarrow> bool \<Rightarrow> store \<Rightarrow> bytes" where
  "content_out S hsh print force_json_configs fs =
     (if force_json_configs then print (QObj (ToJson [] fs)) else magic @ ToBytes S hsh [] fs)"

definition FromJsonBytes ::
  "(string \<Rightarrow> bytes) \<Rightarrow> (string \<Rightarrow> json option) \<Rightarrow> (bytes \<Rightarrow> json option) \<Rightarrow> store \<Rightarrow> bytes \<Rightarrow> store \<times> bool" where
  "FromJsonBytes hsh doc parse fs data =
     (case parse data of None \<Rightarrow> (fs, False) | Some j \<Rightarrow> (from_json hsh doc fs (json_toObject j), True))"

definition content_in ::
  "nat \<Rightarrow> qstream \<Rightarrow> (string \<Rightarrow> bytes) \<Rightarrow> (string \<Rightarrow> json option) \<Rightarrow> (bytes \<Rightarrow> json option) \<Rightarrow> store \<Rightarrow> bytes
   \<Rightarrow> serr + (store \<times> bool)" where
  "content_in n S hsh doc parse fs data =
     (if length data > 7 \<and> take 7 data = magic
      then map_sum id (\<lambda>(fs', _). (fs', True)) (from_bytes n S hsh fs (drop 7 data))
      else Inr (FromJsonBytes hsh doc parse fs data))"

section \<open>Comparison\<close>

fun CompareValue :: "'a::linorder \<Rightarrow> 'a \<Rightarrow> int" where
  "CompareValue a b = (if a > b then 1 else if a = b then 0 else -1)"

text \<open>The loop of \<open>COMPARE(intList)\<close> and \<open>COMPARE(strList)\<close>: the lengths first, then the
  first difference.\<close>

fun compare_elems :: "int \<Rightarrow> 'a::linorder list \<Rightarrow> 'a list \<Rightarrow> int" where
  "compare_elems r (a # as) (b # bs) = (if r \<noteq> 0 then r else compare_elems (CompareValue a b) as bs)"
| "compare_elems r _ _ = r"

definition compare_list :: "'a::linorder list \<Rightarrow> 'a list \<Rightarrow> int" where
  "compare_list a b = compare_elems (CompareValue (length a) (length b)) a b"

definition variant_toString :: "json \<Rightarrow> string" where
  "variant_toString j =
     (case j of QStr s \<Rightarrow> s | QNum i \<Rightarrow> show_int i | QBool b \<Rightarrow> if b then ''true'' else ''false'' | _ \<Rightarrow> '''')"

definition compare_map :: "jobject \<Rightarrow> jobject \<Rightarrow> int" where
  "compare_map a b =
     (let r = CompareValue (length a) (length b)
      in if r \<noteq> 0 then r
         else let r = CompareValue (map fst a) (map fst b)
              in if r \<noteq> 0 then r
                 else compare_elems 0 (map (variant_toString \<circ> snd) a) (map (variant_toString \<circ> snd) b))"

text \<open>\<open>compare\<close> of every item, of two items (types, names, values) and of two objects. The types
  of the two values are equal when their values are compared. The loop of
  \<open>COMPARE(jsonStoreList)\<close> returns in its first round.\<close>

function (sequential) compare_v :: "(string \<Rightarrow> bytes) \<Rightarrow> cval \<Rightarrow> cval \<Rightarrow> int"
  and compare_items :: "(string \<Rightarrow> bytes) \<Rightarrow> string list \<Rightarrow> store \<Rightarrow> store \<Rightarrow> int"
  and compare :: "(string \<Rightarrow> bytes) \<Rightarrow> string list \<Rightarrow> store \<Rightarrow> store option \<Rightarrow> int" where
  "compare_v hsh v w =
     (case v of
        CInt a \<Rightarrow> (case w of CInt b \<Rightarrow> CompareValue (sint a) (sint b) | _ \<Rightarrow> 0)
      | CLong a \<Rightarrow> (case w of CLong b \<Rightarrow> CompareValue (sint a) (sint b) | _ \<Rightarrow> 0)
      | CStr a \<Rightarrow> (case w of CStr b \<Rightarrow> CompareValue a b | _ \<Rightarrow> 0)
      | CBool a \<Rightarrow> (case w of CBool b \<Rightarrow> CompareValue a b | _ \<Rightarrow> 0)
      | CBoolPtr a \<Rightarrow> (case w of CBoolPtr b \<Rightarrow> CompareValue a b | _ \<Rightarrow> 0)
      | CStrList a \<Rightarrow> (case w of CStrList b \<Rightarrow> compare_list a b | _ \<Rightarrow> 0)
      | CIntList a \<Rightarrow> (case w of CIntList b \<Rightarrow> compare_list (map sint a) (map sint b) | _ \<Rightarrow> 0)
      | CStrMap a \<Rightarrow> (case w of CStrMap b \<Rightarrow> compare_map a b | _ \<Rightarrow> 0)
      | CStore st \<Rightarrow>
          (case w of
             CStore b \<Rightarrow> (case st of None \<Rightarrow> if b = None then 0 else 1 | Some a \<Rightarrow> compare hsh [] a b)
           | _ \<Rightarrow> 0)
      | CShared st \<Rightarrow>
          (case w of
             CShared b \<Rightarrow> (case st of None \<Rightarrow> if b = None then 0 else 1 | Some a \<Rightarrow> compare hsh [] a b)
           | _ \<Rightarrow> 0)
      | CStoreList _ a \<Rightarrow>
          (case w of
             CStoreList _ b \<Rightarrow>
               (let r = CompareValue (length a) (length b)
                in case a of
                     [] \<Rightarrow> r
                   | x # _ \<Rightarrow> if r \<noteq> 0 then r else compare hsh [] x (Some (hd b)))
           | _ \<Rightarrow> 0)
      | CEnum _ a \<Rightarrow>
          (case w of
             CEnum _ b \<Rightarrow>
               (let r = CompareValue (a = None) (b = None)
                in if r \<noteq> 0 then r
                   else case a of None \<Rightarrow> 0 | Some x \<Rightarrow> CompareValue (sint x) (sint (the b)))
           | _ \<Rightarrow> 0))"
| "compare_items hsh skip ((n, v) # fs) ((m, w) # gs) =
     (if n \<in> set skip then compare_items hsh skip fs gs
      else let r = CompareValue (unat (item_type v)) (unat (item_type w))
           in if r \<noteq> 0 then r
              else let r = CompareValue n m
                   in if r \<noteq> 0 then r
                      else let r = compare_v hsh v w
                           in if r \<noteq> 0 then r else compare_items hsh skip fs gs)"
| "compare_items hsh skip _ _ = 0"
| "compare hsh skip fs None = 1"
| "compare hsh skip fs (Some gs) =
     (let r = CompareValue (length fs) (length gs)
      in if r \<noteq> 0 then r
         else let r = CompareValue (map (hsh \<circ> fst) fs) (map (hsh \<circ> fst) gs)
              in if r \<noteq> 0 then r else compare_items hsh skip fs gs)"
  by pat_completeness auto
termination
  by (relation "measure (\<lambda>x. case x of Inl (_, v, _) \<Rightarrow> 2 * size v
        | Inr (Inl (_, _, fs, _)) \<Rightarrow> 2 * store_size fs
        | Inr (Inr (_, _, fs, _)) \<Rightarrow> 2 * store_size fs + 1)") auto

section \<open>Lemmas for the properties\<close>

lemma CompareValue_refl [simp]: "CompareValue a a = 0"
  by simp

lemma CompareValue_0: "CompareValue a b = 0 \<longleftrightarrow> a = b"
  by auto

lemma compare_elems_refl [simp]: "compare_elems 0 a a = 0"
  by (induction a) auto

lemma compare_list_0: "compare_list a b = 0 \<longleftrightarrow> a = b"
proof -
  have "length a = length b \<Longrightarrow> compare_elems 0 a b = 0 \<longleftrightarrow> a = b"
  proof (induction a arbitrary: b)
    case (Cons x a)
    then obtain y c where b: "b = y # c" by (cases b) auto
    have nz: "r \<noteq> 0 \<Longrightarrow> compare_elems r p q \<noteq> 0" for r and p q :: "'a list"
      by (induction r p q rule: compare_elems.induct) auto
    show ?case using Cons b nz by (cases "x = y") auto
  qed simp
  moreover have "r \<noteq> 0 \<Longrightarrow> compare_elems r a b = r" for r by (cases a; cases b) auto
  ultimately show ?thesis by (cases "length a = length b") (auto simp: compare_list_def)
qed

lemma compare_same:
  shows "w = v \<Longrightarrow> compare_v hsh v w = 0"
    and "gs = fs \<Longrightarrow> compare_items hsh skip fs gs = 0"
    and "b = Some es \<Longrightarrow> compare hsh skp es b = 0"
proof (induction hsh v w and hsh skip fs gs and hsh skp es b rule: compare_v_compare_items_compare.induct)
  case (1 hsh v w)
  then show ?case
    by (cases v) (auto simp: compare_list_0 compare_map_def Let_def split: option.split list.split)
qed (auto simp: Let_def)

lemma skip_serialized:
  assumes "stream_ok S"
  shows "skip_item S (item_type v) (serialize S hsh v @ r) = r"
  by (cases "(S, hsh, v)" rule: serialize.cases) (simp_all add: skip_item_def stream_codecs [OF assms])

lemma from_bytes_known:
  assumes S: "stream_ok S" and wf: "store_wf hsh fs"
    and shape: "shape d = shape (filter (\<lambda>(m, _). m \<in> K) fs)" and fuel: "store_size fs < n"
    and dist: "distinct (map (hsh \<circ> fst) (pre @ fs))" and K: "fst ` set pre \<subseteq> K"
  shows "from_bytes n S hsh (pre @ d) (to_bytes S hsh fs) =
    Inr (pre @ filter (\<lambda>(m, _). m \<in> K) fs, list_ex (\<lambda>(m, _). m \<notin> K) fs)"
  using wf shape fuel dist K
proof (induction fs arbitrary: d n pre)
  case Nil
  then show ?case by (cases n; cases d rule: shape.cases) auto
next
  case (Cons p fs)
  obtain k v where p: "p = (k, v)" by force
  obtain m where m: "n = Suc m" "size v < m" "store_size fs < m" using Cons.prems(3) p by (cases n) auto
  have wf: "val_wf hsh v" "store_wf hsh fs" using Cons.prems(1) p by auto
  have ne: "to_bytes S hsh (p # fs) \<noteq> []" using to_bytes_nonempty [OF S] p by simp
  have names: "map (hsh \<circ> fst) d = map (hsh \<circ> fst) (filter (\<lambda>(m, _). m \<in> K) (p # fs))"
    using arg_cong [OF shape_names [OF Cons.prems(2)], of "map hsh"] by simp
  show ?case
  proof (cases "k \<in> K")
    case True
    obtain w d' where d: "d = (k, w) # d'" "shape_v w = shape_v v" "shape d' = shape (filter (\<lambda>(m, _). m \<in> K) fs)"
      using Cons.prems(2) p True by (auto simp: shape_Cons)
    have "distinct (map (hsh \<circ> fst) (pre @ filter (\<lambda>(m, _). m \<in> K) (p # fs)))"
      using Cons.prems(4) by (auto simp: comp_def intro!: distinct_map_filter)
    then have dist: "distinct (map (hsh \<circ> fst) (pre @ (k, w) # d'))"
      using names d(1) by (simp only: map_append)
    note at = item_at_split [OF dist] and put = put_field_split [OF dist, of v]
    note val = bytes_roundtrip(1) [OF S wf(1) d(2) m(2)]
    have "from_bytes m S hsh ((pre @ [p]) @ d') (to_bytes S hsh fs) =
        Inr ((pre @ [p]) @ filter (\<lambda>(m, _). m \<in> K) fs, list_ex (\<lambda>(m, _). m \<notin> K) fs)"
      using Cons.prems True p by (intro Cons.IH [OF wf(2) d(3) m(3)]) auto
    with ne True show ?thesis
      by (auto simp: m(1) p d(1) stream_codecs [OF S] at shape_type [OF d(2)] val put)
  next
    case False
    have "hsh k \<notin> (hsh \<circ> fst) ` set (pre @ d)"
    proof -
      have "hsh k \<notin> (hsh \<circ> fst) ` set pre \<union> (hsh \<circ> fst) ` set fs" using Cons.prems(4) p by auto
      moreover have "(hsh \<circ> fst) ` set d \<subseteq> (hsh \<circ> fst) ` set fs"
        using arg_cong [OF names, of set] False p by auto
      ultimately show ?thesis by auto
    qed
    then have at: "item_at hsh (hsh k) (pre @ d) = None" by (force simp: item_at_def find_None_iff)
    have "from_bytes m S hsh (pre @ d) (to_bytes S hsh fs) =
        Inr (pre @ filter (\<lambda>(m, _). m \<in> K) fs, list_ex (\<lambda>(m, _). m \<notin> K) fs)"
      using Cons.prems False p by (intro Cons.IH [OF wf(2) _ m(3)]) auto
    with ne False show ?thesis
      by (auto simp: m(1) p stream_codecs [OF S] at skip_serialized [OF S])
  qed
qed

text \<open>A stream that satisfies the law: every value in unary, through a countable index.\<close>

instance json :: countable
  by countable_datatype

definition unary_codec :: "'a::countable codec" where
  "unary_codec =
     \<lparr> put_v = (\<lambda>x. replicate (to_nat x) 1 @ [0]),
       get_v = (\<lambda>bs. (from_nat (length (takeWhile (\<lambda>b. b \<noteq> 0) bs)), tl (dropWhile (\<lambda>b. b \<noteq> 0) bs))) \<rparr>"

lemma unary_codec_ok: "codec_ok unary_codec"
proof -
  have "takeWhile (\<lambda>b. b \<noteq> 0) (replicate n (1::byte) @ 0 # r) = replicate n 1"
    and "dropWhile (\<lambda>b. b \<noteq> 0) (replicate n (1::byte) @ 0 # r) = 0 # r" for n r
    by (induction n) auto
  then show ?thesis by (simp add: codec_ok_def unary_codec_def)
qed

definition unary_stream :: qstream where
  "unary_stream =
     \<lparr> s_byte = unary_codec, s_int = unary_codec, s_long = unary_codec, s_bool = unary_codec,
       s_str = unary_codec, s_strs = unary_codec, s_ints = unary_codec, s_map = unary_codec,
       s_bytes = unary_codec, s_arrays = unary_codec \<rparr>"

lemma unary_stream_ok: "stream_ok unary_stream"
  by (simp add: stream_ok_def unary_stream_def unary_codec_ok)

definition name_hash :: "string \<Rightarrow> bytes" where
  "name_hash = map of_char"

definition sample_store :: store where
  "sample_store = [(''id'', CInt 3), (''members'', CStoreList [(''n'', CStr '''')] [[(''n'', CStr ''a'')]])]"

lemma sample_store_wf: "store_wf name_hash sample_store"
  by (simp add: sample_store_def name_hash_def)

section \<open>Properties\<close>

text \<open>C7. Binary files: an object with items, written as \<open>NekoBox\<close> and its binary form, is read
  back unchanged into a fresh object of the same class, nested objects, lists of objects and
  enumerations included, for every fuel above the size of the object.\<close>

theorem content_binary_roundtrip:
  assumes "stream_ok S" and "store_wf hsh fs" and "shape fresh = shape fs" and "fs \<noteq> []" and "store_size fs < n"
  shows "content_in n S hsh doc parse fresh (content_out S hsh print False fs) = Inr (fs, True)"
proof -
  obtain k v gs where fs: "fs = (k, v) # gs" using assms(4) by (cases fs) auto
  have "to_bytes S hsh fs \<noteq> []" using to_bytes_nonempty [OF assms(1)] fs by blast
  moreover have "from_bytes n S hsh ([] @ fresh) (to_bytes S hsh fs) = Inr ([] @ fs, False)"
    using assms store_wf_distinct [OF assms(2)] by (intro bytes_roundtrip(2)) auto
  moreover have "ToBytes S hsh [] fs = to_bytes S hsh fs" by (simp add: ToBytes_def)
  ultimately show ?thesis by (simp add: content_in_def content_out_def magic_def)
qed

theorem content_binary_roundtrip_witness:
  "content_in 100 unary_stream name_hash (\<lambda>_. None) (\<lambda>_. None)
     [(''id'', CInt (-1)), (''members'', CStoreList [(''n'', CStr '''')] [])]
     (content_out unary_stream name_hash (\<lambda>_. []) False sample_store) = Inr (sample_store, True)"
  by (rule content_binary_roundtrip [OF unary_stream_ok sample_store_wf])
     (simp_all add: sample_store_def)

text \<open>C39. JSON files: an object written as JSON is read back unchanged into a fresh object of the
  same class when its text lists hold no blank text, the lists that are empty are empty in the fresh
  object too, and its enumerations hold named values.\<close>

theorem content_json_roundtrip:
  assumes "\<forall>j. parse (print j) = Some j \<and> take 7 (print j) \<noteq> magic"
    and "store_wf hsh fs" and "shape fresh = shape fs" and "json_keeps fresh fs"
  shows "content_in n S hsh doc parse fresh (content_out S hsh print True fs) = Inr (fs, True)"
proof -
  have "from_json hsh doc fresh (to_json [] fs) = fs"
    using assms(2-4) by (intro json_roundtrip_store json_roundtrip_all(1)) auto
  moreover have "ToJson [] fs = to_json [] fs" by (simp add: ToJson_def)
  ultimately show ?thesis using assms(1) by (simp add: content_in_def content_out_def FromJsonBytes_def)
qed

theorem content_json_roundtrip_witness:
  "content_in 0 unary_stream name_hash (\<lambda>_. None)
     (\<lambda>bs. Some (fst (get_v unary_codec (tl bs))))
     [(''id'', CInt (-1)), (''members'', CStoreList [(''n'', CStr '''')] [])]
     (content_out unary_stream name_hash (\<lambda>j. 123 # put_v unary_codec j) True sample_store) = Inr (sample_store, True)"
  by (rule content_json_roundtrip [OF _ sample_store_wf])
     (simp_all add: sample_store_def magic_def codec_okD [OF unary_codec_ok, of _ "[]", simplified])

text \<open>Reading what another version of the class wrote: items the class does not have are
  skipped wherever they stand, the others are restored, and the fallback flag is raised exactly when
  an item was skipped.\<close>

theorem from_bytes_other_version:
  assumes "stream_ok S" and "store_wf hsh fs"
    and "shape fresh = shape (filter (\<lambda>(m, _). m \<in> K) fs)" and "store_size fs < n"
  shows "from_bytes n S hsh fresh (to_bytes S hsh fs) =
    Inr (filter (\<lambda>(m, _). m \<in> K) fs, list_ex (\<lambda>(m, _). m \<notin> K) fs)"
  using from_bytes_known [OF assms, of "[]"] store_wf_distinct [OF assms(2)] by simp

theorem from_bytes_other_version_witness:
  "from_bytes 100 unary_stream name_hash [(''id'', CInt 0)] (to_bytes unary_stream name_hash sample_store)
   = Inr ([(''id'', CInt 3)], True)"
  using from_bytes_other_version [OF unary_stream_ok sample_store_wf, of "[(''id'', CInt 0)]" "{''id''}" 100]
  by (simp add: sample_store_def)

text \<open>Comparing an object with itself finds no difference; but lists of objects are compared by
  their lengths and first members only, so two objects that differ in a later member compare as
  equal.\<close>

theorem compare_refl_and_first_member:
  "compare hsh skip fs (Some fs) = 0
   \<and> compare hsh skip [(n, CStoreList tpl (x # xs))] (Some [(n, CStoreList tpl (x # map f xs))]) = 0"
  using compare_same(3) [of "Some fs" fs hsh skip] compare_same(3) [of "Some x" x hsh "[]"]
  by (simp add: Let_def del: compare.simps(2)) (simp add: Let_def)

text \<open>An empty list cannot be loaded from JSON over a default that is not empty: writing the
  empty list and reading it back leaves the default in place.\<close>

theorem json_empty_list_lost:
  "setNode hsh doc (CStrList xs) (getNode (CStrList [])) = CStrList xs
   \<and> setNode hsh doc (CIntList is) (getNode (CIntList [])) = CIntList is"
  by (simp add: QListStr2QJsonArray_def QListInt2QJsonArray_def)

end
