(* ===== verification/Db_Store.thy ===== *)
theory Db_Store
  imports Config_Item
begin

text \<open>
  The storage behind every stored object (\<open>FileDatabaseManager\<close> and the key-value functions of
  \<^verbatim>\<open>src/gharqad/dataStore/Database.cpp\<close>, \<open>JsonStore::Save/Load\<close> of
  \<^verbatim>\<open>src/gharqad/dataStore/Configs.cpp\<close>). An object is kept either as a record of the key-value
  database or as a file; an empty record stands for an object whose data is in its file. The
  database is the sorted list of its records, the files a map from paths to contents. The success
  of each write, open and removal is given by the record \<open>disk\<close>. How an object becomes bytes is
  the record \<open>format\<close>, with its laws in the locale \<open>stored_format\<close>, interpreted at the end
  on the binary and JSON forms of \<open>Config_Item\<close>, for the plain classes, for a class with a
  fallback object and for the settings, which hold the storage type.
\<close>

section \<open>Names and keys\<close>

definition Routes :: byte where "Routes = 1"
definition Proxies :: byte where "Proxies = 2"
definition Groups :: byte where "Groups = 3"
definition Beans :: byte where "Beans = 4"
definition Shortcuts :: byte where "Shortcuts = 5"
definition ResourceManager :: byte where "ResourceManager = 6"
definition ProxyManager :: byte where "ProxyManager = 7"
definition NekoBox :: byte where "NekoBox = 8"
definition DefaultRoute :: byte where "DefaultRoute = 9"
definition NoSave :: byte where "NoSave = 10"
definition TrafficLooper :: byte where "TrafficLooper = 11"
definition DatabaseLogger :: byte where "DatabaseLogger = 12"
definition Subscriptions :: byte where "Subscriptions = 13"

lemmas JsonStoreType_defs =
  Routes_def Proxies_def Groups_def Beans_def Shortcuts_def ResourceManager_def ProxyManager_def
  NekoBox_def DefaultRoute_def NoSave_def TrafficLooper_def DatabaseLogger_def Subscriptions_def

definition getJsonStorePathName :: "byte \<Rightarrow> string" where
  "getJsonStorePathName t =
     (if t = Routes then ''route_profiles'' else if t = Proxies then ''profiles''
      else if t = Groups then ''groups'' else if t = Subscriptions then ''subscriptions''
      else if t = Beans then ''beans'' else '''')"

definition getJsonStoreFileName :: "byte \<Rightarrow> int \<Rightarrow> string" where
  "getJsonStoreFileName t i =
     (if t \<in> {Routes, Proxies, Groups, Subscriptions, Beans} then
        (if i < 0 then '''' else getJsonStorePathName t @ ''/'' @ show_int i @ ''.cfg'')
      else if t = Shortcuts then ''shortcuts.cfg''
      else if t = ResourceManager then ''resource_manager.cfg''
      else if t = ProxyManager then ''profiles.cfg''
      else if t = NekoBox then ''nekobox.cfg''
      else if t = DefaultRoute then ''default_route_profile.cfg''
      else if t = TrafficLooper then ''stats/traffic.cfg''
      else if t = DatabaseLogger then ''stats/usage.cfg''
      else '''')"

definition pack_char_int :: "byte \<Rightarrow> int32 \<Rightarrow> bytes" where
  "pack_char_int t i =
     [t, ucast i, ucast (drop_bit 8 i), ucast (drop_bit 16 i), ucast (drop_bit 24 i)]"

text \<open>\<open>None\<close> is the exception for a key of another size.\<close>

definition unpack_char_int :: "bytes \<Rightarrow> (byte \<times> int32) option" where
  "unpack_char_int key =
     (if length key \<noteq> 5 then None
      else Some (key ! 0, word_of_nat (unat (key ! 1) + 256 * unat (key ! 2) + 65536 * unat (key ! 3)
                                       + 16777216 * unat (key ! 4))))"

section \<open>State\<close>

datatype DatabaseType = rocksdb_type | json_type | binary_type | ini_type

record database =
  db_rocks :: "(bytes \<times> bytes) list"
  db_files :: "string \<Rightarrow> bytes option"
  db_created :: "byte \<Rightarrow> nat"
  db_deleted :: "byte \<Rightarrow> nat"

record disk =
  db_ok :: "bytes \<Rightarrow> bool"
  write_ok :: "string \<Rightarrow> bool"
  open_ok :: "string \<Rightarrow> bool"
  remove_ok :: "string \<Rightarrow> bool"

text \<open>The bytes of an object in the database and in its file, and reading each into an object of
  the class; and what the class does at the end of a read besides, to the object read and to the
  database (\<open>JsonStore::fallback\<close> and \<open>fallback_job\<close>). The job is given the identifier, whether
  the data are a file's, the object before the read and the data. Last, the storage type that is in
  force after a read, from the one before, the object before the read and the object read: the settings
  hold the storage type, and reading it sets the global \<open>config_type\<close>. No class has both a fallback
  object and the storage type.\<close>

record 'a "format" =
  f_bytes :: "'a \<Rightarrow> bytes"
  f_from_bytes :: "'a \<Rightarrow> bytes \<Rightarrow> 'a"
  f_file :: "DatabaseType \<Rightarrow> 'a \<Rightarrow> bytes"
  f_from_file :: "'a \<Rightarrow> bytes \<Rightarrow> 'a"
  f_job :: "disk \<Rightarrow> DatabaseType \<Rightarrow> int32 \<Rightarrow> bool \<Rightarrow> 'a \<Rightarrow> bytes \<Rightarrow> 'a \<times> database \<Rightarrow> 'a \<times> database"
  f_switch :: "DatabaseType \<Rightarrow> 'a \<Rightarrow> 'a \<Rightarrow> DatabaseType"

record 'a stored =
  o_type :: byte
  o_id :: int32
  o_no_save :: bool
  o_exists :: bool
  o_data :: 'a

section \<open>The key-value database\<close>

definition write_rocksdb :: "disk \<Rightarrow> byte \<Rightarrow> int32 \<Rightarrow> bytes \<Rightarrow> database \<Rightarrow> database \<times> bool" where
  "write_rocksdb d t i view db =
     (let key = pack_char_int t i
      in if db_ok d key then (db\<lparr>db_rocks := qset key view (db_rocks db)\<rparr>, True) else (db, False))"

definition clear_rocksdb :: "disk \<Rightarrow> byte \<Rightarrow> int32 \<Rightarrow> database \<Rightarrow> database \<times> bool" where
  "clear_rocksdb d t i db = write_rocksdb d t i [] db"

definition drop_rocksdb :: "disk \<Rightarrow> byte \<Rightarrow> int32 \<Rightarrow> database \<Rightarrow> database \<times> bool" where
  "drop_rocksdb d t i db =
     (let key = pack_char_int t i
      in if db_ok d key then (db\<lparr>db_rocks := filter (\<lambda>(k, _). k \<noteq> key) (db_rocks db)\<rparr>, True) else (db, False))"

text \<open>\<open>read_rocksdb\<close>: whether the record was found, and, when the record has data, the object
  and the database after the read.\<close>

definition read_rocksdb :: "disk \<Rightarrow> 'a format \<Rightarrow> DatabaseType \<Rightarrow> database \<Rightarrow> 'a stored \<Rightarrow> bool \<times> ('a \<times> database) option" where
  "read_rocksdb d F ct db st =
     (let key = pack_char_int (o_type st) (o_id st)
      in case (if db_ok d key then map_of (db_rocks db) key else None) of
           None \<Rightarrow> (False, None)
         | Some view \<Rightarrow>
             (True, if view \<noteq> [] then Some (f_job F d ct (o_id st) False (o_data st) view (f_from_bytes F (o_data st) view, db))
                    else None))"

text \<open>The scan of \<open>query_rocksdb\<close> from the first key that is not before the prefix; \<open>None\<close> is
  the exception for a key that is not of five bytes.\<close>

fun query_loop :: "byte \<Rightarrow> bytes list \<Rightarrow> int32 list \<Rightarrow> int list \<Rightarrow> int list option" where
  "query_loop t [] seen result = Some result"
| "query_loop t (key # keys) seen result =
     (if length key \<noteq> 5 then None
      else if key ! 0 \<noteq> t then Some result
      else let u = snd (the (unpack_char_int key))
           in if u \<in> set seen then query_loop t keys seen result
              else if sint u < 0 then query_loop t keys seen result
              else query_loop t keys (u # seen) (result @ [sint u]))"

definition query_rocksdb :: "byte \<Rightarrow> database \<Rightarrow> int list option" where
  "query_rocksdb t db = query_loop t (dropWhile (\<lambda>k. k < [t]) (map fst (db_rocks db))) [] []"

section \<open>Files\<close>

definition SaveToFile :: "disk \<Rightarrow> 'a format \<Rightarrow> DatabaseType \<Rightarrow> 'a stored \<Rightarrow> database \<Rightarrow> database \<times> bool" where
  "SaveToFile d F ct st db =
     (let path = getJsonStoreFileName (o_type st) (sint (o_id st))
      in if path = '''' then (db, False)
         else if write_ok d path
         then (db\<lparr>db_files := (db_files db)(path \<mapsto> f_file F ct (o_data st))\<rparr>, True)
         else (db, ct = ini_type))"

text \<open>\<open>LoadFromFile\<close> drops the result of reading the file: it is \<open>true\<close> whenever the object has a
  path.\<close>

definition LoadFromFile :: "disk \<Rightarrow> 'a format \<Rightarrow> DatabaseType \<Rightarrow> 'a stored \<Rightarrow> database \<Rightarrow> ('a \<times> database) \<times> bool" where
  "LoadFromFile d F ct st db =
     (let path = getJsonStoreFileName (o_type st) (sint (o_id st))
      in if path = '''' then ((o_data st, db), False)
         else (case db_files db path of
                 None \<Rightarrow> ((o_data st, db), True)
               | Some content \<Rightarrow>
                   (if open_ok d path
                    then f_job F d ct (o_id st) True (o_data st) content (f_from_file F (o_data st) content, db)
                    else (o_data st, db), True)))"

definition DropFromDirectory :: "disk \<Rightarrow> byte \<Rightarrow> int32 \<Rightarrow> database \<Rightarrow> database \<times> bool" where
  "DropFromDirectory d t i db =
     (let fn = getJsonStoreFileName t (sint i)
      in if fn \<noteq> '''' \<and> db_files db fn \<noteq> None \<and> remove_ok d fn
         then (db\<lparr>db_files := (db_files db)(fn := None)\<rparr>, True) else (db, False))"

text \<open>\<open>QueryFromDirectory\<close> on the names of the directory's files.\<close>

definition cfg_id :: "string \<Rightarrow> int option" where
  "cfg_id e =
     (let l = map lower_char e
      in if suffix ''.cfg'' l then toInt_ok (concat (split_str ''.cfg'' l)) else None)"

definition QueryFromDirectory :: "(string \<Rightarrow> string list) \<Rightarrow> byte \<Rightarrow> int list" where
  "QueryFromDirectory entryList t =
     (let fn = getJsonStorePathName t
      in if fn = '''' then [] else sort (List.map_filter cfg_id (entryList fn)))"

section \<open>The database manager\<close>

definition log_types :: "byte set" where
  "log_types = {Routes, Proxies, Groups}"

definition log_create :: "'a stored \<Rightarrow> database \<Rightarrow> 'a stored \<times> database" where
  "log_create st db =
     (if o_type st \<in> log_types \<and> \<not> o_exists st
      then (st\<lparr>o_exists := True\<rparr>, db\<lparr>db_created := (db_created db)(o_type st := db_created db (o_type st) + 1)\<rparr>)
      else (st, db))"

definition Manager_Save ::
  "disk \<Rightarrow> 'a format \<Rightarrow> DatabaseType \<Rightarrow> 'a stored \<Rightarrow> database \<Rightarrow> 'a stored \<times> database \<times> bool" where
  "Manager_Save d F config_type st0 db0 =
     (let (st, db) = log_create st0 db0
      in if config_type = rocksdb_type
         then (let (db1, ret) = write_rocksdb d (o_type st) (o_id st) (f_bytes F (o_data st)) db
               in (st, if ret then fst (DropFromDirectory d (o_type st) (o_id st) db1) else db1, ret))
         else (let (db1, ret) = SaveToFile d F config_type st db
               in (st, if ret then fst (clear_rocksdb d (o_type st) (o_id st) db1) else db1, ret)))"

definition Manager_Load ::
  "disk \<Rightarrow> 'a format \<Rightarrow> DatabaseType \<Rightarrow> 'a stored \<Rightarrow> database \<Rightarrow> 'a stored \<times> database \<times> bool" where
  "Manager_Load d F config_type st db =
     (case read_rocksdb d F config_type db st of
        (False, _) \<Rightarrow> (st, db, False)
      | (True, Some (x, db)) \<Rightarrow>
          (let st' = st\<lparr>o_data := x\<rparr>
           in if f_switch F config_type (o_data st) x \<noteq> rocksdb_type
              then (let (db1, ok) = SaveToFile d F (f_switch F config_type (o_data st) x) st' db
                    in (st', if ok then fst (clear_rocksdb d (o_type st) (o_id st) db1) else db1, True))
              else (st', db, True))
      | (True, None) \<Rightarrow>
          (let ((x, db), readed) = LoadFromFile d F config_type st db; st' = st\<lparr>o_data := x\<rparr>
           in if readed \<and> f_switch F config_type (o_data st) x = rocksdb_type
              then (st', fst (DropFromDirectory d (o_type st) (o_id st)
                                (fst (write_rocksdb d (o_type st) (o_id st) (f_bytes F x) db))), readed)
              else (st', db, readed)))"

definition Manager_Drop :: "disk \<Rightarrow> byte \<Rightarrow> int32 \<Rightarrow> database \<Rightarrow> database \<times> bool" where
  "Manager_Drop d t i db =
     (let (db2, ret) = drop_rocksdb d t i (fst (DropFromDirectory d t i db))
      in (if ret \<and> t \<in> log_types then db2\<lparr>db_deleted := (db_deleted db2)(t := db_deleted db2 t + 1)\<rparr> else db2, ret))"

definition Manager_Query :: "byte \<Rightarrow> database \<Rightarrow> int list option" where
  "Manager_Query t db = query_rocksdb t db"

text \<open>\<open>JsonStore::Save\<close> and \<open>JsonStore::Load\<close>.\<close>

definition Store_Save ::
  "disk \<Rightarrow> 'a format \<Rightarrow> DatabaseType \<Rightarrow> 'a stored \<Rightarrow> database \<Rightarrow> 'a stored \<times> database \<times> bool" where
  "Store_Save d F ct st db =
     (if o_no_save st \<or> o_type st = NoSave then (st, db, False)
      else let (st', db', ret) = Manager_Save d F ct st db
           in (if ret then st'\<lparr>o_exists := True\<rparr> else st', db', ret))"

definition Store_Load ::
  "disk \<Rightarrow> 'a format \<Rightarrow> DatabaseType \<Rightarrow> 'a stored \<Rightarrow> database \<Rightarrow> 'a stored \<times> database \<times> bool" where
  "Store_Load d F ct st db =
     (if o_type st = NoSave then (st, db, False)
      else let (st', db', ret) = Manager_Load d F ct st db
           in (if ret then st'\<lparr>o_exists := True\<rparr> else st', db', ret))"

text \<open>\<open>initialize_rocksdb\<close>: every object that has a file gets an empty record. The batch is
  written as a whole.\<close>

definition init_keys :: "(string \<Rightarrow> string list) \<Rightarrow> database \<Rightarrow> bytes list" where
  "init_keys entryList db =
     concat (map (\<lambda>c. map (\<lambda>x. pack_char_int c (word_of_int x)) (QueryFromDirectory entryList c))
               [Proxies, Beans, Routes, Groups, Subscriptions])
     @ map (\<lambda>c. pack_char_int c 0)
         (filter (\<lambda>c. db_files db (getJsonStoreFileName c 0) \<noteq> None)
            [Shortcuts, ResourceManager, ProxyManager, NekoBox, DefaultRoute, TrafficLooper, DatabaseLogger])"

definition initialize_rocksdb :: "bool \<Rightarrow> (string \<Rightarrow> string list) \<Rightarrow> database \<Rightarrow> database" where
  "initialize_rocksdb ok entryList db =
     (if ok then db\<lparr>db_rocks := foldl (\<lambda>r key. qset key [] r) (db_rocks db) (init_keys entryList db)\<rparr> else db)"

section \<open>Lemmas on keys and paths\<close>

lemma pack_le32: "pack_char_int t i = t # le32 i"
  by (simp add: pack_char_int_def le32_def)

lemma unpack_pack: "unpack_char_int (pack_char_int t i) = Some (t, i)"
  using of_le32_le32 [of i "[]"] by (simp add: unpack_char_int_def pack_le32 of_le32_def) (simp add: le32_def)

lemma pack_inj [simp]: "pack_char_int t i = pack_char_int t' i' \<longleftrightarrow> t = t' \<and> i = i'"
  by (metis unpack_pack option.inject prod.inject)

lemma pack_length [simp]: "length (pack_char_int t i) = 5"
  by (simp add: pack_char_int_def)

definition dir_types :: "byte set" where
  "dir_types = {Routes, Proxies, Groups, Subscriptions, Beans}"

definition common_types :: "byte list" where
  "common_types = [Shortcuts, ResourceManager, ProxyManager, NekoBox, DefaultRoute, TrafficLooper, DatabaseLogger]"

text \<open>The objects the program stores: numbered ones of the five directories, and single ones.\<close>

definition valid_obj :: "byte \<Rightarrow> int32 \<Rightarrow> bool" where
  "valid_obj t i \<longleftrightarrow> (t \<in> dir_types \<and> 0 \<le> sint i) \<or> (t \<in> set common_types \<and> i = 0)"

abbreviation path_of :: "byte \<Rightarrow> int32 \<Rightarrow> string" where
  "path_of t i \<equiv> getJsonStoreFileName t (sint i)"

lemma dir_path: "t \<in> dir_types \<Longrightarrow> 0 \<le> i \<Longrightarrow> getJsonStoreFileName t i = getJsonStorePathName t @ ''/'' @ show_int i @ ''.cfg''"
  by (simp add: getJsonStoreFileName_def dir_types_def)

lemma dir_name_free: "t \<in> dir_types \<Longrightarrow> CHR ''/'' \<notin> set (getJsonStorePathName t)"
  by (auto simp: dir_types_def getJsonStorePathName_def JsonStoreType_defs)

lemma dir_name_inj: "t \<in> dir_types \<Longrightarrow> t' \<in> dir_types \<Longrightarrow> getJsonStorePathName t = getJsonStorePathName t' \<Longrightarrow> t = t'"
  by (auto simp: dir_types_def getJsonStorePathName_def JsonStoreType_defs)

lemma before_slash: "CHR ''/'' \<notin> set w \<Longrightarrow> takeWhile (\<lambda>c. c \<noteq> CHR ''/'') (w @ CHR ''/'' # r) = w"
  by (subst takeWhile_append2) auto

lemma show_int_inj32: "show_int (sint (i::int32)) = show_int (sint j) \<Longrightarrow> i = (j::int32)"
proof -
  assume "show_int (sint i) = show_int (sint j)"
  moreover have "toInt (show_int (sint k)) = sint k" for k :: int32
    using sint_ge [of k] sint_lt [of k] by (intro toInt_show_int) simp_all
  ultimately have "sint i = sint j" by metis
  then show "i = j" by (rule signed_word_eqI)
qed

lemma common_path: "t \<in> set common_types \<Longrightarrow> getJsonStoreFileName t i \<noteq> ''''
    \<and> takeWhile (\<lambda>c. c \<noteq> CHR ''/'') (getJsonStoreFileName t i) \<notin> getJsonStorePathName ` dir_types"
  by (auto simp: common_types_def getJsonStoreFileName_def dir_types_def getJsonStorePathName_def JsonStoreType_defs)

lemma common_inj: "t \<in> set common_types \<Longrightarrow> t' \<in> set common_types \<Longrightarrow>
    getJsonStoreFileName t i = getJsonStoreFileName t' j \<Longrightarrow> t = t'"
  by (auto simp: common_types_def getJsonStoreFileName_def JsonStoreType_defs)

lemma path_inj:
  assumes "valid_obj t i" and "valid_obj t' i'" and eq: "path_of t i = path_of t' i'"
  shows "t = t' \<and> i = i'"
proof -
  have seg: "takeWhile (\<lambda>c. c \<noteq> CHR ''/'') (path_of t i) = getJsonStorePathName t" if "t \<in> dir_types" "0 \<le> sint i" for t i
    using that before_slash [OF dir_name_free [OF that(1)], of "show_int (sint i) @ ''.cfg''"] by (simp add: dir_path)
  consider "t \<in> dir_types" "0 \<le> sint i" "t' \<in> dir_types" "0 \<le> sint i'"
    | "t \<in> set common_types" "i = 0" "t' \<in> set common_types" "i' = 0"
    | "t \<in> dir_types" "0 \<le> sint i" "t' \<in> set common_types" | "t \<in> set common_types" "t' \<in> dir_types" "0 \<le> sint i'"
    using assms(1,2) by (auto simp: valid_obj_def)
  then show ?thesis
  proof cases
    case 1
    with seg [of t i] seg [of t' i'] eq have "t = t'" by (auto dest: dir_name_inj)
    with 1 eq show ?thesis by (auto simp: dir_path dest: show_int_inj32)
  next
    case 2
    with eq show ?thesis by (auto dest: common_inj)
  next
    case 3
    with seg [of t i] common_path [of t' "sint i'"] eq show ?thesis by auto
  next
    case 4
    with seg [of t' i'] common_path [of t "sint i"] eq show ?thesis by auto
  qed
qed

lemma valid_path: "valid_obj t i \<Longrightarrow> path_of t i \<noteq> ''''"
  using common_path [of t "sint i"] by (auto simp: valid_obj_def dir_path)

lemma valid_saved: "valid_obj t i \<Longrightarrow> t \<noteq> NoSave"
  by (auto simp: valid_obj_def dir_types_def common_types_def JsonStoreType_defs)

section \<open>The contents of the storage\<close>

text \<open>The abstract storage: what each object holds. An empty record refers to the file; without a
  file the object is as the class makes it.\<close>

definition abs_store :: "'a format \<Rightarrow> 'a \<Rightarrow> database \<Rightarrow> byte \<Rightarrow> int32 \<Rightarrow> 'a option" where
  "abs_store F fresh db t i =
     (case map_of (db_rocks db) (pack_char_int t i) of
        None \<Rightarrow> None
      | Some v \<Rightarrow> Some (if v \<noteq> [] then f_from_bytes F fresh v
                       else case db_files db (path_of t i) of None \<Rightarrow> fresh | Some c \<Rightarrow> f_from_file F fresh c))"

definition works :: "disk \<Rightarrow> byte \<Rightarrow> int32 \<Rightarrow> bool" where
  "works d t i \<longleftrightarrow> db_ok d (pack_char_int t i) \<and> write_ok d (path_of t i) \<and> open_ok d (path_of t i)
     \<and> remove_ok d (path_of t i)"

text \<open>Both writers leave one object at its key and path and touch nothing else.\<close>

definition set_record :: "byte \<Rightarrow> int32 \<Rightarrow> bytes \<Rightarrow> bytes option \<Rightarrow> database \<Rightarrow> database" where
  "set_record t i v c db =
     db\<lparr>db_rocks := qset (pack_char_int t i) v (db_rocks db), db_files := (db_files db)(path_of t i := c)\<rparr>"

lemma abs_set_record:
  assumes "valid_obj t i" and "valid_obj t' i'"
  shows "abs_store F fresh (set_record t i v c db) t' i' =
    (if t' = t \<and> i' = i
     then Some (if v \<noteq> [] then f_from_bytes F fresh v
                else case c of None \<Rightarrow> fresh | Some c \<Rightarrow> f_from_file F fresh c)
     else abs_store F fresh db t' i')"
proof (cases "t' = t \<and> i' = i")
  case False
  then have "path_of t' i' \<noteq> path_of t i" using path_inj [OF assms(2,1)] by auto
  then have f: "db_files (set_record t i v c db) (path_of t' i') = db_files db (path_of t' i')"
    by (simp add: set_record_def)
  have r: "map_of (db_rocks (set_record t i v c db)) (pack_char_int t' i') = map_of (db_rocks db) (pack_char_int t' i')"
    using False by (auto simp: set_record_def qset_lookup)
  show ?thesis unfolding if_not_P [OF False] abs_store_def r f ..
qed (simp add: abs_store_def set_record_def qset_lookup)

lemma abs_counters [simp]:
  "abs_store F fresh (db\<lparr>db_created := c\<rparr>) = abs_store F fresh db"
  "abs_store F fresh (db\<lparr>db_deleted := c\<rparr>) = abs_store F fresh db"
  by (simp_all add: abs_store_def fun_eq_iff split: option.split)

lemma set_record_files: "db_files db (path_of t i) = None \<Longrightarrow>
    db\<lparr>db_rocks := qset (pack_char_int t i) v (db_rocks db)\<rparr> = set_record t i v None db"
  by (simp add: set_record_def fun_upd_idem)

lemma write_drop:
  assumes "works d t i" and "path_of t i \<noteq> ''''"
  shows "fst (DropFromDirectory d t i (fst (write_rocksdb d t i v db))) = set_record t i v None db"
    and "snd (write_rocksdb d t i v db)"
  using assms set_record_files [of db t i v]
  by (auto simp: works_def DropFromDirectory_def write_rocksdb_def Let_def set_record_def)

lemma file_clear:
  assumes "works d (o_type st) (o_id st)" and "path_of (o_type st) (o_id st) \<noteq> ''''"
  shows "fst (clear_rocksdb d (o_type st) (o_id st) (fst (SaveToFile d F ct st db)))
      = set_record (o_type st) (o_id st) [] (Some (f_file F ct (o_data st))) db"
    and "snd (SaveToFile d F ct st db)"
  using assms by (simp_all add: works_def SaveToFile_def clear_rocksdb_def write_rocksdb_def Let_def set_record_def)

lemma log_create_eqs:
  "o_type (fst (log_create st db)) = o_type st" "o_id (fst (log_create st db)) = o_id st"
  "o_data (fst (log_create st db)) = o_data st"
  "abs_store F fresh (snd (log_create st db)) = abs_store F fresh db"
  "db_rocks (snd (log_create st db)) = db_rocks db" "db_files (snd (log_create st db)) = db_files db"
  by (simp_all add: log_create_def)

definition saved_record :: "'a format \<Rightarrow> DatabaseType \<Rightarrow> 'a \<Rightarrow> bytes \<times> bytes option" where
  "saved_record F ct x = (if ct = rocksdb_type then (f_bytes F x, None) else ([], Some (f_file F ct x)))"

lemma Store_Save_result:
  fixes st :: "'a stored"
  defines "t \<equiv> o_type st" and "i \<equiv> o_id st"
  assumes "works d t i" and "valid_obj t i" and "\<not> o_no_save st"
  shows "Store_Save d F ct st db =
    ((fst (log_create st db))\<lparr>o_exists := True\<rparr>,
     set_record t i (fst (saved_record F ct (o_data st))) (snd (saved_record F ct (o_data st)))
       (snd (log_create st db)), True)"
proof -
  let ?st = "fst (log_create st db)"
  have eqs: "o_type ?st = t" "o_id ?st = i" "o_data ?st = o_data st" by (simp_all add: t_def i_def log_create_eqs)
  note wd = write_drop [OF assms(3) valid_path [OF assms(4)]]
  note fc = file_clear [of d ?st, unfolded eqs, OF assms(3) valid_path [OF assms(4)]]
  show ?thesis
    using valid_saved [OF assms(4)] assms(5) wd fc
    by (simp add: Store_Save_def Manager_Save_def split_beta Let_def eqs t_def [symmetric] i_def [symmetric]
        saved_record_def)
qed

text \<open>The data behind an object, with whether they are its file's, and data whose read is all that
  happens.\<close>

definition held_raw :: "database \<Rightarrow> byte \<Rightarrow> int32 \<Rightarrow> (bool \<times> bytes) option" where
  "held_raw db t i =
     (case map_of (db_rocks db) (pack_char_int t i) of
        None \<Rightarrow> None
      | Some v \<Rightarrow> if v \<noteq> [] then Some (False, v) else map_option (Pair True) (db_files db (path_of t i)))"

definition quiet :: "'a format \<Rightarrow> 'a \<Rightarrow> bool \<times> bytes \<Rightarrow> bool" where
  "quiet F fresh raw \<longleftrightarrow> (\<forall>d ct i xd. f_job F d ct i (fst raw) fresh (snd raw) xd = xd)"

lemma held_set_record:
  "held_raw (set_record t i v c db) t i = (if v \<noteq> [] then Some (False, v) else map_option (Pair True) c)"
  by (simp add: held_raw_def set_record_def qset_lookup)

locale stored_format =
  fixes F :: "'a format" and ok :: "'a \<Rightarrow> 'a \<Rightarrow> bool"
  assumes bytes_read: "ok fresh x \<Longrightarrow> f_from_bytes F fresh (f_bytes F x) = x"
    and bytes_some: "ok fresh x \<Longrightarrow> f_bytes F x \<noteq> []"
    and file_read: "ok fresh x \<Longrightarrow> ct \<in> {json_type, binary_type} \<Longrightarrow> f_from_file F fresh (f_file F ct x) = x"
    and bytes_quiet: "ok fresh x \<Longrightarrow> quiet F fresh (False, f_bytes F x)"
    and file_quiet: "ok fresh x \<Longrightarrow> ct \<in> {json_type, binary_type} \<Longrightarrow> quiet F fresh (True, f_file F ct x)"
begin

lemma save_refines:
  assumes "works d (o_type st) (o_id st)" and "valid_obj (o_type st) (o_id st)" and "\<not> o_no_save st"
    and "ct \<noteq> ini_type" and "ok fresh (o_data st)" and "valid_obj t' i'"
  shows "abs_store F fresh (fst (snd (Store_Save d F ct st db))) t' i' =
    (if t' = o_type st \<and> i' = o_id st then Some (o_data st) else abs_store F fresh db t' i')"
  using assms bytes_read [OF assms(5)] bytes_some [OF assms(5)] file_read [OF assms(5), of ct]
  by (cases ct) (simp_all add: Store_Save_result abs_set_record log_create_eqs saved_record_def)

lemma load_refines:
  assumes w: "works d (o_type st) (o_id st)" and v: "valid_obj (o_type st) (o_id st)" and sw: "f_switch F ct0 (o_data st) y \<noteq> ini_type"
    and held: "abs_store F (o_data st) db (o_type st) (o_id st) = Some y" and ok: "ok (o_data st) y"
    and quiet: "\<And>raw. held_raw db (o_type st) (o_id st) = Some raw \<Longrightarrow> quiet F (o_data st) raw" and v': "valid_obj t' i'"
  shows "let (st', db', ret) = Store_Load d F ct0 st db
    in ret \<and> o_data st' = y \<and> abs_store F (o_data st) db' t' i' = abs_store F (o_data st) db t' i'"
proof -
  let ?t = "o_type st" and ?i = "o_id st"
  define ct where "ct = f_switch F ct0 (o_data st) y"
  have ct: "ct \<noteq> ini_type" using sw by (simp add: ct_def)
  obtain val where val: "map_of (db_rocks db) (pack_char_int ?t ?i) = Some val"
    using held by (auto simp: abs_store_def split: option.splits)
  have dbok: "db_ok d (pack_char_int ?t ?i)" using w by (simp add: works_def)
  note path = valid_path [OF v]
  note wd = write_drop [OF w path]
  have frame: "abs_store F (o_data st) (set_record ?t ?i (fst (saved_record F ct y)) (snd (saved_record F ct y)) db) t' i'
      = abs_store F (o_data st) db t' i'"
    using bytes_read [OF ok] bytes_some [OF ok] file_read [OF ok, of ct] ct held
    by (cases ct) (auto simp: abs_set_record [OF v v'] saved_record_def)
  show ?thesis
  proof (cases "val = []")
    case False
    with held val have y: "f_from_bytes F (o_data st) val = y" by (simp add: abs_store_def)
    have q: "f_job F d ct0 ?i False (o_data st) val xd = xd" for xd
      using quiet [of "(False, val)"] False val by (cases xd) (simp add: held_raw_def quiet_def)
    let ?st = "st\<lparr>o_data := y\<rparr>"
    note fc = file_clear [of d ?st F ct db, simplified, OF w path]
    have "Store_Load d F ct0 st db = ((?st)\<lparr>o_exists := True\<rparr>,
        if ct = rocksdb_type then db else set_record ?t ?i (fst (saved_record F ct y)) (snd (saved_record F ct y)) db, True)"
      using valid_saved [OF v] dbok val False y fc q
      by (simp add: Store_Load_def Manager_Load_def read_rocksdb_def Let_def split_beta saved_record_def flip: ct_def)
    with frame show ?thesis by simp
  next
    case True
    have q: "db_files db (path_of ?t ?i) = Some c \<Longrightarrow> f_job F d ct0 ?i True (o_data st) c xd = xd" for c xd
      using quiet [of "(True, c)"] True val by (cases xd) (simp add: held_raw_def quiet_def)
    have lf: "LoadFromFile d F ct0 st db = ((y, db), True)"
      using held val True path w q by (auto simp: abs_store_def LoadFromFile_def Let_def works_def split: option.splits)
    have "Store_Load d F ct0 st db = ((st\<lparr>o_data := y\<rparr>)\<lparr>o_exists := True\<rparr>,
        if ct = rocksdb_type then set_record ?t ?i (fst (saved_record F ct y)) (snd (saved_record F ct y)) db else db, True)"
      using valid_saved [OF v] dbok val True lf wd
      by (simp add: Store_Load_def Manager_Load_def read_rocksdb_def Let_def saved_record_def flip: ct_def)
    with frame show ?thesis by auto
  qed
qed

text \<open>Saving, then loading into a new object under any other storage type.\<close>

lemma save_load:
  assumes w: "works d (o_type st) (o_id st)" and v: "valid_obj (o_type st) (o_id st)" and ns: "\<not> o_no_save st"
    and ct: "ct \<noteq> ini_type" "f_switch F ct' (o_data new) (o_data st) \<noteq> ini_type" and same: "o_type new = o_type st" "o_id new = o_id st"
    and ok: "ok (o_data new) (o_data st)" and v': "valid_obj t i"
  shows "let (st', db', ret) = Store_Load d F ct' new (fst (snd (Store_Save d F ct st db)))
    in ret \<and> o_data st' = o_data st \<and> abs_store F (o_data new) db' t i =
      (if t = o_type st \<and> i = o_id st then Some (o_data st) else abs_store F (o_data new) db t i)"
proof -
  let ?db = "fst (snd (Store_Save d F ct st db))"
  have raw: "held_raw ?db (o_type st) (o_id st) =
      (if ct = rocksdb_type then Some (False, f_bytes F (o_data st)) else Some (True, f_file F ct (o_data st)))"
    using Store_Save_result [OF w v ns, of F ct db] bytes_some [OF ok] by (simp add: held_set_record saved_record_def)
  have q: "held_raw ?db (o_type new) (o_id new) = Some raw \<Longrightarrow> quiet F (o_data new) raw" for raw
    using bytes_quiet [OF ok] file_quiet [OF ok, of ct] ct(1) unfolding same raw by (cases ct) auto
  note sv = save_refines [OF w v ns ct(1) ok]
  show ?thesis
    using load_refines [of d new ct' "o_data st" ?db t i, unfolded same, OF w v ct(2) _ ok _ v'] q sv [OF v] sv [OF v']
    by (simp add: same)
qed

end

lemma drop_refines:
  assumes "works d t i" and "valid_obj t i" and "valid_obj t' i'"
  shows "abs_store F fresh (fst (Manager_Drop d t i db)) t' i' = (if t' = t \<and> i' = i then None else abs_store F fresh db t' i')"
proof -
  have look: "map_of (filter (\<lambda>(k, _). k \<noteq> key) kvs) k = (if k = key then None else map_of kvs k)" for key k and kvs :: "(bytes \<times> bytes) list"
    by (induction kvs) auto
  show ?thesis
    using assms path_inj [OF assms(3,2)]
    by (auto simp: Manager_Drop_def drop_rocksdb_def DropFromDirectory_def works_def abs_store_def look Let_def split_beta
        split: option.split)
qed

section \<open>Queries\<close>

definition db_wf :: "database \<Rightarrow> bool" where
  "db_wf db \<longleftrightarrow> qsorted (db_rocks db) \<and> list_all (\<lambda>(k, _). length k = 5) (db_rocks db)"

lemma key_unpack:
  assumes "length k = 5"
  shows "k = pack_char_int (fst (the (unpack_char_int k))) (snd (the (unpack_char_int k)))"
proof -
  obtain t a b c e where k: "k = [t, a, b, c, e]" using assms by (auto simp: numeral_eq_Suc length_Suc_conv)
  define n where "n = unat a + 256 * unat b + 65536 * unat c + 16777216 * unat e"
  have lt: "unat x < 256" for x :: byte using unsigned_less [of x] by simp
  have n: "n < 2 ^ 32" using lt [of a] lt [of b] lt [of c] lt [of e] by (simp add: n_def)
  then have u: "unat (word_of_nat n :: int32) = n" by (simp add: unsigned_of_nat take_bit_nat_eq_self)
  have b: "ucast (drop_bit j (word_of_nat n :: int32)) = (word_of_nat (n div 2 ^ j) :: byte)" for j
  proof (rule word_unat_eq_iff [THEN iffD2])
    show "unat (ucast (drop_bit j (word_of_nat n :: int32)) :: byte) = unat (word_of_nat (n div 2 ^ j) :: byte)"
      by (simp only: unsigned_ucast_eq unat_drop_bit_eq u) (simp add: unsigned_of_nat drop_bit_eq_div)
  qed
  have w: "word_of_nat (unat x + 256 * m) = (x :: byte)" for x m
  proof -
    have "(256 :: byte) = 0" by simp
    then show ?thesis by (simp only: of_nat_add of_nat_mult of_nat_numeral) simp
  qed
  have d: "n = unat a + 256 * (unat b + 256 * unat c + 65536 * unat e)"
    "n div 256 = unat b + 256 * (unat c + 256 * unat e)" "n div 65536 = unat c + 256 * unat e" "n div 16777216 = unat e"
    using lt [of a] lt [of b] lt [of c] by (auto simp: n_def)
  have "word_of_nat n = a" by (subst d(1)) (rule w)
  moreover have "word_of_nat (n div 256) = b" unfolding d(2) by (rule w)
  moreover have "word_of_nat (n div 65536) = c" unfolding d(3) by (rule w)
  moreover have "word_of_nat (n div 16777216) = e" unfolding d(4) by simp
  ultimately have "pack_char_int t (word_of_nat n) = k"
    unfolding pack_char_int_def k using b [of 0] b [of 8] b [of 16] b [of 24] by simp
  then show ?thesis by (simp add: unpack_char_int_def k n_def)
qed

definition key_id :: "bytes \<Rightarrow> int32" where
  "key_id k = snd (the (unpack_char_int k))"

lemma key_id_pack [simp]: "key_id (pack_char_int t i) = i"
  by (simp add: key_id_def unpack_pack)

lemma key_pack: "length k = 5 \<Longrightarrow> k = pack_char_int (k ! 0) (key_id k)"
  using key_unpack [of k] by (simp add: key_id_def unpack_char_int_def)

lemma query_loop_ids:
  assumes "list_all (\<lambda>k. length k = 5) keys" and "distinct keys"
    and "\<forall>k\<in>set keys. k ! 0 = t \<longrightarrow> key_id k \<notin> set seen"
  shows "query_loop t keys seen res =
    Some (res @ map sint (filter (\<lambda>u. 0 \<le> sint u) (map key_id (takeWhile (\<lambda>k. k ! 0 = t) keys))))"
  using assms
proof (induction keys arbitrary: seen res)
  case (Cons k keys)
  have key: "\<forall>k'\<in>set keys. k' ! 0 = t \<longrightarrow> k ! 0 = t \<longrightarrow> key_id k' \<noteq> key_id k"
    using Cons.prems key_pack [of k] key_pack by (auto simp: list_all_iff) metis
  show ?case
  proof (cases "k ! 0 = t")
    case True
    with Cons.prems have u: "key_id k \<notin> set seen" "length k = 5" by auto
    show ?thesis
    proof (cases "sint (key_id k) < 0")
      case neg: True
      have "query_loop t (k # keys) seen res = query_loop t keys seen res"
        using True u neg by (simp add: key_id_def [symmetric] Let_def)
      also have "\<dots> = Some (res @ map sint (filter (\<lambda>u. 0 \<le> sint u) (map key_id (takeWhile (\<lambda>k. k ! 0 = t) keys))))"
        using Cons.prems by (intro Cons.IH) auto
      finally show ?thesis using True neg by simp
    next
      case False
      have "query_loop t (k # keys) seen res = query_loop t keys (key_id k # seen) (res @ [sint (key_id k)])"
        using True u False by (simp add: key_id_def [symmetric] Let_def)
      also have "\<dots> = Some ((res @ [sint (key_id k)])
          @ map sint (filter (\<lambda>u. 0 \<le> sint u) (map key_id (takeWhile (\<lambda>k. k ! 0 = t) keys))))"
        using Cons.prems key True by (intro Cons.IH) auto
      finally show ?thesis using True False by simp
    qed
  next
    case False
    with Cons.prems show ?thesis by simp
  qed
qed simp

lemma first_byte_mono:
  fixes k k' :: bytes
  assumes "k < k'" and "k \<noteq> []"
  shows "k ! 0 \<le> k' ! 0"
  using assms by (cases k; cases k') (auto simp: Cons_less_Cons)

lemma prefix_key: "k \<noteq> [] \<Longrightarrow> k < [t] \<longleftrightarrow> k ! 0 < (t :: byte)"
  by (cases k) (auto simp: Cons_less_Cons)

lemma sorted_block:
  assumes "sorted_wrt (<) (ks :: bytes list)" and "list_all (\<lambda>k. length k = 5) ks"
  shows "takeWhile (\<lambda>k. k ! 0 = t) (dropWhile (\<lambda>k. k < [t]) ks) = filter (\<lambda>k. k ! 0 = t) ks"
  using assms
proof (induction ks)
  case (Cons k ks)
  have k: "k \<noteq> []" using Cons.prems(2) by auto
  have later: "k ! 0 \<le> k' ! 0" if "k' \<in> set ks" for k'
    using that Cons.prems(1) k first_byte_mono by auto
  show ?case
  proof (cases "k ! 0" t rule: linorder_cases)
    case less
    with Cons k show ?thesis by (simp add: prefix_key)
  next
    case greater
    with later have "filter (\<lambda>k. k ! 0 = t) ks = []" by (force simp: filter_empty_conv)
    with greater k show ?thesis by (simp add: prefix_key)
  next
    case equal
    have "dropWhile (\<lambda>k. k < [t]) ks = ks"
    proof (cases ks)
      case ks: (Cons k2 ks2)
      have "k2 \<noteq> []" using Cons.prems(2) ks by auto
      with later [of k2] equal ks show ?thesis by (simp add: prefix_key)
    qed simp
    with Cons equal k show ?thesis by (simp add: prefix_key)
  qed
qed simp

lemma query_result:
  assumes "db_wf db"
  shows "Manager_Query t db = Some (map sint (filter (\<lambda>u. 0 \<le> sint u)
      (map key_id (filter (\<lambda>k. k ! 0 = t) (map fst (db_rocks db))))))"
proof -
  let ?ks = "map fst (db_rocks db)"
  have s: "sorted_wrt (<) ?ks" and l: "list_all (\<lambda>k. length k = 5) ?ks"
    using assms by (auto simp: db_wf_def qsorted_def list_all_iff)
  have dl: "list_all (\<lambda>k. length k = 5) (dropWhile (\<lambda>k. k < [t]) ?ks)"
    using l set_dropWhile_subset [of "\<lambda>k. k < [t]" ?ks] unfolding list_all_iff by blast
  have dd: "distinct (dropWhile (\<lambda>k. k < [t]) ?ks)"
    using s by (simp add: strict_sorted_iff)
  from query_loop_ids [OF dl dd, of t "[]" "[]"] sorted_block [OF s l, of t]
  show ?thesis by (simp add: Manager_Query_def query_rocksdb_def)
qed

section \<open>Reachable databases\<close>

text \<open>The database changes by saving, loading and dropping objects and at every start of the program.\<close>

inductive db_reach :: "'a format \<Rightarrow> database \<Rightarrow> bool" for F :: "'a format" where
  empty: "db_reach F \<lparr> db_rocks = [], db_files = files, db_created = (\<lambda>_. 0), db_deleted = (\<lambda>_. 0) \<rparr>"
| save: "db_reach F db \<Longrightarrow> db_reach F (fst (snd (Store_Save d F ct st db)))"
| load: "db_reach F db \<Longrightarrow> db_reach F (fst (snd (Store_Load d F ct st db)))"
| drop: "db_reach F db \<Longrightarrow> db_reach F (fst (Manager_Drop d t i db))"
| start: "db_reach F db \<Longrightarrow> db_reach F (initialize_rocksdb ok entryList db)"

lemma set_qset_subset: "set (qset k v kvs) \<subseteq> insert (k, v) (set kvs)"
  by (induction kvs) (auto split: if_splits)

lemma wf_put:
  assumes "db_wf db" and "length key = 5"
  shows "db_wf (db\<lparr>db_rocks := qset key v (db_rocks db)\<rparr>)"
  using assms set_qset_subset [of key v "db_rocks db"] by (fastforce simp: db_wf_def qset_sorted list_all_iff)

lemma db_wf_other [simp]:
  "db_wf (db\<lparr>db_files := f\<rparr>) = db_wf db" "db_wf (db\<lparr>db_created := c\<rparr>) = db_wf db" "db_wf (db\<lparr>db_deleted := c\<rparr>) = db_wf db"
  by (simp_all add: db_wf_def)

lemma wf_write: "db_wf db \<Longrightarrow> db_wf (fst (write_rocksdb d t i v db))"
  by (simp add: write_rocksdb_def Let_def wf_put)

lemma wf_clear: "db_wf db \<Longrightarrow> db_wf (fst (clear_rocksdb d t i db))"
  by (simp add: clear_rocksdb_def wf_write)

lemma wf_files:
  "db_wf db \<Longrightarrow> db_wf (fst (DropFromDirectory d t i db))" "db_wf db \<Longrightarrow> db_wf (fst (SaveToFile d F ct st db))"
  "db_wf db \<Longrightarrow> db_wf (snd (log_create st db))"
  by (simp_all add: DropFromDirectory_def SaveToFile_def log_create_def Let_def)

lemma wf_drop_rocksdb: "db_wf db \<Longrightarrow> db_wf (fst (drop_rocksdb d t i db))"
proof -
  have "map fst (filter (\<lambda>(k, _). P k) kvs) = filter P (map fst kvs)" for P and kvs :: "(bytes \<times> bytes) list"
    by (induction kvs) auto
  then show "db_wf db \<Longrightarrow> db_wf (fst (drop_rocksdb d t i db))"
    by (auto simp: db_wf_def drop_rocksdb_def qsorted_def list_all_iff Let_def intro: sorted_wrt_filter)
qed

lemmas wf_ops = wf_write wf_clear wf_files wf_drop_rocksdb

lemma wf_save: "db_wf db \<Longrightarrow> db_wf (fst (snd (Store_Save d F ct st db)))"
  by (simp add: Store_Save_def Manager_Save_def split_beta Let_def wf_ops)

text \<open>The jobs of the classes work on the database by loading and saving objects.\<close>

definition wf_jobs :: "'a format \<Rightarrow> bool" where
  "wf_jobs F \<longleftrightarrow> (\<forall>d ct i file fresh data xd. db_wf (snd xd) \<longrightarrow> db_wf (snd (f_job F d ct i file fresh data xd)))"

lemma wf_load: "wf_jobs F \<Longrightarrow> db_wf db \<Longrightarrow> db_wf (fst (snd (Store_Load d F ct st db)))"
  by (auto simp: Store_Load_def Manager_Load_def read_rocksdb_def LoadFromFile_def wf_jobs_def split_beta Let_def
      intro!: wf_ops split: bool.split option.split)

lemma wf_drop: "db_wf db \<Longrightarrow> db_wf (fst (Manager_Drop d t i db))"
  by (simp add: Manager_Drop_def split_beta Let_def wf_ops)

lemma wf_start: "db_wf db \<Longrightarrow> db_wf (initialize_rocksdb ok entryList db)"
proof -
  have "list_all (\<lambda>k. length k = 5) ks \<Longrightarrow> db_wf db \<Longrightarrow> db_wf (db\<lparr>db_rocks := foldl (\<lambda>r key. qset key [] r) (db_rocks db) ks\<rparr>)" for ks
  proof (induction ks arbitrary: db)
    case (Cons k ks)
    then show ?case using Cons.IH [of "db\<lparr>db_rocks := qset k [] (db_rocks db)\<rparr>"] wf_put [of db k "[]"] by simp
  qed simp
  moreover have "list_all (\<lambda>k. length k = 5) (init_keys entryList db)"
    by (auto simp: init_keys_def list_all_iff)
  ultimately show "db_wf db \<Longrightarrow> db_wf (initialize_rocksdb ok entryList db)"
    by (simp add: initialize_rocksdb_def)
qed

lemma reach_wf: "db_reach F db \<Longrightarrow> wf_jobs F \<Longrightarrow> db_wf db"
  by (induction rule: db_reach.induct) (simp_all add: wf_save wf_load wf_drop wf_start, simp add: db_wf_def qsorted_def)

section \<open>Objects of \<open>Config_Item\<close> as stored objects\<close>

text \<open>The INI writer and reader are arguments; the laws are stated for the other storage types.\<close>

definition item_format ::
  "nat \<Rightarrow> qstream \<Rightarrow> (string \<Rightarrow> bytes) \<Rightarrow> (string \<Rightarrow> json option) \<Rightarrow> (json \<Rightarrow> bytes) \<Rightarrow> (bytes \<Rightarrow> json option)
   \<Rightarrow> (store \<Rightarrow> bytes) \<Rightarrow> (store \<Rightarrow> bytes \<Rightarrow> store) \<Rightarrow> store format" where
  "item_format n S hsh doc print parse to_ini from_ini =
     \<lparr> f_bytes = ToBytes S hsh [],
       f_from_bytes = (\<lambda>fresh bs. case from_bytes n S hsh fresh bs of Inl _ \<Rightarrow> fresh | Inr (fs, _) \<Rightarrow> fs),
       f_file = (\<lambda>ct fs. if ct = ini_type then to_ini fs else content_out S hsh print (ct = json_type) fs),
       f_from_file = (\<lambda>fresh data.
         case content_in n S hsh doc parse fresh data of
           Inl _ \<Rightarrow> fresh
         | Inr (fs, ok) \<Rightarrow> if ok then fs else from_ini fs data),
       f_job = (\<lambda>_ _ _ _ _ _ xd. xd), f_switch = (\<lambda>ct _ _. ct) \<rparr>"

text \<open>That is the format of a class that has no fallback object, which are all but \<open>Group\<close>, and not
  the storage type, which are all but the settings. A class that has a fallback object runs its job
  when the data have an item that the class does not know, or knows with another type.\<close>

definition unknown_items ::
  "nat \<Rightarrow> qstream \<Rightarrow> (string \<Rightarrow> bytes) \<Rightarrow> (bytes \<Rightarrow> json option) \<Rightarrow> bool \<Rightarrow> store \<Rightarrow> bytes \<Rightarrow> bool" where
  "unknown_items n S hsh parse file fresh data =
     (if \<not> file \<or> (length data > 7 \<and> take 7 data = magic)
      then (case from_bytes n S hsh fresh (if file then drop 7 data else data) of Inl _ \<Rightarrow> False | Inr (_, unknown) \<Rightarrow> unknown)
      else (case parse data of None \<Rightarrow> False | Some j \<Rightarrow> json_fallback hsh fresh (json_toObject j)))"

type_synonym store_job = "disk \<Rightarrow> DatabaseType \<Rightarrow> int32 \<Rightarrow> bool \<Rightarrow> bytes \<Rightarrow> store \<times> database \<Rightarrow> store \<times> database"

definition class_format ::
  "(DatabaseType \<Rightarrow> store \<Rightarrow> store \<Rightarrow> DatabaseType) \<Rightarrow> store_job \<Rightarrow> nat \<Rightarrow> qstream \<Rightarrow> (string \<Rightarrow> bytes) \<Rightarrow> (string \<Rightarrow> json option)
   \<Rightarrow> (json \<Rightarrow> bytes) \<Rightarrow> (bytes \<Rightarrow> json option)
   \<Rightarrow> (store \<Rightarrow> bytes) \<Rightarrow> (store \<Rightarrow> bytes \<Rightarrow> store) \<Rightarrow> store format" where
  "class_format switch job n S hsh doc print parse to_ini from_ini =
     (item_format n S hsh doc print parse to_ini from_ini)
       \<lparr>f_job := (\<lambda>d ct i file fresh data xd. if unknown_items n S hsh parse file fresh data then job d ct i file data xd else xd),
        f_switch := switch\<rparr>"

text \<open>The storage type as the settings hold it: an enumeration whose \<open>trigger\<close> (\<open>SetConfigType\<close>)
  keeps the global \<open>config_type\<close> in step. A number that is no type is not put in force, and when the
  value before was none either, the value becomes that of the type in force.\<close>

definition StoreType_map :: "(string \<times> int32) list" where
  "StoreType_map = [(''json'', 1), (''binary'', 2), (''ini'', 3), (''leveldb'', 4)]"

fun type_code :: "DatabaseType \<Rightarrow> int32" where
  "type_code json_type = 1"
| "type_code binary_type = 2"
| "type_code ini_type = 3"
| "type_code rocksdb_type = 4"

definition type_of_code :: "int32 \<Rightarrow> DatabaseType option" where
  "type_of_code v = find (\<lambda>t. type_code t = v) [json_type, binary_type, ini_type, rocksdb_type]"

definition SetConfigType :: "DatabaseType trigger" where
  "SetConfigType old_value new_value config_type =
     (case type_of_code new_value of
        None \<Rightarrow> (if type_of_code old_value = None then type_code config_type else new_value, config_type)
      | Some t \<Rightarrow> (new_value, t))"

definition store_type_of :: "store \<Rightarrow> int32 option" where
  "store_type_of fs = (case map_of fs ''data_store_type'' of Some (CEnum _ v) \<Rightarrow> v | _ \<Rightarrow> None)"

definition settings_switch :: "DatabaseType \<Rightarrow> store \<Rightarrow> store \<Rightarrow> DatabaseType" where
  "settings_switch config_type fresh fs =
     (case (store_type_of fresh, store_type_of fs) of
        (Some old, Some new) \<Rightarrow> if new = old then config_type else snd (SetConfigType old new config_type)
      | _ \<Rightarrow> config_type)"

text \<open>A value that was one of the four: the trigger leaves the value that was set. While the settings'
  object and the global agree, a read puts the type it reads in force.\<close>

lemma StoreType_set:
  assumes "type_of_code old \<noteq> None"
  shows "fst (JsonEnum_set_json SetConfigType m old j config_type) = enum_set_json m old j"
    and "fst (JsonEnum_set SetConfigType old new config_type) = new"
  using assms by (auto simp: JsonEnum_set_json_def JsonEnum_set_def SetConfigType_def enum_set_json_def split: json.split option.split)

lemma type_of_code_inverse [simp]: "type_of_code (type_code t) = Some t"
  by (cases t) (simp_all add: type_of_code_def)

lemma settings_in_step:
  assumes "store_type_of fresh = Some (type_code config_type)" and "store_type_of fs = Some (type_code t)"
  shows "settings_switch config_type fresh fs = t"
proof (cases "type_code t = type_code config_type")
  case True
  then have "t = config_type" by (metis type_of_code_inverse option.inject)
  with assms show ?thesis by (simp add: settings_switch_def)
qed (use assms in \<open>simp add: settings_switch_def SetConfigType_def\<close>)

lemma class_format_sel [simp]:
  "f_bytes (class_format switch job n S hsh doc print parse to_ini from_ini) = f_bytes (item_format n S hsh doc print parse to_ini from_ini)"
  "f_from_bytes (class_format switch job n S hsh doc print parse to_ini from_ini) = f_from_bytes (item_format n S hsh doc print parse to_ini from_ini)"
  "f_file (class_format switch job n S hsh doc print parse to_ini from_ini) = f_file (item_format n S hsh doc print parse to_ini from_ini)"
  "f_from_file (class_format switch job n S hsh doc print parse to_ini from_ini) = f_from_file (item_format n S hsh doc print parse to_ini from_ini)"
  "f_switch (class_format switch job n S hsh doc print parse to_ini from_ini) = switch"
  by (simp_all add: class_format_def)

lemma class_quiet:
  "\<not> unknown_items n S hsh parse (fst raw) fresh (snd raw) \<Longrightarrow> quiet (class_format switch job n S hsh doc print parse to_ini from_ini) fresh raw"
  by (simp add: quiet_def class_format_def)

lemma item_quiet: "quiet (item_format n S hsh doc print parse to_ini from_ini) fresh raw"
  by (simp add: quiet_def item_format_def)

definition item_ok ::
  "nat \<Rightarrow> qstream \<Rightarrow> (string \<Rightarrow> bytes) \<Rightarrow> (json \<Rightarrow> bytes) \<Rightarrow> (bytes \<Rightarrow> json option) \<Rightarrow> store \<Rightarrow> store \<Rightarrow> bool" where
  "item_ok n S hsh print parse fresh fs \<longleftrightarrow>
     stream_ok S \<and> (\<forall>j. parse (print j) = Some j \<and> take 7 (print j) \<noteq> magic)
     \<and> store_wf hsh fs \<and> shape fresh = shape fs \<and> fs \<noteq> [] \<and> json_keeps fresh fs \<and> store_size fs < n"

lemma to_bytes_read:
  assumes "stream_ok S" and "store_wf hsh fs" and "shape fresh = shape fs" and "store_size fs < n"
  shows "from_bytes n S hsh fresh (to_bytes S hsh fs) = Inr (fs, False)"
  using bytes_roundtrip(2) [OF assms, of "[]"] store_wf_distinct [OF assms(2)] by simp

interpretation items: stored_format "item_format n S hsh doc print parse to_ini from_ini" "item_ok n S hsh print parse"
  for n S hsh doc print parse to_ini from_ini
proof unfold_locales
  let ?F = "item_format n S hsh doc print parse to_ini from_ini"
  fix fresh fs :: store
  assume ok: "item_ok n S hsh print parse fresh fs"
  then obtain k v gs where fs: "fs = (k, v) # gs" by (cases fs) (auto simp: item_ok_def)
  have ne: "to_bytes S hsh fs \<noteq> []" using ok to_bytes_nonempty fs by (auto simp: item_ok_def simp del: to_bytes.simps)
  have tb: "ToBytes S hsh [] fs = to_bytes S hsh fs" by (simp add: ToBytes_def)
  have rd: "from_bytes n S hsh fresh (to_bytes S hsh fs) = Inr (fs, False)"
    using ok by (intro to_bytes_read) (auto simp: item_ok_def)
  show "f_from_bytes ?F fresh (f_bytes ?F fs) = fs" by (simp add: item_format_def tb rd)
  show "f_bytes ?F fs \<noteq> []" using ne by (simp add: item_format_def tb)
  fix ct assume "ct \<in> {json_type, binary_type}"
  moreover have "content_in n S hsh doc parse fresh (content_out S hsh print False fs) = Inr (fs, True)"
    using ne by (simp add: content_in_def content_out_def tb magic_def rd)
  moreover have "from_json hsh doc fresh (to_json [] fs) = fs"
    using ok by (intro json_roundtrip_store json_roundtrip_all(1)) (auto simp: item_ok_def)
  then have "content_in n S hsh doc parse fresh (content_out S hsh print True fs) = Inr (fs, True)"
    using ok by (simp add: content_in_def content_out_def FromJsonBytes_def ToJson_def item_ok_def)
  ultimately show "f_from_file ?F fresh (f_file ?F ct fs) = fs" by (auto simp: item_format_def)
qed (simp_all add: item_quiet)

text \<open>What a class has written holds no item it does not know, so its job is not run; the laws
  hold whatever the job is.\<close>

lemma own_json_known:
  assumes "store_wf hsh fs" and "shape fresh = shape fs"
  shows "\<not> json_fallback hsh fresh (to_json [] fs)"
proof -
  have names: "map fst fresh = map fst fs" by (rule shape_names [OF assms(2)])
  have d: "distinct (map (hsh \<circ> fst) fs)" by (rule store_wf_distinct [OF assms(1)])
  then have dn: "distinct (map fst fs)" by (metis distinct_map map_map)
  have df: "distinct (map (hsh \<circ> fst) fresh)" using d names by (metis map_map)
  have sorted: "qsorted (to_json [] fs)" by (rule to_json_sorted) (simp add: qsorted_def)
  have "item_at hsh (hsh k) fresh \<noteq> None \<and> fst (the (item_at hsh (hsh k) fresh)) = k" if k: "(k, j) \<in> set (to_json [] fs)" for k j
  proof -
    have "map_of (to_json [] fs) k \<noteq> None" using k by (auto simp: map_of_eq_None_iff rev_image_eqI)
    then have "k \<in> fst ` set fs" by (auto simp: to_json_lookup [OF dn] dest: map_of_SomeD intro: rev_image_eqI split: option.splits)
    then have "k \<in> fst ` set fresh" using names by (metis set_map)
    then obtain v where "map_of fresh k = Some v" by (metis map_of_eq_None_iff not_Some_eq)
    then show ?thesis using item_at_own [OF df, of k v] by simp
  qed
  then show ?thesis by (force simp: json_fallback_def list_ex_iff split: option.splits)
qed

interpretation classes: stored_format "class_format switch job n S hsh doc print parse to_ini from_ini" "item_ok n S hsh print parse"
  for switch job n S hsh doc print parse to_ini from_ini
proof unfold_locales
  let ?F = "class_format switch job n S hsh doc print parse to_ini from_ini"
  fix fresh fs :: store
  assume ok: "item_ok n S hsh print parse fresh fs"
  show "f_from_bytes ?F fresh (f_bytes ?F fs) = fs" "f_bytes ?F fs \<noteq> []"
    using items.bytes_read [OF ok] items.bytes_some [OF ok] by simp_all
  have rd: "from_bytes n S hsh fresh (to_bytes S hsh fs) = Inr (fs, False)"
    using ok by (intro to_bytes_read) (auto simp: item_ok_def)
  have tb: "ToBytes S hsh [] fs = to_bytes S hsh fs" by (simp add: ToBytes_def)
  have ne: "to_bytes S hsh fs \<noteq> []" using items.bytes_some [OF ok] by (simp add: item_format_def tb)
  show "quiet ?F fresh (False, f_bytes ?F fs)" by (rule class_quiet) (simp add: item_format_def unknown_items_def tb rd)
  fix ct assume ct: "ct \<in> {json_type, binary_type}"
  show "f_from_file ?F fresh (f_file ?F ct fs) = fs" using items.file_read [OF ok ct] by simp
  have "\<not> json_fallback hsh fresh (to_json [] fs)" using ok by (intro own_json_known) (auto simp: item_ok_def)
  then show "quiet ?F fresh (True, f_file ?F ct fs)"
    using ct ok rd ne by (intro class_quiet) (auto simp: item_format_def unknown_items_def content_out_def tb magic_def item_ok_def ToJson_def)
qed

section \<open>Properties\<close>

definition good_disk :: disk where
  "good_disk = \<lparr> db_ok = (\<lambda>_. True), write_ok = (\<lambda>_. True), open_ok = (\<lambda>_. True), remove_ok = (\<lambda>_. True) \<rparr>"

definition empty_database :: database where
  "empty_database = \<lparr> db_rocks = [], db_files = (\<lambda>_. None), db_created = (\<lambda>_. 0), db_deleted = (\<lambda>_. 0) \<rparr>"

definition sample_format :: "store format" where
  "sample_format = item_format 100 unary_stream name_hash (\<lambda>_. None) (\<lambda>j. 123 # put_v unary_codec j)
     (\<lambda>bs. Some (fst (get_v unary_codec (tl bs)))) (\<lambda>_. []) (\<lambda>fs _. fs)"

definition sample_fresh :: store where
  "sample_fresh = [(''id'', CInt (-1)), (''members'', CStoreList [(''n'', CStr '''')] [])]"

lemma sample_ok:
  "item_ok 100 unary_stream name_hash (\<lambda>j. 123 # put_v unary_codec j)
     (\<lambda>bs. Some (fst (get_v unary_codec (tl bs)))) sample_fresh sample_store"
proof -
  have "get_v unary_codec (put_v unary_codec j) = (j, [])" for j :: json
    using codec_okD [OF unary_codec_ok, of j "[]"] by simp
  then show ?thesis
    using unary_stream_ok sample_store_wf by (simp add: item_ok_def sample_store_def sample_fresh_def magic_def)
qed

lemma works_good: "works good_disk t i"
  by (simp add: works_def good_disk_def)

text \<open>C3. Storage refines a map from objects to values. Saving an object makes it hold the saved
  value and leaves every other object as it was, whether records or files are in use.\<close>

theorem save_object:
  fixes n S hsh doc print parse to_ini from_ini
  defines "F \<equiv> item_format n S hsh doc print parse to_ini from_ini"
  assumes "works d (o_type st) (o_id st)" and "valid_obj (o_type st) (o_id st)" and "\<not> o_no_save st"
    and "ct \<noteq> ini_type" and "item_ok n S hsh print parse fresh (o_data st)" and "valid_obj t i"
  shows "abs_store F fresh (fst (snd (Store_Save d F ct st db))) t i =
    (if t = o_type st \<and> i = o_id st then Some (o_data st) else abs_store F fresh db t i)"
  using assms items.save_refines [OF assms(2-7)] by simp

theorem save_object_witness:
  "abs_store sample_format sample_fresh (fst (snd (Store_Save good_disk sample_format json_type
     \<lparr> o_type = 3, o_id = 0, o_no_save = False, o_exists = False, o_data = sample_store \<rparr> empty_database))) 3 0
   = Some sample_store"
  using save_object [of good_disk "\<lparr> o_type = 3, o_id = 0, o_no_save = False, o_exists = False, o_data = sample_store \<rparr>"
      json_type, OF works_good _ _ _ _ , of 100 unary_stream name_hash "\<lambda>j. 123 # put_v unary_codec j"
      "\<lambda>bs. Some (fst (get_v unary_codec (tl bs)))" sample_fresh 3 0 "\<lambda>_. None" "\<lambda>_. []" "\<lambda>fs _. fs" empty_database] sample_ok
  by (simp add: sample_format_def valid_obj_def dir_types_def JsonStoreType_defs)

text \<open>C31. Loading, for every class, whatever its fallback object does and whatever storage type the
  read sets (the settings hold it): an object that the storage holds in data without items unknown to
  the class is restored and the storage keeps holding the same values, also when the load moves the
  object from a record to a file or back because the storage type was changed. The storage type in
  force after the read is not INI.\<close>

theorem load_object:
  fixes n S hsh doc print parse to_ini from_ini switch job
  defines "F \<equiv> class_format switch job n S hsh doc print parse to_ini from_ini"
  assumes "works d (o_type st) (o_id st)" and "valid_obj (o_type st) (o_id st)" and "switch ct (o_data st) y \<noteq> ini_type"
    and "abs_store F (o_data st) db (o_type st) (o_id st) = Some y" and "item_ok n S hsh print parse (o_data st) y"
    and "\<forall>file data. held_raw db (o_type st) (o_id st) = Some (file, data) \<longrightarrow> \<not> unknown_items n S hsh parse file (o_data st) data"
    and "valid_obj t i"
  shows "let (st', db', ret) = Store_Load d F ct st db
    in ret \<and> o_data st' = y \<and> abs_store F (o_data st) db' t i = abs_store F (o_data st) db t i"
proof -
  have "quiet F (o_data st) raw" if "held_raw db (o_type st) (o_id st) = Some raw" for raw
    using that assms(7) unfolding F_def by (intro class_quiet) simp
  moreover have "f_switch F ct (o_data st) y \<noteq> ini_type" using assms(4) by (simp add: F_def)
  ultimately show ?thesis using assms(5) classes.load_refines [OF assms(2,3) _ _ assms(6) _ assms(8)] unfolding F_def by simp
qed

text \<open>A class whose job empties the object.\<close>

definition sample_job :: store_job where
  "sample_job = (\<lambda>_ _ _ _ _ xd. ([], snd xd))"

definition sample_class :: "store format" where
  "sample_class = class_format (\<lambda>ct _ _. ct) sample_job 100 unary_stream name_hash (\<lambda>_. None) (\<lambda>j. 123 # put_v unary_codec j)
     (\<lambda>bs. Some (fst (get_v unary_codec (tl bs)))) (\<lambda>_. []) (\<lambda>fs _. fs)"

theorem load_object_witness:
  "let (st', db', ret) = Store_Load good_disk sample_class json_type
      \<lparr> o_type = 3, o_id = 0, o_no_save = False, o_exists = False, o_data = sample_fresh \<rparr>
      (empty_database\<lparr>db_rocks := [(pack_char_int 3 0, ToBytes unary_stream name_hash [] sample_store)]\<rparr>)
    in ret \<and> o_data st' = sample_store"
proof -
  let ?st = "\<lparr> o_type = 3, o_id = 0, o_no_save = False, o_exists = False, o_data = sample_fresh \<rparr>"
  let ?db = "empty_database\<lparr>db_rocks := [(pack_char_int 3 0, ToBytes unary_stream name_hash [] sample_store)]\<rparr>"
  have v: "valid_obj 3 0" by (simp add: valid_obj_def dir_types_def JsonStoreType_defs)
  have held: "abs_store sample_class sample_fresh ?db 3 0 = Some sample_store"
    using items.bytes_read [OF sample_ok] items.bytes_some [OF sample_ok]
    by (simp add: abs_store_def sample_class_def item_format_def)
  have known: "\<not> unknown_items 100 unary_stream name_hash (\<lambda>bs. Some (fst (get_v unary_codec (tl bs)))) of_file sample_fresh data"
    if "held_raw ?db 3 0 = Some (of_file, data)" for of_file data
    using that items.bytes_some [OF sample_ok] to_bytes_read [of unary_stream name_hash sample_store sample_fresh 100] sample_ok
    by (auto simp: held_raw_def unknown_items_def item_format_def item_ok_def ToBytes_def split: if_splits)
  show ?thesis
    using load_object [of good_disk ?st "\<lambda>ct _ _. ct" json_type sample_store sample_job 100 unary_stream name_hash "\<lambda>_. None" "\<lambda>j. 123 # put_v unary_codec j"
        "\<lambda>bs. Some (fst (get_v unary_codec (tl bs)))" "\<lambda>_. []" "\<lambda>fs _. fs" ?db 3 0]
      works_good v held sample_ok known
    by (auto simp: sample_class_def split_beta Let_def)
qed

text \<open>Dropping an object removes it and nothing else.\<close>

theorem drop_object:
  assumes "works d t i" and "valid_obj t i" and "valid_obj t' i'"
  shows "abs_store F fresh (fst (Manager_Drop d t i db)) t' i' =
    (if t' = t \<and> i' = i then None else abs_store F fresh db t' i')"
  using assms by (rule drop_refines)

theorem drop_object_witness:
  "abs_store sample_format sample_fresh (fst (Manager_Drop good_disk 3 0
     (empty_database\<lparr>db_rocks := [(pack_char_int 3 0, [])]\<rparr>))) 3 0 = None"
  using drop_object [OF works_good, of 3 0 3 0 sample_format sample_fresh]
  by (simp add: valid_obj_def dir_types_def JsonStoreType_defs)

text \<open>In every database that the program can reach the keys are sorted, distinct and of five bytes:
  \<open>Query\<close> never meets the key it would throw on, and returns each identifier of a record of the
  type that is not negative exactly once.\<close>

theorem query_reachable:
  assumes "db_reach F db" and "wf_jobs F"
  shows "\<exists>ids. Manager_Query t db = Some ids \<and> distinct ids
    \<and> set ids = {sint i | i. map_of (db_rocks db) (pack_char_int t i) \<noteq> None \<and> 0 \<le> sint i}"
proof -
  note wf = reach_wf [OF assms]
  let ?ks = "filter (\<lambda>k. k ! 0 = t) (map fst (db_rocks db))"
  have len: "\<forall>k\<in>set ?ks. length k = 5" using wf by (auto simp: db_wf_def list_all_iff)
  have ks: "set ?ks = {pack_char_int t i | i. map_of (db_rocks db) (pack_char_int t i) \<noteq> None}"
  proof (intro set_eqI iffI)
    fix k assume k: "k \<in> set ?ks"
    then have "k = pack_char_int t (key_id k)" using len key_pack [of k] by auto
    moreover have "map_of (db_rocks db) k \<noteq> None" using k by (auto simp: map_of_eq_None_iff)
    ultimately show "k \<in> {pack_char_int t i | i. map_of (db_rocks db) (pack_char_int t i) \<noteq> None}" by auto
  next
    fix k assume "k \<in> {pack_char_int t i | i. map_of (db_rocks db) (pack_char_int t i) \<noteq> None}"
    then show "k \<in> set ?ks" by (auto simp: map_of_eq_None_iff) (simp add: pack_char_int_def)
  qed
  have "distinct ?ks" using wf by (simp add: db_wf_def qsorted_distinct)
  moreover have "inj_on key_id (set ?ks)" using ks by (auto simp: inj_on_def)
  ultimately have "distinct (map key_id ?ks)" by (simp add: distinct_map)
  then have "distinct (map sint (filter (\<lambda>u. 0 \<le> sint u) (map key_id ?ks)))"
    by (simp add: distinct_map inj_on_def signed_word_eqI del: filter_map)
  moreover have "set (map key_id ?ks) = {i. map_of (db_rocks db) (pack_char_int t i) \<noteq> None}"
    unfolding set_map ks by (force simp: image_iff)
  then have "set (map sint (filter (\<lambda>u. 0 \<le> sint u) (map key_id ?ks)))
      = {sint i | i. map_of (db_rocks db) (pack_char_int t i) \<noteq> None \<and> 0 \<le> sint i}"
    unfolding set_map set_filter by blast
  ultimately show ?thesis unfolding query_result [OF wf] by blast
qed

theorem query_reachable_witness:
  "\<exists>ids. Manager_Query 3 empty_database = Some ids \<and> distinct ids
    \<and> set ids = {sint i | i. map_of (db_rocks empty_database) (pack_char_int 3 i) \<noteq> None \<and> 0 \<le> sint i}"
  by (rule query_reachable [of sample_format])
    (unfold empty_database_def, rule db_reach.empty, simp add: wf_jobs_def sample_format_def item_format_def)

text \<open>Keys and files identify objects: a key is five bytes and decodes to its type and identifier,
  every key of five bytes is the key of one object, and no two stored objects share a file.\<close>

theorem keys_and_paths_identify:
  "unpack_char_int (pack_char_int t i) = Some (t, i)
   \<and> (length k = 5 \<longrightarrow> (case unpack_char_int k of Some (t', i') \<Rightarrow> pack_char_int t' i' = k | None \<Rightarrow> False))
   \<and> (valid_obj t i \<and> valid_obj t' i' \<and> path_of t i = path_of t' i' \<longrightarrow> t = t' \<and> i = i')"
  using path_inj [of t i t' i'] key_unpack [of k]
  by (simp add: unpack_pack) (simp add: unpack_char_int_def)

theorem keys_and_paths_identify_witness:
  "unpack_char_int (pack_char_int 3 258) = Some (3, 258) \<and> pack_char_int 3 258 = [3, 2, 1, 0, 0]"
  using keys_and_paths_identify [of 3 258 "[3, 2, 1, 0, 0]" 3 258] by (simp add: pack_char_int_def)

text \<open>\<open>Load\<close> reports success for an object with an empty record and no file, and leaves the object as
  the class makes it: the result of reading the file is dropped.\<close>

theorem load_reports_missing_file:
  assumes "db_ok d (pack_char_int (o_type st) (o_id st))" and "valid_obj (o_type st) (o_id st)"
    and "map_of (db_rocks db) (pack_char_int (o_type st) (o_id st)) = Some []"
    and "db_files db (path_of (o_type st) (o_id st)) = None"
  shows "snd (snd (Store_Load d F ct st db)) \<and> o_data (fst (Store_Load d F ct st db)) = o_data st"
  using assms valid_path [OF assms(2)] valid_saved [OF assms(2)]
  by (simp add: Store_Load_def Manager_Load_def read_rocksdb_def LoadFromFile_def Let_def)

theorem load_reports_missing_file_witness:
  "snd (snd (Store_Load good_disk sample_format rocksdb_type
      \<lparr> o_type = 1, o_id = 5, o_no_save = False, o_exists = False, o_data = sample_fresh \<rparr>
      (empty_database\<lparr>db_rocks := [(pack_char_int 1 5, [])]\<rparr>)))"
  using load_reports_missing_file [of good_disk
      "\<lparr> o_type = 1, o_id = 5, o_no_save = False, o_exists = False, o_data = sample_fresh \<rparr>"
      "empty_database\<lparr>db_rocks := [(pack_char_int 1 5, [])]\<rparr>" sample_format rocksdb_type]
  by (simp add: good_disk_def valid_obj_def dir_types_def JsonStoreType_defs empty_database_def)

lemma in_concat_map: "t \<in> set ts \<Longrightarrow> x \<in> set (f t) \<Longrightarrow> g t x \<in> set (concat (map (\<lambda>c. map (g c) (f c)) ts))"
  by auto

text \<open>A file found at start takes precedence: whatever record the object had is emptied, so the
  object then holds what the file says.\<close>

theorem start_prefers_file:
  assumes "t \<in> dir_types" and "sint i \<in> set (QueryFromDirectory entryList t)" and "db_files db (path_of t i) = Some c"
  shows "abs_store F fresh (initialize_rocksdb True entryList db) t i = Some (f_from_file F fresh c)"
proof -
  have look: "map_of (foldl (\<lambda>r key. qset key [] r) r ks) k = (if k \<in> set ks then Some [] else map_of r k)" for ks r and k :: bytes
    by (induction ks arbitrary: r) (auto simp: qset_lookup)
  have "t \<in> set [Proxies, Beans, Routes, Groups, Subscriptions]" using assms(1) by (auto simp: dir_types_def)
  from in_concat_map [where f = "QueryFromDirectory entryList" and g = "\<lambda>c x. pack_char_int c (word_of_int x)",
      OF this assms(2)]
  have "pack_char_int t (word_of_int (sint i)) \<in> set (init_keys entryList db)"
    unfolding init_keys_def set_append by (rule UnI1)
  with assms(3) show ?thesis by (simp add: abs_store_def initialize_rocksdb_def look)
qed

theorem start_prefers_file_witness:
  "abs_store sample_format sample_fresh (initialize_rocksdb True (\<lambda>_. [''7.cfg''])
     (empty_database\<lparr>db_files := (\<lambda>_. Some [1])\<rparr>)) 3 7 = Some (f_from_file sample_format sample_fresh [1])"
proof (rule start_prefers_file)
  show "3 \<in> dir_types" by (simp add: dir_types_def JsonStoreType_defs)
  have l: "map lower_char ''7.cfg'' = ''7.cfg''" by (simp add: lower_char_def)
  have s: "suffix ''.cfg'' ''7.cfg''" by (simp add: suffix_def)
  have p: "split_str ''.cfg'' ''7.cfg'' = [''7'', '''']" by (simp add: cons_hd_def)
  have "toInt_ok ''7'' = Some 7"
    by (simp add: toInt_ok_def trimmed_def trim_with_def qt_space_def is_digit_def nat_of_digits_def digit_val_def Let_def)
  then have "cfg_id ''7.cfg'' = Some 7" unfolding cfg_id_def Let_def l p using s by (simp del: split_str.simps)
  then have "QueryFromDirectory (\<lambda>_. [''7.cfg'']) 3 = [7]"
    by (simp add: QueryFromDirectory_def getJsonStorePathName_def JsonStoreType_defs List.map_filter_def)
  then show "sint (7::int32) \<in> set (QueryFromDirectory (\<lambda>_. [''7.cfg'']) 3)" by simp
qed simp

end
