(* ===== verification/Group_Load.thy ===== *)
theory Group_Load
  imports Db_Store
begin

text \<open>
  The one class with a fallback object (\<^verbatim>\<open>src/gharqad/dataStore/Group.cpp\<close>). An older version kept
  the subscription of a group in the group's own record. When a group is loaded from data with items
  that \<open>Group\<close> does not know, the group's \<open>GroupExtra\<close> is loaded, reads the stored group and the
  same data once more, tells the group whether it is a subscription, and is saved in the table of
  subscriptions. Groups are loaded when the program starts, so no \<open>GroupExtra\<close> is alive then, and
  the identifier in the data is the record's, as the loader of groups demands.
\<close>

section \<open>Groups as stored objects\<close>

text \<open>The item maps in the order of a \<open>QMap\<close> keyed by the hash of the name.\<close>

definition in_map_order :: "(string \<Rightarrow> bytes) \<Rightarrow> store \<Rightarrow> store" where
  "in_map_order hsh items = sort_key (\<lambda>(n, _). hsh n) items"

definition Group_items :: "int32 \<Rightarrow> store" where
  "Group_items i =
     [(''id'', CInt i), (''front_proxy_id'', CInt (- 1)), (''landing_proxy_id'', CInt (- 1)), (''archive'', CBool False),
      (''name'', CStr ''''), (''profiles'', CIntList []), (''is_subscription'', CBool False)]"

definition GroupExtra_items :: store where
  "GroupExtra_items =
     [(''enable_custom_headers'', CBool False), (''enable_custom_payload'', CBool False), (''enable_hwid'', CBool False),
      (''custom_hwid'', CStr ''''), (''url'', CStr ''''), (''info'', CStr ''''), (''sub_last_update'', CLong 0),
      (''skip_auto_update'', CBool False), (''text_payload'', CStr ''''), (''javascript_payload'', CStr ''''), (''custom_headers'', CStrMap [])]"







section \<open>What a load leaves\<close>







section \<open>Properties\<close>


text \<open>A group as an older version stored it, with its subscription.\<close>

definition old_group :: store where
  "old_group =
     [(''archive'', CBool False), (''custom_headers'', CStrMap []), (''custom_hwid'', CStr ''''), (''enable_custom_headers'', CBool False),
      (''enable_custom_payload'', CBool False), (''enable_hwid'', CBool True), (''front_proxy_id'', CInt 7), (''id'', CInt 5),
      (''info'', CStr ''''), (''is_subscription'', CBool False), (''javascript_payload'', CStr ''''), (''landing_proxy_id'', CInt (- 1)),
      (''name'', CStr ''work''), (''profiles'', CIntList [4, 2]), (''skip_auto_update'', CBool True), (''sub_last_update'', CLong 9),
      (''text_payload'', CStr ''''), (''url'', CStr ''u'')]"





definition "lab_new = in_map_order name_hash (Group_items 5)"
definition "lab_extra = in_map_order name_hash GroupExtra_items"
definition "lab_raw = (False, to_bytes unary_stream name_hash old_group)"






end
