(* ===== verification/Route_Table.thy ===== *)
theory Route_Table
  imports Route_Chain "HOL-Library.Product_Lexorder"
begin

text \<open>
  The routing profiles of the profile manager (\<open>ProfileManager\<close> of
  \<^verbatim>\<open>src/gharqad/dataStore/Database.cpp\<close>, the members that concern routes). Routing profiles are shared
  objects on a heap; the manager keeps their addresses by identifier. Storage holds what was
  saved last. A new routing profile is saved at once, the others by a thread that also removes the
  records of those that are gone.
\<close>

section \<open>State\<close>

type_synonym cptr = nat

record route_table =
  r_heap :: "cptr \<Rightarrow> RoutingChain"
  r_next :: cptr
  r_routes :: "(int \<times> cptr) list"
  r_max_route_chain_id :: int
  r_jobs :: "cptr list list"
  r_stored :: "int \<Rightarrow> RoutingChain option"

definition NewRouteChain :: "route_table \<Rightarrow> route_table \<times> cptr" where
  "NewRouteChain s =
     (s\<lparr>r_heap := (r_heap s)(r_next s := new_RoutingChain), r_next := Suc (r_next s)\<rparr>, r_next s)"

definition Chain_Save :: "cptr \<Rightarrow> route_table \<Rightarrow> route_table" where
  "Chain_Save c s = s\<lparr>r_stored := (r_stored s)(c_id (r_heap s c) \<mapsto> r_heap s c)\<rparr>"

definition AddRouteChain :: "cptr \<Rightarrow> route_table \<Rightarrow> route_table \<times> bool" where
  "AddRouteChain chain s =
     (if 0 \<le> c_id (r_heap s chain) then (s, False)
      else let i = signed_take_bit 31 (r_max_route_chain_id s + 1);
               s = s\<lparr>r_max_route_chain_id := i, r_heap := (r_heap s)(chain := (r_heap s chain)\<lparr>c_id := i\<rparr>),
                     r_routes := qset i chain (r_routes s)\<rparr>
           in (Chain_Save chain s, True))"

definition GetRouteChain :: "int \<Rightarrow> route_table \<Rightarrow> cptr option" where
  "GetRouteChain i s = map_of (r_routes s) i"

text \<open>\<open>std::stable_sort\<close> by priority and then by identifier.\<close>

definition GetEnabledRouteChains :: "route_table \<Rightarrow> cptr list" where
  "GetEnabledRouteChains s =
     sort_key (\<lambda>c. (c_priority (r_heap s c), c_id (r_heap s c)))
       (filter (\<lambda>c. c_enabled (r_heap s c)) (map snd (r_routes s)))"

fun update_loop :: "cptr list \<Rightarrow> route_table \<Rightarrow> cptr list \<Rightarrow> route_table \<times> cptr list" where
  "update_loop [] s to_save = (s, to_save)"
| "update_loop (item # newChain) s to_save =
     (case AddRouteChain item s of
        (s, True) \<Rightarrow> update_loop newChain s to_save
      | (s, False) \<Rightarrow>
          update_loop newChain (s\<lparr>r_routes := qset (c_id (r_heap s item)) item (r_routes s)\<rparr>) (to_save @ [item]))"

definition UpdateRouteChains :: "cptr list \<Rightarrow> route_table \<Rightarrow> route_table" where
  "UpdateRouteChains newChain s =
     (let (s, to_save) = update_loop newChain (s\<lparr>r_routes := []\<rparr>) []
      in s\<lparr>r_jobs := r_jobs s @ [to_save]\<rparr>)"

text \<open>The thread: it saves, then drops every record whose identifier the manager does not have.\<close>

definition clean_up :: "cptr list \<Rightarrow> route_table \<Rightarrow> route_table" where
  "clean_up to_save s =
     (let s = foldl (\<lambda>s item. Chain_Save item s) s to_save
      in s\<lparr>r_stored := (\<lambda>i. if map_of (r_routes s) i = None then None else r_stored s i)\<rparr>)"

definition run_route_job :: "nat \<Rightarrow> route_table \<Rightarrow> route_table" where
  "run_route_job k s = clean_up (r_jobs s ! k) (s\<lparr>r_jobs := take k (r_jobs s) @ drop (Suc k) (r_jobs s)\<rparr>)"

text \<open>The routing profiles of \<open>LoadManager\<close>, with the default one when there is none.\<close>

fun load_routes :: "int list \<Rightarrow> route_table \<Rightarrow> int \<Rightarrow> route_table \<times> int" where
  "load_routes [] s mx = (s, mx)"
| "load_routes (i # ids) s mx =
     (case r_stored s i of
        None \<Rightarrow> load_routes ids s mx
      | Some c \<Rightarrow>
          load_routes ids (s\<lparr>r_heap := (r_heap s)(r_next s := c), r_next := Suc (r_next s), r_routes := qset i (r_next s) (r_routes s)\<rparr>)
            (if i > mx then i else mx))"

definition LoadRoutes :: "int list \<Rightarrow> route_table \<Rightarrow> route_table" where
  "LoadRoutes routesIdOrder s =
     (let (s, mx) = load_routes routesIdOrder (s\<lparr>r_routes := []\<rparr>) 0;
          s = s\<lparr>r_max_route_chain_id := mx\<rparr>
      in if r_routes s = []
         then fst (AddRouteChain (r_next s) (s\<lparr>r_heap := (r_heap s)(r_next s := GetDefaultChain), r_next := Suc (r_next s)\<rparr>))
         else s)"

section \<open>Lemmas\<close>

definition routes_ok :: "route_table \<Rightarrow> bool" where
  "routes_ok s \<longleftrightarrow> qsorted (r_routes s) \<and> 0 \<le> r_max_route_chain_id s
     \<and> (\<forall>i c. map_of (r_routes s) i = Some c \<longrightarrow> c_id (r_heap s c) = i)"

lemma distinct_keys: "qsorted kvs \<Longrightarrow> distinct (map fst kvs)"
  by (auto simp: qsorted_def strict_sorted_iff)

lemma routes_distinct:
  assumes "routes_ok s"
  shows "distinct (map snd (r_routes s))"
proof -
  have d: "distinct (map fst (r_routes s))" using assms distinct_keys by (auto simp: routes_ok_def)
  have "map (c_id \<circ> r_heap s) (map snd (r_routes s)) = map fst (r_routes s)"
    using assms d by (auto simp: routes_ok_def)
  with d show ?thesis by (metis distinct_map)
qed

lemma enabled_mem:
  assumes "routes_ok s"
  shows "c \<in> set (GetEnabledRouteChains s) \<longleftrightarrow> (\<exists>i. GetRouteChain i s = Some c) \<and> c_enabled (r_heap s c)"
proof -
  have "distinct (map fst (r_routes s))" using assms distinct_keys by (auto simp: routes_ok_def)
  then show ?thesis by (force simp: GetEnabledRouteChains_def GetRouteChain_def)
qed

text \<open>The loop of \<open>UpdateRouteChains\<close>: what the profiles and the storage are after it.\<close>

lemma next_route_id: "0 \<le> m \<Longrightarrow> m < 2147483647 \<Longrightarrow> signed_take_bit 31 (m + 1) = (m + 1 :: int)"
  by (simp add: signed_take_bit_int_eq_self)

definition updating :: "route_table \<Rightarrow> cptr list \<Rightarrow> cptr list \<Rightarrow> cptr list \<Rightarrow> bool" where
  "updating s ps ts rest \<longleftrightarrow> qsorted (r_routes s) \<and> 0 \<le> r_max_route_chain_id s \<and> distinct (ps @ rest) \<and> set ts \<subseteq> set ps
     \<and> (\<forall>i c. map_of (r_routes s) i = Some c \<longleftrightarrow> c \<in> set ps \<and> c_id (r_heap s c) = i)
     \<and> (\<forall>c\<in>set ps. 0 \<le> c_id (r_heap s c)) \<and> (\<forall>c\<in>set (ps @ rest). c_id (r_heap s c) \<le> r_max_route_chain_id s)
     \<and> inj_on (\<lambda>c. c_id (r_heap s c)) {c \<in> set (ps @ rest). 0 \<le> c_id (r_heap s c)}
     \<and> (\<forall>c\<in>set ps. c \<notin> set ts \<longrightarrow> r_stored s (c_id (r_heap s c)) = Some (r_heap s c))"

lemma updating_new:
  assumes u: "updating s ps ts (c # rest)" and "c_id (r_heap s c) < 0" and i: "i = r_max_route_chain_id s + 1"
  shows "updating (Chain_Save c (s\<lparr>r_max_route_chain_id := i, r_heap := (r_heap s)(c := (r_heap s c)\<lparr>c_id := i\<rparr>), r_routes := qset i c (r_routes s)\<rparr>))
    (ps @ [c]) ts rest"
proof -
  let ?h = "(r_heap s)(c := (r_heap s c)\<lparr>c_id := i\<rparr>)"
  have c: "c \<notin> set ps" "c \<notin> set rest" "c \<notin> set ts" using u by (auto simp: updating_def)
  have le: "c_id (r_heap s d) < i" if "d \<in> set (ps @ rest)" for d using u that i by (fastforce simp: updating_def)
  have i0: "0 \<le> i" using u i by (simp add: updating_def)
  have inj: "inj_on (\<lambda>c. c_id (r_heap s c)) {c \<in> set (ps @ rest). 0 \<le> c_id (r_heap s c)}"
    using u unfolding updating_def by (elim conjE) (erule inj_on_subset, auto)
  have "inj_on (\<lambda>c. c_id (?h c)) {d \<in> set ((ps @ [c]) @ rest). 0 \<le> c_id (?h d)}"
  proof (rule inj_onI)
    fix x y
    assume x: "x \<in> {d \<in> set ((ps @ [c]) @ rest). 0 \<le> c_id (?h d)}" and y: "y \<in> {d \<in> set ((ps @ [c]) @ rest). 0 \<le> c_id (?h d)}"
      and eq: "c_id (?h x) = c_id (?h y)"
    consider "x = c" "y = c" | "x = c" "y \<noteq> c" | "x \<noteq> c" "y = c" | "x \<noteq> c" "y \<noteq> c" by blast
    then show "x = y"
      by cases (use x y eq le [of x] le [of y] inj in \<open>auto simp: inj_on_def\<close>)
  qed
  moreover have "map_of (qset i c (r_routes s)) j = Some d \<longleftrightarrow> d \<in> set (ps @ [c]) \<and> c_id (?h d) = j" for j d
    using u c le [of d] by (auto simp: updating_def qset_lookup split: if_splits)
  moreover have "\<forall>d\<in>set ps. d \<notin> set ts \<longrightarrow> r_stored s (c_id (r_heap s d)) = Some (r_heap s d)" using u by (simp add: updating_def)
  moreover have "\<forall>d\<in>set ps. c_id (r_heap s d) \<noteq> i" "\<forall>d\<in>set (ps @ rest). c_id (r_heap s d) \<le> i" using le by fastforce+
  moreover have "qsorted (r_routes s)" "distinct (ps @ c # rest)" "set ts \<subseteq> set ps" "\<forall>c\<in>set ps. 0 \<le> c_id (r_heap s c)"
    using u by (simp_all add: updating_def)
  ultimately show ?thesis using i0 unfolding updating_def Chain_Save_def
    by (intro conjI) (auto simp: qset_sorted)
qed

lemma updating_old:
  assumes u: "updating s ps ts (c # rest)" and "0 \<le> c_id (r_heap s c)"
  shows "updating (s\<lparr>r_routes := qset (c_id (r_heap s c)) c (r_routes s)\<rparr>) (ps @ [c]) (ts @ [c]) rest"
proof -
  have "c_id (r_heap s d) \<noteq> c_id (r_heap s c)" if "d \<in> set ps" for d
  proof -
    have i: "inj_on (\<lambda>c. c_id (r_heap s c)) {d \<in> set (ps @ c # rest). 0 \<le> c_id (r_heap s d)}"
      using u unfolding updating_def by blast
    have "d \<noteq> c" "0 \<le> c_id (r_heap s d)" using u that by (auto simp: updating_def)
    with inj_on_eq_iff [OF i, of d c] that assms(2) show ?thesis by auto
  qed
  then have "map_of (qset (c_id (r_heap s c)) c (r_routes s)) j = Some d \<longleftrightarrow> d \<in> set (ps @ [c]) \<and> c_id (r_heap s d) = j" for j d
    using u by (auto simp: updating_def qset_lookup)
  moreover have "set ((ps @ [c]) @ rest) = set (ps @ c # rest)" "distinct ((ps @ [c]) @ rest) = distinct (ps @ c # rest)" by auto
  moreover have "qsorted (r_routes s)" "0 \<le> r_max_route_chain_id s" "distinct (ps @ c # rest)" "set ts \<subseteq> set ps"
    "\<forall>c\<in>set ps. 0 \<le> c_id (r_heap s c)" "\<forall>d\<in>set (ps @ c # rest). c_id (r_heap s d) \<le> r_max_route_chain_id s"
    "inj_on (\<lambda>c. c_id (r_heap s c)) {d \<in> set (ps @ c # rest). 0 \<le> c_id (r_heap s d)}"
    "\<forall>c\<in>set ps. c \<notin> set ts \<longrightarrow> r_stored s (c_id (r_heap s c)) = Some (r_heap s c)"
    using u unfolding updating_def by blast+
  ultimately show ?thesis unfolding updating_def using assms(2)
    by (simp only: route_table.simps) (intro conjI; auto simp: qset_sorted)
qed

lemma update_loop_result:
  assumes "updating s ps ts rest" and "r_max_route_chain_id s + int (length rest) < 2147483648"
  shows "updating (fst (update_loop rest s ts)) (ps @ rest) (snd (update_loop rest s ts)) [] \<and> r_jobs (fst (update_loop rest s ts)) = r_jobs s"
  using assms
proof (induction rest arbitrary: s ps ts)
  case (Cons c rest)
  show ?case
  proof (cases "0 \<le> c_id (r_heap s c)")
    case True
    from Cons.IH [OF updating_old [OF Cons.prems(1) True]] Cons.prems(2) True show ?thesis by (simp add: AddRouteChain_def)
  next
    case False
    have m: "0 \<le> r_max_route_chain_id s" using Cons.prems(1) by (simp add: updating_def)
    have "c_id (r_heap s c) < 0" using False by simp
    from Cons.IH [OF updating_new [OF Cons.prems(1) this refl]] Cons.prems(2) False next_route_id [OF m] show ?thesis
      by (simp add: AddRouteChain_def Let_def Chain_Save_def)
  qed
qed simp

lemma save_all:
  assumes "inj_on (\<lambda>c. c_id (r_heap s c)) (set cs)" and "set ts \<subseteq> set cs" and "c \<in> set cs"
  shows "r_stored (foldl (\<lambda>s item. Chain_Save item s) s ts) (c_id (r_heap s c))
    = (if c \<in> set ts then Some (r_heap s c) else r_stored s (c_id (r_heap s c)))"
  using assms(2)
proof (induction ts rule: rev_induct)
  case (snoc d ts)
  have h: "r_heap (foldl (\<lambda>s item. Chain_Save item s) s ts) = r_heap s" for ts by (induction ts rule: rev_induct) (simp_all add: Chain_Save_def)
  have "c_id (r_heap s d) = c_id (r_heap s c) \<longleftrightarrow> d = c" using assms(1,3) snoc.prems by (auto simp: inj_on_def)
  with snoc h show ?case by (auto simp: Chain_Save_def)
qed simp

lemma save_all_fields: "r_heap (foldl (\<lambda>s item. Chain_Save item s) s ts) = r_heap s" "r_routes (foldl (\<lambda>s item. Chain_Save item s) s ts) = r_routes s"
  by (induction ts arbitrary: s) (simp_all add: Chain_Save_def)

lemma update_effect:
  fixes newChain :: "cptr list"
  assumes "distinct newChain" and "list_all (\<lambda>c. c_id (r_heap s c) \<le> r_max_route_chain_id s) newChain"
    and "inj_on (\<lambda>c. c_id (r_heap s c)) {c \<in> set newChain. 0 \<le> c_id (r_heap s c)}"
    and "0 \<le> r_max_route_chain_id s" and "r_max_route_chain_id s + int (length newChain) < 2147483648"
  defines "u \<equiv> run_route_job (length (r_jobs s)) (UpdateRouteChains newChain s)"
  shows "routes_ok u \<and> (\<forall>c. c \<in> set newChain \<longleftrightarrow> GetRouteChain (c_id (r_heap u c)) u = Some c)
    \<and> (\<forall>i. r_stored u i = map_option (r_heap u) (GetRouteChain i u))"
proof -
  let ?s = "s\<lparr>r_routes := []\<rparr>"
  obtain t ts where l: "update_loop newChain ?s [] = (t, ts)" by force
  have "updating ?s [] [] newChain"
    using assms(1-4) by (auto simp: updating_def qsorted_def list_all_iff)
  from update_loop_result [OF this] assms(5) l
  have t: "updating t newChain ts []" "r_jobs t = r_jobs s" by auto
  let ?u = "foldl (\<lambda>s item. Chain_Save item s) t ts"
  have e: "t\<lparr>r_jobs := r_jobs s\<rparr> = t" using t(2) by (cases t) simp
  have u: "u = clean_up ts t"
    using t(2) l unfolding u_def UpdateRouteChains_def run_route_job_def by (simp add: e)
  have uf: "r_heap u = r_heap t" "r_routes u = r_routes t"
    "r_stored u = (\<lambda>i. if map_of (r_routes t) i = None then None else r_stored ?u i)"
    "r_max_route_chain_id u = r_max_route_chain_id t"
  proof -
    have "r_max_route_chain_id (foldl (\<lambda>s item. Chain_Save item s) t ts) = r_max_route_chain_id t" for t ts
      by (induction ts arbitrary: t) (simp_all add: Chain_Save_def)
    then show "r_heap u = r_heap t" "r_routes u = r_routes t"
      "r_stored u = (\<lambda>i. if map_of (r_routes t) i = None then None else r_stored ?u i)"
      "r_max_route_chain_id u = r_max_route_chain_id t"
      by (simp_all add: u clean_up_def Let_def save_all_fields)
  qed
  have m: "map_of (r_routes t) i = Some c \<longleftrightarrow> c \<in> set newChain \<and> c_id (r_heap t c) = i" for i c
    using t(1) by (simp add: updating_def)
  have p: "{c \<in> set (newChain @ []). 0 \<le> c_id (r_heap t c)} = set newChain" "set ts \<subseteq> set newChain" using t(1) by (auto simp: updating_def)
  then have inj: "inj_on (\<lambda>c. c_id (r_heap t c)) (set newChain)" using t(1) unfolding updating_def by metis
  have "r_stored u i = map_option (r_heap u) (GetRouteChain i u)" for i
  proof (cases "map_of (r_routes t) i")
    case (Some c)
    then have c: "c \<in> set newChain" "c_id (r_heap t c) = i" using m by auto
    have "r_stored t i = Some (r_heap t c)" if "c \<notin> set ts" using t(1) c that by (auto simp: updating_def)
    with Some save_all [OF inj p(2) c(1)] c(2) uf show ?thesis by (simp add: GetRouteChain_def)
  qed (simp add: uf GetRouteChain_def)
  moreover have "routes_ok u" using t(1) uf by (simp add: routes_ok_def updating_def)
  ultimately show ?thesis using m uf by (auto simp: GetRouteChain_def)
qed

section \<open>Properties\<close>

text \<open>C8. Saving the routing profiles of the settings window: once the thread has run, the manager has
  exactly the given profiles, each under an identifier of its own (new profiles get fresh ones),
  and storage holds exactly those profiles with their current contents, nothing of the old ones.\<close>

theorem update_route_chains_replaces_all:
  assumes "distinct newChain" and "list_all (\<lambda>c. c_id (r_heap s c) \<le> r_max_route_chain_id s) newChain"
    and "inj_on (\<lambda>c. c_id (r_heap s c)) {c \<in> set newChain. 0 \<le> c_id (r_heap s c)}"
    and "0 \<le> r_max_route_chain_id s" and "r_max_route_chain_id s + int (length newChain) < 2147483648"
  shows "let u = run_route_job (length (r_jobs s)) (UpdateRouteChains newChain s)
    in routes_ok u \<and> (\<forall>c. c \<in> set newChain \<longleftrightarrow> GetRouteChain (c_id (r_heap u c)) u = Some c)
      \<and> (\<forall>i. r_stored u i = map_option (r_heap u) (GetRouteChain i u))"
  unfolding Let_def by (rule update_effect [OF assms])

definition sample_routes :: route_table where
  "sample_routes = \<lparr> r_heap = (\<lambda>c. if c = 0 then new_RoutingChain\<lparr>c_id := 3, c_priority := 7\<rparr> else new_RoutingChain), r_next = 2,
     r_routes = [(3, 0)], r_max_route_chain_id = 5, r_jobs = [], r_stored = [3 \<mapsto> new_RoutingChain\<lparr>c_id := 3\<rparr>, 5 \<mapsto> new_RoutingChain\<lparr>c_id := 5\<rparr>] \<rparr>"

theorem update_route_chains_replaces_all_witness:
  "routes_ok (run_route_job 0 (UpdateRouteChains [1, 0] sample_routes))
   \<and> GetRouteChain 6 (run_route_job 0 (UpdateRouteChains [1, 0] sample_routes)) = Some 1"
proof
  show "routes_ok (run_route_job 0 (UpdateRouteChains [1, 0] sample_routes))"
  proof -
    have "list_all (\<lambda>c. c_id (r_heap sample_routes c) \<le> r_max_route_chain_id sample_routes) [1, 0]"
      "inj_on (\<lambda>c. c_id (r_heap sample_routes c)) {c \<in> set [1, 0]. 0 \<le> c_id (r_heap sample_routes c)}"
      "0 \<le> r_max_route_chain_id sample_routes" "r_max_route_chain_id sample_routes + int (length [1, 0 :: nat]) < 2147483648"
      and j: "length (r_jobs sample_routes) = 0"
      by (auto simp: sample_routes_def new_RoutingChain_def inj_on_def)
    from update_route_chains_replaces_all [OF _ this(1-4)] show ?thesis unfolding Let_def j by simp
  qed
  show "GetRouteChain 6 (run_route_job 0 (UpdateRouteChains [1, 0] sample_routes)) = Some 1"
    by (simp add: sample_routes_def UpdateRouteChains_def AddRouteChain_def run_route_job_def clean_up_def new_RoutingChain_def
        Chain_Save_def GetRouteChain_def Let_def)
qed

text \<open>The routing profiles in use: \<open>GetEnabledRouteChains\<close> lists every enabled profile of the
  manager once, by priority, and by identifier among equal priorities, so their order is
  determined.\<close>

theorem enabled_chains_sorted:
  assumes "routes_ok s"
  shows "sorted_wrt (\<lambda>c d. c_priority (r_heap s c) < c_priority (r_heap s d)
      \<or> c_priority (r_heap s c) = c_priority (r_heap s d) \<and> c_id (r_heap s c) < c_id (r_heap s d)) (GetEnabledRouteChains s)
    \<and> set (GetEnabledRouteChains s) = {c. \<exists>i. GetRouteChain i s = Some c \<and> c_enabled (r_heap s c)}"
proof -
  let ?k = "\<lambda>c. (c_priority (r_heap s c), c_id (r_heap s c))"
  have mem: "set (GetEnabledRouteChains s) = {c. \<exists>i. GetRouteChain i s = Some c \<and> c_enabled (r_heap s c)}"
    using enabled_mem [OF assms] by auto
  have id: "c_id (r_heap s c) = i" if "GetRouteChain i s = Some c" for i c using assms that by (simp add: routes_ok_def GetRouteChain_def)
  have inj: "inj_on ?k (set (GetEnabledRouteChains s))" unfolding mem
  proof (rule inj_onI)
    fix c d
    assume "c \<in> {c. \<exists>i. GetRouteChain i s = Some c \<and> c_enabled (r_heap s c)}"
      and "d \<in> {c. \<exists>i. GetRouteChain i s = Some c \<and> c_enabled (r_heap s c)}" and eq: "?k c = ?k d"
    then obtain i j where "GetRouteChain i s = Some c" "GetRouteChain j s = Some d" by blast
    with id [of i c] id [of j d] eq show "c = d" by simp
  qed
  have "distinct (GetEnabledRouteChains s)" using routes_distinct [OF assms] by (simp add: GetEnabledRouteChains_def)
  moreover have "sorted (map ?k (GetEnabledRouteChains s))" by (simp add: GetEnabledRouteChains_def)
  ultimately have "sorted_wrt (<) (map ?k (GetEnabledRouteChains s))" using inj by (simp add: strict_sorted_iff distinct_map)
  with mem show ?thesis by (auto simp: sorted_wrt_map elim!: sorted_wrt_mono_rel [rotated])
qed

theorem enabled_chains_sorted_witness:
  "set (GetEnabledRouteChains sample_routes) = {c. \<exists>i. GetRouteChain i sample_routes = Some c \<and> c_enabled (r_heap sample_routes c)}"
  using enabled_chains_sorted [of sample_routes] by (simp add: routes_ok_def sample_routes_def qsorted_def)

end
