(* ===== verification/Proxy_Entity.thy ===== *)
theory Proxy_Entity
  imports Config_Item
begin

text \<open>
  A proxy profile (\<open>ProxyEntity\<close> of \<^verbatim>\<open>src/nekobox/dataStore/ProxyEntity.hpp\<close> and
  \<^verbatim>\<open>src/gharqad/dataStore/ProxyEntity.cpp\<close>) with the traffic it counts, its stored items in the
  form that \<open>Config_Item\<close> reads and compares, and the texts the list of profiles shows.
  Profiles are shared objects of the program: a profile is reached by its address, and the heap
  says what is there. The protocol part (the bean) is a stored object of its own.
\<close>

section \<open>The profile\<close>

record traffic =
  t_downlink :: "64 word"
  t_uplink :: "64 word"

record entity =
  e_type :: string
  e_display_type :: string
  e_name :: string
  e_serverAddress :: string
  e_serverPort :: int
  e_id :: int
  e_gid :: int
  e_latencyInt :: int
  e_is_working :: bool
  e_dl_speed :: string
  e_ul_speed :: string
  e_test_country :: string
  e_full_test_report :: string
  e_last_auto_test_time :: "64 word"
  e_traffic_data :: traffic
  e_no_save :: bool

type_synonym ptr = nat
type_synonym heap = "ptr \<Rightarrow> entity"

definition NewProxyEntity :: "string \<Rightarrow> entity" where
  "NewProxyEntity scheme =
     \<lparr> e_type = scheme, e_display_type = '''', e_name = '''', e_serverAddress = ''127.0.0.1'',
       e_serverPort = 1080, e_id = -1, e_gid = 0, e_latencyInt = 0, e_is_working = False,
       e_dl_speed = '''', e_ul_speed = '''', e_test_country = '''', e_full_test_report = '''',
       e_last_auto_test_time = 0, e_traffic_data = \<lparr> t_downlink = 0, t_uplink = 0 \<rparr>, e_no_save = False \<rparr>"

text \<open>The items a profile stores, in the order of the item map: by the hash of their names.\<close>

definition traffic_map :: "(string \<Rightarrow> bytes) \<Rightarrow> traffic \<Rightarrow> store" where
  "traffic_map hsh t =
     sort_key (\<lambda>(n, _). hsh n) [(''dl'', CLong (t_downlink t)), (''ul'', CLong (t_uplink t))]"

definition int_item :: "int \<Rightarrow> cval" where
  "int_item i = CInt (word_of_int i)"

definition entity_map :: "(string \<Rightarrow> bytes) \<Rightarrow> entity \<Rightarrow> store" where
  "entity_map hsh e =
     sort_key (\<lambda>(n, _). hsh n)
       [(''type'', CStr (e_type e)), (''id'', int_item (e_id e)), (''gid'', int_item (e_gid e)),
        (''yc'', int_item (e_latencyInt e)), (''dl'', CStr (e_dl_speed e)), (''ul'', CStr (e_ul_speed e)),
        (''report'', CStr (e_full_test_report e)), (''country'', CStr (e_test_country e)),
        (''is_working'', CBool (e_is_working e)),
        (''last_auto_test_time'', CLong (e_last_auto_test_time e)), (''name'', CStr (e_name e)),
        (''dtype'', CStr (e_display_type e)), (''addr'', CStr (e_serverAddress e)),
        (''port'', int_item (e_serverPort e)),
        (''traffic'', CShared (Some (traffic_map hsh (e_traffic_data e))))]"

text \<open>The names of the protocols; \<open>tr\<close> translates a text of the window.\<close>

definition OutboundTypes :: "(string \<Rightarrow> string) \<Rightarrow> (string \<times> string) list" where
  "OutboundTypes tr =
     [(''socks'', ''Socks''), (''http'', ''HTTP''), (''mieru'', ''Mieru''), (''shadowsocks'', ''Shadowsocks''),
      (''chain'', tr ''Chain Proxy''), (''vmess'', ''VMess''), (''trojan'', ''Trojan''), (''vless'', ''VLESS''),
      (''hysteria'', ''Hysteria 1''), (''hysteria2'', ''Hysteria 2''), (''tuic'', ''TUIC''), (''anytls'', ''AnyTLS''),
      (''shadowtls'', ''ShadowTLS''), (''wireguard'', ''Wireguard''), (''awg'', ''AmneziaWG''),
      (''tailscale'', ''Tailscale''), (''ssh'', ''SSH''), (''tor'', ''Tor''), (''naive'', ''Naive''),
      (''trusttunnel'', ''TrustTunnel''), (''juicity'', ''Juicity''), (''snell'', ''Snell''),
      (''custom'', tr ''Custom''), (''extracore'', tr ''Extra Core'')]"

definition isValid :: "entity \<Rightarrow> bool" where
  "isValid e \<longleftrightarrow> e_type e \<in> fst ` set (OutboundTypes id)"

definition GetDisplayType :: "(string \<Rightarrow> string) \<Rightarrow> string \<Rightarrow> string" where
  "GetDisplayType tr t =
     (if t = '''' then t else case map_of (OutboundTypes tr) t of Some d \<Rightarrow> d | None \<Rightarrow> t)"

definition DisplayAddress :: "entity \<Rightarrow> string" where
  "DisplayAddress e =
     (if e_type e \<notin> {''chain'', ''custom'', ''extracore'', ''tailscale'', ''tor''}
      then e_serverAddress e @ '':'' @ show_int (e_serverPort e) else '''')"

definition DisplayType :: "(string \<Rightarrow> string) \<Rightarrow> entity \<Rightarrow> string" where
  "DisplayType tr e = (if e_display_type e \<noteq> '''' then e_display_type e else GetDisplayType tr (e_type e))"

text \<open>The name a link or a configuration gives a protocol, brought to the program's.\<close>

definition scheme_of :: "string \<Rightarrow> string" where
  "scheme_of scheme =
     (let s = filter (\<lambda>c. c \<noteq> CHR ''-'' \<and> c \<noteq> CHR ''_'') (map lower_char scheme)
      in if s \<in> {''socks5'', ''socks4'', ''socks4a''} then ''socks''
         else if s = ''https'' then ''http''
         else if s = ''ss'' then ''shadowsocks''
         else if s = ''mierus'' then ''mieru''
         else if s \<in> {''naive+https'', ''naive+http'', ''naive+quic''} then ''naive''
         else if s = ''tt'' then ''trusttunnel''
         else if s = ''hy'' then ''hysteria''
         else if s = ''hy2'' then ''hysteria2''
         else if s = ''wg'' then ''wireguard''
         else if s \<in> {''amneziawg'', ''amnezia'', ''vpn''} then ''awg''
         else s)"

section \<open>Comparing profiles\<close>

text \<open>The values of a profile's items: comparing them is antisymmetric, and finds a difference
  exactly when there is one.\<close>

fun plain :: "cval \<Rightarrow> bool" where
  "plain (CInt _) = True"
| "plain (CLong _) = True"
| "plain (CStr _) = True"
| "plain (CBool _) = True"
| "plain _ = False"

lemma CompareValue_swap: "CompareValue a b = - CompareValue b a"
  by auto

lemma compare_v_plain:
  assumes "plain v" and "plain w" and "item_type v = item_type w"
  shows "compare_v hsh v w = - compare_v hsh w v \<and> (compare_v hsh v w = 0 \<longleftrightarrow> v = w)"
proof (cases v)
  case (CInt a)
  then obtain b where w: "w = CInt b" using assms by (cases w) auto
  show ?thesis unfolding CInt w compare_v.simps cval.case by (auto simp: signed_word_eqI)
next
  case (CLong a)
  then obtain b where w: "w = CLong b" using assms by (cases w) auto
  show ?thesis unfolding CLong w compare_v.simps cval.case by (auto simp: signed_word_eqI)
next
  case (CStr a)
  then obtain b where w: "w = CStr b" using assms by (cases w) auto
  show ?thesis unfolding CStr w compare_v.simps cval.case by auto
next
  case (CBool a)
  then obtain b where w: "w = CBool b" using assms by (cases w) auto
  show ?thesis unfolding CBool w compare_v.simps cval.case by auto
qed (use assms in auto)

end
