(* ===== verification/Profile_Group.thy ===== *)
theory Profile_Group
  imports Qt_Base "HOL-Library.Multiset"
begin

text \<open>
  A group of profiles (\<open>Group\<close> of \<^verbatim>\<open>src/gharqad/dataStore/Group.cpp\<close>): the identifiers of its
  profiles in the order of the window, with the operations that change the order. Qt's list
  operations are defined on indices inside the list; \<open>None\<close> is a call outside.
\<close>

section \<open>The group\<close>

record group =
  g_id :: int
  g_archive :: bool
  g_is_subscription :: bool
  g_name :: string
  g_front_proxy_id :: int
  g_landing_proxy_id :: int
  g_profiles :: "int list"

definition NewGroup :: group where
  "NewGroup = \<lparr> g_id = -1, g_archive = False, g_is_subscription = False, g_name = '''',
     g_front_proxy_id = -1, g_landing_proxy_id = -1, g_profiles = [] \<rparr>"

definition HasProfile :: "int \<Rightarrow> group \<Rightarrow> bool" where
  "HasProfile i g \<longleftrightarrow> i \<in> set (g_profiles g)"

definition AddProfile :: "int \<Rightarrow> group \<Rightarrow> group \<times> bool" where
  "AddProfile i g = (if HasProfile i g then (g, False) else (g\<lparr>g_profiles := g_profiles g @ [i]\<rparr>, True))"

definition RemoveProfile :: "int \<Rightarrow> group \<Rightarrow> group \<times> bool" where
  "RemoveProfile i g =
     (if \<not> HasProfile i g then (g, False) else (g\<lparr>g_profiles := removeAll i (g_profiles g)\<rparr>, True))"

text \<open>\<open>QList::swapItemsAt\<close>, \<open>insert\<close> and \<open>remove\<close>.\<close>

definition swapItemsAt :: "int \<Rightarrow> int \<Rightarrow> 'a list \<Rightarrow> 'a list option" where
  "swapItemsAt i j xs =
     (if 0 \<le> i \<and> i < int (length xs) \<and> 0 \<le> j \<and> j < int (length xs)
      then Some (xs[nat i := xs ! nat j, nat j := xs ! nat i]) else None)"

definition insertAt :: "int \<Rightarrow> 'a \<Rightarrow> 'a list \<Rightarrow> 'a list option" where
  "insertAt i x xs =
     (if 0 \<le> i \<and> i \<le> int (length xs) then Some (take (nat i) xs @ x # drop (nat i) xs) else None)"

definition itemAt :: "int \<Rightarrow> 'a list \<Rightarrow> 'a option" where
  "itemAt i xs = (if 0 \<le> i \<and> i < int (length xs) then Some (xs ! nat i) else None)"

definition removeAt :: "int \<Rightarrow> 'a list \<Rightarrow> 'a list option" where
  "removeAt i xs =
     (if 0 \<le> i \<and> i < int (length xs) then Some (take (nat i) xs @ drop (Suc (nat i)) xs) else None)"

definition SwapProfiles :: "int \<Rightarrow> int \<Rightarrow> group \<Rightarrow> (group \<times> bool) option" where
  "SwapProfiles idx1 idx2 g =
     (if int (length (g_profiles g)) \<le> idx1 \<or> int (length (g_profiles g)) \<le> idx2 then Some (g, False)
      else map_option (\<lambda>ps. (g\<lparr>g_profiles := ps\<rparr>, True)) (swapItemsAt idx1 idx2 (g_profiles g)))"

definition EmplaceProfile :: "int \<Rightarrow> int \<Rightarrow> group \<Rightarrow> (group \<times> bool) option" where
  "EmplaceProfile idx newIdx g =
     (if int (length (g_profiles g)) \<le> idx \<or> int (length (g_profiles g)) \<le> newIdx then Some (g, False)
      else case itemAt idx (g_profiles g) of
             None \<Rightarrow> None
           | Some i \<Rightarrow>
               (case insertAt (newIdx + 1) i (g_profiles g) of
                  None \<Rightarrow> None
                | Some ps \<Rightarrow>
                    map_option (\<lambda>ps. (g\<lparr>g_profiles := ps\<rparr>, True))
                      (removeAt (if idx < newIdx then idx else idx + 1) ps)))"

section \<open>Lemmas\<close>

lemma removeAll_foldl: "foldl (\<lambda>ps i. removeAll i ps) ps ds = filter (\<lambda>i. i \<notin> set ds) ps"
  by (induction ds arbitrary: ps) (auto simp: removeAll_filter_not_eq conj_commute intro: filter_cong)

lemma take_drop_remove:
  assumes "i < length xs"
  shows "mset (take i xs @ drop (Suc i) xs) = mset xs - {#xs ! i#}"
proof -
  have "xs = take i xs @ xs ! i # drop (Suc i) xs" using assms by (simp add: id_take_nth_drop)
  then have "mset xs = mset (take i xs) + add_mset (xs ! i) (mset (drop (Suc i) xs))" by (metis mset.simps(2) mset_append)
  then show ?thesis by simp
qed

text \<open>Moving the member at \<open>i\<close> behind the member at \<open>j\<close>: the reference for \<open>EmplaceProfile\<close>.\<close>

definition moved :: "nat \<Rightarrow> nat \<Rightarrow> 'a list \<Rightarrow> 'a list" where
  "moved i j xs =
     (if i \<le> j then take i xs @ take (j - i) (drop (Suc i) xs) @ xs ! i # drop (Suc j) xs
      else take (Suc j) xs @ xs ! i # take (i - Suc j) (drop (Suc j) xs) @ drop (Suc i) xs)"

lemma insert_remove_moved:
  assumes "i < length xs" "j < length xs"
  shows "removeAt (if int i < int j then int i else int i + 1) (take (Suc j) xs @ xs ! i # drop (Suc j) xs) = Some (moved i j xs)"
proof (rule linorder_cases [of i j])
  assume "i < j"
  with assms show ?thesis
    by (simp add: removeAt_def moved_def drop_take min_def nat_diff_distrib Suc_diff_Suc)
next
  assume "j < i"
  have "nat (int i + 1) = Suc i" by simp
  with \<open>j < i\<close> assms show ?thesis
    by (simp add: removeAt_def moved_def take_Cons' drop_Cons' min_def)
next
  assume "i = j"
  have "nat (int j + 1) = Suc j" by simp
  with \<open>i = j\<close> assms show ?thesis
    by (simp add: removeAt_def moved_def min_def take_Suc_conv_app_nth)
qed

lemma moved_mset: "i < length xs \<Longrightarrow> j < length xs \<Longrightarrow> mset (moved i j xs) = mset xs"
proof (cases "i \<le> j")
  case True
  assume "i < length xs" "j < length xs"
  have "xs = take i xs @ xs ! i # take (j - i) (drop (Suc i) xs) @ drop (Suc j) xs"
    using True \<open>i < length xs\<close> append_take_drop_id [of "j - i" "drop (Suc i) xs"] by (simp add: id_take_nth_drop)
  then have "mset xs = mset (take i xs @ xs ! i # take (j - i) (drop (Suc i) xs) @ drop (Suc j) xs)" by (rule arg_cong)
  with True show ?thesis by (simp add: moved_def)
next
  case False
  assume "i < length xs" "j < length xs"
  have "drop (Suc j) xs = take (i - Suc j) (drop (Suc j) xs) @ xs ! i # drop (Suc i) xs"
    using False \<open>i < length xs\<close> append_take_drop_id [of "i - Suc j" "drop (Suc j) xs"] by (simp add: Cons_nth_drop_Suc)
  then have "mset xs = mset (take (Suc j) xs @ take (i - Suc j) (drop (Suc j) xs) @ xs ! i # drop (Suc i) xs)"
    by (metis append_take_drop_id)
  with False show ?thesis by (simp add: moved_def)
qed

lemma moved_position: "i < length xs \<Longrightarrow> j < length xs \<Longrightarrow> moved i j xs ! (if i \<le> j then j else Suc j) = xs ! i"
  by (auto simp: moved_def nth_append min_def nth_Cons')

lemma EmplaceProfile_moved:
  assumes "i < length (g_profiles g)" "j < length (g_profiles g)"
  shows "EmplaceProfile (int i) (int j) g = Some (g\<lparr>g_profiles := moved i j (g_profiles g)\<rparr>, True)"
proof -
  have "nat (int j + 1) = Suc j" by simp
  then show ?thesis using assms insert_remove_moved [OF assms] by (simp add: EmplaceProfile_def itemAt_def insertAt_def)
qed

section \<open>Properties\<close>

text \<open>Dragging a profile inside a group: for any two rows of the group the profile of the first
  lands right behind the profile of the second (at its place, when it comes from above), the
  group keeps exactly its profiles, and a row past the end leaves the group as it is.\<close>

theorem emplace_profile_moves:
  assumes "i < length (g_profiles g)" and "j < length (g_profiles g)"
  shows "(\<exists>g'. EmplaceProfile (int i) (int j) g = Some (g', True)
         \<and> mset (g_profiles g') = mset (g_profiles g)
         \<and> g_profiles g' ! (if i \<le> j then j else Suc j) = g_profiles g ! i
         \<and> g' = g\<lparr>g_profiles := g_profiles g'\<rparr>)
   \<and> EmplaceProfile (int (length (g_profiles g)) + int k) newIdx g = Some (g, False)"
proof
  show "\<exists>g'. EmplaceProfile (int i) (int j) g = Some (g', True)
         \<and> mset (g_profiles g') = mset (g_profiles g)
         \<and> g_profiles g' ! (if i \<le> j then j else Suc j) = g_profiles g ! i
         \<and> g' = g\<lparr>g_profiles := g_profiles g'\<rparr>"
    using EmplaceProfile_moved [OF assms] moved_mset [OF assms] moved_position [OF assms] by simp
qed (simp add: EmplaceProfile_def)

theorem emplace_profile_moves_witness:
  "\<exists>g'. EmplaceProfile 3 0 (NewGroup\<lparr>g_profiles := [7, 8, 9, 10]\<rparr>) = Some (g', True)
     \<and> mset (g_profiles g') = {#7, 8, 9, 10#} \<and> g_profiles g' ! 1 = 10"
  using emplace_profile_moves [of 3 "NewGroup\<lparr>g_profiles := [7, 8, 9, 10]\<rparr>" 0] by (simp add: add_ac) blast

end
