(* ===== verification/Profile_Cache.thy ===== *)
theory Profile_Cache
  imports Nb_Prelude
begin

text \<open>
  The bounded cache behind \<open>ProfileManager::weak_profiles\<close> (\<open>lru11::Cache\<close> of
  \<^verbatim>\<open>src/3rdparty/LRUCache/LRUCache11.hpp\<close>): the list \<open>keys_\<close>, most recently used first; the hash map
  \<open>cache_\<close> only finds the nodes of that list. The locale \<open>bounded_cache\<close> states what the
  profile manager relies on.
\<close>

type_synonym ('k, 'v) lru = "('k \<times> 'v) list"

fun lru_prune_loop :: "nat \<Rightarrow> ('k, 'v) lru \<Rightarrow> nat \<Rightarrow> ('k, 'v) lru" where
  "lru_prune_loop maxSize c 0 = c"
| "lru_prune_loop maxSize c (Suc n) = (if length c > maxSize then lru_prune_loop maxSize (butlast c) n else c)"

definition lru_prune :: "nat \<Rightarrow> nat \<Rightarrow> ('k, 'v) lru \<Rightarrow> ('k, 'v) lru" where
  "lru_prune maxSize elasticity c =
     (if maxSize = 0 \<or> length c < maxSize + elasticity then c else lru_prune_loop maxSize c (length c))"

definition lru_drop :: "'k \<Rightarrow> ('k, 'v) lru \<Rightarrow> ('k, 'v) lru" where
  "lru_drop k c = filter (\<lambda>(k', _). k' \<noteq> k) c"

definition lru_insert :: "nat \<Rightarrow> nat \<Rightarrow> 'k \<Rightarrow> 'v \<Rightarrow> ('k, 'v) lru \<Rightarrow> ('k, 'v) lru" where
  "lru_insert maxSize elasticity k v c =
     (if map_of c k \<noteq> None then (k, v) # lru_drop k c else lru_prune maxSize elasticity ((k, v) # c))"

definition lru_tryGet :: "'k \<Rightarrow> ('k, 'v) lru \<Rightarrow> ('k, 'v) lru \<times> 'v option" where
  "lru_tryGet k c =
     (case map_of c k of None \<Rightarrow> (c, None) | Some v \<Rightarrow> ((k, v) # lru_drop k c, Some v))"

section \<open>The contract\<close>

locale bounded_cache =
  fixes put :: "'k \<Rightarrow> 'v \<Rightarrow> 'c \<Rightarrow> 'c" and get :: "'c \<Rightarrow> 'k \<Rightarrow> 'v option"
    and touch :: "'k \<Rightarrow> 'c \<Rightarrow> 'c" and del :: "'k \<Rightarrow> 'c \<Rightarrow> 'c" and ok :: "'c \<Rightarrow> bool"
  assumes ok_put: "ok c \<Longrightarrow> ok (put k v c)"
    and ok_touch: "ok c \<Longrightarrow> ok (touch k c)"
    and ok_del: "ok c \<Longrightarrow> ok (del k c)"
    and get_put: "ok c \<Longrightarrow> get (put k v c) k = Some v"
    and get_put_other: "ok c \<Longrightarrow> k' \<noteq> k \<Longrightarrow> get (put k v c) k' = Some w \<Longrightarrow> get c k' = Some w"
    and get_touch: "ok c \<Longrightarrow> get (touch k c) = get c"
    and get_del: "ok c \<Longrightarrow> get (del k c) = (get c)(k := None)"
begin

text \<open>Whatever the cache returns was put there: a relation between keys and values that every
  insertion respects is respected by every answer.\<close>

lemma coherent_put:
  assumes "ok c" and "\<And>k v. get c k = Some v \<Longrightarrow> P k v" and "P k v" and "get (put k v c) k' = Some w"
  shows "P k' w"
  using assms get_put [OF assms(1), of k v] get_put_other [OF assms(1), of k' k v w] by (cases "k' = k") auto

lemma coherent_del:
  assumes "ok c" and "\<And>k v. get c k = Some v \<Longrightarrow> P k v" and "get (del k c) k' = Some w"
  shows "P k' w"
  using assms by (auto simp: get_del split: if_splits)

end

section \<open>The list implements the contract\<close>

definition lru_ok :: "nat \<Rightarrow> ('k, 'v) lru \<Rightarrow> bool" where
  "lru_ok bound c \<longleftrightarrow> distinct (map fst c) \<and> length c < bound"

lemma prune_loop_take: "length c \<le> maxSize + n \<Longrightarrow> lru_prune_loop maxSize c n = take maxSize c"
  by (induction n arbitrary: c) (auto simp: butlast_conv_take)

lemma lru_prune_take:
  "lru_prune maxSize elasticity c = (if maxSize = 0 \<or> length c < maxSize + elasticity then c else take maxSize c)"
  by (simp add: lru_prune_def prune_loop_take)

lemma lru_drop_lookup: "map_of (lru_drop k c) = (map_of c)(k := None)"
  by (induction c) (auto simp: lru_drop_def fun_eq_iff)

lemma lru_drop_distinct: "distinct (map fst c) \<Longrightarrow> distinct (map fst (lru_drop k c))"
  by (auto simp: lru_drop_def distinct_map_filter)

lemma lru_drop_length: "map_of c k \<noteq> None \<Longrightarrow> length (lru_drop k c) < length c"
  unfolding lru_drop_def by (rule length_filter_less [of "(k, the (map_of c k))"]) (auto dest: map_of_SomeD)

lemma lru_drop_keys: "k \<notin> fst ` set (lru_drop k c)"
  by (auto simp: lru_drop_def)

lemma map_of_take_Some: "distinct (map fst c) \<Longrightarrow> map_of (take n c) k = Some v \<Longrightarrow> map_of c k = Some v"
  by (metis in_set_takeD map_of_SomeD map_of_is_SomeI)

interpretation lru: bounded_cache "lru_insert (Suc m) (Suc e)" map_of "\<lambda>k c. fst (lru_tryGet k c)" lru_drop "lru_ok (Suc m + Suc e)" for m e
proof unfold_locales
  fix c :: "('a \<times> 'b) list" and k k' v w
  assume ok: "lru_ok (Suc m + Suc e) c"
  show "lru_ok (Suc m + Suc e) (lru_insert (Suc m) (Suc e) k v c)"
  proof (cases "map_of c k")
    case None
    then show ?thesis using ok
      by (auto simp: lru_ok_def lru_insert_def lru_prune_take map_of_eq_None_iff take_map [symmetric] dest: in_set_takeD)
  next
    case (Some x)
    then show ?thesis using ok lru_drop_distinct [of c k] lru_drop_length [of c k] lru_drop_keys [of k c]
      by (simp add: lru_ok_def lru_insert_def)
  qed
  show "lru_ok (Suc m + Suc e) (fst (lru_tryGet k c))"
    using ok lru_drop_distinct [of c k] lru_drop_length [of c k] lru_drop_keys [of k c]
    by (cases "map_of c k") (simp_all add: lru_ok_def lru_tryGet_def)
  show "lru_ok (Suc m + Suc e) (lru_drop k c)"
    using ok lru_drop_distinct [of c k] by (auto simp: lru_ok_def lru_drop_def intro: le_less_trans [OF length_filter_le])
  show "map_of (lru_insert (Suc m) (Suc e) k v c) k = Some v"
    by (simp add: lru_insert_def lru_prune_take)
  show "map_of (fst (lru_tryGet k c)) = map_of c"
    by (auto simp: lru_tryGet_def lru_drop_lookup fun_eq_iff split: option.split)
  show "map_of (lru_drop k c) = (map_of c)(k := None)" by (rule lru_drop_lookup)
  show "map_of c k' = Some w" if "k' \<noteq> k" "map_of (lru_insert (Suc m) (Suc e) k v c) k' = Some w"
    using that ok map_of_take_Some [of c m k' w]
    by (auto simp: lru_insert_def lru_prune_take lru_drop_lookup lru_ok_def split: if_splits)
qed

end
