(* ===== verification/Profile_Manager.thy ===== *)
theory Profile_Manager
  imports Proxy_Entity Profile_Group Profile_Cache
begin

text \<open>
  The owner of all profiles and groups (\<open>ProfileManager\<close> of
  \<^verbatim>\<open>src/gharqad/dataStore/Database.cpp\<close>). Profiles and groups are shared objects on a heap: callers, the
  cache of new profiles, the bounded cache and the threads that save them hold the same
  addresses. Storage holds what was saved last; how an object becomes bytes and that a saved
  object is loaded back is shown in the theory \<open>Db_Store\<close>. Every operation that writes does so
  in a thread of its own, which takes the manager's lock: the threads that have been started and
  not yet run are the list of jobs, which the step relation below runs in any order.
\<close>

section \<open>State\<close>

type_synonym gptr = nat

record tables =
  tb_Proxies :: "int \<Rightarrow> entity option"
  tb_Beans :: "int set"
  tb_Groups :: "int \<Rightarrow> group option"
  tb_Subscriptions :: "int set"

datatype job =
    Save_profiles gptr "ptr list"
  | Save_groups "gptr list"
  | Delete_profiles "gptr list" "int list"
  | Delete_groups "int list"

record manager =
  m_heap :: heap
  m_next :: ptr
  m_bean_alive :: "ptr \<Rightarrow> bool"
  m_gheap :: "gptr \<Rightarrow> group"
  m_gnext :: gptr
  m_cached_profiles :: "int \<Rightarrow> ptr option"
  m_weak_profiles :: "(int, ptr) lru"
  m_groups :: "(int \<times> gptr) list"
  m_groupsTabOrder :: "int list"
  m_max_profile_id :: int
  m_max_group_id :: int
  m_started_id :: int
  m_current_group :: int
  m_jobs :: "job list"
  m_tables :: tables

text \<open>The next identifier, as a C \<open>int\<close>.\<close>

definition next_id :: "int \<Rightarrow> int" where
  "next_id i = signed_take_bit 31 (i + 1)"

definition runOnNewThread :: "job \<Rightarrow> manager \<Rightarrow> manager" where
  "runOnNewThread j s = s\<lparr>m_jobs := m_jobs s @ [j]\<rparr>"

definition set_entity :: "ptr \<Rightarrow> (entity \<Rightarrow> entity) \<Rightarrow> manager \<Rightarrow> manager" where
  "set_entity p f s = s\<lparr>m_heap := (m_heap s)(p := f (m_heap s p))\<rparr>"

definition set_group :: "gptr \<Rightarrow> (group \<Rightarrow> group) \<Rightarrow> manager \<Rightarrow> manager" where
  "set_group g f s = s\<lparr>m_gheap := (m_gheap s)(g := f (m_gheap s g))\<rparr>"

section \<open>Profiles\<close>

definition CacheProfile :: "ptr \<Rightarrow> manager \<Rightarrow> manager" where
  "CacheProfile ent s =
     (let i = e_id (m_heap s ent)
      in if m_cached_profiles s i = None then s\<lparr>m_cached_profiles := (m_cached_profiles s)(i \<mapsto> ent)\<rparr> else s)"

definition UncacheProfile :: "int \<Rightarrow> bool \<Rightarrow> manager \<Rightarrow> manager" where
  "UncacheProfile i force s =
     (let s = s\<lparr>m_cached_profiles := (m_cached_profiles s)(i := None)\<rparr>
      in if force then s\<lparr>m_weak_profiles := lru_drop i (m_weak_profiles s)\<rparr> else s)"

text \<open>\<open>ProxyEntity::Save\<close>: the profile and its bean, if one is alive.\<close>

definition Entity_Save :: "ptr \<Rightarrow> manager \<Rightarrow> manager" where
  "Entity_Save ent s =
     (let e = m_heap s ent; s = UncacheProfile (e_id e) False s; t = m_tables s
      in if e_no_save e then s
         else s\<lparr>m_tables := t\<lparr>tb_Proxies := (tb_Proxies t)(e_id e \<mapsto> e),
                             tb_Beans := (if m_bean_alive s ent then insert (e_id e) (tb_Beans t) else tb_Beans t)\<rparr>\<rparr>)"

text \<open>\<open>~ProxyEntity\<close> of a profile that nothing refers to any more while its bean is still in use:
  both are saved once more. (Without such a bean the destructor does nothing.) It happens when the
  last reference goes, which may be in the cache: the step relation has it as a step of its own.\<close>

definition Entity_destroy :: "ptr \<Rightarrow> manager \<Rightarrow> manager" where
  "Entity_destroy ent s =
     (let e = m_heap s ent; t = m_tables s
      in if e_no_save e \<or> e_id e < 0 then s
         else s\<lparr>m_tables := t\<lparr>tb_Proxies := (tb_Proxies t)(e_id e \<mapsto> e), tb_Beans := insert (e_id e) (tb_Beans t)\<rparr>\<rparr>)"

definition LoadProxyEntity :: "tables \<Rightarrow> int \<Rightarrow> entity" where
  "LoadProxyEntity t i =
     (case tb_Proxies t i of
        Some e \<Rightarrow> e\<lparr>e_no_save := False\<rparr>
      | None \<Rightarrow> (NewProxyEntity '''')\<lparr>e_id := i\<rparr>)"

definition weak_insert :: "int \<Rightarrow> ptr \<Rightarrow> (int, ptr) lru \<Rightarrow> (int, ptr) lru" where
  "weak_insert = lru_insert 300 100"

text \<open>A record that cannot be read leaves an object that is destroyed at once; it has no bean, so its
  destructor saves nothing. An object that the weak cache gives up here is destroyed by a step of its
  own (\<open>Entity_destroy\<close>), if nothing else refers to it.\<close>

definition GetProfile :: "int \<Rightarrow> manager \<Rightarrow> manager \<times> ptr option" where
  "GetProfile i s =
     (case m_cached_profiles s i of
        Some p \<Rightarrow> (s, Some p)
      | None \<Rightarrow>
          (case lru_tryGet i (m_weak_profiles s) of
             (w, Some p) \<Rightarrow> (s\<lparr>m_weak_profiles := w\<rparr>, Some p)
           | (w, None) \<Rightarrow>
               (let e = LoadProxyEntity (m_tables s) i; p = m_next s
                in if isValid e
                   then (s\<lparr>m_heap := (m_heap s)(p := e), m_bean_alive := (m_bean_alive s)(p := False), m_next := Suc p,
                           m_weak_profiles := weak_insert i p w\<rparr>, Some p)
                   else (s, None))))"

fun FillProfileEnts :: "int list \<Rightarrow> manager \<Rightarrow> manager \<times> ptr list" where
  "FillProfileEnts [] s = (s, [])"
| "FillProfileEnts (i # l) s =
     (case GetProfile i s of
        (s1, None) \<Rightarrow> FillProfileEnts l s1
      | (s1, Some p) \<Rightarrow> (let (s2, ps) = FillProfileEnts l s1 in (s2, p # ps)))"

definition GetProfileLatency :: "int \<Rightarrow> manager \<Rightarrow> manager \<times> int" where
  "GetProfileLatency i s =
     (case GetProfile i s of (s1, None) \<Rightarrow> (s1, -1) | (s1, Some p) \<Rightarrow> (s1, e_latencyInt (m_heap s1 p)))"

definition GetGroup :: "int \<Rightarrow> manager \<Rightarrow> gptr option" where
  "GetGroup i s = map_of (m_groups s) i"

definition CurrentGroup :: "manager \<Rightarrow> gptr option" where
  "CurrentGroup s = GetGroup (m_current_group s) s"

definition getGroupCount :: "manager \<Rightarrow> nat" where
  "getGroupCount s = sum_list (map (\<lambda>(_, g). length (g_profiles (m_gheap s g))) (m_groups s))"

fun add_loop :: "int \<Rightarrow> gptr \<Rightarrow> ptr list \<Rightarrow> manager \<Rightarrow> manager" where
  "add_loop gid grp [] s = s"
| "add_loop gid grp (ent # ents) s =
     (if 0 \<le> e_id (m_heap s ent) then add_loop gid grp ents s
      else let i = next_id (m_max_profile_id s);
               s = s\<lparr>m_max_profile_id := i\<rparr>;
               s = set_entity ent (\<lambda>e. e\<lparr>e_gid := gid, e_id := i\<rparr>) s;
               s = set_group grp (\<lambda>g. g\<lparr>g_profiles := g_profiles g @ [i]\<rparr>) s
           in add_loop gid grp ents (CacheProfile ent s))"

definition AddProfileBatch :: "ptr list \<Rightarrow> int \<Rightarrow> manager \<Rightarrow> manager \<times> bool" where
  "AddProfileBatch ents gid0 s =
     (let gid = (if gid0 < 0 then m_current_group s else gid0)
      in case GetGroup gid s of
           None \<Rightarrow> (s, False)
         | Some grp \<Rightarrow> (runOnNewThread (Save_profiles grp ents) (add_loop gid grp ents s), True))"

definition Manager_AddProfile :: "ptr \<Rightarrow> int \<Rightarrow> manager \<Rightarrow> manager \<times> bool" where
  "Manager_AddProfile ent gid s = AddProfileBatch [ent] gid s"

definition ReplaceProfile :: "int \<Rightarrow> ptr option \<Rightarrow> manager \<Rightarrow> manager \<times> bool" where
  "ReplaceProfile i ent0 s =
     (case ent0 of
        None \<Rightarrow> (s, False)
      | Some ent \<Rightarrow>
          if i < 0 \<or> 0 \<le> e_id (m_heap s ent) then (s, False)
          else case GetProfile i s of
                 (s1, None) \<Rightarrow> (s1, False)
               | (s1, Some old) \<Rightarrow>
                   (let o' = m_heap s1 old;
                        s2 = set_entity ent (\<lambda>e. e\<lparr>e_id := i, e_gid := e_gid o',
                               e_name := (if e_name e = '''' then e_name o' else e_name e),
                               e_traffic_data := e_traffic_data o'\<rparr>) s1;
                        s3 = set_entity old (\<lambda>e. e\<lparr>e_no_save := True\<rparr>) s2;
                        s4 = CacheProfile ent (UncacheProfile i True s3)
                    in (UncacheProfile i True (Entity_Save ent s4), True)))"

fun move_loop :: "int \<Rightarrow> gptr \<Rightarrow> ptr list \<Rightarrow> manager \<Rightarrow> gptr list \<Rightarrow> bool \<Rightarrow> manager \<times> gptr list \<times> bool" where
  "move_loop mgid target [] s grps added = (s, grps, added)"
| "move_loop mgid target (ent # ents) s grps added =
     (let i = e_id (m_heap s ent); gid = e_gid (m_heap s ent)
      in if gid = mgid then move_loop mgid target ents s grps added
         else case map_of (m_groups s) gid of
                None \<Rightarrow> move_loop mgid target ents s grps added
              | Some grp \<Rightarrow>
                  (let s = set_group grp (fst \<circ> RemoveProfile i) s;
                       s = set_group target (fst \<circ> AddProfile i) s;
                       s = set_entity ent (\<lambda>e. e\<lparr>e_gid := mgid\<rparr>) s
                   in move_loop mgid target ents s (List.insert grp grps) True))"

text \<open>The set \<open>ments\<close> of the code, whose members the thread saves too, stays empty.\<close>

definition MoveProfileBatch_ents :: "ptr list \<Rightarrow> int \<Rightarrow> manager \<Rightarrow> manager \<times> bool" where
  "MoveProfileBatch_ents ents mgid s =
     (case map_of (m_groups s) mgid of
        None \<Rightarrow> (s, False)
      | Some target \<Rightarrow>
          (let (s, grps, added) = move_loop mgid target ents s [] False
           in (if added then runOnNewThread (Save_groups (List.insert target grps)) s else s, True)))"

definition MoveProfileBatch :: "int list \<Rightarrow> int \<Rightarrow> manager \<Rightarrow> manager \<times> bool" where
  "MoveProfileBatch ids gid s = (let (s, ents) = FillProfileEnts ids s in MoveProfileBatch_ents ents gid s)"

definition MoveProfile :: "int \<Rightarrow> int \<Rightarrow> manager \<Rightarrow> manager \<times> bool" where
  "MoveProfile i gid s = MoveProfileBatch [i] gid s"

text \<open>The loop of \<open>BatchDeleteProfiles\<close> with the changed groups and the deleted identifiers.\<close>

fun delete_loop :: "int \<Rightarrow> int list \<Rightarrow> manager \<Rightarrow> gptr list \<Rightarrow> int list \<Rightarrow> manager \<times> gptr list \<times> int list" where
  "delete_loop groupid [] s changed_groups deleted_ids = (s, changed_groups, deleted_ids)"
| "delete_loop groupid (i # ids) s changed_groups deleted_ids =
     (if i < 0 \<or> m_started_id s = i then delete_loop groupid ids s changed_groups deleted_ids
      else case GetProfile i s of
             (s, None) \<Rightarrow> delete_loop groupid ids s changed_groups deleted_ids
           | (s, Some ent) \<Rightarrow>
               (let gid = e_gid (m_heap s ent);
                    rest = (\<lambda>s changed. delete_loop groupid ids (UncacheProfile i True s) changed (List.insert i deleted_ids))
                in if groupid = -999 then rest s changed_groups
                   else if groupid < 0
                   then (case GetGroup gid s of
                           None \<Rightarrow> rest s changed_groups
                         | Some grp \<Rightarrow>
                             rest (set_group grp (fst \<circ> RemoveProfile i) s) (List.insert grp changed_groups))
                   else if groupid \<noteq> gid then delete_loop groupid ids s changed_groups deleted_ids
                   else rest s changed_groups))"

definition BatchDeleteProfiles :: "int list \<Rightarrow> int \<Rightarrow> manager \<Rightarrow> manager" where
  "BatchDeleteProfiles ids groupid s =
     (let (s, changed_groups, deleted_ids) = delete_loop groupid ids s [] []
      in runOnNewThread (Delete_profiles changed_groups deleted_ids) s)"

definition DeleteProfile :: "int \<Rightarrow> manager \<Rightarrow> manager" where
  "DeleteProfile i s = BatchDeleteProfiles [i] (-1) s"

section \<open>Groups\<close>

definition Group_Save :: "gptr \<Rightarrow> manager \<Rightarrow> manager" where
  "Group_Save g s =
     (let x = m_gheap s g; t = m_tables s
      in s\<lparr>m_tables := t\<lparr>tb_Groups := (tb_Groups t)(g_id x \<mapsto> x)\<rparr>\<rparr>)"

text \<open>\<open>Group::DropNulls\<close>: the entries of a group that name no profile any more.\<close>

fun null_profiles :: "int list \<Rightarrow> manager \<Rightarrow> manager \<times> int list" where
  "null_profiles [] s = (s, [])"
| "null_profiles (i # ids) s =
     (case GetProfile i s of
        (s, ent) \<Rightarrow>
          (case null_profiles ids s of
             (s, dropped) \<Rightarrow> (s, if ent = None then i # dropped else dropped)))"

definition DropNulls :: "gptr \<Rightarrow> manager \<Rightarrow> manager \<times> nat" where
  "DropNulls g s =
     (let (s, dropped) = null_profiles (g_profiles (m_gheap s g)) s;
          s = set_group g (\<lambda>x. x\<lparr>g_profiles := foldl (\<lambda>ps i. removeAll i ps) (g_profiles x) dropped\<rparr>) s
      in (Group_Save g s, length dropped))"

fun add_groups_loop :: "gptr list \<Rightarrow> manager \<Rightarrow> gptr list \<Rightarrow> manager \<times> gptr list" where
  "add_groups_loop [] s to_save = (s, to_save)"
| "add_groups_loop (ent # ents) s to_save =
     (if 0 \<le> g_id (m_gheap s ent) then add_groups_loop ents s to_save
      else let i = next_id (m_max_group_id s);
               s = set_group ent (\<lambda>g. g\<lparr>g_id := i\<rparr>) (s\<lparr>m_max_group_id := i\<rparr>);
               s = s\<lparr>m_groups := qset i ent (m_groups s), m_groupsTabOrder := m_groupsTabOrder s @ [i]\<rparr>
           in add_groups_loop ents s (to_save @ [ent]))"

definition AddGroupBatch :: "gptr list \<Rightarrow> manager \<Rightarrow> manager \<times> bool" where
  "AddGroupBatch ents s =
     (let (s, to_save) = add_groups_loop ents s []
      in if to_save \<noteq> [] then (runOnNewThread (Save_groups to_save) s, True) else (s, False))"

definition AddGroup :: "gptr \<Rightarrow> manager \<Rightarrow> manager \<times> bool" where
  "AddGroup ent s = AddGroupBatch [ent] s"

definition erase_group :: "int \<Rightarrow> manager \<Rightarrow> manager" where
  "erase_group gid s =
     s\<lparr>m_groupsTabOrder := removeAll gid (m_groupsTabOrder s), m_groups := filter (\<lambda>(i, _). i \<noteq> gid) (m_groups s)\<rparr>"

definition BatchDeleteGroups :: "int list \<Rightarrow> manager \<Rightarrow> manager" where
  "BatchDeleteGroups ids s =
     (let s = foldl (\<lambda>s gid. erase_group gid s) s ids; to_drop = remdups ids
      in if to_drop \<noteq> [] then runOnNewThread (Delete_groups to_drop) s else s)"

definition DeleteGroup :: "int \<Rightarrow> manager \<Rightarrow> manager" where
  "DeleteGroup gid s = BatchDeleteGroups [gid] s"

text \<open>The set of the paths of extra cores.\<close>

definition AddExtraCorePath :: "string \<Rightarrow> string set \<Rightarrow> string set \<times> bool" where
  "AddExtraCorePath path extraCorePaths =
     (if path \<in> extraCorePaths then (extraCorePaths, False) else (insert path extraCorePaths, True))"

section \<open>The threads\<close>

definition Drop_profile :: "int \<Rightarrow> manager \<Rightarrow> manager" where
  "Drop_profile i s =
     (let t = m_tables s
      in s\<lparr>m_tables := t\<lparr>tb_Proxies := (tb_Proxies t)(i := None), tb_Beans := tb_Beans t - {i}\<rparr>\<rparr>)"

definition Drop_group :: "int \<Rightarrow> manager \<Rightarrow> manager" where
  "Drop_group i s =
     (let t = m_tables s
      in s\<lparr>m_tables := t\<lparr>tb_Groups := (tb_Groups t)(i := None), tb_Subscriptions := tb_Subscriptions t - {i}\<rparr>\<rparr>)"

definition delete_members :: "int \<Rightarrow> manager \<Rightarrow> manager" where
  "delete_members gid s =
     (case GetGroup gid s of
        None \<Rightarrow> s
      | Some g \<Rightarrow> BatchDeleteProfiles (g_profiles (m_gheap s g)) gid s)"

fun run_job :: "job \<Rightarrow> manager \<Rightarrow> manager" where
  "run_job (Save_profiles g ents) s = foldl (\<lambda>s ent. Entity_Save ent s) (Group_Save g s) ents"
| "run_job (Save_groups gs) s = foldl (\<lambda>s g. Group_Save g s) s gs"
| "run_job (Delete_profiles gs ids) s = foldl (\<lambda>s i. Drop_profile i s) (foldl (\<lambda>s g. Group_Save g s) s gs) ids"
| "run_job (Delete_groups gids) s = foldl (\<lambda>s gid. Drop_group gid s) (foldl (\<lambda>s gid. delete_members gid s) s gids) gids"

definition run_nth :: "nat \<Rightarrow> manager \<Rightarrow> manager" where
  "run_nth k s = run_job (m_jobs s ! k) (s\<lparr>m_jobs := take k (m_jobs s) @ drop (Suc k) (m_jobs s)\<rparr>)"

section \<open>Start\<close>

definition LoadGroup :: "tables \<Rightarrow> int \<Rightarrow> group" where
  "LoadGroup t i = (case tb_Groups t i of Some g \<Rightarrow> g | None \<Rightarrow> NewGroup\<lparr>g_id := i\<rparr>)"

fun load_groups :: "int list \<Rightarrow> manager \<Rightarrow> int list \<Rightarrow> int \<Rightarrow> manager \<times> int list \<times> int" where
  "load_groups [] s loadedOrder mx = (s, loadedOrder, mx)"
| "load_groups (i # ids) s loadedOrder mx =
     (let ent = LoadGroup (m_tables s) i; g = m_gnext s
      in if g_id ent \<noteq> i then load_groups ids s loadedOrder mx
         else load_groups ids
                (s\<lparr>m_gheap := (m_gheap s)(g := ent), m_gnext := Suc g, m_groups := qset i g (m_groups s)\<rparr>)
                (if i \<in> set loadedOrder then loadedOrder else loadedOrder @ [i])
                (if i > mx then i else mx))"

text \<open>\<open>LoadManager\<close>, less the routing profiles. \<open>savedOrder\<close> is the stored tab order, the two lists are
  the answers of the storage's queries, and \<open>default_name\<close> is the translated name of the group
  that is made when there is none.\<close>

definition LoadManager :: "string \<Rightarrow> int list \<Rightarrow> int list \<Rightarrow> int list \<Rightarrow> manager \<Rightarrow> manager" where
  "LoadManager default_name savedOrder profilesIdOrder groupsIdOrder s =
     (let s = s\<lparr>m_groups := [], m_max_profile_id := foldl (\<lambda>mx i. if i > mx then i else mx) 0 profilesIdOrder\<rparr>;
          (s, loadedOrder, mx) = load_groups groupsIdOrder s savedOrder 0;
          s = s\<lparr>m_max_group_id := mx, m_groupsTabOrder := filter (\<lambda>i. map_of (m_groups s) i \<noteq> None) loadedOrder\<rparr>
      in if m_groups s = []
         then fst (AddGroup (m_gnext s)
                     (s\<lparr>m_gheap := (m_gheap s)(m_gnext s := NewGroup\<lparr>g_name := default_name\<rparr>), m_gnext := Suc (m_gnext s)\<rparr>))
         else s)"

end
