(* ===== verification/Manager_Steps.thy ===== *)
theory Manager_Steps
  imports Profile_Manager
begin

text \<open>
  What the profile manager keeps true, whatever the window asks of it and in whatever order its
  threads run: the step relation \<open>mstep\<close>, the states it reaches from a start, the invariant, and
  the behaviour of each operation in those states.
\<close>

section \<open>The invariant\<close>

definition known :: "manager \<Rightarrow> int \<Rightarrow> ptr \<Rightarrow> bool" where
  "known s i p \<longleftrightarrow> e_id (m_heap s p) = i \<and> 0 \<le> i \<and> p < m_next s"

definition profiles_ok :: "manager \<Rightarrow> bool" where
  "profiles_ok s \<longleftrightarrow> 0 \<le> m_max_profile_id s \<and> (\<forall>p. e_id (m_heap s p) \<le> m_max_profile_id s)
     \<and> (\<forall>i p. m_cached_profiles s i = Some p \<longrightarrow> known s i p)
     \<and> lru_ok 400 (m_weak_profiles s) \<and> (\<forall>i p. map_of (m_weak_profiles s) i = Some p \<longrightarrow> known s i p)
     \<and> (\<forall>i e. tb_Proxies (m_tables s) i = Some e \<longrightarrow> e_id e = i \<and> 0 \<le> i \<and> i \<le> m_max_profile_id s)"

definition members_ok :: "int \<Rightarrow> group \<Rightarrow> bool" where
  "members_ok mx g \<longleftrightarrow> distinct (g_profiles g) \<and> (\<forall>i\<in>set (g_profiles g). 0 \<le> i \<and> i \<le> mx)"

definition groups_ok :: "manager \<Rightarrow> bool" where
  "groups_ok s \<longleftrightarrow> 0 \<le> m_max_group_id s \<and> (\<forall>g. g_id (m_gheap s g) \<le> m_max_group_id s \<and> members_ok (m_max_profile_id s) (m_gheap s g))
     \<and> qsorted (m_groups s)
     \<and> (\<forall>i g. map_of (m_groups s) i = Some g \<longrightarrow> g_id (m_gheap s g) = i \<and> 0 \<le> i \<and> g < m_gnext s)
     \<and> distinct (m_groupsTabOrder s) \<and> set (m_groupsTabOrder s) = fst ` set (m_groups s)"

definition jobs_ok :: "manager \<Rightarrow> bool" where
  "jobs_ok s \<longleftrightarrow> (\<forall>g ents. Save_profiles g ents \<in> set (m_jobs s) \<longrightarrow> (\<forall>p\<in>set ents. 0 \<le> e_id (m_heap s p) \<and> p < m_next s))"

definition minv :: "manager \<Rightarrow> bool" where
  "minv s \<longleftrightarrow> profiles_ok s \<and> groups_ok s \<and> jobs_ok s"

lemmas minv_defs = minv_def profiles_ok_def groups_ok_def jobs_ok_def known_def

section \<open>Each operation keeps it\<close>

lemma next_id_plus: "0 \<le> i \<Longrightarrow> i < 2147483647 \<Longrightarrow> next_id i = i + 1"
  by (simp add: next_id_def signed_take_bit_int_eq_self)

lemma set_group_minv:
  assumes "minv s" and "g_id (f (m_gheap s g)) = g_id (m_gheap s g)" and "members_ok (m_max_profile_id s) (f (m_gheap s g))"
  shows "minv (set_group g f s)"
  using assms by (simp add: minv_defs set_group_def)

lemma set_entity_minv:
  assumes "minv s" and "e_id (f (m_heap s p)) = e_id (m_heap s p)"
  shows "minv (set_entity p f s)"
  using assms by (simp add: minv_defs set_entity_def)

lemma weak_ok_drop: "lru_ok 400 w \<Longrightarrow> lru_ok 400 (lru_drop i w)"
  using lru.ok_del [of 299 99 w i] by simp

lemma UncacheProfile_minv: "minv s \<Longrightarrow> minv (UncacheProfile i force s)"
  by (auto simp: minv_defs UncacheProfile_def Let_def weak_ok_drop lru_drop_lookup split: if_splits)

lemma CacheProfile_minv: "minv s \<Longrightarrow> 0 \<le> e_id (m_heap s p) \<Longrightarrow> p < m_next s \<Longrightarrow> minv (CacheProfile p s)"
  by (auto simp: minv_defs CacheProfile_def Let_def)

lemma tables_minv:
  assumes "minv s" and "\<And>i e. tb_Proxies t i = Some e \<Longrightarrow> e_id e = i \<and> 0 \<le> i \<and> i \<le> m_max_profile_id s"
  shows "minv (s\<lparr>m_tables := t\<rparr>)"
  using assms by (simp add: minv_defs)

lemma weak_minv:
  assumes "minv s" and "lru_ok 400 w" and "\<And>i p. map_of w i = Some p \<Longrightarrow> known s i p"
  shows "minv (s\<lparr>m_weak_profiles := w\<rparr>)"
  using assms by (simp add: minv_defs)

lemma alloc_minv:
  assumes "minv s" and "e_id e \<le> m_max_profile_id s"
  shows "minv (s\<lparr>m_heap := (m_heap s)(m_next s := e), m_bean_alive := a, m_next := Suc (m_next s)\<rparr>)"
  using assms by (fastforce simp: minv_defs)

lemma stored_id: "minv s \<Longrightarrow> tb_Proxies (m_tables s) i = Some e \<Longrightarrow> e_id e = i \<and> 0 \<le> i \<and> i \<le> m_max_profile_id s"
  by (simp add: minv_defs)

lemma heap_id: "minv s \<Longrightarrow> e_id (m_heap s p) \<le> m_max_profile_id s"
  by (simp add: minv_defs)

lemma weak_known: "minv s \<Longrightarrow> map_of (m_weak_profiles s) i = Some p \<Longrightarrow> known s i p"
  by (simp add: minv_def profiles_ok_def)

lemma cached_known: "minv s \<Longrightarrow> m_cached_profiles s i = Some p \<Longrightarrow> known s i p"
  by (simp add: minv_def profiles_ok_def)

lemma weak_ok: "minv s \<Longrightarrow> lru_ok (Suc 299 + Suc 99) (m_weak_profiles s)"
  by (simp add: minv_def profiles_ok_def)

lemma Uncache_fields [simp]:
  "m_heap (UncacheProfile i b s) = m_heap s" "m_next (UncacheProfile i b s) = m_next s"
  "m_tables (UncacheProfile i b s) = m_tables s" "m_bean_alive (UncacheProfile i b s) = m_bean_alive s"
  "m_max_profile_id (UncacheProfile i b s) = m_max_profile_id s" "m_gheap (UncacheProfile i b s) = m_gheap s"
  "m_groups (UncacheProfile i b s) = m_groups s" "m_jobs (UncacheProfile i b s) = m_jobs s"
  "m_started_id (UncacheProfile i b s) = m_started_id s"
  by (simp_all add: UncacheProfile_def Let_def)

lemma Entity_Save_minv:
  assumes "minv s" and "0 \<le> e_id (m_heap s p)"
  shows "minv (Entity_Save p s)"
proof -
  let ?s = "UncacheProfile (e_id (m_heap s p)) False s"
  have "minv ?s" by (rule UncacheProfile_minv [OF assms(1)])
  then have "minv (?s\<lparr>m_tables := (m_tables ?s)\<lparr>tb_Proxies := (tb_Proxies (m_tables ?s))(e_id (m_heap s p) \<mapsto> m_heap s p), tb_Beans := b\<rparr>\<rparr>)" for b
    by (rule tables_minv) (auto split: if_splits simp: assms(2) heap_id [OF assms(1)] dest: stored_id [OF assms(1)])
  with UncacheProfile_minv [OF assms(1)] show ?thesis by (simp add: Entity_Save_def Let_def)
qed

lemma Entity_destroy_minv: "minv s \<Longrightarrow> minv (Entity_destroy p s)"
  unfolding Entity_destroy_def Let_def by (auto intro!: tables_minv dest: stored_id simp: heap_id split: if_splits)

lemma Group_Save_minv: "minv s \<Longrightarrow> minv (Group_Save g s)"
  unfolding Group_Save_def Let_def by (rule tables_minv) (auto dest: stored_id)

lemma Drop_profile_minv: "minv s \<Longrightarrow> minv (Drop_profile i s)"
  unfolding Drop_profile_def Let_def by (rule tables_minv) (auto dest: stored_id split: if_splits)

lemma Drop_group_minv: "minv s \<Longrightarrow> minv (Drop_group i s)"
  unfolding Drop_group_def Let_def by (rule tables_minv) (auto dest: stored_id)

text \<open>The three ways \<open>GetProfile\<close> answers, and what it changes.\<close>

lemma GetProfile_cases:
  assumes "minv s"
  obtains (cached) p where "m_cached_profiles s i = Some p" "GetProfile i s = (s, Some p)"
  | (weak) p w where "map_of (m_weak_profiles s) i = Some p" "map_of w = map_of (m_weak_profiles s)" "lru_ok 400 w"
      "GetProfile i s = (s\<lparr>m_weak_profiles := w\<rparr>, Some p)"
  | (loaded) e where "tb_Proxies (m_tables s) i = Some e" "isValid e"
      "GetProfile i s = (s\<lparr>m_heap := (m_heap s)(m_next s := e\<lparr>e_no_save := False\<rparr>), m_bean_alive := (m_bean_alive s)(m_next s := False),
         m_next := Suc (m_next s), m_weak_profiles := weak_insert i (m_next s) (m_weak_profiles s)\<rparr>, Some (m_next s))"
  | (missing) "m_cached_profiles s i = None" "map_of (m_weak_profiles s) i = None"
      "\<forall>e. tb_Proxies (m_tables s) i = Some e \<longrightarrow> \<not> isValid e" "GetProfile i s = (s, None)"
proof (cases "m_cached_profiles s i")
  case None
  show ?thesis
  proof (cases "map_of (m_weak_profiles s) i")
    case w: None
    have nv: "\<not> isValid ((NewProxyEntity '''')\<lparr>e_id := i\<rparr>)" by (simp add: isValid_def NewProxyEntity_def OutboundTypes_def)
    have v: "isValid (e\<lparr>e_no_save := False\<rparr>) = isValid e" for e by (simp add: isValid_def)
    show ?thesis using None w nv v loaded missing
      by (cases "tb_Proxies (m_tables s) i") (auto simp: GetProfile_def lru_tryGet_def LoadProxyEntity_def Let_def)
  next
    case (Some p)
    show ?thesis
      using weak [of p "(i, p) # lru_drop i (m_weak_profiles s)"] None Some
        lru.get_touch [OF weak_ok [OF assms], of i] lru.ok_touch [OF weak_ok [OF assms], of i]
      by (simp add: GetProfile_def lru_tryGet_def del: map_of.simps)
  qed
qed (use cached in \<open>simp add: GetProfile_def\<close>)

lemma GetProfile_minv:
  assumes "minv s"
  shows "minv (fst (GetProfile i s)) \<and> (\<forall>p. snd (GetProfile i s) = Some p \<longrightarrow> known (fst (GetProfile i s)) i p)"
  using assms
proof (cases rule: GetProfile_cases [where i = i])
  case (cached p)
  with assms cached_known [OF assms] show ?thesis by simp
next
  case (weak p w)
  with weak_minv [OF assms, of w] weak_known [OF assms] show ?thesis by (simp add: known_def)
next
  case (loaded e)
  note id = stored_id [OF assms loaded(1)]
  let ?s = "s\<lparr>m_heap := (m_heap s)(m_next s := e\<lparr>e_no_save := False\<rparr>), m_bean_alive := (m_bean_alive s)(m_next s := False), m_next := Suc (m_next s)\<rparr>"
  let ?w = "lru_insert (Suc 299) (Suc 99) i (m_next s) (m_weak_profiles s)"
  have s: "minv ?s" using alloc_minv [OF assms, of "e\<lparr>e_no_save := False\<rparr>"] id by simp
  have "known ?s j p" if "map_of ?w j = Some p" for j p
    by (rule lru.coherent_put [OF weak_ok [OF assms] _ _ that])
      (use id in \<open>auto simp: known_def dest!: weak_known [OF assms]\<close>)
  then have "minv (?s\<lparr>m_weak_profiles := ?w\<rparr>)"
    using weak_minv [OF s] lru.ok_put [OF weak_ok [OF assms], of i "m_next s"] by simp
  with loaded(3) id show ?thesis by (simp add: weak_insert_def known_def)
qed (simp add: assms)

text \<open>What looking profiles up leaves alone.\<close>

definition same_but_lookup :: "manager \<Rightarrow> manager \<Rightarrow> bool" where
  "same_but_lookup s t \<longleftrightarrow> m_gheap t = m_gheap s \<and> m_groups t = m_groups s \<and> m_tables t = m_tables s \<and> m_jobs t = m_jobs s
     \<and> m_max_profile_id t = m_max_profile_id s \<and> m_next s \<le> m_next t \<and> m_cached_profiles t = m_cached_profiles s
     \<and> m_started_id t = m_started_id s \<and> (\<forall>p<m_next s. m_heap t p = m_heap s p)"

lemma same_trans: "same_but_lookup s t \<Longrightarrow> same_but_lookup t u \<Longrightarrow> same_but_lookup s u"
  by (auto simp: same_but_lookup_def)

lemma GetProfile_same:
  assumes "minv s"
  shows "same_but_lookup s (fst (GetProfile i s))"
  by (cases rule: GetProfile_cases [OF assms, of i]) (auto simp: same_but_lookup_def)

lemma FillProfileEnts_minv:
  assumes "minv s"
  shows "minv (fst (FillProfileEnts ids s)) \<and> same_but_lookup s (fst (FillProfileEnts ids s))
    \<and> (\<forall>p\<in>set (snd (FillProfileEnts ids s)). p < m_next (fst (FillProfileEnts ids s)) \<and> e_id (m_heap (fst (FillProfileEnts ids s)) p) \<in> set ids)"
  using assms
proof (induction ids arbitrary: s)
  case (Cons i ids)
  obtain s1 r where g: "GetProfile i s = (s1, r)" by force
  with GetProfile_minv [OF Cons.prems, of i] GetProfile_same [OF Cons.prems, of i]
  have s1: "minv s1" "same_but_lookup s s1" "r = Some p \<Longrightarrow> known s1 i p" for p by auto
  obtain s2 ps where f: "FillProfileEnts ids s1 = (s2, ps)" by force
  with Cons.IH [OF s1(1)] s1(2) have "minv s2" "same_but_lookup s1 s2" "same_but_lookup s s2"
    "\<forall>p\<in>set ps. p < m_next s2 \<and> e_id (m_heap s2 p) \<in> set ids" by (auto intro: same_trans)
  with g f s1(3) show ?case by (cases r) (auto simp: same_but_lookup_def known_def)
qed (simp add: same_but_lookup_def)

lemma members_ok_mono: "members_ok m g \<Longrightarrow> m \<le> n \<Longrightarrow> members_ok n g"
  by (auto simp: members_ok_def)

text \<open>One round of \<open>AddProfileBatch\<close>.\<close>

definition add_one :: "int \<Rightarrow> gptr \<Rightarrow> ptr \<Rightarrow> manager \<Rightarrow> manager" where
  "add_one gid grp ent s =
     (let i = next_id (m_max_profile_id s); s = s\<lparr>m_max_profile_id := i\<rparr>;
          s = set_entity ent (\<lambda>e. e\<lparr>e_gid := gid, e_id := i\<rparr>) s
      in CacheProfile ent (set_group grp (\<lambda>g. g\<lparr>g_profiles := g_profiles g @ [i]\<rparr>) s))"

lemma add_loop_Cons:
  "add_loop gid grp (ent # ents) s =
     add_loop gid grp ents (if 0 \<le> e_id (m_heap s ent) then s else add_one gid grp ent s)"
  by (simp add: add_one_def Let_def)

declare add_loop.simps(2) [simp del]

lemma raise_max_minv: "minv s \<Longrightarrow> m_max_profile_id s \<le> i \<Longrightarrow> minv (s\<lparr>m_max_profile_id := i\<rparr>)"
  unfolding minv_defs by (auto intro: members_ok_mono) (metis order_trans)+

lemma assign_id_minv:
  assumes "minv s" and "e_id (m_heap s p) < 0" and "0 \<le> i" and "i \<le> m_max_profile_id s" and "e_id (f (m_heap s p)) = i"
  shows "minv (set_entity p f s)"
  using assms unfolding minv_defs set_entity_def by (auto simp: not_le [symmetric])

lemma set_fields [simp]:
  "m_heap (set_group g f s) = m_heap s" "m_next (set_group g f s) = m_next s" "m_tables (set_group g f s) = m_tables s"
  "m_jobs (set_group g f s) = m_jobs s" "m_groups (set_group g f s) = m_groups s"
  "m_max_profile_id (set_group g f s) = m_max_profile_id s" "m_cached_profiles (set_group g f s) = m_cached_profiles s"
  "m_weak_profiles (set_group g f s) = m_weak_profiles s" "m_started_id (set_group g f s) = m_started_id s"
  "m_gheap (set_entity p h s) = m_gheap s" "m_next (set_entity p h s) = m_next s" "m_tables (set_entity p h s) = m_tables s"
  "m_jobs (set_entity p h s) = m_jobs s" "m_groups (set_entity p h s) = m_groups s"
  "m_max_profile_id (set_entity p h s) = m_max_profile_id s" "m_cached_profiles (set_entity p h s) = m_cached_profiles s"
  "m_weak_profiles (set_entity p h s) = m_weak_profiles s" "m_started_id (set_entity p h s) = m_started_id s"
  "m_heap (set_entity p h s) = (m_heap s)(p := h (m_heap s p))" "m_gheap (set_group g f s) = (m_gheap s)(g := f (m_gheap s g))"
  by (simp_all add: set_group_def set_entity_def)

lemma Cache_fields [simp]:
  "m_heap (CacheProfile p s) = m_heap s" "m_next (CacheProfile p s) = m_next s" "m_tables (CacheProfile p s) = m_tables s"
  "m_jobs (CacheProfile p s) = m_jobs s" "m_groups (CacheProfile p s) = m_groups s" "m_gheap (CacheProfile p s) = m_gheap s"
  "m_max_profile_id (CacheProfile p s) = m_max_profile_id s" "m_weak_profiles (CacheProfile p s) = m_weak_profiles s"
  by (simp_all add: CacheProfile_def Let_def)

lemma group_members: "minv s \<Longrightarrow> members_ok (m_max_profile_id s) (m_gheap s g)"
  by (simp add: minv_defs)

lemma add_one_minv:
  assumes "minv s" and "e_id (m_heap s p) < 0" and "p < m_next s" and "m_max_profile_id s < 2147483647"
  shows "minv (add_one gid g p s)"
proof -
  let ?i = "m_max_profile_id s + 1"
  have n: "next_id (m_max_profile_id s) = ?i" "0 \<le> ?i"
    using assms(1,4) next_id_plus [of "m_max_profile_id s"] by (simp_all add: minv_defs)
  let ?s1 = "s\<lparr>m_max_profile_id := ?i\<rparr>"
  let ?s2 = "set_entity p (\<lambda>e. e\<lparr>e_gid := gid, e_id := ?i\<rparr>) ?s1"
  have s1: "minv ?s1" by (rule raise_max_minv [OF assms(1)]) simp
  have s2: "minv ?s2" by (rule assign_id_minv [OF s1, of p ?i]) (use assms(2) n(2) in simp_all)
  have "members_ok ?i ((m_gheap s g)\<lparr>g_profiles := g_profiles (m_gheap s g) @ [?i]\<rparr>)"
    using group_members [OF assms(1), of g] n(2) by (auto simp: members_ok_def)
  then have "minv (set_group g (\<lambda>x. x\<lparr>g_profiles := g_profiles x @ [?i]\<rparr>) ?s2)"
    by (intro set_group_minv [OF s2]) simp_all
  then show ?thesis unfolding add_one_def Let_def n(1)
    by (rule CacheProfile_minv) (use n(2) assms(3) in simp_all)
qed

lemma add_one_fields:
  assumes "minv s" and "m_max_profile_id s < 2147483647"
  shows "m_max_profile_id (add_one gid g p s) = m_max_profile_id s + 1" "m_next (add_one gid g p s) = m_next s"
    "m_heap (add_one gid g p s) = (m_heap s)(p := (m_heap s p)\<lparr>e_gid := gid, e_id := m_max_profile_id s + 1\<rparr>)"
    "m_gheap (add_one gid g p s) = (m_gheap s)(g := (m_gheap s g)\<lparr>g_profiles := g_profiles (m_gheap s g) @ [m_max_profile_id s + 1]\<rparr>)"
    "m_jobs (add_one gid g p s) = m_jobs s" "m_tables (add_one gid g p s) = m_tables s" "m_groups (add_one gid g p s) = m_groups s"
  using assms next_id_plus [of "m_max_profile_id s"] by (simp_all add: add_one_def Let_def minv_defs)

lemma add_loop_minv:
  assumes "minv s" and "set ents \<subseteq> {..<m_next s}" and "m_max_profile_id s + int (length ents) < 2147483648"
  shows "minv (add_loop gid g ents s) \<and> (\<forall>p\<in>set ents. 0 \<le> e_id (m_heap (add_loop gid g ents s) p))
    \<and> (\<forall>p. 0 \<le> e_id (m_heap s p) \<longrightarrow> m_heap (add_loop gid g ents s) p = m_heap s p)
    \<and> m_next (add_loop gid g ents s) = m_next s \<and> m_tables (add_loop gid g ents s) = m_tables s \<and> m_jobs (add_loop gid g ents s) = m_jobs s"
  using assms
proof (induction ents arbitrary: s)
  case (Cons p ents)
  show ?case
  proof (cases "0 \<le> e_id (m_heap s p)")
    case True
    with Cons.IH [OF Cons.prems(1)] Cons.prems(2,3) show ?thesis by (simp add: add_loop_Cons)
  next
    case False
    have p: "p < m_next s" and lim: "m_max_profile_id s < 2147483647" using Cons.prems by auto
    let ?s = "add_one gid g p s"
    note f = add_one_fields [OF Cons.prems(1) lim, of gid g p]
    have "minv ?s" using add_one_minv [OF Cons.prems(1) _ p lim] False by simp
    then have IH: "minv (add_loop gid g ents ?s)" "\<forall>q\<in>set ents. 0 \<le> e_id (m_heap (add_loop gid g ents ?s) q)"
      "\<forall>q. 0 \<le> e_id (m_heap ?s q) \<longrightarrow> m_heap (add_loop gid g ents ?s) q = m_heap ?s q"
      "m_next (add_loop gid g ents ?s) = m_next s" "m_tables (add_loop gid g ents ?s) = m_tables s" "m_jobs (add_loop gid g ents ?s) = m_jobs s"
      using Cons.IH [of ?s] Cons.prems(2,3) f by auto
    have "0 \<le> m_max_profile_id s" using Cons.prems(1) by (simp add: minv_defs)
    then have "m_heap (add_loop gid g ents ?s) p = m_heap ?s p" "0 \<le> e_id (m_heap ?s p)" using IH(3) f(3) by auto
    moreover have "m_heap (add_loop gid g ents ?s) q = m_heap s q" if "0 \<le> e_id (m_heap s q)" for q
      using IH(3) [rule_format, of q] f(3) that False by (cases "q = p") auto
    ultimately show ?thesis using IH False by (simp add: add_loop_Cons)
  qed
qed simp

lemma job_minv: "minv s \<Longrightarrow> \<forall>g ents. j = Save_profiles g ents \<longrightarrow> (\<forall>p\<in>set ents. 0 \<le> e_id (m_heap s p) \<and> p < m_next s)
    \<Longrightarrow> minv (runOnNewThread j s)"
  by (auto simp: minv_defs runOnNewThread_def)

lemma AddProfileBatch_minv:
  assumes "minv s" and "set ents \<subseteq> {..<m_next s}" and "m_max_profile_id s + int (length ents) < 2147483648"
  shows "minv (fst (AddProfileBatch ents gid s))"
proof -
  have "minv (runOnNewThread (Save_profiles g ents) (add_loop gid' g ents s))" for g gid'
    using add_loop_minv [OF assms, of gid' g] assms(2) by (intro job_minv) auto
  with assms(1) show ?thesis by (simp add: AddProfileBatch_def Let_def split: option.split)
qed

lemma ReplaceProfile_minv:
  assumes "minv s" and "\<forall>p. ent = Some p \<longrightarrow> p < m_next s"
  shows "minv (fst (ReplaceProfile i ent s))"
proof (cases ent)
  case (Some p)
  obtain s1 r where g: "GetProfile i s = (s1, r)" by force
  have s1: "minv s1" "same_but_lookup s s1" and old: "\<And>q. r = Some q \<Longrightarrow> known s1 i q"
    using GetProfile_minv [OF assms(1), of i] GetProfile_same [OF assms(1), of i] g by auto
  have p: "p < m_next s" using assms(2) Some by simp
  then have hp: "m_heap s1 p = m_heap s p" "p < m_next s1" using s1(2) by (auto simp: same_but_lookup_def)
  have "minv (UncacheProfile i True (Entity_Save p (CacheProfile p (UncacheProfile i True
      (set_entity q (\<lambda>e. e\<lparr>e_no_save := True\<rparr>) (set_entity p f s1))))))"
    if "r = Some q" "e_id (m_heap s p) < 0" "\<forall>e. e_id (f e) = i" for q f
  proof -
    have q: "0 \<le> i" "i \<le> m_max_profile_id s1" using old [OF that(1)] heap_id [OF s1(1), of q] by (auto simp: known_def)
    have "minv (set_entity p f s1)" by (rule assign_id_minv [OF s1(1)]) (use that hp q in auto)
    then have "minv (set_entity q (\<lambda>e. e\<lparr>e_no_save := True\<rparr>) (set_entity p f s1))" by (rule set_entity_minv) simp
    then show ?thesis using q that(3) hp(2) by (auto intro!: UncacheProfile_minv Entity_Save_minv CacheProfile_minv)
  qed
  with assms(1) s1(1) g Some show ?thesis by (auto simp: ReplaceProfile_def Let_def split: option.split)
qed (simp add: ReplaceProfile_def assms)

lemma members_Remove: "members_ok m g \<Longrightarrow> members_ok m (fst (RemoveProfile i g))" "g_id (fst (RemoveProfile i g)) = g_id g"
  by (auto simp: members_ok_def RemoveProfile_def distinct_removeAll)

lemma members_Add: "members_ok m g \<Longrightarrow> 0 \<le> i \<Longrightarrow> i \<le> m \<Longrightarrow> members_ok m (fst (AddProfile i g))" "g_id (fst (AddProfile i g)) = g_id g"
  by (auto simp: members_ok_def AddProfile_def HasProfile_def)

lemma Remove_minv: "minv s \<Longrightarrow> minv (set_group g (fst \<circ> RemoveProfile i) s)"
  by (rule set_group_minv) (simp_all add: members_Remove group_members)

lemma Add_minv: "minv s \<Longrightarrow> 0 \<le> i \<Longrightarrow> i \<le> m_max_profile_id s \<Longrightarrow> minv (set_group g (fst \<circ> AddProfile i) s)"
  by (rule set_group_minv) (simp_all add: members_Add group_members)

lemma move_loop_minv:
  assumes "minv s" and "\<forall>p\<in>set ents. 0 \<le> e_id (m_heap s p)"
  shows "minv (fst (move_loop mgid target ents s grps added)) \<and> m_tables (fst (move_loop mgid target ents s grps added)) = m_tables s"
  using assms
proof (induction mgid target ents s grps added rule: move_loop.induct)
  case (2 mgid target p ents s grps added)
  let ?f = "\<lambda>grp. set_entity p (\<lambda>e. e\<lparr>e_gid := mgid\<rparr>)
    (set_group target (fst \<circ> AddProfile (e_id (m_heap s p))) (set_group grp (fst \<circ> RemoveProfile (e_id (m_heap s p))) s))"
  have step: "minv (?f grp)" for grp
    using 2(4,5) heap_id [OF 2(4), of p]
    by (intro set_entity_minv Add_minv Remove_minv) simp_all
  have ids: "\<forall>q\<in>set ents. 0 \<le> e_id (m_heap (?f grp) q)" for grp using 2(5) by simp
  show ?case
  proof (cases "e_gid (m_heap s p) = mgid \<or> map_of (m_groups s) (e_gid (m_heap s p)) = None")
    case True
    then show ?thesis using 2 by (auto simp: Let_def split: option.split)
  next
    case False
    then obtain grp where "map_of (m_groups s) (e_gid (m_heap s p)) = Some grp" "e_gid (m_heap s p) \<noteq> mgid" by auto
    with 2(3) [OF refl refl _ _ refl refl refl, of grp] step [of grp] ids [of grp] show ?thesis by (simp add: Let_def)
  qed
qed simp

lemma plain_job_minv: "minv s \<Longrightarrow> (\<And>g ents. j \<noteq> Save_profiles g ents) \<Longrightarrow> minv (runOnNewThread j s)"
  by (rule job_minv) auto

lemma MoveProfileBatch_ents_minv:
  assumes "minv s" and "\<forall>p\<in>set ents. 0 \<le> e_id (m_heap s p)"
  shows "minv (fst (MoveProfileBatch_ents ents mgid s))"
  using assms(1) move_loop_minv [OF assms, of mgid _ "[]" False]
  by (auto simp: MoveProfileBatch_ents_def split: option.split prod.splits intro!: plain_job_minv) (metis fst_conv)+

lemma MoveProfileBatch_minv:
  assumes "minv s" and "\<forall>i\<in>set ids. 0 \<le> i"
  shows "minv (fst (MoveProfileBatch ids gid s))"
proof -
  obtain t ents where f: "FillProfileEnts ids s = (t, ents)" by force
  with FillProfileEnts_minv [OF assms(1), of ids] assms(2) have "minv t" "\<forall>p\<in>set ents. 0 \<le> e_id (m_heap t p)" by auto
  with f show ?thesis by (simp add: MoveProfileBatch_def MoveProfileBatch_ents_minv)
qed

text \<open>One round of \<open>BatchDeleteProfiles\<close>: the state after it, the changed group and whether the
  profile is deleted.\<close>

definition delete_one :: "int \<Rightarrow> int \<Rightarrow> manager \<Rightarrow> manager \<times> gptr list \<times> bool" where
  "delete_one groupid i s =
     (if i < 0 \<or> m_started_id s = i then (s, [], False)
      else case GetProfile i s of
             (s, None) \<Rightarrow> (s, [], False)
           | (s, Some ent) \<Rightarrow>
               (let gid = e_gid (m_heap s ent)
                in if groupid = -999 then (UncacheProfile i True s, [], True)
                   else if groupid < 0
                   then (case GetGroup gid s of
                           None \<Rightarrow> (UncacheProfile i True s, [], True)
                         | Some grp \<Rightarrow> (UncacheProfile i True (set_group grp (fst \<circ> RemoveProfile i) s), [grp], True))
                   else if groupid \<noteq> gid then (s, [], False) else (UncacheProfile i True s, [], True)))"

lemma delete_loop_Cons:
  "delete_loop groupid (i # ids) s ch del =
     (case delete_one groupid i s of
        (s', gs, b) \<Rightarrow> delete_loop groupid ids s' (foldl (\<lambda>c g. List.insert g c) ch gs) (if b then List.insert i del else del))"
  by (auto simp: delete_one_def Let_def split: option.split prod.split)

declare delete_loop.simps(2) [simp del]

lemma delete_one_minv:
  assumes "minv s"
  shows "minv (fst (delete_one groupid i s)) \<and> m_tables (fst (delete_one groupid i s)) = m_tables s
    \<and> m_jobs (fst (delete_one groupid i s)) = m_jobs s \<and> m_started_id (fst (delete_one groupid i s)) = m_started_id s"
proof -
  obtain s1 r where g: "GetProfile i s = (s1, r)" by force
  with GetProfile_minv [OF assms, of i] GetProfile_same [OF assms, of i] have "minv s1" "same_but_lookup s s1" by auto
  with assms g show ?thesis
    by (auto simp: delete_one_def Let_def same_but_lookup_def intro!: UncacheProfile_minv Remove_minv split: option.split)
qed

lemma delete_loop_minv:
  assumes "minv s"
  shows "minv (fst (delete_loop groupid ids s ch del)) \<and> m_tables (fst (delete_loop groupid ids s ch del)) = m_tables s
    \<and> m_jobs (fst (delete_loop groupid ids s ch del)) = m_jobs s"
  using assms
proof (induction ids arbitrary: s ch del)
  case (Cons i ids)
  obtain s1 gs b where d: "delete_one groupid i s = (s1, gs, b)" by (metis prod_cases3)
  with delete_one_minv [OF Cons.prems, of groupid i] Cons.IH [of s1] show ?case by (simp add: delete_loop_Cons)
qed simp

lemma BatchDeleteProfiles_minv: "minv s \<Longrightarrow> minv (BatchDeleteProfiles ids groupid s)"
  using delete_loop_minv [of s groupid ids "[]" "[]"]
  by (auto simp: BatchDeleteProfiles_def split: prod.splits intro!: plain_job_minv)

lemma group_keys: "minv s \<Longrightarrow> map_of (m_groups s) i = Some g \<Longrightarrow> g_id (m_gheap s g) = i \<and> 0 \<le> i \<and> g < m_gnext s"
  by (simp add: minv_defs)

lemma group_ids: "minv s \<Longrightarrow> g_id (m_gheap s g) \<le> m_max_group_id s"
  by (simp add: minv_defs)

lemma group_fresh:
  assumes "minv s"
  shows "m_max_group_id s + 1 \<notin> fst ` set (m_groups s)"
proof
  assume "m_max_group_id s + 1 \<in> fst ` set (m_groups s)"
  then obtain g where "map_of (m_groups s) (m_max_group_id s + 1) = Some g" by (auto dest: weak_map_of_SomeI)
  with group_keys [OF assms this] group_ids [OF assms, of g] show False by simp
qed

lemma add_group_minv:
  assumes "minv s" and neg: "g_id (m_gheap s g) < 0" and "g < m_gnext s" and i: "i = m_max_group_id s + 1"
  shows "minv (s\<lparr>m_max_group_id := i, m_gheap := (m_gheap s)(g := (m_gheap s g)\<lparr>g_id := i\<rparr>),
      m_groups := qset i g (m_groups s), m_groupsTabOrder := m_groupsTabOrder s @ [i]\<rparr>)" (is "minv ?s")
proof -
  have ok: "groups_ok s" and i0: "0 \<le> m_max_group_id s" using assms(1) by (auto simp: minv_defs)
  have other: "g_id (m_gheap s h) = j \<and> 0 \<le> j \<and> h < m_gnext s \<and> h \<noteq> g" if "map_of (m_groups s) j = Some h" for j h
    using group_keys [OF assms(1) that] neg by auto
  have "profiles_ok ?s" "jobs_ok ?s" using assms(1) by (simp_all add: minv_defs)
  moreover have "g_id (m_gheap ?s h) \<le> m_max_group_id ?s \<and> members_ok (m_max_profile_id ?s) (m_gheap ?s h)" for h
    using group_ids [OF assms(1), of h] group_members [OF assms(1), of h] i by (auto simp: members_ok_def)
  moreover have "g_id (m_gheap ?s h) = j \<and> 0 \<le> j \<and> h < m_gnext ?s" if "map_of (m_groups ?s) j = Some h" for j h
    using that other [of j h] i i0 assms(3) by (auto simp: qset_lookup split: if_splits)
  moreover have "qsorted (m_groups ?s)" using ok by (simp add: groups_ok_def qset_sorted)
  moreover have "distinct (m_groupsTabOrder ?s) \<and> set (m_groupsTabOrder ?s) = fst ` set (m_groups ?s)"
    using ok group_fresh [OF assms(1)] i by (auto simp: groups_ok_def)
  ultimately show ?thesis using i i0 by (simp add: minv_def groups_ok_def)
qed

lemma add_groups_loop_minv:
  assumes "minv s" and "set gs \<subseteq> {..<m_gnext s}" and "m_max_group_id s + int (length gs) < 2147483648"
  shows "minv (fst (add_groups_loop gs s sv))"
  using assms
proof (induction gs arbitrary: s sv)
  case (Cons g gs)
  show ?case
  proof (cases "0 \<le> g_id (m_gheap s g)")
    case False
    let ?i = "m_max_group_id s + 1"
    have n: "next_id (m_max_group_id s) = ?i" using Cons.prems next_id_plus [of "m_max_group_id s"] by (simp add: minv_defs)
    let ?s = "s\<lparr>m_max_group_id := ?i, m_gheap := (m_gheap s)(g := (m_gheap s g)\<lparr>g_id := ?i\<rparr>),
      m_groups := qset ?i g (m_groups s), m_groupsTabOrder := m_groupsTabOrder s @ [?i]\<rparr>"
    have "minv ?s" using add_group_minv [OF Cons.prems(1) _ _ refl] Cons.prems(2) False by simp
    then have "minv (fst (add_groups_loop gs ?s (sv @ [g])))"
      by (rule Cons.IH) (use Cons.prems in simp_all)
    with False n show ?thesis by (simp add: Let_def set_group_def)
  qed (use Cons in simp)
qed simp

lemma AddGroupBatch_minv:
  assumes "minv s" and "set gs \<subseteq> {..<m_gnext s}" and "m_max_group_id s + int (length gs) < 2147483648"
  shows "minv (fst (AddGroupBatch gs s))"
  using add_groups_loop_minv [OF assms, of "[]"] by (auto simp: AddGroupBatch_def split: prod.splits intro!: plain_job_minv)

lemma qsorted_filter: "qsorted kvs \<Longrightarrow> qsorted (filter P kvs)"
  by (simp add: qsorted_def sorted_wrt_map sorted_wrt_filter)

lemma map_of_filter_key: "map_of (filter (\<lambda>(i, _). i \<noteq> k) kvs) = (map_of kvs)(k := None)"
  by (induction kvs) auto

lemma erase_group_minv: "minv s \<Longrightarrow> minv (erase_group gid s)"
  by (auto simp: minv_defs erase_group_def qsorted_filter map_of_filter_key distinct_removeAll split: if_splits)

lemma foldl_minv: "(\<And>s x. x \<in> set xs \<Longrightarrow> minv s \<Longrightarrow> minv (f s x)) \<Longrightarrow> minv s \<Longrightarrow> minv (foldl f s xs)"
  by (induction xs arbitrary: s) auto

lemma BatchDeleteGroups_minv: "minv s \<Longrightarrow> minv (BatchDeleteGroups ids s)"
  by (auto simp: BatchDeleteGroups_def Let_def intro!: plain_job_minv foldl_minv erase_group_minv)

lemma delete_members_minv: "minv s \<Longrightarrow> minv (delete_members gid s)"
  by (auto simp: delete_members_def BatchDeleteProfiles_minv split: option.split)

lemma Entity_Save_heap [simp]: "m_heap (Entity_Save p s) = m_heap s"
  by (simp add: Entity_Save_def Let_def)

lemma save_all_minv:
  "minv s \<Longrightarrow> \<forall>p\<in>set ents. 0 \<le> e_id (m_heap s p) \<Longrightarrow> minv (foldl (\<lambda>s ent. Entity_Save ent s) s ents)"
  by (induction ents arbitrary: s) (simp_all add: Entity_Save_minv)

lemma run_nth_minv:
  assumes "minv s" and "k < length (m_jobs s)"
  shows "minv (run_nth k s)"
proof -
  let ?s = "s\<lparr>m_jobs := take k (m_jobs s) @ drop (Suc k) (m_jobs s)\<rparr>"
  have s: "minv ?s" using assms(1) by (auto simp: minv_defs dest: in_set_takeD in_set_dropD)
  have j: "m_jobs s ! k \<in> set (m_jobs s)" using assms(2) by simp
  show ?thesis
  proof (cases "m_jobs s ! k")
    case (Save_profiles g ents)
    with j have "Save_profiles g ents \<in> set (m_jobs s)" by simp
    with assms(1) have "\<forall>p\<in>set ents. 0 \<le> e_id (m_heap (Group_Save g ?s) p)"
      unfolding minv_def jobs_ok_def by (auto simp: Group_Save_def Let_def)
    with Save_profiles Group_Save_minv [OF s] show ?thesis by (simp add: run_nth_def save_all_minv)
  qed (use s in \<open>auto simp: run_nth_def intro!: foldl_minv Group_Save_minv Drop_profile_minv Drop_group_minv delete_members_minv\<close>)
qed

section \<open>Start\<close>

text \<open>A start: no profile or group is in memory yet, the storage's queries list what is stored, and
  every stored group lists profiles no newer than the newest stored one.\<close>

definition highest :: "int list \<Rightarrow> int" where
  "highest ids = foldl (\<lambda>mx i. if i > mx then i else mx) 0 ids"

definition start_state :: "int list \<Rightarrow> int list \<Rightarrow> int list \<Rightarrow> manager \<Rightarrow> bool" where
  "start_state savedOrder profilesIdOrder groupsIdOrder s \<longleftrightarrow>
     (\<forall>p. e_id (m_heap s p) < 0) \<and> m_cached_profiles s = (\<lambda>_. None) \<and> m_weak_profiles s = [] \<and> m_jobs s = []
     \<and> (\<forall>g. g_id (m_gheap s g) < 0 \<and> g_profiles (m_gheap s g) = [])
     \<and> set profilesIdOrder = dom (tb_Proxies (m_tables s)) \<and> (\<forall>i e. tb_Proxies (m_tables s) i = Some e \<longrightarrow> e_id e = i \<and> 0 \<le> i)
     \<and> set groupsIdOrder = dom (tb_Groups (m_tables s)) \<and> distinct groupsIdOrder \<and> distinct savedOrder
     \<and> (\<forall>i g. tb_Groups (m_tables s) i = Some g \<longrightarrow> 0 \<le> i \<and> members_ok (highest profilesIdOrder) g)"

lemma highest_ge: "0 \<le> highest ids \<and> (\<forall>i\<in>set ids. i \<le> highest ids)"
proof -
  have "mx \<le> foldl (\<lambda>mx i. if i > mx then i else mx) mx ids \<and> (\<forall>i\<in>set ids. i \<le> foldl (\<lambda>mx i. if i > mx then i else mx) mx ids)" for mx
  proof (induction ids arbitrary: mx)
    case (Cons a ids)
    show ?case using Cons [of "if a > mx then a else mx"] by (auto split: if_splits)
  qed simp
  then show ?thesis by (simp add: highest_def)
qed

text \<open>The groups of \<open>LoadManager\<close>'s loop, when \<open>mx\<close> is the highest identifier so far.\<close>

definition loading :: "int \<Rightarrow> manager \<Rightarrow> bool" where
  "loading mx s \<longleftrightarrow> 0 \<le> mx \<and> qsorted (m_groups s)
     \<and> (\<forall>i g. map_of (m_groups s) i = Some g \<longrightarrow> g_id (m_gheap s g) = i \<and> 0 \<le> i \<and> g < m_gnext s)
     \<and> (\<forall>g. g_id (m_gheap s g) \<le> mx \<and> members_ok (m_max_profile_id s) (m_gheap s g))"

lemma loading_step:
  assumes "loading mx s" and "g_id ent = i" and "0 \<le> i" and "members_ok (m_max_profile_id s) ent"
  shows "loading (if i > mx then i else mx)
    (s\<lparr>m_gheap := (m_gheap s)(m_gnext s := ent), m_gnext := Suc (m_gnext s), m_groups := qset i (m_gnext s) (m_groups s)\<rparr>)"
proof -
  have "g_id (m_gheap s g) \<le> max mx i" for g using assms(1) by (auto simp: loading_def intro: order_trans)
  moreover have "map_of (m_groups s) j = Some g \<Longrightarrow> g_id (m_gheap s g) = j \<and> 0 \<le> j \<and> g < m_gnext s" for j g
    using assms(1) by (simp add: loading_def)
  ultimately show ?thesis using assms unfolding loading_def
    by (fastforce simp: qset_sorted qset_lookup max_def split: if_splits)
qed

lemma load_groups_result:
  assumes "loading mx s" and "distinct ids" and "\<forall>i\<in>set ids. 0 \<le> i \<and> members_ok (m_max_profile_id s) (LoadGroup (m_tables s) i)"
    and "\<forall>i\<in>set ids. i \<notin> fst ` set (m_groups s)"
  shows "\<exists>s' mx'. load_groups ids s lo mx =
      (s', lo @ filter (\<lambda>i. i \<notin> set lo) (filter (\<lambda>i. g_id (LoadGroup (m_tables s) i) = i) ids), mx')
    \<and> loading mx' s' \<and> fst ` set (m_groups s') = fst ` set (m_groups s) \<union> set (filter (\<lambda>i. g_id (LoadGroup (m_tables s) i) = i) ids)
    \<and> m_max_profile_id s' = m_max_profile_id s \<and> m_heap s' = m_heap s \<and> m_cached_profiles s' = m_cached_profiles s
    \<and> m_weak_profiles s' = m_weak_profiles s \<and> m_jobs s' = m_jobs s \<and> m_tables s' = m_tables s \<and> m_next s' = m_next s
    \<and> (filter (\<lambda>i. g_id (LoadGroup (m_tables s) i) = i) ids = [] \<longrightarrow> mx' = mx)"
  using assms
proof (induction ids arbitrary: s lo mx)
  case (Cons i ids)
  let ?e = "LoadGroup (m_tables s) i"
  show ?case
  proof (cases "g_id ?e = i")
    case True
    let ?s = "s\<lparr>m_gheap := (m_gheap s)(m_gnext s := ?e), m_gnext := Suc (m_gnext s), m_groups := qset i (m_gnext s) (m_groups s)\<rparr>"
    let ?mx = "if i > mx then i else mx" and ?lo = "if i \<in> set lo then lo else lo @ [i]"
    have "loading ?mx ?s" by (rule loading_step [OF Cons.prems(1) True]) (use Cons.prems(3) in auto)
    from Cons.IH [OF this, of ?lo] Cons.prems(2-4)
    obtain s' mx' where "load_groups ids ?s ?lo ?mx = (s', ?lo @ filter (\<lambda>i. i \<notin> set ?lo) (filter (\<lambda>i. g_id (LoadGroup (m_tables s) i) = i) ids), mx')"
      "loading mx' s'" "fst ` set (m_groups s') = insert i (fst ` set (m_groups s)) \<union> set (filter (\<lambda>i. g_id (LoadGroup (m_tables s) i) = i) ids)"
      "m_max_profile_id s' = m_max_profile_id s" "m_heap s' = m_heap s" "m_cached_profiles s' = m_cached_profiles s"
      "m_weak_profiles s' = m_weak_profiles s" "m_jobs s' = m_jobs s" "m_tables s' = m_tables s" "m_next s' = m_next s"
      by (auto simp: keys_qset)
    moreover have "filter (\<lambda>j. P j \<and> j \<noteq> i \<and> j \<notin> set lo) xs = filter (\<lambda>j. P j \<and> j \<notin> set lo) xs" if "i \<notin> set xs" for xs P
      using that by (auto intro: filter_cong)
    ultimately show ?thesis using True Cons.prems(2) by (auto simp: Let_def)
  qed (use Cons in \<open>auto simp: Let_def\<close>)
qed simp

lemma loading_minv:
  assumes "loading mx s" and "profiles_ok s" and "m_jobs s = []"
    and "distinct tab" and "set tab = fst ` set (m_groups s)"
  shows "minv (s\<lparr>m_max_group_id := mx, m_groupsTabOrder := tab\<rparr>)"
  using assms by (simp add: minv_defs loading_def)

lemma profiles_ok_cong:
  "profiles_ok s \<Longrightarrow> m_max_profile_id t = m_max_profile_id s \<Longrightarrow> m_heap t = m_heap s \<Longrightarrow> m_cached_profiles t = m_cached_profiles s
   \<Longrightarrow> m_weak_profiles t = m_weak_profiles s \<Longrightarrow> m_tables t = m_tables s \<Longrightarrow> m_next t = m_next s \<Longrightarrow> profiles_ok t"
  by (simp add: profiles_ok_def known_def)

text \<open>The groups that load, and the order of the tabs: the stored order first, then the groups it
  misses.\<close>

definition loadable :: "tables \<Rightarrow> int list \<Rightarrow> int list" where
  "loadable t ids = filter (\<lambda>i. g_id (LoadGroup t i) = i) ids"

definition tab_order :: "int list \<Rightarrow> int list \<Rightarrow> int list" where
  "tab_order saved ids = filter (\<lambda>i. i \<in> set ids) saved @ filter (\<lambda>i. i \<notin> set saved) ids"

lemma tab_order_ok: "distinct saved \<Longrightarrow> distinct ids \<Longrightarrow> distinct (tab_order saved ids) \<and> set (tab_order saved ids) = set ids"
  by (auto simp: tab_order_def)

lemma LoadManager_loaded:
  assumes start: "start_state saved pids gids s"
  obtains t where "minv t" "fst ` set (m_groups t) = set (loadable (m_tables s) gids)"
    "m_groupsTabOrder t = tab_order saved (loadable (m_tables s) gids)" "m_groups t = [] \<longrightarrow> m_max_group_id t = 0"
    "LoadManager name saved pids gids s =
      (if m_groups t = []
       then fst (AddGroup (m_gnext t) (t\<lparr>m_gheap := (m_gheap t)(m_gnext t := NewGroup\<lparr>g_name := name\<rparr>), m_gnext := Suc (m_gnext t)\<rparr>))
       else t)"
proof -
  let ?s = "s\<lparr>m_groups := [], m_max_profile_id := highest pids\<rparr>" and ?V = "loadable (m_tables s) gids"
  have hi: "0 \<le> highest pids" "\<And>i. i \<in> set pids \<Longrightarrow> i \<le> highest pids" using highest_ge [of pids] by auto
  have neg: "e_id (m_heap s q) < 0" "g_id (m_gheap s g) < 0" for q g using start by (simp_all add: start_state_def)
  have st: "e_id e = i \<and> 0 \<le> i \<and> i \<in> set pids" if "tb_Proxies (m_tables s) i = Some e" for i e
    using start that by (auto simp: start_state_def)
  have p: "profiles_ok ?s"
    using start hi less_imp_le [OF less_le_trans [OF neg(1) hi(1)]]
    by (auto simp: profiles_ok_def start_state_def lru_ok_def dest: st)
  have l: "loading 0 ?s" using start less_imp_le [OF neg(2)] by (auto simp: loading_def start_state_def qsorted_def members_ok_def)
  have m: "\<forall>i\<in>set gids. 0 \<le> i \<and> members_ok (m_max_profile_id ?s) (LoadGroup (m_tables ?s) i)"
    using start by (auto simp: start_state_def LoadGroup_def)
  have d: "distinct gids" "distinct saved" "m_jobs s = []" using start by (auto simp: start_state_def)
  obtain s' mx where r: "load_groups gids ?s saved 0 = (s', saved @ filter (\<lambda>i. i \<notin> set saved) ?V, mx)"
    and s': "loading mx s'" "fst ` set (m_groups s') = set ?V" "m_jobs s' = []" "profiles_ok s'" "?V = [] \<longrightarrow> mx = 0"
    using load_groups_result [OF l d(1) m, of saved] profiles_ok_cong [OF p] d(3) by (auto simp: loadable_def)
  have f: "filter (\<lambda>i. map_of (m_groups s') i \<noteq> None) (saved @ filter (\<lambda>i. i \<notin> set saved) ?V) = tab_order saved ?V"
    using s'(2) by (auto simp: tab_order_def map_of_eq_None_iff intro!: filter_cong)
  let ?t = "s'\<lparr>m_max_group_id := mx, m_groupsTabOrder := tab_order saved ?V\<rparr>"
  have "distinct ?V" using d(1) by (simp add: loadable_def)
  with tab_order_ok [OF d(2) this] s' have "minv ?t" by (intro loading_minv) auto
  moreover have "LoadManager name saved pids gids s = (if m_groups ?t = []
       then fst (AddGroup (m_gnext ?t) (?t\<lparr>m_gheap := (m_gheap ?t)(m_gnext ?t := NewGroup\<lparr>g_name := name\<rparr>), m_gnext := Suc (m_gnext ?t)\<rparr>))
       else ?t)"
    unfolding LoadManager_def Let_def highest_def [symmetric] r prod.case f by simp
  ultimately show thesis using s'(2,5) by (intro that [of ?t]) auto
qed

lemma new_group_minv:
  assumes "minv s" and "g_id g < 0" and "g_profiles g = []"
  shows "minv (s\<lparr>m_gheap := (m_gheap s)(m_gnext s := g), m_gnext := Suc (m_gnext s)\<rparr>)"
proof -
  have "g_id g \<le> m_max_group_id s" using assms by (simp add: minv_defs)
  with assms show ?thesis by (fastforce simp: minv_defs members_ok_def)
qed

lemma LoadManager_minv:
  assumes "start_state saved pids gids s"
  shows "minv (LoadManager name saved pids gids s)"
proof (rule LoadManager_loaded [OF assms, of name])
  fix t
  assume t: "minv t" "m_groups t = [] \<longrightarrow> m_max_group_id t = 0"
    and L: "LoadManager name saved pids gids s = (if m_groups t = []
       then fst (AddGroup (m_gnext t) (t\<lparr>m_gheap := (m_gheap t)(m_gnext t := NewGroup\<lparr>g_name := name\<rparr>), m_gnext := Suc (m_gnext t)\<rparr>))
       else t)"
  have "minv (t\<lparr>m_gheap := (m_gheap t)(m_gnext t := NewGroup\<lparr>g_name := name\<rparr>), m_gnext := Suc (m_gnext t)\<rparr>)"
    by (rule new_group_minv [OF t(1)]) (simp_all add: NewGroup_def)
  with t L show ?thesis by (auto simp: AddGroup_def intro!: AddGroupBatch_minv)
qed

section \<open>Steps\<close>

text \<open>What the window and the threads do, in any order. Rows of a group are natural numbers, the
  profiles and groups handed in exist, and identifiers do not run out. A profile that neither a cache
  nor a waiting thread holds may be destroyed between two operations while its bean is in use.\<close>

inductive mstep :: "manager \<Rightarrow> manager \<Rightarrow> bool" where
  new_profile: "e_id e < 0 \<Longrightarrow>
    mstep s (s\<lparr>m_heap := (m_heap s)(m_next s := e), m_bean_alive := (m_bean_alive s)(m_next s := b), m_next := Suc (m_next s)\<rparr>)"
| new_group: "g_id g < 0 \<Longrightarrow> g_profiles g = [] \<Longrightarrow>
    mstep s (s\<lparr>m_gheap := (m_gheap s)(m_gnext s := g), m_gnext := Suc (m_gnext s)\<rparr>)"
| edit_profile: "e_id e = e_id (m_heap s p) \<Longrightarrow> mstep s (set_entity p (\<lambda>_. e) s)"
| settings: "mstep s (s\<lparr>m_started_id := i, m_current_group := j\<rparr>)"
| get_profile: "mstep s (fst (GetProfile i s))"
| add_profiles: "set ents \<subseteq> {..<m_next s} \<Longrightarrow> m_max_profile_id s + int (length ents) < 2147483648 \<Longrightarrow>
    mstep s (fst (AddProfileBatch ents gid s))"
| replace_profile: "\<forall>p. ent = Some p \<longrightarrow> p < m_next s \<Longrightarrow> mstep s (fst (ReplaceProfile i ent s))"
| move_profiles: "\<forall>i\<in>set ids. 0 \<le> i \<Longrightarrow> mstep s (fst (MoveProfileBatch ids gid s))"
| delete_profiles: "mstep s (BatchDeleteProfiles ids groupid s)"
| add_groups: "set gs \<subseteq> {..<m_gnext s} \<Longrightarrow> m_max_group_id s + int (length gs) < 2147483648 \<Longrightarrow>
    mstep s (fst (AddGroupBatch gs s))"
| delete_groups: "mstep s (BatchDeleteGroups ids s)"
| emplace: "EmplaceProfile (int i) (int j) (m_gheap s g) = Some (x, b) \<Longrightarrow> mstep s (set_group g (\<lambda>_. x) s)"
| swap: "SwapProfiles (int i) (int j) (m_gheap s g) = Some (x, b) \<Longrightarrow> mstep s (set_group g (\<lambda>_. x) s)"
| drop_nulls: "mstep s (fst (DropNulls g s))"
| destroyed: "\<forall>i. m_cached_profiles s i \<noteq> Some p \<and> map_of (m_weak_profiles s) i \<noteq> Some p \<Longrightarrow>
    \<forall>g ents. Save_profiles g ents \<in> set (m_jobs s) \<longrightarrow> p \<notin> set ents \<Longrightarrow> mstep s (Entity_destroy p s)"
| run: "k < length (m_jobs s) \<Longrightarrow> mstep s (run_nth k s)"

inductive reachable :: "manager \<Rightarrow> bool" where
  start: "start_state saved pids gids s \<Longrightarrow> reachable (LoadManager name saved pids gids s)"
| step: "reachable s \<Longrightarrow> mstep s t \<Longrightarrow> reachable t"

lemma EmplaceProfile_keeps:
  "EmplaceProfile (int i) (int j) g = Some (g', b) \<Longrightarrow> g_id g' = g_id g \<and> mset (g_profiles g') = mset (g_profiles g)"
  using EmplaceProfile_moved [of i g j] moved_mset [of i "g_profiles g" j]
  by (cases "i < length (g_profiles g) \<and> j < length (g_profiles g)") (auto simp: EmplaceProfile_def)

lemma null_profiles_minv:
  "minv s \<Longrightarrow> minv (fst (null_profiles ids s)) \<and> same_but_lookup s (fst (null_profiles ids s))"
proof (induction ids arbitrary: s)
  case (Cons i ids)
  obtain s1 r where g: "GetProfile i s = (s1, r)" by force
  with GetProfile_minv [OF Cons.prems, of i] GetProfile_same [OF Cons.prems, of i] Cons.IH [of s1]
  show ?case by (auto split: prod.split intro: same_trans)
qed (simp add: same_but_lookup_def)

lemma DropNulls_minv:
  assumes "minv s"
  shows "minv (fst (DropNulls g s))"
proof -
  obtain t dropped where n: "null_profiles (g_profiles (m_gheap s g)) s = (t, dropped)" by force
  then have "minv t" using null_profiles_minv [OF assms, of "g_profiles (m_gheap s g)"] by simp
  then have "minv (set_group g (\<lambda>x. x\<lparr>g_profiles := foldl (\<lambda>ps i. removeAll i ps) (g_profiles x) dropped\<rparr>) t)"
    using group_members [OF \<open>minv t\<close>, of g] by (intro set_group_minv) (auto simp: removeAll_foldl members_ok_def)
  with n show ?thesis by (simp add: DropNulls_def Group_Save_minv)
qed

lemma SwapProfiles_keeps:
  "SwapProfiles (int i) (int j) g = Some (g', b) \<Longrightarrow> g_id g' = g_id g \<and> mset (g_profiles g') = mset (g_profiles g)"
  using mset_swap [of j "g_profiles g" i] by (auto simp: SwapProfiles_def swapItemsAt_def split: if_splits)

lemma members_ok_mset: "mset (g_profiles g') = mset (g_profiles g) \<Longrightarrow> members_ok m g' = members_ok m g"
  by (metis members_ok_def mset_eq_imp_distinct_iff set_mset_mset)

lemma mstep_minv:
  assumes "mstep s t" and "minv s"
  shows "minv t"
  using assms
proof (induction rule: mstep.induct)
  case (new_profile e s b)
  then have "e_id e \<le> m_max_profile_id s" by (auto simp: minv_defs)
  with new_profile show ?case by (intro alloc_minv) auto
next
  case (emplace i j s g x b)
  then show ?case using EmplaceProfile_keeps [OF emplace(1)] members_ok_mset [of x] group_members [of s g]
    by (intro set_group_minv) auto
next
  case (swap i j s g x b)
  then show ?case using SwapProfiles_keeps [OF swap(1)] members_ok_mset [of x] group_members [of s g]
    by (intro set_group_minv) auto
next
  case (settings s i j)
  then show ?case by (simp add: minv_defs)
qed (simp_all add: new_group_minv set_entity_minv GetProfile_minv AddProfileBatch_minv ReplaceProfile_minv MoveProfileBatch_minv
  BatchDeleteProfiles_minv AddGroupBatch_minv BatchDeleteGroups_minv DropNulls_minv run_nth_minv Entity_destroy_minv)

lemma reachable_minv: "reachable s \<Longrightarrow> minv s"
  by (induction rule: reachable.induct) (simp_all add: LoadManager_minv mstep_minv)

section \<open>What each operation does\<close>

abbreviation new_ids :: "manager \<Rightarrow> nat \<Rightarrow> int list" where
  "new_ids s n \<equiv> map (\<lambda>k. m_max_profile_id s + 1 + int k) [0..<n]"

lemma new_ids_Suc: "map (\<lambda>k. m + 1 + int k) [0..<Suc n] = (m + 1) # map (\<lambda>k. m + 1 + 1 + int k) [0..<n]"
proof -
  have "[0..<Suc n] = 0 # map Suc [0..<n]" unfolding map_Suc_upt by (rule upt_conv_Cons) simp
  then show ?thesis by (simp add: comp_def add_ac del: upt_Suc)
qed

lemma add_loop_result:
  assumes "minv s" and "set ents \<subseteq> {..<m_next s}" and "m_max_profile_id s + int (length ents) < 2147483648"
    and "distinct ents" and "\<forall>p\<in>set ents. e_id (m_heap s p) < 0"
  shows "map (\<lambda>p. m_heap (add_loop gid g ents s) p) ents
      = map2 (\<lambda>p i. (m_heap s p)\<lparr>e_gid := gid, e_id := i\<rparr>) ents (new_ids s (length ents))
    \<and> m_gheap (add_loop gid g ents s) = (m_gheap s)(g := (m_gheap s g)\<lparr>g_profiles := g_profiles (m_gheap s g) @ new_ids s (length ents)\<rparr>)"
  using assms
proof (induction ents arbitrary: s)
  case (Cons p ents)
  have p: "p < m_next s" "e_id (m_heap s p) < 0" and lim: "m_max_profile_id s < 2147483647" using Cons.prems by auto
  let ?s = "add_one gid g p s"
  note f = add_one_fields [OF Cons.prems(1) lim, of gid g p]
  have inv: "minv ?s" using add_one_minv [OF Cons.prems(1) p(2,1) lim] .
  have pre: "set ents \<subseteq> {..<m_next ?s}" "m_max_profile_id ?s + int (length ents) < 2147483648" using Cons.prems(2,3) f by auto
  have same: "m_heap ?s q = m_heap s q" if "q \<in> set ents" for q using f(3) Cons.prems(4) that by auto
  note IH = Cons.IH [OF inv pre]
  have "0 \<le> m_max_profile_id s" using Cons.prems(1) by (simp add: minv_defs)
  then have "m_heap (add_loop gid g ents ?s) p = m_heap ?s p"
    using add_loop_minv [OF inv pre, of gid g] f(3) by simp
  moreover have "map2 (\<lambda>p i. (m_heap ?s p)\<lparr>e_gid := gid, e_id := i\<rparr>) ents xs = map2 (\<lambda>p i. (m_heap s p)\<lparr>e_gid := gid, e_id := i\<rparr>) ents xs" for xs
    using same by (auto dest: set_zip_leftD)
  ultimately show ?case using IH Cons.prems(4,5) p(2) same f
    by (simp add: add_loop_Cons new_ids_Suc fun_eq_iff del: upt_Suc)
qed simp

lemma foldl_Entity_Save:
  assumes "distinct (map (\<lambda>p. e_id (m_heap s p)) ents)" and "p \<in> set ents" and "\<forall>q\<in>set ents. \<not> e_no_save (m_heap s q)"
  shows "tb_Proxies (m_tables (foldl (\<lambda>s ent. Entity_Save ent s) s ents)) (e_id (m_heap s p)) = Some (m_heap s p)"
  using assms
proof (induction ents arbitrary: s rule: rev_induct)
  case (snoc q ents)
  have h: "m_heap (foldl (\<lambda>s ent. Entity_Save ent s) s es) = m_heap s" for es by (induction es arbitrary: s) simp_all
  have "e_id (m_heap s q) \<notin> (\<lambda>p. e_id (m_heap s p)) ` set ents" using snoc.prems(1) by simp
  then have "e_id (m_heap s p) \<noteq> e_id (m_heap s q)" if "p \<in> set ents" using that by (metis imageI)
  with snoc h show ?case by (cases "p = q") (auto simp: Entity_Save_def Let_def)
qed simp

lemma foldl_Entity_Save_groups: "tb_Groups (m_tables (foldl (\<lambda>s ent. Entity_Save ent s) s ents)) = tb_Groups (m_tables s)"
  by (induction ents arbitrary: s) (simp_all add: Entity_Save_def Let_def)

end
