(* ===== verification/Manager_Props.thy ===== *)
theory Manager_Props
  imports Manager_Steps
begin

text \<open>
  The properties of the profile manager: the invariant of every reachable state, and what adding,
  deleting and moving profiles, deleting groups and starting leave in memory and in storage.
\<close>

section \<open>A concrete start\<close>

definition empty_tables :: tables where
  "empty_tables = \<lparr> tb_Proxies = (\<lambda>_. None), tb_Beans = {}, tb_Groups = (\<lambda>_. None), tb_Subscriptions = {} \<rparr>"

definition blank :: "tables \<Rightarrow> manager" where
  "blank t = \<lparr> m_heap = (\<lambda>_. NewProxyEntity ''''), m_next = 0, m_bean_alive = (\<lambda>_. False), m_gheap = (\<lambda>_. NewGroup), m_gnext = 0,
     m_cached_profiles = (\<lambda>_. None), m_weak_profiles = [], m_groups = [], m_groupsTabOrder = [], m_max_profile_id = 1,
     m_max_group_id = 1, m_started_id = -1919, m_current_group = 0, m_jobs = [], m_tables = t \<rparr>"

text \<open>Two stored groups, the first of which lists the one stored profile.\<close>

definition sample_profile :: entity where
  "sample_profile = (NewProxyEntity ''vmess'')\<lparr>e_id := 4, e_gid := 1\<rparr>"

definition sample_tables :: tables where
  "sample_tables = empty_tables\<lparr>tb_Proxies := [4 \<mapsto> sample_profile],
     tb_Groups := [1 \<mapsto> NewGroup\<lparr>g_id := 1, g_profiles := [4]\<rparr>, 2 \<mapsto> NewGroup\<lparr>g_id := 2\<rparr>]\<rparr>"

definition sample :: manager where
  "sample = LoadManager ''Default'' [2] [4] [1, 2] (blank sample_tables)"

lemma sample_start: "start_state [2] [4] [1, 2] (blank sample_tables)"
  by (auto simp: start_state_def blank_def sample_tables_def sample_profile_def empty_tables_def NewProxyEntity_def NewGroup_def
      members_ok_def highest_def split: if_splits)

lemma sample_reachable: "reachable sample"
  unfolding sample_def by (rule reachable.start [OF sample_start])

lemma sample_value:
  "sample = (blank sample_tables)\<lparr>m_gheap := (\<lambda>_. NewGroup)(0 := NewGroup\<lparr>g_id := 1, g_profiles := [4]\<rparr>, 1 := NewGroup\<lparr>g_id := 2\<rparr>),
     m_gnext := 2, m_groups := [(1, 0), (2, 1)], m_groupsTabOrder := [2, 1], m_max_profile_id := 4, m_max_group_id := 2\<rparr>"
  by (simp add: sample_def LoadManager_def blank_def sample_tables_def empty_tables_def LoadGroup_def NewGroup_def Let_def)

section \<open>Invariant\<close>





lemma Group_Save_heap [simp]: "m_heap (Group_Save g s) = m_heap s"
  by (simp add: Group_Save_def Let_def)

section \<open>Adding profiles\<close>

lemma run_last: "run_nth (length (m_jobs s)) (runOnNewThread j t) = run_job j t" if "m_jobs t = m_jobs s"
proof -
  have t: "t\<lparr>m_jobs := m_jobs s\<rparr> = t" using that by (cases t) simp
  show ?thesis by (simp add: run_nth_def runOnNewThread_def that) (simp only: t)
qed






section \<open>Deleting profiles\<close>

lemma run_delete:
  "tb_Proxies (m_tables (run_job (Delete_profiles gs ids) s)) = (\<lambda>i. if i \<in> set ids then None else tb_Proxies (m_tables s) i)"
  "m_cached_profiles (run_job (Delete_profiles gs ids) s) = m_cached_profiles s"
  "m_weak_profiles (run_job (Delete_profiles gs ids) s) = m_weak_profiles s"
  "m_gheap (run_job (Delete_profiles gs ids) s) = m_gheap s"
proof -
  have g: "tb_Proxies (m_tables (foldl (\<lambda>s g. Group_Save g s) s gs)) = tb_Proxies (m_tables s)"
    "m_cached_profiles (foldl (\<lambda>s g. Group_Save g s) s gs) = m_cached_profiles s"
    "m_weak_profiles (foldl (\<lambda>s g. Group_Save g s) s gs) = m_weak_profiles s"
    "m_gheap (foldl (\<lambda>s g. Group_Save g s) s gs) = m_gheap s" for s
    by (induction gs arbitrary: s) (simp_all add: Group_Save_def Let_def)
  have d: "tb_Proxies (m_tables (foldl (\<lambda>s i. Drop_profile i s) s ids)) = (\<lambda>i. if i \<in> set ids then None else tb_Proxies (m_tables s) i)"
    "m_cached_profiles (foldl (\<lambda>s i. Drop_profile i s) s ids) = m_cached_profiles s"
    "m_weak_profiles (foldl (\<lambda>s i. Drop_profile i s) s ids) = m_weak_profiles s"
    "m_gheap (foldl (\<lambda>s i. Drop_profile i s) s ids) = m_gheap s" for s
    by (induction ids arbitrary: s) (auto simp: Drop_profile_def Let_def fun_eq_iff)
  show "tb_Proxies (m_tables (run_job (Delete_profiles gs ids) s)) = (\<lambda>i. if i \<in> set ids then None else tb_Proxies (m_tables s) i)"
    "m_cached_profiles (run_job (Delete_profiles gs ids) s) = m_cached_profiles s"
    "m_weak_profiles (run_job (Delete_profiles gs ids) s) = m_weak_profiles s"
    "m_gheap (run_job (Delete_profiles gs ids) s) = m_gheap s"
    by (auto simp: g d fun_eq_iff)
qed

definition forgotten :: "manager \<Rightarrow> int \<Rightarrow> bool" where
  "forgotten s i \<longleftrightarrow> m_cached_profiles s i = None \<and> map_of (m_weak_profiles s) i = None"

lemma GetProfile_forgets:
  assumes "minv s" and "forgotten s i" and "j \<noteq> i"
  shows "forgotten (fst (GetProfile j s)) i"
  using assms(1)
proof (cases rule: GetProfile_cases [where i = j])
  case (loaded e)
  have "map_of (lru_insert (Suc 299) (Suc 99) j (m_next s) (m_weak_profiles s)) i = None"
    using lru.get_put_other [OF weak_ok [OF assms(1)], of i j "m_next s"] assms(2,3)
    by (cases "map_of (lru_insert (Suc 299) (Suc 99) j (m_next s) (m_weak_profiles s)) i") (auto simp: forgotten_def)
  with loaded assms(2) show ?thesis by (simp add: forgotten_def weak_insert_def)
qed (use assms in \<open>auto simp: forgotten_def\<close>)

lemma Uncache_forgotten: "forgotten (UncacheProfile i True s) i" "forgotten s i \<Longrightarrow> forgotten (UncacheProfile j b s) i"
  by (simp_all add: forgotten_def UncacheProfile_def Let_def lru_drop_lookup)

lemma delete_one_result:
  assumes "minv s" and k: "k < 0"
  shows "(snd (snd (delete_one k i s)) \<longrightarrow> 0 \<le> i \<and> i \<noteq> m_started_id s \<and> forgotten (fst (delete_one k i s)) i)
    \<and> (0 \<le> i \<and> i \<noteq> m_started_id s \<and> (\<exists>e. tb_Proxies (m_tables s) i = Some e \<and> isValid e) \<longrightarrow> snd (snd (delete_one k i s)))
    \<and> (j \<noteq> i \<and> forgotten s j \<longrightarrow> forgotten (fst (delete_one k i s)) j)
    \<and> (forgotten s i \<longrightarrow> forgotten (fst (delete_one k i s)) i \<or> i < 0 \<or> i = m_started_id s)"
proof -
  obtain s1 r where g: "GetProfile i s = (s1, r)" by force
  have found: "r \<noteq> None" if "tb_Proxies (m_tables s) i = Some e" "isValid e" for e
    using assms(1) by (cases rule: GetProfile_cases [where i = i]) (use g that in auto)
  have none: "s1 = s" if "r = None"
    using assms(1) by (cases rule: GetProfile_cases [where i = i]) (use g that in auto)
  have other: "j \<noteq> i \<and> forgotten s j \<longrightarrow> forgotten s1 j" using GetProfile_forgets [OF assms(1), of j i] g by auto
  have sg: "forgotten (set_group h f s1) j = forgotten s1 j" for h f j by (simp add: forgotten_def)
  show ?thesis using g found none other k
    by (auto simp: delete_one_def Let_def sg Uncache_forgotten split: option.split)
qed

lemma delete_loop_result:
  assumes "minv s" and k: "k < 0"
  shows "set (snd (snd (delete_loop k ids s ch del))) \<subseteq> set del \<union> {i \<in> set ids. 0 \<le> i \<and> i \<noteq> m_started_id s}
    \<and> set del \<union> {i \<in> set ids. 0 \<le> i \<and> i \<noteq> m_started_id s \<and> (\<exists>e. tb_Proxies (m_tables s) i = Some e \<and> isValid e)}
        \<subseteq> set (snd (snd (delete_loop k ids s ch del)))
    \<and> ((\<forall>i\<in>set del. 0 \<le> i \<and> i \<noteq> m_started_id s \<and> forgotten s i) \<longrightarrow>
        (\<forall>i\<in>set (snd (snd (delete_loop k ids s ch del))). forgotten (fst (delete_loop k ids s ch del)) i))"
  using assms(1)
proof (induction ids arbitrary: s ch del)
  case (Cons i ids)
  obtain s1 gs b where d: "delete_one k i s = (s1, gs, b)" by (metis prod_cases3)
  note r = delete_one_result [OF Cons.prems k, of i] and m = delete_one_minv [OF Cons.prems, of k i]
  let ?del = "if b then List.insert i del else del"
  have b: "b \<Longrightarrow> 0 \<le> i \<and> i \<noteq> m_started_id s \<and> forgotten s1 i"
    "0 \<le> i \<and> i \<noteq> m_started_id s \<and> (\<exists>e. tb_Proxies (m_tables s) i = Some e \<and> isValid e) \<Longrightarrow> b"
    using r [of i] unfolding d fst_conv snd_conv by blast+
  have f: "forgotten s1 j" if "forgotten s j" "0 \<le> j" "j \<noteq> m_started_id s" for j
    using r [of j] that unfolding d fst_conv snd_conv by (cases "j = i") auto
  have IH: "minv s1" "m_tables s1 = m_tables s" "m_started_id s1 = m_started_id s" using m d by auto
  note IH' = Cons.IH [OF IH(1), of "foldl (\<lambda>c g. List.insert g c) ch gs" ?del, unfolded IH(2,3)]
  have del: "(\<forall>j\<in>set del. 0 \<le> j \<and> j \<noteq> m_started_id s \<and> forgotten s j) \<longrightarrow> (\<forall>j\<in>set ?del. 0 \<le> j \<and> j \<noteq> m_started_id s \<and> forgotten s1 j)"
    using b(1) f by auto
  have sub: "set ?del \<subseteq> set del \<union> {j \<in> set (i # ids). 0 \<le> j \<and> j \<noteq> m_started_id s}" using b(1) by auto
  have sup: "i \<in> set ?del" if "0 \<le> i \<and> i \<noteq> m_started_id s \<and> (\<exists>e. tb_Proxies (m_tables s) i = Some e \<and> isValid e)" using b(2) that by auto
  have mono: "set del \<subseteq> set ?del" by auto
  define P where "P j \<longleftrightarrow> 0 \<le> j \<and> j \<noteq> m_started_id s \<and> (\<exists>e. tb_Proxies (m_tables s) j = Some e \<and> isValid e)" for j
  define D where "D = set (snd (snd (delete_loop k ids s1 (foldl (\<lambda>c g. List.insert g c) ch gs) ?del)))"
  have "set ?del \<subseteq> D" "{j \<in> set ids. P j} \<subseteq> D" "D \<subseteq> set ?del \<union> {i \<in> set ids. 0 \<le> i \<and> i \<noteq> m_started_id s}"
    using IH' unfolding D_def P_def by blast+
  with sub sup mono have "D \<subseteq> set del \<union> {j \<in> set (i # ids). 0 \<le> j \<and> j \<noteq> m_started_id s}" "set del \<union> {j \<in> set (i # ids). P j} \<subseteq> D"
    unfolding P_def [symmetric] by (simp_all only: list.set) blast+
  with IH' del show ?case unfolding delete_loop_Cons d prod.case D_def P_def by blast
qed simp

lemma delete_effect:
  fixes ids :: "int list"
  assumes inv: "minv s"
  defines "u \<equiv> run_nth (length (m_jobs s)) (BatchDeleteProfiles ids (-1) s)"
  shows "(\<forall>i. i \<notin> set ids \<or> i = m_started_id s \<longrightarrow> tb_Proxies (m_tables u) i = tb_Proxies (m_tables s) i)
    \<and> (\<forall>i e. i \<in> set ids \<and> i \<noteq> m_started_id s \<and> tb_Proxies (m_tables s) i = Some e \<and> isValid e \<longrightarrow>
        tb_Proxies (m_tables u) i = None \<and> GetProfile i u = (u, None))"
proof -
  obtain t gs ds where d: "delete_loop (-1) ids s [] [] = (t, gs, ds)" by (metis prod_cases3)
  have t: "m_tables t = m_tables s" "m_jobs t = m_jobs s" using delete_loop_minv [OF inv, of "-1" ids "[]" "[]"] d by auto
  have u: "u = run_job (Delete_profiles gs ds) t"
    using run_last [OF t(2)] d by (simp add: u_def BatchDeleteProfiles_def)
  have ds: "set ds \<subseteq> {i \<in> set ids. 0 \<le> i \<and> i \<noteq> m_started_id s}" "\<forall>i\<in>set ds. forgotten t i"
    "{i \<in> set ids. 0 \<le> i \<and> i \<noteq> m_started_id s \<and> (\<exists>e. tb_Proxies (m_tables s) i = Some e \<and> isValid e)} \<subseteq> set ds"
    using delete_loop_result [OF inv, of "-1" ids "[]" "[]"] d by auto
  have gone: "GetProfile i u = (u, None)" if "i \<in> set ds" for i
  proof -
    have "\<not> isValid ((NewProxyEntity '''')\<lparr>e_id := i\<rparr>)" by (simp add: isValid_def NewProxyEntity_def OutboundTypes_def)
    then show ?thesis using ds(2) that
      by (simp add: u GetProfile_def run_delete forgotten_def lru_tryGet_def LoadProxyEntity_def del: run_job.simps)
  qed
  have "tb_Proxies (m_tables u) = (\<lambda>i. if i \<in> set ds then None else tb_Proxies (m_tables s) i)"
    by (simp only: u run_delete t)
  moreover have "i \<in> set ds" if "i \<in> set ids" "i \<noteq> m_started_id s" "tb_Proxies (m_tables s) i = Some e" "isValid e" for i e
    using ds(3) that stored_id [OF inv that(3)] by auto
  ultimately show ?thesis using ds(1) gone by auto
qed

text \<open>C10. Deleting profiles: whatever else happens, the profile that is running and the profiles that
  are not listed keep their records; every other listed profile with a readable record is gone
  from storage once the thread has run, and looking it up finds nothing.\<close>

theorem delete_profiles_effect:
  assumes "reachable s"
  shows "let u = run_nth (length (m_jobs s)) (BatchDeleteProfiles ids (-1) s)
    in (\<forall>i. i \<notin> set ids \<or> i = m_started_id s \<longrightarrow> tb_Proxies (m_tables u) i = tb_Proxies (m_tables s) i)
    \<and> (\<forall>i e. i \<in> set ids \<and> i \<noteq> m_started_id s \<and> tb_Proxies (m_tables s) i = Some e \<and> isValid e \<longrightarrow>
        tb_Proxies (m_tables u) i = None \<and> GetProfile i u = (u, None))"
  unfolding Let_def by (rule delete_effect [OF reachable_minv [OF assms]])

theorem delete_profiles_effect_witness:
  "tb_Proxies (m_tables (run_nth 0 (BatchDeleteProfiles [4] (-1) sample))) 4 = None"
proof -
  have "tb_Proxies (m_tables sample) 4 = Some sample_profile" "isValid sample_profile" "m_started_id sample \<noteq> 4" "m_jobs sample = []"
    by (simp_all add: sample_value blank_def sample_tables_def empty_tables_def sample_profile_def isValid_def OutboundTypes_def NewProxyEntity_def)
  then show ?thesis using delete_profiles_effect [OF sample_reachable, of "[4]"] by (simp add: Let_def)
qed

section \<open>Deleting groups\<close>

lemma foldl_erase:
  "map_of (m_groups (foldl (\<lambda>s gid. erase_group gid s) s ids)) j = (if j \<in> set ids then None else map_of (m_groups s) j)"
  "m_jobs (foldl (\<lambda>s gid. erase_group gid s) s ids) = m_jobs s"
  "m_tables (foldl (\<lambda>s gid. erase_group gid s) s ids) = m_tables s"
  by (induction ids arbitrary: s) (auto simp: erase_group_def map_of_filter_key)

lemma foldl_delete_members: "(\<And>gid. gid \<in> set ids \<Longrightarrow> GetGroup gid s = None) \<Longrightarrow> foldl (\<lambda>s gid. delete_members gid s) s ids = s"
  by (induction ids) (auto simp: delete_members_def)

lemma foldl_Drop_group:
  "tb_Proxies (m_tables (foldl (\<lambda>s gid. Drop_group gid s) s ids)) = tb_Proxies (m_tables s)"
  "tb_Groups (m_tables (foldl (\<lambda>s gid. Drop_group gid s) s ids)) j = (if j \<in> set ids then None else tb_Groups (m_tables s) j)"
  "m_jobs (foldl (\<lambda>s gid. Drop_group gid s) s ids) = m_jobs s" "m_groups (foldl (\<lambda>s gid. Drop_group gid s) s ids) = m_groups s"
  by (induction ids arbitrary: s) (auto simp: Drop_group_def Let_def)

text \<open>C37. Deleting groups never deletes their profiles: the groups are erased from the manager before
  the thread asks it for their members, so the thread finds none. Once it has run, the groups'
  records are gone, every profile's record is still there, and no deletion is pending.\<close>

theorem delete_groups_leaves_profiles:
  "let u = run_nth (length (m_jobs s)) (BatchDeleteGroups (gid # gids) s)
   in list_all (\<lambda>i. GetGroup i u = None \<and> tb_Groups (m_tables u) i = None) (gid # gids)
      \<and> tb_Proxies (m_tables u) = tb_Proxies (m_tables s) \<and> m_jobs u = m_jobs s"
proof -
  let ?ids = "gid # gids"
  let ?s = "foldl (\<lambda>s gid. erase_group gid s) s ?ids"
  have ne: "remdups ?ids \<noteq> []" by (metis list.distinct(1) remdups_eq_nil_iff)
  have "run_nth (length (m_jobs s)) (BatchDeleteGroups ?ids s) = run_job (Delete_groups (remdups ?ids)) ?s"
    unfolding BatchDeleteGroups_def Let_def if_P [OF ne] by (rule run_last) (simp only: foldl_erase)
  also have "\<dots> = foldl (\<lambda>s gid. Drop_group gid s) ?s (remdups ?ids)"
    using foldl_delete_members [of "remdups ?ids" ?s] by (simp only: run_job.simps GetGroup_def foldl_erase set_remdups if_True)
  finally show ?thesis
    unfolding Let_def GetGroup_def list_all_iff by (simp only: foldl_Drop_group foldl_erase set_remdups if_True) simp
qed

section \<open>Moving profiles\<close>

lemma foldl_Group_Save:
  "tb_Proxies (m_tables (foldl (\<lambda>s g. Group_Save g s) s gs)) = tb_Proxies (m_tables s)"
  "m_heap (foldl (\<lambda>s g. Group_Save g s) s gs) = m_heap s" "m_gheap (foldl (\<lambda>s g. Group_Save g s) s gs) = m_gheap s"
  by (induction gs arbitrary: s) (simp_all add: Group_Save_def Let_def)

lemma Group_Save_two:
  "g_id (m_gheap s g) \<noteq> g_id (m_gheap s h) \<Longrightarrow>
    tb_Groups (m_tables (foldl (\<lambda>s g. Group_Save g s) s [g, h])) (g_id (m_gheap s g)) = Some (m_gheap s g)
    \<and> tb_Groups (m_tables (foldl (\<lambda>s g. Group_Save g s) s [g, h])) (g_id (m_gheap s h)) = Some (m_gheap s h)"
  by (simp add: Group_Save_def Let_def)

lemma move_effect:
  assumes "reachable s" and "0 \<le> i" and "GetProfile i s = (s1, Some p)" and "e_gid (m_heap s1 p) = a" and "a \<noteq> b"
    and "GetGroup a s = Some ga" and "GetGroup b s = Some gb"
  defines "u \<equiv> run_nth (length (m_jobs s)) (fst (MoveProfileBatch [i] b s))"
  shows "i \<notin> set (g_profiles (m_gheap u ga)) \<and> i \<in> set (g_profiles (m_gheap u gb)) \<and> e_gid (m_heap u p) = b
    \<and> tb_Groups (m_tables u) a = Some (m_gheap u ga) \<and> tb_Groups (m_tables u) b = Some (m_gheap u gb)
    \<and> tb_Proxies (m_tables u) i = tb_Proxies (m_tables s) i"
proof -
  have inv: "minv s" using assms(1) by (rule reachable_minv)
  have sm: "same_but_lookup s s1" and kn: "known s1 i p" using GetProfile_same [OF inv, of i] GetProfile_minv [OF inv, of i] assms(3) by auto
  have g1: "m_groups s1 = m_groups s" "m_gheap s1 = m_gheap s" "m_jobs s1 = m_jobs s" "m_tables s1 = m_tables s"
    using sm by (auto simp: same_but_lookup_def)
  have ga: "g_id (m_gheap s ga) = a" "g_id (m_gheap s gb) = b" using group_keys [OF inv] assms(6,7) by (auto simp: GetGroup_def)
  then have ne: "ga \<noteq> gb" using assms(5) by auto
  let ?t = "set_entity p (\<lambda>e. e\<lparr>e_gid := b\<rparr>) (set_group gb (fst \<circ> AddProfile i) (set_group ga (fst \<circ> RemoveProfile i) s1))"
  have "MoveProfileBatch [i] b s = (runOnNewThread (Save_groups (List.insert gb [ga])) ?t, True)"
    using assms(3-7) g1 kn by (simp add: MoveProfileBatch_def MoveProfileBatch_ents_def GetGroup_def known_def Let_def)
  then have u: "u = foldl (\<lambda>s g. Group_Save g s) ?t [gb, ga]"
    using run_last [of ?t s] g1 ne by (simp add: u_def)
  have h: "m_gheap u = m_gheap ?t" "m_heap u = m_heap ?t" "tb_Proxies (m_tables u) = tb_Proxies (m_tables s)"
    unfolding u foldl_Group_Save using g1 by simp_all
  have gh: "m_gheap ?t ga = fst (RemoveProfile i (m_gheap s ga))" "m_gheap ?t gb = fst (AddProfile i (m_gheap s gb))"
    using ne g1 by simp_all
  have id: "g_id (m_gheap ?t ga) = a" "g_id (m_gheap ?t gb) = b" using ga by (simp_all only: gh members_Remove(2) members_Add(2))
  have "tb_Groups (m_tables u) a = Some (m_gheap u ga)" "tb_Groups (m_tables u) b = Some (m_gheap u gb)"
    using Group_Save_two [of ?t gb ga, unfolded id, OF assms(5) [symmetric]] unfolding h(1) unfolding u by blast+
  moreover have "i \<notin> set (g_profiles (m_gheap u ga))" "i \<in> set (g_profiles (m_gheap u gb))"
    unfolding h gh by (auto simp: RemoveProfile_def AddProfile_def HasProfile_def)
  ultimately show ?thesis using h by simp
qed

text \<open>C36. Moving a profile to another group moves its identifier between the two groups' lists, in
  memory and in storage, and changes the profile's own group in memory only: its stored record
  keeps the group it had, because the set of profiles that the thread saves is never filled.\<close>

theorem move_profile_effect:
  assumes "reachable s" and "0 \<le> i" and "GetProfile i s = (s1, Some p)" and "e_gid (m_heap s1 p) = a" and "a \<noteq> b"
    and "GetGroup a s = Some ga" and "GetGroup b s = Some gb"
  shows "let u = run_nth (length (m_jobs s)) (fst (MoveProfileBatch [i] b s))
    in i \<notin> set (g_profiles (m_gheap u ga)) \<and> i \<in> set (g_profiles (m_gheap u gb)) \<and> e_gid (m_heap u p) = b
    \<and> tb_Groups (m_tables u) a = Some (m_gheap u ga) \<and> tb_Groups (m_tables u) b = Some (m_gheap u gb)
    \<and> tb_Proxies (m_tables u) i = tb_Proxies (m_tables s) i"
  unfolding Let_def by (rule move_effect [OF assms])

lemma sample_get: "GetProfile 4 sample = (sample\<lparr>m_heap := (m_heap sample)(0 := sample_profile), m_bean_alive := (m_bean_alive sample)(0 := False),
    m_next := 1, m_weak_profiles := [(4, 0)]\<rparr>, Some 0)"
  by (simp add: GetProfile_def sample_value blank_def sample_tables_def empty_tables_def lru_tryGet_def LoadProxyEntity_def
      sample_profile_def isValid_def OutboundTypes_def NewProxyEntity_def weak_insert_def lru_insert_def lru_prune_def Let_def)

theorem move_profile_effect_witness:
  "map_option e_gid (tb_Proxies (m_tables (run_nth 0 (fst (MoveProfileBatch [4] 2 sample)))) 4) = Some 1"
proof -
  have "e_gid sample_profile = 1" "GetGroup 1 sample = Some 0" "GetGroup 2 sample = Some 1" "m_jobs sample = []"
    "tb_Proxies (m_tables sample) 4 = Some sample_profile"
    by (simp_all add: sample_value blank_def sample_tables_def empty_tables_def sample_profile_def NewProxyEntity_def GetGroup_def)
  then show ?thesis using move_profile_effect [OF sample_reachable _ sample_get, of 1 2 0 1] by (simp add: Let_def)
qed

section \<open>Start\<close>

text \<open>After a start every stored group with a readable record has exactly one tab: first those of
  the stored order, in that order, then the others as the storage lists them; identifiers in the
  stored order that no group has are gone. With no group at all there is one tab, for a new group
  that is waiting to be saved.\<close>

theorem load_manager_tabs:
  assumes "start_state saved pids gids s"
  shows "let t = LoadManager name saved pids gids s; V = loadable (m_tables s) gids
    in if V \<noteq> [] then m_groupsTabOrder t = tab_order saved V \<and> {i. GetGroup i t \<noteq> None} = set V
       else m_groupsTabOrder t = [1] \<and> (\<exists>g. GetGroup 1 t = Some g \<and> g_name (m_gheap t g) = name \<and> Save_groups [g] \<in> set (m_jobs t))"
proof (rule LoadManager_loaded [OF assms, of name])
  fix t
  assume t: "minv t" "fst ` set (m_groups t) = set (loadable (m_tables s) gids)"
    "m_groupsTabOrder t = tab_order saved (loadable (m_tables s) gids)" "m_groups t = [] \<longrightarrow> m_max_group_id t = 0"
    and L: "LoadManager name saved pids gids s = (if m_groups t = []
       then fst (AddGroup (m_gnext t) (t\<lparr>m_gheap := (m_gheap t)(m_gnext t := NewGroup\<lparr>g_name := name\<rparr>), m_gnext := Suc (m_gnext t)\<rparr>))
       else t)"
  have e: "m_groups t = [] \<longleftrightarrow> loadable (m_tables s) gids = []" using t(2) by (metis image_is_empty set_empty)
  show ?thesis
  proof (cases "m_groups t = []")
    case True
    with t(4) e t(3) show ?thesis
      by (simp add: L Let_def AddGroup_def AddGroupBatch_def NewGroup_def next_id_def runOnNewThread_def GetGroup_def set_group_def tab_order_def)
  next
    case False
    with t(2,3) e L show ?thesis by (auto simp: Let_def GetGroup_def map_of_eq_None_iff)
  qed
qed

theorem load_manager_tabs_witness: "m_groupsTabOrder sample = [2, 1]"
proof -
  have "loadable (m_tables (blank sample_tables)) [1, 2] = [1, 2]"
    by (simp add: loadable_def blank_def sample_tables_def empty_tables_def LoadGroup_def NewGroup_def)
  then show ?thesis using load_manager_tabs [OF sample_start, of "''Default''"] by (simp add: Let_def tab_order_def sample_def)
qed

end
