(* ===== verification/Profile_Filter.thy ===== *)
theory Profile_Filter
  imports Proxy_Entity
begin

text \<open>
  Removing duplicate profiles and comparing lists of profiles
  (\<^verbatim>\<open>src/gharqad/dataStore/ProfileFilter.cpp\<close>). The code keeps profiles in a \<open>std::map\<close> ordered by
  \<open>ProfileFilterKey::operator<\<close>. The C++ library gives such a map a meaning only when the
  operator is a strict weak order on the keys it meets; where it is not, the functions below are
  \<open>None\<close> (undefined behaviour). Under a strict weak order, a lookup finds the entry whose
  key is equivalent, which is all that is used of the map.
\<close>

section \<open>Keys\<close>

record filter_key =
  k_key :: "ptr option"
  k_skip_compare_beans :: bool

definition entity_compare :: "(string \<Rightarrow> bytes) \<Rightarrow> entity \<Rightarrow> entity \<Rightarrow> int" where
  "entity_compare hsh a b = compare hsh [''c_cfg'', ''c_out''] (entity_map hsh a) (Some (entity_map hsh b))"

definition key_equal :: "(string \<Rightarrow> bytes) \<Rightarrow> heap \<Rightarrow> filter_key \<Rightarrow> filter_key \<Rightarrow> bool" where
  "key_equal hsh h this other =
     (case k_key this of
        None \<Rightarrow> k_key other = None
      | Some p \<Rightarrow>
          (case k_key other of
             None \<Rightarrow> False
           | Some q \<Rightarrow>
               e_type (h p) = e_type (h q)
               \<and> e_serverAddress (h p) = e_serverAddress (h q)
               \<and> e_serverPort (h p) = e_serverPort (h q)
               \<and> k_skip_compare_beans this = k_skip_compare_beans other
               \<and> (k_skip_compare_beans this \<or> entity_compare hsh (h p) (h q) = 0)))"

definition key_less :: "(string \<Rightarrow> bytes) \<Rightarrow> heap \<Rightarrow> filter_key \<Rightarrow> filter_key \<Rightarrow> bool" where
  "key_less hsh h this other =
     (case k_key other of
        None \<Rightarrow> False
      | Some q \<Rightarrow>
          (case k_key this of
             None \<Rightarrow> True
           | Some p \<Rightarrow>
               e_type (h p) < e_type (h q)
               \<or> e_serverAddress (h p) < e_serverAddress (h q)
               \<or> e_serverPort (h p) < e_serverPort (h q)
               \<or> (k_skip_compare_beans this \<and> \<not> k_skip_compare_beans other)
               \<or> (\<not> k_skip_compare_beans other \<and> \<not> k_skip_compare_beans this
                  \<and> entity_compare hsh (h p) (h q) < 0)))"

definition ProfileFilter_ent_key :: "heap \<Rightarrow> bool \<Rightarrow> ptr \<Rightarrow> filter_key" where
  "ProfileFilter_ent_key h by_address ent =
     (let useAddressOnly = by_address \<and> e_type (h ent) \<noteq> ''custom''
      in \<lparr> k_key = Some ent, k_skip_compare_beans = \<not> useAddressOnly \<rparr>)"

section \<open>Maps ordered by an operator\<close>

definition weak_order_on :: "('k \<Rightarrow> 'k \<Rightarrow> bool) \<Rightarrow> 'k list \<Rightarrow> bool" where
  "weak_order_on lt ks \<longleftrightarrow>
     list_all (\<lambda>a. \<not> lt a a \<and> list_all (\<lambda>b. list_all (\<lambda>c.
       (lt a b \<and> lt b c \<longrightarrow> lt a c) \<and> (lt a c \<longrightarrow> lt a b \<or> lt b c)) ks) ks) ks"

definition equivalent :: "('k \<Rightarrow> 'k \<Rightarrow> bool) \<Rightarrow> 'k \<Rightarrow> 'k \<Rightarrow> bool" where
  "equivalent lt a b \<longleftrightarrow> \<not> lt a b \<and> \<not> lt b a"

definition map_find :: "('k \<Rightarrow> 'k \<Rightarrow> bool) \<Rightarrow> 'k \<Rightarrow> ('k \<times> 'v) list \<Rightarrow> 'v option" where
  "map_find lt k m = map_option snd (find (\<lambda>(k', _). equivalent lt k k') m)"

text \<open>\<open>m[k] = v\<close> and \<open>m.insert({k, v})\<close>: an equivalent key stays as it is.\<close>

definition map_set :: "('k \<Rightarrow> 'k \<Rightarrow> bool) \<Rightarrow> 'k \<Rightarrow> 'v \<Rightarrow> ('k \<times> 'v) list \<Rightarrow> ('k \<times> 'v) list" where
  "map_set lt k v m =
     (if map_find lt k m = None then m @ [(k, v)]
      else map (\<lambda>(k', w). if equivalent lt k k' then (k', v) else (k', w)) m)"

definition map_insert :: "('k \<Rightarrow> 'k \<Rightarrow> bool) \<Rightarrow> 'k \<Rightarrow> 'v \<Rightarrow> ('k \<times> 'v) list \<Rightarrow> ('k \<times> 'v) list" where
  "map_insert lt k v m = (if map_find lt k m = None then m @ [(k, v)] else m)"

section \<open>The filters\<close>

fun uniq_loop ::
  "('k \<Rightarrow> 'k \<Rightarrow> bool) \<Rightarrow> (ptr \<Rightarrow> 'k) \<Rightarrow> bool \<Rightarrow> ptr list \<Rightarrow> ('k \<times> ptr) list \<Rightarrow> ptr list \<Rightarrow> ptr list" where
  "uniq_loop lt key keep_last [] hashMap out = out"
| "uniq_loop lt key keep_last (ent # ents) hashMap out =
     (case map_find lt (key ent) hashMap of
        None \<Rightarrow> uniq_loop lt key keep_last ents (map_set lt (key ent) ent hashMap) (out @ [ent])
      | Some old \<Rightarrow>
          if keep_last
          then uniq_loop lt key keep_last ents (map_set lt (key ent) ent hashMap) (removeAll old out @ [ent])
          else uniq_loop lt key keep_last ents hashMap out)"

definition Uniq ::
  "(string \<Rightarrow> bytes) \<Rightarrow> heap \<Rightarrow> bool \<Rightarrow> bool \<Rightarrow> ptr list \<Rightarrow> ptr list \<Rightarrow> ptr list option" where
  "Uniq hsh h by_address keep_last ents out =
     (if weak_order_on (key_less hsh h) (map (ProfileFilter_ent_key h by_address) ents)
      then Some (uniq_loop (key_less hsh h) (ProfileFilter_ent_key h by_address) keep_last ents [] out)
      else None)"

fun common_loop ::
  "('k \<Rightarrow> 'k \<Rightarrow> bool) \<Rightarrow> (ptr \<Rightarrow> 'k) \<Rightarrow> ('k \<times> ptr) list \<Rightarrow> ptr list \<Rightarrow> ptr list \<Rightarrow> ptr list \<Rightarrow> ptr list \<times> ptr list" where
  "common_loop lt key m [] outSrc outDst = (outSrc, outDst)"
| "common_loop lt key m (ent # dst) outSrc outDst =
     (case map_find lt (key ent) m of
        None \<Rightarrow> common_loop lt key m dst outSrc outDst
      | Some s \<Rightarrow> common_loop lt key m dst (outSrc @ [s]) (outDst @ [ent]))"

definition Common ::
  "(string \<Rightarrow> bytes) \<Rightarrow> heap \<Rightarrow> bool \<Rightarrow> ptr list \<Rightarrow> ptr list \<Rightarrow> ptr list \<Rightarrow> ptr list \<Rightarrow> (ptr list \<times> ptr list) option" where
  "Common hsh h by_address src dst outSrc outDst =
     (let key = ProfileFilter_ent_key h by_address; lt = key_less hsh h
      in if weak_order_on lt (map key (src @ dst))
         then Some (common_loop lt key (foldl (\<lambda>m ent. map_insert lt (key ent) ent m) [] src) dst outSrc outDst)
         else None)"

fun only_loop :: "('k \<Rightarrow> 'k \<Rightarrow> bool) \<Rightarrow> (ptr \<Rightarrow> 'k) \<Rightarrow> ptr list \<Rightarrow> 'k list \<Rightarrow> ptr list \<Rightarrow> ptr list" where
  "only_loop lt key [] keys out = out"
| "only_loop lt key (ent # src) keys out =
     (if list_ex (equivalent lt (key ent)) keys then only_loop lt key src keys out
      else only_loop lt key src (keys @ [key ent]) (out @ [ent]))"

definition OnlyInSrc ::
  "(string \<Rightarrow> bytes) \<Rightarrow> heap \<Rightarrow> bool \<Rightarrow> ptr list \<Rightarrow> ptr list \<Rightarrow> ptr list \<Rightarrow> ptr list option" where
  "OnlyInSrc hsh h by_address src dst out =
     (let key = ProfileFilter_ent_key h by_address; lt = key_less hsh h
      in if weak_order_on lt (map key src) then Some (only_loop lt key src [] out) else None)"

definition OnlyInSrc_ByPointer :: "ptr list \<Rightarrow> ptr list \<Rightarrow> ptr list \<Rightarrow> ptr list" where
  "OnlyInSrc_ByPointer src dst out = out @ filter (\<lambda>ent. ent \<notin> set dst) src"

fun only_ids_loop :: "heap \<Rightarrow> ptr list \<Rightarrow> int list \<Rightarrow> ptr list \<Rightarrow> ptr list" where
  "only_ids_loop h [] ids out = out"
| "only_ids_loop h (ent # src) ids out =
     (if e_id (h ent) \<in> set ids then only_ids_loop h src ids out
      else only_ids_loop h src (e_id (h ent) # ids) (out @ [ent]))"

definition OnlyInSrc_ByIds :: "heap \<Rightarrow> ptr list \<Rightarrow> ptr list \<Rightarrow> ptr list \<Rightarrow> ptr list" where
  "OnlyInSrc_ByIds h src dst out = only_ids_loop h src [] out"

section \<open>Comparing the items of two profiles\<close>

text \<open>Two items with the same name and type whose comparison is antisymmetric and finds every
  difference.\<close>

definition comparable :: "(string \<Rightarrow> bytes) \<Rightarrow> string \<times> cval \<Rightarrow> string \<times> cval \<Rightarrow> bool" where
  "comparable hsh = (\<lambda>(n, v) (m, w). n = m \<and> item_type v = item_type w
     \<and> compare_v hsh v w = - compare_v hsh w v \<and> (compare_v hsh v w = 0 \<longleftrightarrow> v = w))"

declare compare_v.simps [simp del]

lemma comparable_plain: "plain v \<Longrightarrow> plain w \<Longrightarrow> item_type v = item_type w \<Longrightarrow> comparable hsh (n, v) (n, w)"
  using compare_v_plain [of v w hsh] unfolding comparable_def prod.case by blast

lemma compare_items_comparable:
  assumes "list_all2 (comparable hsh) fs gs"
  shows "compare_items hsh skip fs gs = - compare_items hsh skip gs fs
    \<and> (compare_items hsh skip fs gs = 0 \<longleftrightarrow> filter (\<lambda>(n, _). n \<notin> set skip) fs = filter (\<lambda>(n, _). n \<notin> set skip) gs)"
  using assms
proof (induction rule: list_all2_induct)
  case (Cons x xs y ys)
  obtain n v where x: "x = (n, v)" by force
  then obtain w where y: "y = (n, w)" and t: "item_type v = item_type w"
    and a: "compare_v hsh v w = - compare_v hsh w v" and z: "compare_v hsh v w = 0 \<longleftrightarrow> v = w"
    using Cons.hyps(1) by (cases y) (auto simp: comparable_def)
  show ?case
  proof (cases "n \<in> set skip \<or> v = w")
    case True
    have "compare_v hsh w w = 0" by (rule compare_same(1)) simp
    with True Cons.IH show ?thesis by (auto simp: x y Let_def)
  next
    case False
    with z a have "compare_v hsh v w \<noteq> 0" "compare_v hsh w v \<noteq> 0" by auto
    with False t a show ?thesis by (simp add: x y Let_def)
  qed
qed simp

lemma comparable_names: "list_all2 (comparable hsh) fs gs \<Longrightarrow> map fst fs = map fst gs"
  by (induction rule: list_all2_induct) (auto simp: comparable_def)

lemma compare_comparable:
  assumes "list_all2 (comparable hsh) fs gs"
  shows "compare hsh skip fs (Some gs) = compare_items hsh skip fs gs"
proof -
  have "map (hsh \<circ> fst) fs = map (hsh \<circ> fst) gs" using comparable_names [OF assms] by (metis map_map)
  with list_all2_lengthD [OF assms] show ?thesis by simp
qed

lemma comparable_sym: "comparable hsh x y \<Longrightarrow> comparable hsh y x"
  by (auto simp: comparable_def split: prod.splits)

lemma list_all2_insort_key:
  assumes "\<And>x y. R x y \<Longrightarrow> f x = f y" and "R x y" and "list_all2 R xs ys"
  shows "list_all2 R (insort_key f x xs) (insort_key f y ys)"
  using assms(3)
proof (induction rule: list_all2_induct)
  case (Cons u us v vs)
  with assms(1) [OF assms(2)] assms(1) [OF Cons.hyps(1)] assms(2) show ?case by simp
qed (simp add: assms(2))

lemma list_all2_sort_key:
  assumes "\<And>x y. R x y \<Longrightarrow> f x = f y" and "list_all2 R xs ys"
  shows "list_all2 R (sort_key f xs) (sort_key f ys)"
  using assms(2)
  by (induction rule: list_all2_induct) (auto simp: sort_key_def intro: list_all2_insort_key assms(1))

lemma comparable_key: "comparable hsh x y \<Longrightarrow> (\<lambda>(n, _). g n) x = (\<lambda>(n, _). g n) y"
  by (auto simp: comparable_def split: prod.splits)

lemma traffic_comparable: "list_all2 (comparable hsh) (traffic_map hsh a) (traffic_map hsh b)"
  unfolding traffic_map_def by (rule list_all2_sort_key [OF comparable_key]) (simp_all add: comparable_plain)

lemma shared_comparable:
  assumes ab: "list_all2 (comparable hsh) a b"
  shows "comparable hsh (n, CShared (Some a)) (n, CShared (Some b))"
proof -
  have ba: "list_all2 (comparable hsh) b a" using ab by (auto simp: list_all2_conv_all_nth intro: comparable_sym)
  have "compare_items hsh [] a b = - compare_items hsh [] b a" and "compare_items hsh [] a b = 0 \<longleftrightarrow> a = b"
    using compare_items_comparable [OF ab, of "[]"] by (auto simp del: compare_items.simps)
  then show ?thesis
    unfolding comparable_def prod.case compare_v.simps cval.case option.case compare_comparable [OF ab] compare_comparable [OF ba]
    by auto
qed

lemma entity_comparable: "list_all2 (comparable hsh) (entity_map hsh a) (entity_map hsh b)"
  unfolding entity_map_def
  by (rule list_all2_sort_key [OF comparable_key])
    (simp_all add: comparable_plain int_item_def shared_comparable [OF traffic_comparable])

lemma entity_compare_swap: "entity_compare hsh a b = - entity_compare hsh b a"
  using compare_items_comparable [OF entity_comparable [of hsh a b]]
  by (simp add: entity_compare_def compare_comparable [OF entity_comparable] del: compare.simps)

lemma entity_map_id: "(''id'', v) \<in> set (entity_map hsh e) \<longleftrightarrow> v = int_item (e_id e)"
  unfolding entity_map_def set_sort by simp

lemma entity_compare_zero:
  assumes "entity_compare hsh a b = 0"
  shows "(word_of_int (e_id a) :: int32) = word_of_int (e_id b)"
proof -
  let ?f = "filter (\<lambda>(n, _). n \<notin> set [''c_cfg'', ''c_out''])"
  have "?f (entity_map hsh a) = ?f (entity_map hsh b)"
    using assms compare_items_comparable [OF entity_comparable [of hsh a b]]
    unfolding entity_compare_def compare_comparable [OF entity_comparable] by blast
  moreover have "(''id'', int_item (e_id a)) \<in> set (?f (entity_map hsh a))"
    unfolding set_filter by (simp add: entity_map_id)
  ultimately have "(''id'', int_item (e_id a)) \<in> set (?f (entity_map hsh b))" by (simp only:)
  then have "(''id'', int_item (e_id a)) \<in> set (entity_map hsh b)" by (rule subsetD [OF filter_is_subset])
  then show ?thesis by (simp add: entity_map_id int_item_def)
qed

section \<open>One profile of each class\<close>

text \<open>The reference: the last, or the first, of each class of equivalent members, in their order.\<close>

fun lasts :: "('a \<Rightarrow> 'a \<Rightarrow> bool) \<Rightarrow> 'a list \<Rightarrow> 'a list" where
  "lasts eq [] = []"
| "lasts eq (x # xs) = (if list_ex (eq x) xs then lasts eq xs else x # lasts eq xs)"

definition firsts :: "('a \<Rightarrow> 'a \<Rightarrow> bool) \<Rightarrow> 'a list \<Rightarrow> 'a list" where
  "firsts eq xs = rev (lasts eq (rev xs))"

lemma lasts_snoc: "lasts eq (xs @ [x]) = filter (\<lambda>y. \<not> eq y x) (lasts eq xs) @ [x]"
  by (induction xs) auto

lemma firsts_snoc: "firsts eq (xs @ [x]) = (if list_ex (eq x) xs then firsts eq xs else firsts eq xs @ [x])"
  by (simp add: firsts_def list_ex_rev)

lemma lasts_subset: "set (lasts eq xs) \<subseteq> set xs"
  by (induction xs) auto

lemma firsts_subset: "set (firsts eq xs) \<subseteq> set xs"
  using lasts_subset [of eq "rev xs"] by (simp add: firsts_def)

definition equivalence_on :: "'a set \<Rightarrow> ('a \<Rightarrow> 'a \<Rightarrow> bool) \<Rightarrow> bool" where
  "equivalence_on U eq \<longleftrightarrow> (\<forall>x\<in>U. eq x x) \<and> (\<forall>x\<in>U. \<forall>y\<in>U. eq x y \<longrightarrow> eq y x)
     \<and> (\<forall>x\<in>U. \<forall>y\<in>U. \<forall>z\<in>U. eq x y \<longrightarrow> eq y z \<longrightarrow> eq x z)"

lemma equivalent_equivalence:
  assumes "weak_order_on lt ks"
  shows "equivalence_on (set ks) (equivalent lt)"
  using assms unfolding equivalence_on_def equivalent_def weak_order_on_def list_all_iff by blast

lemma lasts_represent:
  assumes "equivalence_on U eq" and "set xs \<subseteq> U" and "x \<in> U"
  shows "(\<exists>p\<in>set (lasts eq xs). eq x p) \<longleftrightarrow> (\<exists>p\<in>set xs. eq x p)"
  using assms(2)
proof (induction xs)
  case (Cons y ys)
  have "\<exists>p\<in>set ys. eq x p" if "eq x y" "z \<in> set ys" "eq y z" for z
    using that assms(1,3) Cons.prems unfolding equivalence_on_def by (meson list.set_intros subset_iff)
  with Cons show ?case by (auto simp: list_ex_iff)
qed simp

lemma firsts_represent:
  assumes "equivalence_on U eq" and "set xs \<subseteq> U" and "x \<in> U"
  shows "(\<exists>p\<in>set (firsts eq xs). eq x p) \<longleftrightarrow> (\<exists>p\<in>set xs. eq x p)"
  using lasts_represent [OF assms(1), of "rev xs"] assms(2,3) by (simp add: firsts_def)

text \<open>A map whose keys are equivalent to the keys of its values, and that holds the members of \<open>out\<close>.\<close>

definition holds :: "('k \<Rightarrow> 'k \<Rightarrow> bool) \<Rightarrow> ('a \<Rightarrow> 'k) \<Rightarrow> 'a set \<Rightarrow> ('k \<times> 'a) list \<Rightarrow> 'a list \<Rightarrow> bool" where
  "holds lt key U m out \<longleftrightarrow> fst ` set m \<subseteq> key ` U
     \<and> (\<forall>e\<in>U. \<forall>p. map_find lt (key e) m = Some p \<longleftrightarrow> p \<in> set out \<and> equivalent lt (key e) (key p))"

lemma equivalent_cong:
  assumes "equivalence_on K (equivalent lt)" and "k \<in> K" "k' \<in> K" "j \<in> K"
  shows "equivalent lt k k' \<Longrightarrow> equivalent lt k j = equivalent lt k' j"
    and "equivalent lt k' j \<Longrightarrow> equivalent lt k j = equivalent lt k k'"
  using assms unfolding equivalence_on_def by blast+

lemma map_find_cong:
  assumes "equivalence_on K (equivalent lt)" and "fst ` set m \<subseteq> K" and "k \<in> K" "k' \<in> K" and "equivalent lt k k'"
  shows "map_find lt k m = map_find lt k' m"
  using assms(2)
proof (induction m)
  case (Cons x m)
  with equivalent_cong(1) [OF assms(1,3,4) _ assms(5), of "fst x"] show ?case
    by (auto simp: map_find_def split: prod.splits)
qed (simp add: map_find_def)

lemma map_find_replace:
  assumes "equivalence_on K (equivalent lt)" and "fst ` set m \<subseteq> K" and "k \<in> K" "k' \<in> K"
  shows "map_find lt k (map (\<lambda>(j, w). if equivalent lt k' j then (j, v) else (j, w)) m)
    = map_option (\<lambda>w. if equivalent lt k k' then v else w) (map_find lt k m)"
  using assms(2)
proof (induction m)
  case (Cons x m)
  have x: "fst x \<in> K" using Cons.prems by simp
  note c = equivalent_cong [OF assms(1,3,4) x]
  show ?case using Cons c
    by (cases "equivalent lt k' (fst x)"; cases "equivalent lt k k'") (auto simp: map_find_def split: prod.splits)
qed (simp add: map_find_def)

lemma map_find_append:
  "map_find lt k (m @ [(k', v)]) =
     (case map_find lt k m of Some w \<Rightarrow> Some w | None \<Rightarrow> if equivalent lt k k' then Some v else None)"
  by (induction m) (auto simp: map_find_def)

lemma map_find_set:
  assumes "equivalence_on K (equivalent lt)" and "fst ` set m \<subseteq> K" and "k \<in> K" "k' \<in> K"
  shows "map_find lt k (map_set lt k' v m) = (if equivalent lt k k' then Some v else map_find lt k m)"
  using map_find_cong [OF assms] map_find_replace [OF assms, of v]
  by (auto simp: map_set_def map_find_append split: option.split)

lemma map_set_keys: "fst ` set (map_set lt k v m) \<subseteq> insert k (fst ` set m)"
  by (auto simp: map_set_def image_image image_iff split: if_splits prod.splits) force+

text \<open>Putting \<open>x\<close> into the map, with \<open>out\<close> losing the members equivalent to \<open>x\<close>.\<close>

lemma holds_set:
  assumes eq: "equivalence_on (key ` U) (equivalent lt)" and h: "holds lt key U m out"
    and "x \<in> U" and "set out \<subseteq> U"
  shows "holds lt key U (map_set lt (key x) x m) (filter (\<lambda>y. \<not> equivalent lt (key y) (key x)) out @ [x])"
proof -
  have m: "fst ` set m \<subseteq> key ` U" using h by (simp add: holds_def)
  have "map_find lt (key e) (map_set lt (key x) x m) = Some p \<longleftrightarrow>
      p \<in> set (filter (\<lambda>y. \<not> equivalent lt (key y) (key x)) out @ [x]) \<and> equivalent lt (key e) (key p)"
    if "e \<in> U" for e p
  proof (cases "p \<in> U")
    case True
    have "map_find lt (key e) m = Some p \<longleftrightarrow> p \<in> set out \<and> equivalent lt (key e) (key p)"
      using h that by (simp add: holds_def)
    moreover have "equivalent lt (key e) (key p) \<Longrightarrow> equivalent lt (key e) (key x) = equivalent lt (key p) (key x)"
      using equivalent_cong(1) [OF eq, of "key e" "key p" "key x"] True that assms(3) by blast
    moreover have "map_find lt (key e) (map_set lt (key x) x m) =
        (if equivalent lt (key e) (key x) then Some x else map_find lt (key e) m)"
      using that assms(3) by (intro map_find_set [OF eq m]) auto
    ultimately show ?thesis by (cases "equivalent lt (key e) (key x)") auto
  next
    case False
    then show ?thesis using h that assms(3,4) map_find_set [OF eq m, of "key e" "key x" x] by (auto simp: holds_def)
  qed
  moreover have "fst ` set (map_set lt (key x) x m) \<subseteq> key ` U"
    using map_set_keys [of lt "key x" x m] m assms(3) by blast
  ultimately show ?thesis by (simp add: holds_def)
qed

lemma holds_None:
  assumes "holds lt key U m out" and "x \<in> U" and "map_find lt (key x) m = None"
  shows "filter (\<lambda>y. \<not> equivalent lt (key y) (key x)) out = out"
proof -
  have "map_find lt (key x) m = Some y \<longleftrightarrow> y \<in> set out \<and> equivalent lt (key x) (key y)" for y
    using assms(1,2) by (simp add: holds_def)
  with assms(3) show ?thesis by (auto simp: filter_id_conv equivalent_def)
qed

lemma holds_Some:
  assumes "holds lt key U m out" and "x \<in> U" and "map_find lt (key x) m = Some old"
  shows "filter (\<lambda>y. \<not> equivalent lt (key y) (key x)) out = removeAll old out"
proof -
  have "map_find lt (key x) m = Some y \<longleftrightarrow> y \<in> set out \<and> equivalent lt (key x) (key y)" for y
    using assms(1,2) by (simp add: holds_def)
  with assms(3) have "equivalent lt (key y) (key x) \<longleftrightarrow> y = old" if "y \<in> set out" for y
    using that by (metis equivalent_def option.inject)
  then show ?thesis by (auto simp: removeAll_filter_not_eq intro: filter_cong)
qed

text \<open>Which members the loop keeps of those it has met.\<close>

definition kept :: "bool \<Rightarrow> ('a \<Rightarrow> 'a \<Rightarrow> bool) \<Rightarrow> 'a list \<Rightarrow> 'a list" where
  "kept keep_last eq xs = (if keep_last then lasts eq xs else firsts eq xs)"

lemma kept_subset: "set (kept keep_last eq xs) \<subseteq> set xs"
  by (simp add: kept_def lasts_subset firsts_subset)

lemma kept_represent:
  "equivalence_on U eq \<Longrightarrow> set xs \<subseteq> U \<Longrightarrow> x \<in> U \<Longrightarrow>
    (\<exists>p\<in>set (kept keep_last eq xs). eq x p) \<longleftrightarrow> (\<exists>p\<in>set xs. eq x p)"
  by (simp add: kept_def lasts_represent firsts_represent)

lemma kept_snoc_new:
  assumes "\<not> list_ex (eq x) xs" and "filter (\<lambda>y. \<not> eq y x) (kept keep_last eq xs) = kept keep_last eq xs"
  shows "kept keep_last eq (xs @ [x]) = kept keep_last eq xs @ [x]"
  using assms by (simp add: kept_def lasts_snoc firsts_snoc split: if_splits)

lemma equivalence_on_key:
  "equivalence_on (key ` U) (equivalent lt) \<Longrightarrow> equivalence_on U (\<lambda>x y. equivalent lt (key x) (key y))"
  unfolding equivalence_on_def by blast

lemma uniq_loop_kept:
  fixes key :: "ptr \<Rightarrow> 'k"
  assumes eq: "equivalence_on (key ` U) (equivalent lt)" and "set (ps @ xs) \<subseteq> U"
    and "holds lt key U m (kept keep_last (\<lambda>x y. equivalent lt (key x) (key y)) ps)"
  shows "uniq_loop lt key keep_last xs m (kept keep_last (\<lambda>x y. equivalent lt (key x) (key y)) ps)
    = kept keep_last (\<lambda>x y. equivalent lt (key x) (key y)) (ps @ xs)"
  using assms(2,3)
proof (induction xs arbitrary: ps m)
  case (Cons x xs)
  let ?eq = "\<lambda>x y. equivalent lt (key x) (key y)"
  let ?k = "kept keep_last ?eq"
  have U: "x \<in> U" "set ps \<subseteq> U" "set (?k ps) \<subseteq> U" using Cons.prems(1) kept_subset [of keep_last ?eq ps] by auto
  have rep: "(\<exists>p\<in>set (?k ps). ?eq x p) \<longleftrightarrow> list_ex (?eq x) ps"
    using kept_represent [OF equivalence_on_key [OF eq] U(2,1)] by (simp add: list_ex_iff)
  note step = Cons.IH [of "ps @ [x]"]
  note put = holds_set [OF eq Cons.prems(2) U(1,3)]
  show ?case
  proof (cases "map_find lt (key x) m")
    case None
    note f = holds_None [OF Cons.prems(2) U(1) None]
    have "\<not> list_ex (?eq x) ps" using Cons.prems(2) None U(1) unfolding rep [symmetric] by (auto simp: holds_def)
    then have "?k (ps @ [x]) = ?k ps @ [x]" using f by (rule kept_snoc_new)
    with None put f step [of "map_set lt (key x) x m"] Cons.prems(1) show ?thesis by simp
  next
    case (Some old)
    have ex: "list_ex (?eq x) ps" using Cons.prems(2) Some U(1) unfolding rep [symmetric] by (auto simp: holds_def)
    note f = holds_Some [OF Cons.prems(2) U(1) Some]
    show ?thesis
    proof (cases keep_last)
      case True
      then have "?k (ps @ [x]) = removeAll old (?k ps) @ [x]" using f by (simp add: kept_def lasts_snoc)
      with True Some put f step [of "map_set lt (key x) x m"] Cons.prems(1) show ?thesis by simp
    next
      case False
      then have "?k (ps @ [x]) = ?k ps" using ex by (simp add: kept_def firsts_snoc)
      with False Some step [of m] Cons.prems show ?thesis by simp
    qed
  qed
qed simp

lemma only_loop_uniq:
  "length m = length keys \<Longrightarrow> map fst m = keys \<Longrightarrow> only_loop lt key src keys out = uniq_loop lt key False src m out"
proof (induction src arbitrary: keys m out)
  case (Cons x src)
  have "list_ex (equivalent lt (key x)) keys \<longleftrightarrow> map_find lt (key x) m \<noteq> None"
    unfolding Cons.prems(2) [symmetric] by (auto simp: map_find_def list_ex_iff find_None_iff case_prod_beta) force
  with Cons show ?case by (auto simp: map_set_def)
qed simp

lemma weak_order_asym:
  "weak_order_on lt ks \<Longrightarrow> a \<in> set ks \<Longrightarrow> b \<in> set ks \<Longrightarrow> lt a b \<Longrightarrow> \<not> lt b a"
  unfolding weak_order_on_def list_all_iff by blast

text \<open>Profiles whose type and address are ordered one way by the one and the other way by the other
  are each before the other.\<close>

lemma crossed_not_weak_order:
  assumes "p \<in> set ents" "q \<in> set ents"
    and "e_type (h p) < e_type (h q)" and "e_serverAddress (h q) < e_serverAddress (h p)"
  shows "\<not> weak_order_on (key_less hsh h) (map (ProfileFilter_ent_key h by_address) ents)"
proof
  let ?k = "ProfileFilter_ent_key h by_address"
  assume w: "weak_order_on (key_less hsh h) (map ?k ents)"
  have "key_less hsh h (?k p) (?k q)" "key_less hsh h (?k q) (?k p)"
    using assms(3,4) by (simp_all add: key_less_def ProfileFilter_ent_key_def Let_def)
  with weak_order_asym [OF w, of "?k p" "?k q"] assms(1,2) show False by simp
qed

lemma address_key_distinguishes:
  assumes "e_type (h p) \<noteq> ''custom''" "e_type (h q) \<noteq> ''custom''"
    and "(word_of_int (e_id (h p)) :: int32) \<noteq> word_of_int (e_id (h q))"
  shows "\<not> equivalent (key_less hsh h) (ProfileFilter_ent_key h True p) (ProfileFilter_ent_key h True q)"
  using assms entity_compare_zero [of hsh "h p" "h q"] entity_compare_swap [of hsh "h p" "h q"]
  by (auto simp: equivalent_def key_less_def ProfileFilter_ent_key_def Let_def)

lemma lasts_distinct: "distinct xs \<Longrightarrow> (\<And>x y. x \<in> set xs \<Longrightarrow> y \<in> set xs \<Longrightarrow> eq x y \<Longrightarrow> x = y) \<Longrightarrow> lasts eq xs = xs"
  by (induction xs) (auto simp: list_ex_iff)

lemma uniq_kept:
  assumes "weak_order_on (key_less hsh h) (map (ProfileFilter_ent_key h by_address) ents)"
  shows "Uniq hsh h by_address keep_last ents [] =
    Some ((if keep_last then lasts else firsts)
      (\<lambda>x y. equivalent (key_less hsh h) (ProfileFilter_ent_key h by_address x) (ProfileFilter_ent_key h by_address y)) ents)"
proof -
  let ?key = "ProfileFilter_ent_key h by_address"
  have eq: "equivalence_on (?key ` set ents) (equivalent (key_less hsh h))"
    using equivalent_equivalence [OF assms] by simp
  have "uniq_loop (key_less hsh h) ?key keep_last ents [] (kept keep_last (\<lambda>x y. equivalent (key_less hsh h) (?key x) (?key y)) [])
      = kept keep_last (\<lambda>x y. equivalent (key_less hsh h) (?key x) (?key y)) ([] @ ents)"
    by (rule uniq_loop_kept [OF eq]) (simp_all add: holds_def map_find_def kept_def firsts_def)
  with assms show ?thesis by (cases keep_last) (simp_all add: Uniq_def kept_def firsts_def)
qed

section \<open>Properties\<close>

text \<open>C6. Where the order of the keys is one the map may be used with, \<open>Uniq\<close> computes the reference:
  the first (or, with \<open>keep_last\<close>, the last) profile of each class of equivalent profiles, in
  the order of the list.\<close>

theorem uniq_keeps_one_of_each:
  assumes "weak_order_on (key_less hsh h) (map (ProfileFilter_ent_key h by_address) ents)"
  shows "Uniq hsh h by_address keep_last ents [] =
    Some ((if keep_last then lasts else firsts)
      (\<lambda>x y. equivalent (key_less hsh h) (ProfileFilter_ent_key h by_address x) (ProfileFilter_ent_key h by_address y)) ents)"
  using assms by (rule uniq_kept)

definition sample_heap :: heap where
  "sample_heap p = (NewProxyEntity ''vmess'')\<lparr>e_id := int p, e_serverPort := if p = 1 then 80 else 443\<rparr>"

lemma sample_keys [simp]:
  "key_less hsh sample_heap (ProfileFilter_ent_key sample_heap False p) (ProfileFilter_ent_key sample_heap False q)
     \<longleftrightarrow> p = 1 \<and> q \<noteq> 1"
  by (simp add: key_less_def ProfileFilter_ent_key_def sample_heap_def NewProxyEntity_def)

theorem uniq_keeps_one_of_each_witness:
  "Uniq (\<lambda>_. []) sample_heap False True [0, 1, 2] [] = Some [1, 2] \<and> Uniq (\<lambda>_. []) sample_heap False False [0, 1, 2] [] = Some [0, 1]"
  using uniq_keeps_one_of_each [of "\<lambda>_. []" sample_heap False "[0, 1, 2]" True]
    uniq_keeps_one_of_each [of "\<lambda>_. []" sample_heap False "[0, 1, 2]" False]
  by (simp add: weak_order_on_def firsts_def equivalent_def)

text \<open>C38. The order of the keys is not lexicographic: two profiles of which one has the smaller type
  and the other the smaller address are each before the other, and with two such profiles in the
  list the map is used outside its contract, whatever the rest of the list is.\<close>

theorem uniq_undefined_on_crossed:
  assumes "p \<in> set ents" "q \<in> set ents"
    and "e_type (h p) < e_type (h q)" and "e_serverAddress (h q) < e_serverAddress (h p)"
  shows "Uniq hsh h by_address keep_last ents out = None \<and> OnlyInSrc hsh h by_address ents dst out = None"
  using crossed_not_weak_order [OF assms] by (simp add: Uniq_def OnlyInSrc_def Let_def)

definition crossed_heap :: heap where
  "crossed_heap p = (NewProxyEntity (if p = 0 then ''ssh'' else ''vmess''))\<lparr>e_serverAddress := if p = 0 then ''b.org'' else ''a.org''\<rparr>"

theorem uniq_undefined_on_crossed_witness:
  "Uniq (\<lambda>_. []) crossed_heap False True [0, 1] [] = None"
proof -
  have "e_type (crossed_heap 0) < e_type (crossed_heap 1)" "e_serverAddress (crossed_heap 1) < e_serverAddress (crossed_heap 0)"
    by (simp_all add: crossed_heap_def NewProxyEntity_def)
  then show ?thesis using uniq_undefined_on_crossed [of 0 "[0, 1]" 1 crossed_heap "\<lambda>_. []" False True "[]" "[]"] by simp
qed

text \<open>Asked to remove duplicates by address, \<open>Uniq\<close> removes nothing: the key compares every
  stored item of the profiles, their identifiers among them, so profiles with different
  identifiers are never equivalent (profiles of type \<open>custom\<close> aside).\<close>

theorem uniq_by_address_keeps_all:
  assumes "weak_order_on (key_less hsh h) (map (ProfileFilter_ent_key h True) ents)"
    and "list_all (\<lambda>p. e_type (h p) \<noteq> ''custom'') ents"
    and "distinct (map (\<lambda>p. word_of_int (e_id (h p)) :: int32) ents)"
  shows "Uniq hsh h True keep_last ents [] = Some ents"
proof -
  let ?eq = "\<lambda>x y. equivalent (key_less hsh h) (ProfileFilter_ent_key h True x) (ProfileFilter_ent_key h True y)"
  have one: "x = y" if "x \<in> set ents" "y \<in> set ents" "?eq x y" for x y
    using address_key_distinguishes [of h x y hsh] that assms(2,3) by (auto simp: list_all_iff distinct_map inj_on_def)
  have "lasts ?eq ents = ents" "lasts ?eq (rev ents) = rev ents"
    using assms(3) one by (auto intro!: lasts_distinct simp: distinct_map)
  with uniq_kept [OF assms(1), of keep_last] show ?thesis by (simp add: firsts_def)
qed

definition two_ports :: heap where
  "two_ports p = (NewProxyEntity ''vmess'')\<lparr>e_id := int p, e_serverPort := 80 + int p\<rparr>"

lemma two_ports_compare:
  "entity_compare (\<lambda>_. []) (two_ports 0) (two_ports 1) = -1" "entity_compare (\<lambda>_. []) (two_ports 0) (two_ports 0) = 0"
  "entity_compare (\<lambda>_. []) (two_ports 1) (two_ports 1) = 0"
  by code_simp+

theorem uniq_by_address_keeps_all_witness:
  "Uniq (\<lambda>_. []) two_ports True False [0, 1] [] = Some [0, 1]"
proof -
  have "entity_compare (\<lambda>_. []) (two_ports 1) (two_ports 0) = 1"
    using entity_compare_swap [of "\<lambda>_. []" "two_ports 1" "two_ports 0"] by (simp add: two_ports_compare [unfolded One_nat_def])
  then have "weak_order_on (key_less (\<lambda>_. []) two_ports) (map (ProfileFilter_ent_key two_ports True) [0, 1])"
    by (simp add: weak_order_on_def key_less_def ProfileFilter_ent_key_def two_ports_compare [unfolded One_nat_def])
      (simp add: two_ports_def NewProxyEntity_def)
  then show ?thesis using uniq_by_address_keeps_all [of "\<lambda>_. []" two_ports "[0, 1]" False]
    by (simp add: two_ports_def NewProxyEntity_def)
qed

text \<open>\<open>OnlyInSrc\<close> never looks at its second list: it is \<open>Uniq\<close>, the first of each class of the
  first list, also when every profile of it is in the second.\<close>

theorem only_in_src_ignores_dst:
  "OnlyInSrc hsh h by_address src dst [] = Uniq hsh h by_address False src []
   \<and> OnlyInSrc_ByIds h src dst out = OnlyInSrc_ByIds h src [] out"
  using only_loop_uniq [of "[]" "[]" "key_less hsh h" "ProfileFilter_ent_key h by_address" src "[]"]
  by (simp add: OnlyInSrc_def Uniq_def OnlyInSrc_ByIds_def Let_def)

end
