(* ===== verification/Config_Json.thy ===== *)
theory Config_Json
  imports Route_Rule Config_Item
begin

text \<open>
  The JSON helpers of the configuration builder (\<^verbatim>\<open>src/gharqad/configs/ConfigBuilder.cpp\<close>):
  merging a custom object, the objects of DNS servers and rule sets, the settings of the TUN
  interface, and the changes made to a full configuration before it is started. The settings the
  builder reads are one record; addresses are recognised and resolved by the functions of
  \<open>net\<close>, and URLs are taken apart by those of \<open>url_parts\<close>, which stand for the
  system's resolver and for \<open>QUrl\<close>.
\<close>

section \<open>Settings\<close>

record routing_settings =
  o_remote_dns :: string
  o_direct_dns :: string
  o_use_dns_object :: bool
  o_dns_object :: jobject
  o_dns_final_out_direct :: bool
  o_domain_strategy :: string
  o_outbound_domain_strategy :: string
  o_sniffing_mode :: int
  o_ruleset_mirror :: int
  o_current_route_id :: int
  o_game_mod_enabled_services :: "string list"
  o_game_mod_service_profiles :: jobject
  o_tun_proxy :: "string list"
  o_tun_direct :: "string list"
  o_tun_block :: "string list"

record inbound_settings =
  o_inbound_address :: string
  o_inbound_socks_port :: int
  o_inbound_proxy_type :: int
  o_inbound_username :: string
  o_inbound_password :: string
  o_custom_inbound :: jobject
  o_spmode_vpn :: bool
  o_spmode_packet_filter :: bool
  o_spmode_system_proxy :: bool
  o_tun_address :: string
  o_tun_address_6 :: string
  o_tun_name :: string
  o_vpn_mtu :: int
  o_vpn_implementation :: string
  o_vpn_strict_route :: bool
  o_vpn_ipv6 :: bool
  o_route_exclude_addrs :: "string list"
  o_enable_tun_routing :: bool

record core_settings =
  o_log_level :: string
  o_use_mozilla_certs :: bool
  o_mux_protocol :: string
  o_mux_padding :: bool
  o_mux_concurrency :: int
  o_mux_default_on :: bool
  o_connection_statistics :: bool
  o_adblock_enable :: bool
  o_fake_dns :: bool
  o_enable_ntp :: bool
  o_ntp_server_address :: string
  o_ntp_server_port :: int
  o_ntp_interval :: string
  o_enable_dns_server :: bool
  o_dns_server_listen_lan :: bool
  o_dns_server_listen_port :: int
  o_dns_v4_resp :: string
  o_dns_v6_resp :: string
  o_dns_server_rules :: "string list"
  o_enable_redirect :: bool
  o_redirect_listen_address :: string
  o_redirect_listen_port :: int
  o_core_box_clash_api :: int
  o_core_box_clash_listen_addr :: string
  o_core_box_clash_api_secret :: string
  o_core_box_underlying_dns :: string

record settings =
  o_routing :: routing_settings
  o_in :: inbound_settings
  o_core :: core_settings

text \<open>The settings of a fresh installation: \<open>AsIs\<close> is no strategy of the list and is cleared at once.\<close>

definition default_routing :: routing_settings where
  "default_routing =
     \<lparr> o_remote_dns = ''tls://8.8.8.8'', o_direct_dns = ''localhost'', o_use_dns_object = False, o_dns_object = [],
       o_dns_final_out_direct = False, o_domain_strategy = '''', o_outbound_domain_strategy = '''',
       o_sniffing_mode = 1, o_ruleset_mirror = 1, o_current_route_id = 1, o_game_mod_enabled_services = [],
       o_game_mod_service_profiles = [], o_tun_proxy = [], o_tun_direct = [], o_tun_block = [] \<rparr>"

definition default_inbound :: inbound_settings where
  "default_inbound =
     \<lparr> o_inbound_address = ''127.0.0.1'', o_inbound_socks_port = 2080, o_inbound_proxy_type = 0, o_inbound_username = '''',
       o_inbound_password = '''', o_custom_inbound = [(''inbounds'', QArr [])], o_spmode_vpn = False,
       o_spmode_packet_filter = False, o_spmode_system_proxy = False, o_tun_address = ''172.19.0.1/24'',
       o_tun_address_6 = ''fdfe:dcba:9876::1/96'', o_tun_name = ''Neko TUN'', o_vpn_mtu = 1500,
       o_vpn_implementation = ''gvisor'', o_vpn_strict_route = True, o_vpn_ipv6 = False,
       o_route_exclude_addrs = [''127.0.0.0/8'', ''10.0.0.0/8'', ''172.16.0.0/12'', ''192.168.0.0/16'', ''169.254.0.0/16'',
         ''224.0.0.0/4'', ''255.255.255.255/32''], o_enable_tun_routing = False \<rparr>"

definition default_core :: core_settings where
  "default_core =
     \<lparr> o_log_level = ''info'', o_use_mozilla_certs = False, o_mux_protocol = ''smux'', o_mux_padding = False,
       o_mux_concurrency = 8, o_mux_default_on = False, o_connection_statistics = True, o_adblock_enable = False,
       o_fake_dns = False, o_enable_ntp = False, o_ntp_server_address = '''', o_ntp_server_port = 0, o_ntp_interval = '''',
       o_enable_dns_server = False, o_dns_server_listen_lan = False, o_dns_server_listen_port = 53,
       o_dns_v4_resp = ''127.0.0.1'', o_dns_v6_resp = ''::1'', o_dns_server_rules = [], o_enable_redirect = False,
       o_redirect_listen_address = ''127.0.0.1'', o_redirect_listen_port = 443, o_core_box_clash_api = -9090,
       o_core_box_clash_listen_addr = ''127.0.0.1'', o_core_box_clash_api_secret = '''', o_core_box_underlying_dns = '''' \<rparr>"

definition default_settings :: settings where
  "default_settings = \<lparr> o_routing = default_routing, o_in = default_inbound, o_core = default_core \<rparr>"

section \<open>Objects\<close>

text \<open>The braces of \<open>QJsonObject\<close>, reading a key of an object that is not constant (which
  creates the key), and removing a key.\<close>

definition qobj :: "(string \<times> json) list \<Rightarrow> jobject" where
  "qobj kvs = foldl (\<lambda>obj (k, v). qset k v obj) [] kvs"

definition qref :: "string \<Rightarrow> jobject \<Rightarrow> jobject" where
  "qref k obj = (if map_of obj k = None then qset k QNull obj else obj)"

definition qremove :: "string \<Rightarrow> jobject \<Rightarrow> jobject" where
  "qremove k obj = filter (\<lambda>(k', _). k' \<noteq> k) obj"

definition strs :: "string list \<Rightarrow> json" where
  "strs xs = QArr (map QStr xs)"

definition text_at :: "jobject \<Rightarrow> string \<Rightarrow> string" where
  "text_at obj k = json_toString (qat obj k)"

definition replace_all :: "string \<Rightarrow> string \<Rightarrow> string \<Rightarrow> string" where
  "replace_all pat rep s = join_str rep (split_str pat s)"

definition last_index :: "'a \<Rightarrow> 'a list \<Rightarrow> nat option" where
  "last_index c s = map_option (\<lambda>j. length s - 1 - j) (index_of c (rev s))"

text \<open>\<open>MergeJson\<close>: the keys of \<open>custom\<close> in their order; two objects under one key
  are merged, anything else replaces.\<close>

function MergeJson :: "jobject \<Rightarrow> jobject \<Rightarrow> jobject" where
  "MergeJson [] outbound = outbound"
| "MergeJson ((key, v) # kvs) outbound =
     MergeJson kvs
       (qset key (case v of
                    QObj vo \<Rightarrow> (case map_of outbound key of
                                  Some (QObj vo_orig) \<Rightarrow> QObj (MergeJson vo vo_orig)
                                | _ \<Rightarrow> v)
                  | _ \<Rightarrow> v) outbound)"
  by pat_completeness auto
termination
  by (relation "measure (\<lambda>(kvs, _). size_list (size_prod (\<lambda>_. 0) size) kvs)") auto

section \<open>Servers and rule sets\<close>

text \<open>The port of a DNS address is looked for behind the last \<open>;\<close>.\<close>

definition dns_split :: "string \<Rightarrow> string \<times> string \<times> string" where
  "dns_split address =
     (let with_path = (\<lambda>addr. if CHR ''/'' \<in> set addr
                              then (takeWhile (\<lambda>c. c \<noteq> CHR ''/'') addr, last (split_str ''/'' addr)) else (addr, ''''))
      in if prefix ''tcp://'' address then (''tcp'', replace_all ''tcp://'' '''' address, '''')
         else if prefix ''tls://'' address then (''tls'', replace_all ''tls://'' '''' address, '''')
         else if prefix ''udp://'' address then (''udp'', replace_all ''udp://'' '''' address, '''')
         else if prefix ''quic://'' address then (''quic'', replace_all ''quic://'' '''' address, '''')
         else if prefix ''https://'' address then (''https'', with_path (replace_all ''https://'' '''' address))
         else if prefix ''h3://'' address then (''h3'', with_path (replace_all ''h3://'' '''' address))
         else (''udp'', address, ''''))"

definition dns_port :: "string \<Rightarrow> string \<times> int" where
  "dns_port addr =
     (case last_index (CHR '';'') addr of
        None \<Rightarrow> (addr, -1)
      | Some colon_index \<Rightarrow>
          if Suc colon_index < length addr
          then (case toInt_ok (drop (Suc colon_index) addr) of
                  None \<Rightarrow> (addr, -1) | Some parsed_port \<Rightarrow> (take colon_index addr, parsed_port))
          else (addr, -1))"

definition BuildDnsObject :: "string \<Rightarrow> bool \<Rightarrow> jobject" where
  "BuildDnsObject address tunEnabled =
     (if prefix ''local'' address then qobj [(''type'', QStr ''local'')]
      else if prefix ''dhcp://'' address
      then (let ifcName = replace_all ''dhcp://'' '''' address
            in qobj [(''type'', QStr ''dhcp''), (''interface'', QStr (if ifcName = ''auto'' then '''' else ifcName))])
      else (let (t, addr, path) = dns_split address; (addr, port) = dns_port addr;
                res = qobj [(''type'', QStr t), (''server'', QStr addr)];
                res = qset_if (port \<noteq> -1) ''server_port'' (QNum port) res
            in qset_if (path \<noteq> '''') ''path'' (QStr path) res))"

record url_parts =
  u_url :: qurl
  u_toString :: "string \<Rightarrow> string"
  u_host :: "string \<Rightarrow> string"
  u_path :: "string \<Rightarrow> string"

definition mirror_host :: "int \<Rightarrow> string" where
  "mirror_host m =
     (if m = 2 then ''https://gcore.jsdelivr.net/gh'' else if m = 3 then ''https://quantil.jsdelivr.net/gh''
      else if m = 4 then ''https://fastly.jsdelivr.net/gh'' else if m = 5 then ''https://cdn.jsdelivr.net/gh''
      else ''https://testingcf.jsdelivr.net/gh'')"

fun jsdelivr_path :: "nat \<Rightarrow> string list \<Rightarrow> string" where
  "jsdelivr_path index [] = ''''"
| "jsdelivr_path index (item # items) =
     (if item = '''' then jsdelivr_path index items
      else (if index = 2 then ''@'' else ''/'') @ item @ jsdelivr_path (Suc index) items)"

definition get_jsdelivr_link_cpp :: "url_parts \<Rightarrow> int \<Rightarrow> string \<Rightarrow> string" where
  "get_jsdelivr_link_cpp u mirror link =
     (if mirror = 0 then link
      else if url_isValid (u_url u) link \<and> u_host u link = ''raw.githubusercontent.com''
      then mirror_host mirror @ jsdelivr_path 0 (split_str ''/'' (u_path u link))
      else link)"

definition rule_set_remote :: "url_parts \<Rightarrow> int \<Rightarrow> string option \<Rightarrow> string \<Rightarrow> jobject option" where
  "rule_set_remote u mirror tag url =
     (let filename = url_fileName (u_url u) url; binary = suffix ''.srs'' filename; json = suffix ''.json'' filename
      in if url_isValid (u_url u) url \<and> (binary \<or> json)
         then Some (qobj [(''type'', QStr ''remote''), (''format'', QStr (if binary then ''binary'' else ''source'')),
                (''tag'', QStr (case tag of Some t \<Rightarrow> t | None \<Rightarrow> get_rule_set_name_1 (u_url u) url)),
                (''url'', QStr (get_jsdelivr_link_cpp u mirror (u_toString u url)))])
         else None)"

text \<open>The jump back happens at most once: a name of the list of rule sets stands for its URL.\<close>

definition get_rule_set_json :: "url_parts \<Rightarrow> (string \<Rightarrow> string option) \<Rightarrow> int \<Rightarrow> string \<Rightarrow> jobject" where
  "get_rule_set_json u ruleSetMap mirror ruleSet =
     (let again = (\<lambda>strUrl. case rule_set_remote u mirror (Some ruleSet) strUrl of Some j \<Rightarrow> j | None \<Rightarrow> [])
      in case rule_set_remote u mirror None ruleSet of
           Some j \<Rightarrow> j
         | None \<Rightarrow>
             (case ruleSetMap ruleSet of
                Some strUrl \<Rightarrow> again strUrl
              | None \<Rightarrow>
                  if ruleSet = ''nekobox-adblocksingbox''
                  then again ''https://raw.githubusercontent.com/217heidai/adblockfilters/main/rules/adblocksingbox.srs''
                  else []))"

definition AppendMissingRuleSet :: "jobject \<Rightarrow> jobject \<Rightarrow> jobject" where
  "AppendMissingRuleSet route ruleSet =
     (if ruleSet = [] then route
      else (let route = qref ''rule_set'' route; ruleSets = json_toArray (qat route ''rule_set''); tag = text_at ruleSet ''tag''
            in if tag \<noteq> '''' \<and> list_ex (\<lambda>e. text_at (json_toObject e) ''tag'' = tag) ruleSets then route
               else qset ''rule_set'' (QArr (ruleSets @ [QObj ruleSet])) route))"

section \<open>The TUN interface\<close>

definition getTunAddress :: "settings \<Rightarrow> string" where
  "getTunAddress c = (if o_tun_address (o_in c) = '''' then ''172.19.0.1/24'' else o_tun_address (o_in c))"

definition getTunAddress6 :: "settings \<Rightarrow> string" where
  "getTunAddress6 c = (if o_tun_address_6 (o_in c) = '''' then ''fdfe:dcba:9876::1/96'' else o_tun_address_6 (o_in c))"

text \<open>Blanks become underscores everywhere but on Windows.\<close>

definition getTunName :: "bool \<Rightarrow> settings \<Rightarrow> string" where
  "getTunName windows c =
     (let name = trimmed (o_tun_name (o_in c)); name = (if name = '''' then ''Neko TUN'' else name);
          name = (if windows then name else map (\<lambda>ch. if ch = CHR '' '' then CHR ''_'' else ch) name)
      in take 15 name)"

record net =
  n_is_ip4 :: "string \<Rightarrow> bool"
  n_is_ip6 :: "string \<Rightarrow> bool"
  n_getaddrinfo :: "string \<Rightarrow> string"

definition IsIpAddress :: "net \<Rightarrow> string \<Rightarrow> bool" where
  "IsIpAddress n s \<longleftrightarrow> n_is_ip4 n s \<or> n_is_ip6 n s"

definition ResolveDomainForTestConfig :: "net \<Rightarrow> string \<Rightarrow> string" where
  "ResolveDomainForTestConfig n server = (if server = '''' \<or> IsIpAddress n server then '''' else n_getaddrinfo n server)"

definition ToTunRouteExclude :: "net \<Rightarrow> string \<Rightarrow> string" where
  "ToTunRouteExclude n server =
     (if server = '''' then ''''
      else let address = (if IsIpAddress n server then server else ResolveDomainForTestConfig n server)
           in if address = '''' then '''' else if n_is_ip6 n address then address @ ''/128'' else address @ ''/32'')"

fun CollectTunRouteExcludesFromArray :: "net \<Rightarrow> json list \<Rightarrow> string list \<Rightarrow> string list" where
  "CollectTunRouteExcludesFromArray n [] excludes = excludes"
| "CollectTunRouteExcludesFromArray n (v # vs) excludes =
     (let outbound = json_toObject v; t = text_at outbound ''type''; exclude = ToTunRouteExclude n (text_at outbound ''server'')
      in CollectTunRouteExcludesFromArray n vs
           (if t = ''direct'' \<or> t = ''block'' \<or> t = ''dns'' then excludes
            else if exclude \<noteq> '''' \<and> exclude \<notin> set excludes then excludes @ [exclude] else excludes))"

definition CollectTunRouteExcludesForFullConfig :: "net \<Rightarrow> jobject \<Rightarrow> string list" where
  "CollectTunRouteExcludesForFullConfig n config =
     CollectTunRouteExcludesFromArray n (json_toArray (qat config ''endpoints''))
       (CollectTunRouteExcludesFromArray n (json_toArray (qat config ''outbounds'')) [])"

definition TunDnsAddress :: "settings \<Rightarrow> string" where
  "TunDnsAddress c =
     (let parts = split_str ''.'' (takeWhile (\<lambda>ch. ch \<noteq> CHR ''/'') (getTunAddress c))
      in if length parts = 4 then join_str ''.'' (parts[3 := ''2'']) else ''172.19.0.2'')"

definition AddTunRuntimeRules :: "settings \<Rightarrow> jobject \<Rightarrow> string list \<Rightarrow> json list \<Rightarrow> jobject" where
  "AddTunRuntimeRules c config serverExcludes nekoboxRules =
     (let config = qref ''route'' config; route = qref ''rules'' (json_toObject (qat config ''route''));
          rules = json_toArray (qat route ''rules''); tun_in = strs [''tun-in''];
          patchedRules =
            (if serverExcludes \<noteq> []
             then [QObj (qobj [(''action'', QStr ''route''), (''ip_cidr'', QArr (QListStr2QJsonArray serverExcludes)),
                     (''outbound'', QStr ''direct'')])] else [])
            @ [QObj (qobj [(''action'', QStr ''hijack-dns''), (''ip_cidr'', strs [TunDnsAddress c @ ''/32'']),
                 (''port'', QNum 53), (''inbound'', tun_in)]),
               QObj (qobj [(''action'', QStr ''hijack-dns''), (''protocol'', QStr ''dns''), (''inbound'', tun_in)])]
            @ (if o_domain_strategy (o_routing c) \<noteq> ''''
               then [QObj (qobj [(''action'', QStr ''resolve''), (''inbound'', tun_in),
                       (''strategy'', QStr (o_domain_strategy (o_routing c)))])] else [])
            @ [QObj (qobj [(''action'', QStr ''sniff''), (''inbound'', tun_in)])]
            @ rules @ nekoboxRules
      in qset ''route'' (QObj (qset ''rules'' (QArr patchedRules) (qset ''auto_detect_interface'' (QBool True) route))) config)"

section \<open>Full configurations\<close>

definition ResolveOutboundServerForTestConfig :: "net \<Rightarrow> jobject \<Rightarrow> jobject" where
  "ResolveOutboundServerForTestConfig n outbound =
     (let outbound = qref ''server'' outbound; server = text_at outbound ''server''; ip = ResolveDomainForTestConfig n server
      in if ip = '''' then outbound
         else let outbound = qref ''tls'' (qset ''server'' (QStr ip) outbound); tls = json_toObject (qat outbound ''tls'')
              in if tls \<noteq> [] \<and> text_at tls ''server_name'' = ''''
                 then qset ''tls'' (QObj (qset ''server_name'' (QStr server) tls)) outbound else outbound)"

text \<open>One server of the DNS section; \<open>kept\<close> is the number of servers kept so far.\<close>

definition normalize_server :: "net \<Rightarrow> string \<Rightarrow> nat \<Rightarrow> string \<Rightarrow> json \<Rightarrow> json \<times> string" where
  "normalize_server n remoteDnsAddress kept firstDnsTag serverRef =
     (case serverRef of
        QObj server \<Rightarrow>
          (let server = qref ''tag'' server; tag = text_at server ''tag'';
               tag = (if tag = '''' then ''dns-'' @ show_nat kept else tag);
               server = qref ''address'' (qref ''type'' (qremove ''address_resolver'' server))
           in if text_at server ''type'' = ''fakeip'' \<or> text_at server ''address'' = ''fakeip''
              then (QObj (qremove ''detour'' (qremove ''domain_resolver'' (qremove ''address''
                      (qset ''type'' (QStr ''fakeip'') (qset ''tag'' (QStr tag) server))))), firstDnsTag)
              else let server = qset ''detour'' (QStr ''proxy'') (qset ''tag'' (QStr tag) (BuildDnsObject remoteDnsAddress True));
                       server = qref ''server'' server;
                       server = qset_if (\<not> IsIpAddress n (text_at server ''server'')) ''domain_resolver'' (QStr ''dns-local'') server
                   in (QObj server, if firstDnsTag = '''' then tag else firstDnsTag))
      | _ \<Rightarrow> (serverRef, firstDnsTag))"

fun normalize_servers :: "net \<Rightarrow> string \<Rightarrow> json list \<Rightarrow> json list \<Rightarrow> string \<Rightarrow> json list \<times> string" where
  "normalize_servers n remoteDnsAddress [] cleanServers firstDnsTag = (cleanServers, firstDnsTag)"
| "normalize_servers n remoteDnsAddress (s # ss) cleanServers firstDnsTag =
     (let (s', t) = normalize_server n remoteDnsAddress (length cleanServers) firstDnsTag s
      in normalize_servers n remoteDnsAddress ss (cleanServers @ [s']) t)"

definition runtime_remote_dns :: "settings \<Rightarrow> string" where
  "runtime_remote_dns c =
     (let a = o_remote_dns (o_routing c)
      in if a = '''' \<or> prefix ''local'' a \<or> a = ''localhost'' then ''tls://8.8.8.8'' else a)"

definition NormalizeFullConfigDnsForRuntime :: "net \<Rightarrow> settings \<Rightarrow> jobject \<Rightarrow> jobject" where
  "NormalizeFullConfigDnsForRuntime n c config =
     (let config = qref ''dns'' config; dns = qref ''servers'' (json_toObject (qat config ''dns''));
          (cleanServers, firstDnsTag) =
            normalize_servers n (runtime_remote_dns c) (json_toArray (qat dns ''servers'')) [] '''';
          hasLocal = list_ex (\<lambda>s. text_at (json_toObject s) ''tag'' = ''dns-local'') cleanServers;
          cleanServers = (if hasLocal then cleanServers
            else cleanServers @ [QObj (qset ''tag'' (QStr ''dns-local'') (BuildDnsObject ''local'' True))]);
          dns = qset_if (firstDnsTag \<noteq> '''') ''final'' (QStr firstDnsTag) dns;
          config = (if firstDnsTag = '''' then config
            else qset ''route'' (QObj (qset ''default_domain_resolver'' (QObj (qobj [(''server'', QStr firstDnsTag)]))
                    (json_toObject (qat config ''route'')))) config)
      in if cleanServers \<noteq> [] then qset ''dns'' (QObj (qset ''servers'' (QArr cleanServers) dns)) config else config)"

definition has_key :: "jobject \<Rightarrow> string \<Rightarrow> bool" where
  "has_key obj k \<longleftrightarrow> map_of obj k \<noteq> None"

definition NormalizeFullConfigOutboundForRuntime :: "jobject \<Rightarrow> jobject" where
  "NormalizeFullConfigOutboundForRuntime outbound =
     (let outbound = qref ''type'' outbound; t = text_at outbound ''type'';
          hasUp = (has_key outbound ''up'' \<or> has_key outbound ''up_mbps'');
          hasDown = (has_key outbound ''down'' \<or> has_key outbound ''down_mbps'');
          outbound = qset_if (t = ''hysteria'' \<and> \<not> hasUp) ''up_mbps'' (QNum 100) outbound;
          outbound = qset_if (t = ''hysteria'' \<and> \<not> hasDown) ''down_mbps'' (QNum 100) outbound;
          outbound =
            (if t = ''hysteria'' \<or> t = ''hysteria2''
             then (let outbound = qref ''tls'' outbound; tls = json_toObject (qat outbound ''tls'');
                       tls = qset_if (tls = []) ''enabled'' (QBool True) tls; no_name = (text_at tls ''server_name'' = '''');
                       outbound = (if no_name then qref ''server'' outbound else outbound);
                       tls = (if no_name then qset ''server_name'' (QStr (text_at outbound ''server'')) tls else tls)
                   in qset ''tls'' (QObj (qremove ''utls'' tls)) outbound)
             else outbound)
      in if t = ''tuic''
         then (let outbound = qref ''tls'' outbound; tls = json_toObject (qat outbound ''tls'')
               in if tls \<noteq> [] then qset ''tls'' (QObj (qremove ''utls'' tls)) outbound else outbound)
         else outbound)"

definition resolve_runtime_outbound :: "net \<Rightarrow> json \<Rightarrow> json" where
  "resolve_runtime_outbound n outboundRef =
     (let outbound = NormalizeFullConfigOutboundForRuntime (json_toObject outboundRef); t = text_at outbound ''type''
      in QObj (if t \<noteq> ''direct'' \<and> t \<noteq> ''block'' \<and> t \<noteq> ''dns'' then ResolveOutboundServerForTestConfig n outbound
               else outbound))"

definition ResolveFullConfigOutboundServersForRuntime :: "net \<Rightarrow> jobject \<Rightarrow> jobject" where
  "ResolveFullConfigOutboundServersForRuntime n config =
     (let resolveArray = (\<lambda>v. QArr (map (resolve_runtime_outbound n) (json_toArray v)));
          config = qset ''outbounds'' (resolveArray (qat config ''outbounds'')) config
      in if has_key config ''endpoints'' then qset ''endpoints'' (resolveArray (qat config ''endpoints'')) config else config)"

section \<open>Lemmas\<close>

lemma qat_qset [simp]: "qat (qset k v obj) k' = (if k' = k then v else qat obj k')"
  by (simp add: qat_def qset_lookup)

lemma text_at_qset [simp]: "text_at (qset k v obj) k' = (if k' = k then json_toString v else text_at obj k')"
  by (simp add: text_at_def)

lemma qref_lookup: "map_of (qref k obj) k' = (if k' = k \<and> map_of obj k = None then Some QNull else map_of obj k')"
  by (simp add: qref_def qset_lookup)

lemma qat_qref [simp]: "qat (qref k obj) k' = qat obj k'"
  by (auto simp: qat_def qref_lookup)

lemma text_at_qref [simp]: "text_at (qref k obj) k' = text_at obj k'"
  by (simp add: text_at_def)

lemma qremove_lookup: "map_of (qremove k obj) = (map_of obj)(k := None)"
  by (induction obj) (auto simp: qremove_def fun_eq_iff)

lemma qobj_snoc: "qobj (kvs @ [(k, v)]) = qset k v (qobj kvs)"
  by (simp add: qobj_def)

lemma qobj_lookup: "map_of (qobj kvs) k = map_of (rev kvs) k"
  by (induction kvs rule: rev_induct) (auto simp: qobj_snoc qset_lookup, simp add: qobj_def)

lemma qobj_sorted: "qsorted (qobj kvs)"
proof (induction kvs rule: rev_induct)
  case (snoc kv kvs)
  then show ?case by (cases kv) (simp add: qobj_snoc qset_sorted)
qed (simp add: qobj_def qsorted_def)

text \<open>What merging leaves alone, and what it sets.\<close>

lemma MergeJson_other: "k \<notin> fst ` set cust \<Longrightarrow> map_of (MergeJson cust obj) k = map_of obj k"
proof (induction cust arbitrary: obj)
  case (Cons kv cust)
  then show ?case by (cases kv) (simp add: qset_lookup)
qed simp

definition merged :: "json \<Rightarrow> json option \<Rightarrow> json" where
  "merged v old =
     (case v of QObj vo \<Rightarrow> (case old of Some (QObj o') \<Rightarrow> QObj (MergeJson vo o') | _ \<Rightarrow> v) | _ \<Rightarrow> v)"

lemma MergeJson_Cons: "MergeJson ((k, v) # cust) obj = MergeJson cust (qset k (merged v (map_of obj k)) obj)"
  by (simp add: merged_def)

lemma MergeJson_lookup:
  assumes "distinct (map fst cust)"
  shows "map_of (MergeJson cust obj) k =
    (case map_of cust k of None \<Rightarrow> map_of obj k | Some v \<Rightarrow> Some (merged v (map_of obj k)))"
  using assms
proof (induction cust arbitrary: obj)
  case (Cons kv cust)
  obtain k' v where kv: "kv = (k', v)" by (cases kv)
  show ?case
  proof (cases "k = k'")
    case True
    with Cons.prems kv MergeJson_other [of k cust "qset k' (merged v (map_of obj k')) obj"] show ?thesis
      by (simp add: MergeJson_Cons qset_lookup del: MergeJson.simps)
  next
    case False
    with Cons kv show ?thesis by (simp add: MergeJson_Cons qset_lookup del: MergeJson.simps split: option.split)
  qed
qed simp

lemma MergeJson_sorted: "qsorted obj \<Longrightarrow> qsorted (MergeJson cust obj)"
proof (induction cust arbitrary: obj)
  case (Cons kv cust)
  then show ?case by (cases kv) (simp add: MergeJson_Cons qset_sorted del: MergeJson.simps)
qed simp

end
