(* ===== verification/Chain_Builder.thy ===== *)
theory Chain_Builder
  imports Config_Json Proxy_Entity Profile_Group
begin

text \<open>
  Outbounds and proxy chains of the configuration builder (\<open>BuildOutbound\<close>,
  \<open>ResolveChainInternal\<close>, \<open>BuildChainInternal\<close>, \<open>BuildChain\<close> and \<open>IsValid\<close> of
  \<^verbatim>\<open>src/gharqad/configs/ConfigBuilder.cpp\<close>). A chain becomes a list of outbounds, each of which
  dials through the next one (its \<open>detour\<close>); the first one is the one rules and the default
  route name. The object each protocol builds is a field of its bean; a profile is looked up by
  its identifier.
\<close>

section \<open>State\<close>

text \<open>What the builder reads of a bean. \<open>ProxyEntity::bean()\<close> always returns one; the JSON
  texts of the bean are given as the objects they parse to.\<close>

record bean =
  b_outbound :: jobject
  b_error :: string
  b_IsEndpoint :: bool
  b_custom_outbound :: jobject
  b_custom_config :: jobject
  b_mux_state :: int
  b_enable_brutal :: bool
  b_brutal_speed :: int
  b_stream :: "(string \<times> string) option"
  b_list :: "int list"
  b_core :: string
  b_config_simple :: jobject
  b_MTU :: int
  b_transport_packet_junk_size :: int
  b_useSystemInterface :: bool
  b_globalDNS :: bool
  b_extraCorePath :: string
  b_extraCoreArgs :: string
  b_extraCoreConf :: string
  b_noLogs :: bool

text \<open>The counters a profile shares with the traffic loop: what the builder writes of them.\<close>

record traffic_tag =
  tt_id :: int
  tt_tag :: string
  tt_isChainTail :: bool
  tt_ignoreForRate :: bool

datatype stat_ref = Profile_stat int | Direct_stat

record extra_core =
  x_path :: string
  x_args :: string
  x_config :: string
  x_configDir :: string
  x_noLog :: bool

record build_status =
  s_error :: string
  s_coreConfig :: jobject
  s_extraCore :: "extra_core option"
  s_outboundStats :: "stat_ref list"
  s_traffic :: "int \<Rightarrow> traffic_tag"
  s_ent :: "entity option"
  s_chainID :: int
  s_routeID :: int
  s_forTest :: bool
  s_domainListDNSDirect :: "string list"
  s_inbounds :: "json list"
  s_outbounds :: "json list"
  s_endpoints :: "json list"

record build_env =
  v_settings :: settings
  v_net :: net
  v_profile :: "int \<Rightarrow> entity option"
  v_group :: "int \<Rightarrow> group option"
  v_bean :: "entity \<Rightarrow> bean"
  v_IsAdmin :: bool

definition set_traffic :: "int \<Rightarrow> (traffic_tag \<Rightarrow> traffic_tag) \<Rightarrow> build_status \<Rightarrow> build_status" where
  "set_traffic i f s = s\<lparr>s_traffic := (s_traffic s)(i := f (s_traffic s i))\<rparr>"

section \<open>One outbound\<close>

definition needMux :: "build_env \<Rightarrow> entity \<Rightarrow> jobject \<Rightarrow> bool" where
  "needMux v ent outbound =
     (let bean = v_bean v ent; c = o_core (v_settings v);
          m = (e_type ent \<in> {''vmess'', ''trojan'', ''vless'', ''shadowsocks''} \<and> 0 < o_mux_concurrency c);
          m = (case b_stream bean of
                 None \<Rightarrow> m
               | Some (network, security) \<Rightarrow>
                   m \<and> \<not> (network = ''grpc'' \<or> network = ''quic'' \<or> network = ''anytls''
                           \<or> (network = ''http'' \<and> security = ''tls'')));
          m = (if b_mux_state bean = 0 then m \<and> (o_mux_default_on c \<or> b_enable_brutal bean)
               else if b_mux_state bean = 1 then True
               else if b_mux_state bean = 2 then False else m)
      in m \<and> \<not> (e_type ent = ''vless'' \<and> qat outbound ''flow'' \<noteq> QStr ''''))"

definition mux_object :: "core_settings \<Rightarrow> bean \<Rightarrow> jobject" where
  "mux_object c bean =
     (let muxObj = qobj [(''enabled'', QBool True), (''protocol'', QStr (o_mux_protocol c)),
                         (''padding'', QBool (o_mux_padding c)), (''max_streams'', QNum (o_mux_concurrency c))]
      in if b_enable_brutal bean
         then qset ''brutal'' (QObj (qobj [(''enabled'', QBool True), (''up_mbps'', QNum (b_brutal_speed bean)),
                (''down_mbps'', QNum (b_brutal_speed bean))])) (qset ''max_connections'' (QNum 1) muxObj)
         else muxObj)"

definition BuildOutbound :: "build_env \<Rightarrow> entity \<Rightarrow> string \<Rightarrow> build_status \<Rightarrow> build_status \<times> jobject" where
  "BuildOutbound v ent tag s =
     (let bean = v_bean v ent
      in if (e_type ent = ''wireguard'' \<or> e_type ent = ''awg'') \<and> \<not> s_forTest s \<and> b_useSystemInterface bean \<and> \<not> v_IsAdmin v
         then (s\<lparr>s_error := ''using wireguard system interface requires elevated permissions''\<rparr>, [])
         else if b_outbound bean = [] then (s\<lparr>s_error := ''unsupported outbound''\<rparr>, [])
         else if b_error bean \<noteq> '''' then (s\<lparr>s_error := b_error bean\<rparr>, [])
         else
           (let outbound = b_outbound bean;
                outbound = (if s_forTest s then qref ''type'' outbound else outbound);
                outbound = (if \<not> s_forTest s then outbound
                  else if qat outbound ''type'' = QStr ''awg'' then qset ''useIntegratedTun'' (QBool False) outbound
                  else if qat outbound ''type'' = QStr ''wireguard'' then qset ''system'' (QBool False) outbound
                  else outbound);
                outbound = qset ''tag'' (QStr tag) outbound;
                s = set_traffic (e_id ent) (\<lambda>t. t\<lparr>tt_id := e_id ent, tt_tag := tag\<rparr>) s;
                s = s\<lparr>s_outboundStats := s_outboundStats s @ [Profile_stat (e_id ent)]\<rparr>;
                outbound = (if e_type ent = ''vless'' then qref ''flow'' outbound else outbound)
            in (s, if needMux v ent outbound
                   then qset ''multiplex'' (QObj (mux_object (o_core (v_settings v)) bean)) outbound
                   else outbound)))"

section \<open>Chains\<close>

fun resolve_members :: "(int \<Rightarrow> entity option) \<Rightarrow> int list \<Rightarrow> entity list \<times> string" where
  "resolve_members pm [] = ([], '''')"
| "resolve_members pm (i # ids) =
     (case pm i of
        None \<Rightarrow> resolve_members pm ids
      | Some profile \<Rightarrow>
          if e_type profile = ''chain'' then ([profile], ''chain in chain is not allowed: '' @ show_int i)
          else (let (es, err) = resolve_members pm ids in (profile # es, err)))"

definition ResolveChainInternal :: "build_env \<Rightarrow> entity \<Rightarrow> build_status \<Rightarrow> build_status \<times> entity list" where
  "ResolveChainInternal v ent s =
     (if e_type ent = ''chain''
      then (let (es, err) = resolve_members (v_profile v) (rev (b_list (v_bean v ent)))
            in (if err = '''' then s else s\<lparr>s_error := err\<rparr>, es))
      else (s, [ent]))"

definition is_wg :: "entity \<Rightarrow> bool" where
  "is_wg e \<longleftrightarrow> e_type e = ''wireguard'' \<or> e_type e = ''awg''"

text \<open>The MTU of a tunnel inside another one, from the innermost carrier outwards.\<close>

fun nestedMtu :: "build_env \<Rightarrow> entity list \<Rightarrow> int \<Rightarrow> int option" where
  "nestedMtu v (e # carrierEnt # es) =
     (let m = nestedMtu v (carrierEnt # es)
      in if is_wg e \<and> is_wg carrierEnt
         then (let inner = v_bean v e; carrier = v_bean v carrierEnt;
                   carrierMtu = (case m (e_id carrierEnt) of Some x \<Rightarrow> x | None \<Rightarrow> b_MTU carrier);
                   s4 = (if e_type e = ''awg'' then b_transport_packet_junk_size inner else 0);
                   cap = carrierMtu - 32 - s4
               in if cap < b_MTU inner then m(e_id e \<mapsto> cap) else m)
         else m)"
| "nestedMtu v _ = (\<lambda>_. None)"

definition chain_tag :: "int \<Rightarrow> int option \<Rightarrow> string" where
  "chain_tag chainId route_suffix =
     (case route_suffix of
        None \<Rightarrow> ''c-'' @ show_int chainId
      | Some r \<Rightarrow> ''r-'' @ show_int r @ ''-c-'' @ show_int chainId)"

definition hop_tag :: "int \<Rightarrow> int option \<Rightarrow> nat \<Rightarrow> entity \<Rightarrow> string" where
  "hop_tag chainId route_suffix index ent =
     (if index = 0
      then (if route_suffix = None then ''proxy'' else chain_tag chainId route_suffix @ ''-proxy'')
      else chain_tag chainId route_suffix @ ''-'' @ show_int (e_id ent) @ ''-'' @ show_nat index)"

definition wg_fix :: "build_env \<Rightarrow> (int \<Rightarrow> int option) \<Rightarrow> entity option \<Rightarrow> entity \<Rightarrow> jobject \<Rightarrow> jobject" where
  "wg_fix v mtus prev ent outbound =
     (if is_wg ent
      then (let outbound = (case mtus (e_id ent) of None \<Rightarrow> outbound | Some m \<Rightarrow> qset ''mtu'' (QNum m) outbound)
            in if (case prev of None \<Rightarrow> False | Some p \<Rightarrow> is_wg p)
               then (let outbound = qref ''address'' outbound; addresses = json_toArray (qat outbound ''address'')
                     in if list_ex (\<lambda>a. CHR '':'' \<in> set (json_toString a)) addresses then outbound
                        else qset ''address'' (QArr (addresses @ [QStr ''fdfe:dcba:9876::1/128''])) outbound)
               else outbound)
      else outbound)"

definition set_detour :: "string \<Rightarrow> json list \<Rightarrow> json list" where
  "set_detour tag xs = butlast xs @ [QObj (qset ''detour'' (QStr tag) (json_toObject (last xs)))]"

definition server_of :: "build_env \<Rightarrow> entity \<Rightarrow> string" where
  "server_of v ent =
     (let bean = v_bean v ent; server = text_at (b_config_simple bean) ''server''
      in if e_type ent = ''custom'' \<and> b_core bean = ''internal'' \<and> server \<noteq> '''' then server else e_serverAddress ent)"

fun chain_loop ::
  "build_env \<Rightarrow> (nat \<Rightarrow> entity \<Rightarrow> string) \<Rightarrow> (int \<Rightarrow> int option) \<Rightarrow> nat \<Rightarrow> entity option \<Rightarrow> bool \<Rightarrow> entity list
   \<Rightarrow> build_status \<Rightarrow> build_status" where
  "chain_loop v tagf mtus index prev lastWasEndpoint [] s = s"
| "chain_loop v tagf mtus index prev lastWasEndpoint (ent # ents) s =
     (let bean = v_bean v ent; tagOut = tagf index ent;
          s = (if 0 < index
               then (let s = set_traffic (e_id ent) (\<lambda>t. t\<lparr>tt_isChainTail := True\<rparr>) s
                     in if lastWasEndpoint then s\<lparr>s_endpoints := set_detour tagOut (s_endpoints s)\<rparr>
                        else s\<lparr>s_outbounds := set_detour tagOut (s_outbounds s)\<rparr>)
               else s);
          (s, outbound) = BuildOutbound v ent tagOut s;
          outbound = MergeJson (b_custom_outbound bean) (wg_fix v mtus prev ent outbound);
          serverAddress = server_of v ent;
          s = (if IsIpAddress (v_net v) serverAddress then s
               else s\<lparr>s_domainListDNSDirect := s_domainListDNSDirect s @ [serverAddress]\<rparr>);
          s = (if b_IsEndpoint bean then s\<lparr>s_endpoints := s_endpoints s @ [QObj outbound]\<rparr>
               else s\<lparr>s_outbounds := s_outbounds s @ [QObj outbound]\<rparr>)
      in chain_loop v tagf mtus (Suc index) (Some ent) (b_IsEndpoint bean) ents s)"

definition BuildChainInternal :: "build_env \<Rightarrow> int \<Rightarrow> entity list \<Rightarrow> int option \<Rightarrow> build_status \<Rightarrow> build_status \<times> string" where
  "BuildChainInternal v chainId ents route_suffix s =
     (chain_loop v (hop_tag chainId route_suffix) (nestedMtu v ents) 0 None False ents s,
      case ents of [] \<Rightarrow> '''' | ent # _ \<Rightarrow> hop_tag chainId route_suffix 0 ent)"

text \<open>The profiles of a start: those of the landing proxy, of the profile and of the front proxy of
  its group.\<close>

definition extra_hops :: "build_env \<Rightarrow> string \<Rightarrow> int \<Rightarrow> build_status \<Rightarrow> build_status \<times> entity list" where
  "extra_hops v missing i s =
     (if i < 0 then (s, [])
      else case v_profile v i of
             None \<Rightarrow> (s\<lparr>s_error := missing\<rparr>, [])
           | Some e \<Rightarrow> ResolveChainInternal v e s)"

definition BuildChain :: "build_env \<Rightarrow> int \<Rightarrow> entity \<Rightarrow> build_status \<Rightarrow> build_status \<times> string" where
  "BuildChain v chainId ent s =
     (case v_group v (e_gid ent) of
        None \<Rightarrow> (s\<lparr>s_error := ''This profile is not in any group, your data may be corrupted.''\<rparr>, '''')
      | Some grp \<Rightarrow>
          (let (s, landing) = extra_hops v ''landing proxy ent not found.'' (g_landing_proxy_id grp) s
           in if s_error s \<noteq> '''' then (s, '''')
              else let (s, own) = ResolveChainInternal v ent s
                   in if s_error s \<noteq> '''' then (s, '''')
                      else let (s, front) = extra_hops v ''front proxy ent not found.'' (g_front_proxy_id grp) s
                           in if s_error s \<noteq> '''' then (s, '''')
                              else let ents = landing @ own @ front;
                                       (s, chainTagOut) = BuildChainInternal v chainId ents None s
                                   in (if 1 < length ents
                                       then (let s = set_traffic (e_id ent)
                                                 (\<lambda>t. t\<lparr>tt_id := e_id ent, tt_tag := chainTagOut, tt_ignoreForRate := True\<rparr>) s
                                             in s\<lparr>s_outboundStats := s_outboundStats s @ [Profile_stat (e_id ent)]\<rparr>)
                                       else s, chainTagOut)))"

section \<open>Checking a profile\<close>

text \<open>\<open>IsValid\<close> asks the core about one profile and follows the members of a chain. A chain that
  reaches itself makes it recurse for ever: \<open>None\<close> is a recursion that has not ended.\<close>

fun all_valid :: "(entity \<Rightarrow> bool option) \<Rightarrow> (int \<Rightarrow> entity option) \<Rightarrow> int list \<Rightarrow> bool option" where
  "all_valid valid pm [] = Some True"
| "all_valid valid pm (i # ids) =
     (case pm i of
        None \<Rightarrow> Some False
      | Some e \<Rightarrow>
          (case valid e of
             None \<Rightarrow> None
           | Some False \<Rightarrow> Some False
           | Some True \<Rightarrow> all_valid valid pm ids))"

definition check_json :: "bean \<Rightarrow> entity \<Rightarrow> jobject" where
  "check_json bean ent =
     (if e_type ent = ''custom'' \<and> b_core bean = ''internal-full'' then b_config_simple bean
      else let outbound = qref ''type'' (b_outbound bean);
               outbound = (if qat outbound ''type'' = QStr ''awg'' then qset ''useIntegratedTun'' (QBool False) outbound
                 else if qat outbound ''type'' = QStr ''wireguard'' then qset ''system'' (QBool False) outbound
                 else outbound)
           in qobj [(if b_IsEndpoint bean then ''endpoints'' else ''outbounds'', QArr [QObj outbound])])"

fun IsValid :: "build_env \<Rightarrow> (jobject \<Rightarrow> bool \<times> string) \<Rightarrow> nat \<Rightarrow> entity \<Rightarrow> bool option" where
  "IsValid v CheckConfig 0 ent = None"
| "IsValid v CheckConfig (Suc n) ent =
     (if e_type ent = ''chain'' then all_valid (IsValid v CheckConfig n) (v_profile v) (b_list (v_bean v ent))
      else let (ok, resp) = CheckConfig (check_json (v_bean v ent) ent) in Some (ok \<and> resp = ''''))"

section \<open>The outbounds of a chain\<close>

lemma BuildOutbound_fields [simp]:
  "s_outbounds (fst (BuildOutbound v e t s)) = s_outbounds s" "s_endpoints (fst (BuildOutbound v e t s)) = s_endpoints s"
  "s_forTest (fst (BuildOutbound v e t s)) = s_forTest s" "s_ent (fst (BuildOutbound v e t s)) = s_ent s"
  "s_chainID (fst (BuildOutbound v e t s)) = s_chainID s" "s_routeID (fst (BuildOutbound v e t s)) = s_routeID s"
  "s_inbounds (fst (BuildOutbound v e t s)) = s_inbounds s" "s_coreConfig (fst (BuildOutbound v e t s)) = s_coreConfig s"
  "s_domainListDNSDirect (fst (BuildOutbound v e t s)) = s_domainListDNSDirect s"
  "s_extraCore (fst (BuildOutbound v e t s)) = s_extraCore s"
  by (simp_all add: BuildOutbound_def Let_def set_traffic_def)

lemma BuildOutbound_json: "s_forTest s = s_forTest s' \<Longrightarrow> snd (BuildOutbound v e t s) = snd (BuildOutbound v e t s')"
  by (auto simp: BuildOutbound_def Let_def)

lemma BuildOutbound_error: "s_error (fst (BuildOutbound v e t s)) = '''' \<Longrightarrow> s_error s = ''''"
  by (auto simp: BuildOutbound_def Let_def set_traffic_def split: if_splits)

lemma BuildOutbound_tag: "s_error (fst (BuildOutbound v e t s)) = '''' \<Longrightarrow> text_at (snd (BuildOutbound v e t s)) ''tag'' = t"
  by (auto simp: BuildOutbound_def Let_def set_traffic_def split: if_splits)

lemma BuildOutbound_other:
  assumes "s_error (fst (BuildOutbound v e t s)) = ''''" and "k \<notin> {''tag'', ''useIntegratedTun'', ''system'', ''multiplex'', ''type'', ''flow''}"
  shows "map_of (snd (BuildOutbound v e t s)) k = map_of (b_outbound (v_bean v e)) k"
  using assms by (auto simp: BuildOutbound_def Let_def set_traffic_def qset_lookup qref_lookup split: if_splits)

text \<open>The object of one hop, and of a whole chain: each dials through the next.\<close>

definition hop_object ::
  "build_env \<Rightarrow> (nat \<Rightarrow> entity \<Rightarrow> string) \<Rightarrow> (int \<Rightarrow> int option) \<Rightarrow> build_status \<Rightarrow> nat \<Rightarrow> entity option \<Rightarrow> entity \<Rightarrow> jobject" where
  "hop_object v tagf mtus s index prev ent =
     MergeJson (b_custom_outbound (v_bean v ent)) (wg_fix v mtus prev ent (snd (BuildOutbound v ent (tagf index ent) s)))"

fun hop_objects ::
  "build_env \<Rightarrow> (nat \<Rightarrow> entity \<Rightarrow> string) \<Rightarrow> (int \<Rightarrow> int option) \<Rightarrow> build_status \<Rightarrow> nat \<Rightarrow> entity option \<Rightarrow> entity list
   \<Rightarrow> (bool \<times> json) list" where
  "hop_objects v tagf mtus s index prev [] = []"
| "hop_objects v tagf mtus s index prev (ent # ents) =
     (let obj = hop_object v tagf mtus s index prev ent
      in (b_IsEndpoint (v_bean v ent),
          QObj (case ents of [] \<Rightarrow> obj | e' # _ \<Rightarrow> qset ''detour'' (QStr (tagf (Suc index) e')) obj))
         # hop_objects v tagf mtus s (Suc index) (Some ent) ents)"

definition of_kind :: "bool \<Rightarrow> (bool \<times> json) list \<Rightarrow> json list" where
  "of_kind k objs = map snd (filter (\<lambda>(k', _). k' = k) objs)"

lemma hop_objects_cong:
  "s_forTest s = s_forTest s' \<Longrightarrow> hop_objects v tagf mtus s index prev ents = hop_objects v tagf mtus s' index prev ents"
  by (induction ents arbitrary: index prev) (simp_all add: hop_object_def Let_def BuildOutbound_json [of s s'])

definition pending :: "bool \<Rightarrow> bool \<Rightarrow> (nat \<Rightarrow> entity \<Rightarrow> string) \<Rightarrow> nat \<Rightarrow> entity list \<Rightarrow> json list \<Rightarrow> json list" where
  "pending lastWasEndpoint k tagf index ents objs =
     (if 0 < index \<and> ents \<noteq> [] \<and> lastWasEndpoint = k then set_detour (tagf index (hd ents)) objs else objs)"

lemma set_detour_snoc [simp]: "set_detour t (xs @ [QObj x]) = xs @ [QObj (qset ''detour'' (QStr t) x)]"
  by (simp add: set_detour_def)

lemma set_traffic_fields [simp]:
  "s_outbounds (set_traffic i f s) = s_outbounds s" "s_endpoints (set_traffic i f s) = s_endpoints s"
  "s_forTest (set_traffic i f s) = s_forTest s" "s_error (set_traffic i f s) = s_error s" "s_ent (set_traffic i f s) = s_ent s"
  "s_chainID (set_traffic i f s) = s_chainID s" "s_routeID (set_traffic i f s) = s_routeID s"
  "s_outboundStats (set_traffic i f s) = s_outboundStats s" "s_coreConfig (set_traffic i f s) = s_coreConfig s"
  "s_inbounds (set_traffic i f s) = s_inbounds s" "s_domainListDNSDirect (set_traffic i f s) = s_domainListDNSDirect s"
  "s_extraCore (set_traffic i f s) = s_extraCore s"
  by (simp_all add: set_traffic_def)

text \<open>One round of the loop.\<close>

definition chain_step ::
  "build_env \<Rightarrow> (nat \<Rightarrow> entity \<Rightarrow> string) \<Rightarrow> (int \<Rightarrow> int option) \<Rightarrow> nat \<Rightarrow> entity option \<Rightarrow> bool \<Rightarrow> entity \<Rightarrow> build_status \<Rightarrow> build_status" where
  "chain_step v tagf mtus index prev lastWasEndpoint ent s =
     (let bean = v_bean v ent; tagOut = tagf index ent;
          s = (if 0 < index
               then (let s = set_traffic (e_id ent) (\<lambda>t. t\<lparr>tt_isChainTail := True\<rparr>) s
                     in if lastWasEndpoint then s\<lparr>s_endpoints := set_detour tagOut (s_endpoints s)\<rparr>
                        else s\<lparr>s_outbounds := set_detour tagOut (s_outbounds s)\<rparr>)
               else s);
          (s, outbound) = BuildOutbound v ent tagOut s;
          outbound = MergeJson (b_custom_outbound bean) (wg_fix v mtus prev ent outbound);
          serverAddress = server_of v ent;
          s = (if IsIpAddress (v_net v) serverAddress then s
               else s\<lparr>s_domainListDNSDirect := s_domainListDNSDirect s @ [serverAddress]\<rparr>)
      in if b_IsEndpoint bean then s\<lparr>s_endpoints := s_endpoints s @ [QObj outbound]\<rparr>
         else s\<lparr>s_outbounds := s_outbounds s @ [QObj outbound]\<rparr>)"

lemma chain_loop_step:
  "chain_loop v tagf mtus index prev lastWasEndpoint (ent # ents) s =
     chain_loop v tagf mtus (Suc index) (Some ent) (b_IsEndpoint (v_bean v ent)) ents
       (chain_step v tagf mtus index prev lastWasEndpoint ent s)"
  by (simp add: chain_step_def Let_def split_beta)

lemma chain_step_fields:
  "s_forTest (chain_step v tagf mtus index prev le ent s) = s_forTest s"
  "s_ent (chain_step v tagf mtus index prev le ent s) = s_ent s"
  "s_chainID (chain_step v tagf mtus index prev le ent s) = s_chainID s"
  "s_routeID (chain_step v tagf mtus index prev le ent s) = s_routeID s"
  "s_inbounds (chain_step v tagf mtus index prev le ent s) = s_inbounds s"
  "s_coreConfig (chain_step v tagf mtus index prev le ent s) = s_coreConfig s"
  "s_extraCore (chain_step v tagf mtus index prev le ent s) = s_extraCore s"
  by (simp_all add: chain_step_def Let_def split_beta)

lemma chain_step_objects:
  "s_outbounds (chain_step v tagf mtus index prev le ent s) =
     pending le False tagf index [ent] (s_outbounds s)
     @ (if b_IsEndpoint (v_bean v ent) then [] else [QObj (hop_object v tagf mtus s index prev ent)])"
  "s_endpoints (chain_step v tagf mtus index prev le ent s) =
     pending le True tagf index [ent] (s_endpoints s)
     @ (if b_IsEndpoint (v_bean v ent) then [QObj (hop_object v tagf mtus s index prev ent)] else [])"
  by (simp_all add: chain_step_def Let_def split_beta pending_def hop_object_def
      BuildOutbound_json [of "s\<lparr>s_traffic := f, s_endpoints := es\<rparr>" s for f es]
      BuildOutbound_json [of "s\<lparr>s_traffic := f, s_outbounds := es\<rparr>" s for f es] set_traffic_def)

lemma chain_loop_objects:
  "s_outbounds (chain_loop v tagf mtus index prev le ents s) =
     pending le False tagf index ents (s_outbounds s) @ of_kind False (hop_objects v tagf mtus s index prev ents)
   \<and> s_endpoints (chain_loop v tagf mtus index prev le ents s) =
     pending le True tagf index ents (s_endpoints s) @ of_kind True (hop_objects v tagf mtus s index prev ents)"
proof (induction ents arbitrary: index prev le s)
  case (Cons ent ents)
  let ?s = "chain_step v tagf mtus index prev le ent s"
  have o: "hop_objects v tagf mtus ?s i p es = hop_objects v tagf mtus s i p es" for i p es
    by (rule hop_objects_cong) (simp add: chain_step_fields)
  show ?case
    unfolding chain_loop_step
    using Cons.IH [of "Suc index" "Some ent" "b_IsEndpoint (v_bean v ent)" ?s, unfolded o]
    by (cases ents) (simp_all add: chain_step_objects pending_def of_kind_def Let_def)
qed (simp add: pending_def of_kind_def)

section \<open>Errors and links of a chain\<close>

definition outbound_ok :: "build_env \<Rightarrow> bool \<Rightarrow> entity \<Rightarrow> bool" where
  "outbound_ok v forTest e \<longleftrightarrow>
     \<not> (is_wg e \<and> \<not> forTest \<and> b_useSystemInterface (v_bean v e) \<and> \<not> v_IsAdmin v)
     \<and> b_outbound (v_bean v e) \<noteq> [] \<and> b_error (v_bean v e) = ''''"

lemma BuildOutbound_ok:
  "s_error (fst (BuildOutbound v e t s)) = '''' \<longleftrightarrow> outbound_ok v (s_forTest s) e \<and> s_error s = ''''"
  by (auto simp: BuildOutbound_def outbound_ok_def is_wg_def Let_def)

lemma chain_step_ok:
  "s_error (chain_step v tagf mtus index prev le ent s) = '''' \<longleftrightarrow> outbound_ok v (s_forTest s) ent \<and> s_error s = ''''"
  by (simp add: chain_step_def Let_def split_beta BuildOutbound_ok)

lemma chain_loop_ok:
  "s_error (chain_loop v tagf mtus index prev le ents s) = ''''
     \<longleftrightarrow> (\<forall>e\<in>set ents. outbound_ok v (s_forTest s) e) \<and> s_error s = ''''"
proof (induction ents arbitrary: index prev le s)
  case (Cons ent ents)
  show ?case unfolding chain_loop_step Cons.IH by (auto simp: chain_step_ok chain_step_fields)
qed simp

lemma chain_loop_fields:
  "s_forTest (chain_loop v tagf mtus index prev le ents s) = s_forTest s \<and> s_ent (chain_loop v tagf mtus index prev le ents s) = s_ent s
   \<and> s_chainID (chain_loop v tagf mtus index prev le ents s) = s_chainID s
   \<and> s_routeID (chain_loop v tagf mtus index prev le ents s) = s_routeID s
   \<and> s_inbounds (chain_loop v tagf mtus index prev le ents s) = s_inbounds s
   \<and> s_coreConfig (chain_loop v tagf mtus index prev le ents s) = s_coreConfig s"
proof (induction ents arbitrary: index prev le s)
  case (Cons ent ents)
  show ?case
    unfolding chain_loop_step
    using Cons.IH [of "Suc index" "Some ent" "b_IsEndpoint (v_bean v ent)" "chain_step v tagf mtus index prev le ent s"]
    by (simp add: chain_step_fields)
qed simp

text \<open>A bean that leaves the links of the chain alone.\<close>

definition keeps_links :: "bean \<Rightarrow> bool" where
  "keeps_links b \<longleftrightarrow> ''tag'' \<notin> fst ` set (b_custom_outbound b) \<and> ''detour'' \<notin> fst ` set (b_custom_outbound b)
     \<and> text_at (b_outbound b) ''detour'' = ''''"

definition tag_of :: "json \<Rightarrow> string" where
  "tag_of j = text_at (json_toObject j) ''tag''"

definition detour_of :: "json \<Rightarrow> string" where
  "detour_of j = text_at (json_toObject j) ''detour''"

lemma tag_of_obj [simp]: "tag_of (QObj o') = text_at o' ''tag''" "detour_of (QObj o') = text_at o' ''detour''"
  by (simp_all add: tag_of_def detour_of_def)

lemma wg_fix_other: "k \<noteq> ''mtu'' \<Longrightarrow> k \<noteq> ''address'' \<Longrightarrow> map_of (wg_fix v mtus prev e obj) k = map_of obj k"
  by (auto simp: wg_fix_def Let_def qset_lookup qref_lookup split: option.split)

lemma MergeJson_cong: "map_of obj k = map_of obj' k \<Longrightarrow> map_of (MergeJson cust obj) k = map_of (MergeJson cust obj') k"
proof (induction cust arbitrary: obj obj')
  case (Cons kv cust)
  then show ?case by (cases kv) (auto simp: MergeJson_Cons qset_lookup simp del: MergeJson.simps intro!: Cons.IH)
qed simp

lemma hop_object_links:
  assumes "outbound_ok v (s_forTest s) e" and "keeps_links (v_bean v e)"
  shows "text_at (hop_object v tagf mtus s index prev e) ''tag'' = tagf index e"
    and "text_at (hop_object v tagf mtus s index prev e) ''detour'' = ''''"
proof -
  let ?s = "s\<lparr>s_error := ''''\<rparr>" and ?t = "tagf index e"
  have ok: "s_error (fst (BuildOutbound v e ?t ?s)) = ''''" using assms(1) by (simp add: BuildOutbound_ok)
  have j: "snd (BuildOutbound v e ?t s) = snd (BuildOutbound v e ?t ?s)" by (rule BuildOutbound_json) simp
  show "text_at (hop_object v tagf mtus s index prev e) ''tag'' = ?t"
    using assms(2) BuildOutbound_tag [OF ok]
    by (simp add: hop_object_def text_at_def qat_def MergeJson_other wg_fix_other keeps_links_def j)
  show "text_at (hop_object v tagf mtus s index prev e) ''detour'' = ''''"
    using assms(2) BuildOutbound_other [OF ok, of "''detour''"]
    by (simp add: hop_object_def text_at_def qat_def MergeJson_other wg_fix_other keeps_links_def j)
qed

text \<open>The keys the builder writes into the object of a protocol.\<close>

definition builder_keys :: "string set" where
  "builder_keys = {''tag'', ''detour'', ''type'', ''useIntegratedTun'', ''system'', ''multiplex'', ''flow'', ''mtu'', ''address''}"

lemma hop_object_protocol:
  assumes "outbound_ok v (s_forTest s) e" and "k \<notin> builder_keys"
  shows "qat (hop_object v tagf mtus s index prev e) k
    = qat (MergeJson (b_custom_outbound (v_bean v e)) (b_outbound (v_bean v e))) k"
proof -
  let ?s = "s\<lparr>s_error := ''''\<rparr>" and ?t = "tagf index e"
  have ok: "s_error (fst (BuildOutbound v e ?t ?s)) = ''''" using assms(1) by (simp add: BuildOutbound_ok)
  have j: "snd (BuildOutbound v e ?t s) = snd (BuildOutbound v e ?t ?s)" by (rule BuildOutbound_json) simp
  have "map_of (wg_fix v mtus prev e (snd (BuildOutbound v e ?t s))) k = map_of (b_outbound (v_bean v e)) k"
    using assms(2) BuildOutbound_other [OF ok, of k] by (simp add: wg_fix_other j builder_keys_def)
  from MergeJson_cong [OF this] show ?thesis by (simp add: qat_def hop_object_def)
qed

text \<open>Tags of the hops, and the detour of each: the tag of the next.\<close>

fun tags_from :: "(nat \<Rightarrow> entity \<Rightarrow> string) \<Rightarrow> nat \<Rightarrow> entity list \<Rightarrow> string list" where
  "tags_from tagf index [] = []"
| "tags_from tagf index (e # es) = tagf index e # tags_from tagf (Suc index) es"

fun detours_from :: "(nat \<Rightarrow> entity \<Rightarrow> string) \<Rightarrow> nat \<Rightarrow> entity list \<Rightarrow> string list" where
  "detours_from tagf index [] = []"
| "detours_from tagf index (e # es) =
     (case es of [] \<Rightarrow> '''' | e' # _ \<Rightarrow> tagf (Suc index) e') # detours_from tagf (Suc index) es"

lemma hop_objects_links:
  assumes "\<forall>e\<in>set ents. outbound_ok v (s_forTest s) e \<and> keeps_links (v_bean v e)"
  shows "map (tag_of \<circ> snd) (hop_objects v tagf mtus s index prev ents) = tags_from tagf index ents"
    and "map (detour_of \<circ> snd) (hop_objects v tagf mtus s index prev ents) = detours_from tagf index ents"
  using assms
  by (induction ents arbitrary: index prev) (auto simp: Let_def hop_object_links split: list.splits)

lemma tags_from_nth: "i < length es \<Longrightarrow> tags_from tagf index es ! i = tagf (index + i) (es ! i)"
proof (induction es arbitrary: index i)
  case (Cons e es)
  then show ?case by (cases i) auto
qed simp

lemma length_tags_from [simp]: "length (tags_from tagf index es) = length es"
  by (induction es arbitrary: index) auto

lemma length_detours_from [simp]: "length (detours_from tagf index es) = length es"
  by (induction es arbitrary: index) auto

lemma length_hop_objects [simp]: "length (hop_objects v tagf mtus s index prev es) = length es"
  by (induction es arbitrary: index prev) (auto simp: Let_def)

lemma detours_from_nth:
  "i < length es \<Longrightarrow> detours_from tagf index es ! i = (if Suc i < length es then tagf (Suc (index + i)) (es ! Suc i) else '''')"
proof (induction es arbitrary: index i)
  case (Cons e es)
  then show ?case by (cases i) (auto split: list.splits)
qed simp

section \<open>Tags are different\<close>

lemma last_sep:
  assumes "c \<notin> set u" and "c \<notin> set w" and "a @ c # u = b @ c # w"
  shows "a = b \<and> u = w"
proof -
  have nil: "us = []" if "c # x = us @ c # y" and "c \<notin> set x" for us x y
    using that by (cases us) auto
  from assms(3) obtain us where "a = b @ us \<and> us @ c # u = c # w \<or> a @ us = b \<and> c # u = us @ c # w"
    by (auto simp: append_eq_append_conv2)
  then show ?thesis
  proof
    assume h: "a = b @ us \<and> us @ c # u = c # w"
    with nil [of w us u] assms(2) have "us = []" by simp
    with h show ?thesis by simp
  next
    assume h: "a @ us = b \<and> c # u = us @ c # w"
    with nil [of u us w] assms(1) have "us = []" by simp
    with h show ?thesis by simp
  qed
qed

lemma first_sep:
  assumes "c \<notin> set u" and "c \<notin> set w" and "u @ c # a = w @ c # b"
  shows "u = w \<and> a = b"
  using last_sep [of c "rev u" "rev w" "rev a" "rev b"] arg_cong [OF assms(3), of rev] assms(1,2) by simp

lemma show_nat_no_dash: "CHR ''-'' \<notin> set (show_nat n)"
  using show_nat_digits [of n] by (auto simp: is_digit_def)

lemma show_nat_inj: "show_nat m = show_nat n \<longleftrightarrow> m = n"
  by (metis nat_of_show_nat)

lemma hop_tag_inj:
  assumes "hop_tag cid sfx i e = hop_tag cid sfx j e'"
  shows "i = j"
proof -
  have p: "CHR ''-'' \<notin> set ''proxy''" by simp
  have np: "show_nat n \<noteq> ''proxy''" for n using show_nat_digits [of n] by (auto simp: is_digit_def)
  have z: "False" if h: "hop_tag cid sfx 0 a = hop_tag cid sfx k b" and k: "0 < k" for a b k
  proof (cases sfx)
    case None
    with h k show ?thesis by (simp add: hop_tag_def chain_tag_def)
  next
    case (Some r)
    with h k have "chain_tag cid sfx @ CHR ''-'' # ''proxy'' = (chain_tag cid sfx @ ''-'' @ show_int (e_id b)) @ CHR ''-'' # show_nat k"
      by (simp add: hop_tag_def)
    from last_sep [OF p show_nat_no_dash this] np [of k] show ?thesis by (auto dest: sym)
  qed
  show ?thesis
  proof (cases "0 < i \<and> 0 < j")
    case True
    with assms have "(chain_tag cid sfx @ ''-'' @ show_int (e_id e)) @ CHR ''-'' # show_nat i
        = (chain_tag cid sfx @ ''-'' @ show_int (e_id e')) @ CHR ''-'' # show_nat j"
      by (simp add: hop_tag_def)
    from last_sep [OF show_nat_no_dash show_nat_no_dash this] show ?thesis by (simp add: show_nat_inj)
  next
    case False
    then show ?thesis using z [of e j e'] z [of e' i e] assms by (cases "i = 0"; cases "j = 0") auto
  qed
qed

lemma tags_from_mem: "t \<in> set (tags_from tagf index es) \<Longrightarrow> \<exists>i\<ge>index. \<exists>e\<in>set es. t = tagf i e"
proof (induction es arbitrary: index)
  case (Cons e es)
  then show ?case using Suc_leD by fastforce
qed simp

lemma tags_from_distinct: "distinct (tags_from (hop_tag cid sfx) index es)"
proof (induction es arbitrary: index)
  case (Cons e es)
  then show ?case by (auto dest!: tags_from_mem hop_tag_inj)
qed simp

text \<open>The tags of a route chain carry its number; those of the profile's own chain do not.\<close>

lemma hop_tag_route: "prefix (''r-'' @ show_int r @ ''-'') (hop_tag cid (Some r) i e)"
  by (simp add: hop_tag_def chain_tag_def prefix_def)

lemma hop_tag_own: "hop_tag cid None i e = ''proxy'' \<and> i = 0 \<or> hd (hop_tag cid None i e) = CHR ''c'' \<and> 0 < i"
  by (simp add: hop_tag_def chain_tag_def)

lemma show_int_no_dash: "0 \<le> r \<Longrightarrow> CHR ''-'' \<notin> set (show_int r)"
  using show_nat_no_dash by (simp add: show_int_def)

lemma show_int_inj: "0 \<le> r \<Longrightarrow> 0 \<le> q \<Longrightarrow> show_int r = show_int q \<Longrightarrow> r = q"
  by (simp add: show_int_def show_nat_inj split: if_splits)

lemma hop_tag_routes_differ:
  assumes "0 \<le> r" and "0 \<le> q" and "hop_tag cid (Some r) i e = hop_tag cid (Some q) j e'"
  shows "r = q"
proof -
  obtain a b where "hop_tag cid (Some r) i e = ''r-'' @ show_int r @ CHR ''-'' # a"
      "hop_tag cid (Some q) j e' = ''r-'' @ show_int q @ CHR ''-'' # b"
    using hop_tag_route [of r cid i e] hop_tag_route [of q cid j e'] by (auto simp: prefix_def)
  with assms(3) have "show_int r @ CHR ''-'' # a = show_int q @ CHR ''-'' # b" by simp
  from first_sep [OF show_int_no_dash show_int_no_dash this] assms(1,2) show_int_inj show ?thesis by blast
qed

lemma hop_tag_hd: "hd (hop_tag cid sfx i e) = (case sfx of Some _ \<Rightarrow> CHR ''r'' | None \<Rightarrow> if i = 0 then CHR ''p'' else CHR ''c'')"
  by (simp add: hop_tag_def chain_tag_def split: option.split)

section \<open>Traffic through a chain\<close>

text \<open>The tags met by following the detours from one tag.\<close>

fun dial_path :: "nat \<Rightarrow> json list \<Rightarrow> string \<Rightarrow> string list" where
  "dial_path 0 objs t = []"
| "dial_path (Suc n) objs t =
     (case find (\<lambda>j. tag_of j = t) objs of
        None \<Rightarrow> []
      | Some j \<Rightarrow> t # (if detour_of j = '''' then [] else dial_path n objs (detour_of j)))"

lemma dial_path_list:
  assumes "\<And>i. i < length js \<Longrightarrow> find (\<lambda>j. tag_of j = T ! i) objs = Some (js ! i)"
    and "\<And>i. i < length js \<Longrightarrow> detour_of (js ! i) = (if Suc i < length js then T ! Suc i else '''')"
    and "\<And>i. i < length js \<Longrightarrow> T ! i \<noteq> ''''" and "length T = length js" and "i < length js"
  shows "dial_path (length js - i) objs (T ! i) = drop i T"
  using assms(5)
proof (induction "length js - i" arbitrary: i)
  case (Suc n)
  show ?case
  proof (cases "Suc i < length js")
    case True
    have "n = length js - Suc i" using Suc.hyps(2) by simp
    from Suc.hyps(1) [OF this True] this have "dial_path n objs (T ! Suc i) = drop (Suc i) T" by simp
    with True Suc.prems assms(1,2) [of i] assms(3) [of "Suc i"]
    have "dial_path (Suc n) objs (T ! i) = T ! i # drop (Suc i) T" by simp
    with Suc.prems assms(4) show ?thesis by (simp add: Cons_nth_drop_Suc flip: Suc.hyps(2))
  next
    case False
    with Suc.prems assms(1,2) [of i] have "dial_path (Suc n) objs (T ! i) = [T ! i]" by simp
    moreover have "drop i T = [T ! i]" using False Suc.prems assms(4) Cons_nth_drop_Suc [of i T] by simp
    ultimately show ?thesis by (simp flip: Suc.hyps(2))
  qed
qed simp

lemma find_unique:
  assumes "x \<in> set xs" and "P x" and "\<And>y. y \<in> set xs \<Longrightarrow> P y \<Longrightarrow> y = x"
  shows "find P xs = Some x"
proof (cases "find P xs")
  case None
  with assms(1,2) show ?thesis by (simp add: find_None_iff)
next
  case (Some y)
  then have "y \<in> set xs" "P y" by (auto simp: find_Some_iff)
  with assms(3) Some show ?thesis by simp
qed

lemma of_kind_both: "set (of_kind False objs) \<union> set (of_kind True objs) = snd ` set objs"
  by (force simp: of_kind_def)

definition chain_objects :: "build_env \<Rightarrow> int \<Rightarrow> int option \<Rightarrow> build_status \<Rightarrow> entity list \<Rightarrow> (bool \<times> json) list" where
  "chain_objects v cid sfx s ents = hop_objects v (hop_tag cid sfx) (nestedMtu v ents) s 0 None ents"

lemma BuildChainInternal_objects:
  "s_outbounds (fst (BuildChainInternal v cid ents sfx s)) = s_outbounds s @ of_kind False (chain_objects v cid sfx s ents)"
  "s_endpoints (fst (BuildChainInternal v cid ents sfx s)) = s_endpoints s @ of_kind True (chain_objects v cid sfx s ents)"
  using chain_loop_objects [of v "hop_tag cid sfx" "nestedMtu v ents" 0 None False ents s]
  by (simp_all add: BuildChainInternal_def chain_objects_def pending_def)

lemma BuildChainInternal_ok:
  "s_error (fst (BuildChainInternal v cid ents sfx s)) = '''' \<longleftrightarrow> (\<forall>e\<in>set ents. outbound_ok v (s_forTest s) e) \<and> s_error s = ''''"
  by (simp add: BuildChainInternal_def chain_loop_ok)

lemma chain_objects_links:
  assumes "\<forall>e\<in>set ents. outbound_ok v (s_forTest s) e \<and> keeps_links (v_bean v e)"
  shows "map tag_of (map snd (chain_objects v cid sfx s ents)) = tags_from (hop_tag cid sfx) 0 ents"
    and "map detour_of (map snd (chain_objects v cid sfx s ents)) = detours_from (hop_tag cid sfx) 0 ents"
  using hop_objects_links [OF assms] by (simp_all add: chain_objects_def)

lemma hop_objects_protocol:
  assumes "\<forall>e\<in>set es. outbound_ok v (s_forTest s) e" and "i < length es" and "k \<notin> builder_keys"
  shows "qat (json_toObject (snd (hop_objects v tagf mtus s index prev es ! i))) k
    = qat (MergeJson (b_custom_outbound (v_bean v (es ! i))) (b_outbound (v_bean v (es ! i)))) k"
  using assms
proof (induction es arbitrary: index prev i)
  case (Cons e es)
  then show ?case
    by (cases i) (auto simp: Let_def hop_object_protocol builder_keys_def split: list.split)
qed simp

lemma chain_find:
  assumes ok: "\<forall>e\<in>set ents. outbound_ok v (s_forTest s) e \<and> keeps_links (v_bean v e)"
    and old: "\<forall>j\<in>set (s_outbounds s @ s_endpoints s). \<forall>i e. tag_of j \<noteq> hop_tag cid sfx i e"
    and i: "i < length ents"
  defines "s' \<equiv> fst (BuildChainInternal v cid ents sfx s)"
  shows "find (\<lambda>j. tag_of j = hop_tag cid sfx i (ents ! i)) (s_outbounds s' @ s_endpoints s')
    = Some (map snd (chain_objects v cid sfx s ents) ! i)"
proof (rule find_unique)
  let ?js = "map snd (chain_objects v cid sfx s ents)"
  have len: "length ?js = length ents" by (simp add: chain_objects_def)
  have members: "set (s_outbounds s' @ s_endpoints s') = set (s_outbounds s @ s_endpoints s) \<union> set ?js"
    using of_kind_both [of "chain_objects v cid sfx s ents"] by (auto simp: s'_def BuildChainInternal_objects)
  have tag: "tag_of (?js ! k) = hop_tag cid sfx k (ents ! k)" if "k < length ents" for k
    using nth_map [of k ?js tag_of] that len by (simp only: chain_objects_links(1) [OF ok]) (simp add: tags_from_nth)
  show "?js ! i \<in> set (s_outbounds s' @ s_endpoints s')" using members i len nth_mem [of i ?js] by simp
  show "tag_of (?js ! i) = hop_tag cid sfx i (ents ! i)" by (rule tag [OF i])
  fix y
  assume y: "y \<in> set (s_outbounds s' @ s_endpoints s')" and t: "tag_of y = hop_tag cid sfx i (ents ! i)"
  with members old have "y \<in> set ?js" by blast
  then obtain k where k: "k < length ents" "y = ?js ! k" using len by (auto simp only: in_set_conv_nth)
  with t tag [OF k(1)] hop_tag_inj show "y = ?js ! i" by metis
qed

lemma chain_path:
  assumes ok: "\<forall>e\<in>set ents. outbound_ok v (s_forTest s) e \<and> keeps_links (v_bean v e)"
    and old: "\<forall>j\<in>set (s_outbounds s @ s_endpoints s). \<forall>i e. tag_of j \<noteq> hop_tag cid sfx i e"
    and ne: "ents \<noteq> []"
  defines "s' \<equiv> fst (BuildChainInternal v cid ents sfx s)"
  shows "dial_path (length ents) (s_outbounds s' @ s_endpoints s') (hop_tag cid sfx 0 (hd ents)) = tags_from (hop_tag cid sfx) 0 ents"
proof -
  let ?js = "map snd (chain_objects v cid sfx s ents)" and ?T = "tags_from (hop_tag cid sfx) 0 ents"
  have len: "length ?js = length ents" by (simp add: chain_objects_def)
  have T: "?T ! k = hop_tag cid sfx k (ents ! k)" if "k < length ents" for k using that by (simp add: tags_from_nth)
  have "detour_of (?js ! k) = (if Suc k < length ?js then ?T ! Suc k else '''')" if "k < length ?js" for k
    using nth_map [of k ?js detour_of] that len by (simp only: chain_objects_links(2) [OF ok]) (auto simp: detours_from_nth T)
  moreover have "?T ! k \<noteq> ''''" if "k < length ?js" for k
    using that len by (simp add: T hop_tag_def chain_tag_def split: option.split)
  moreover have "find (\<lambda>j. tag_of j = ?T ! k) (s_outbounds s' @ s_endpoints s') = Some (?js ! k)" if "k < length ?js" for k
    using chain_find [OF ok old, of k] that len by (simp add: T s'_def)
  ultimately have "dial_path (length ?js - 0) (s_outbounds s' @ s_endpoints s') (?T ! 0) = drop 0 ?T"
    using ne len by (intro dial_path_list) auto
  with len ne T [of 0] show ?thesis by (cases ents) auto
qed

end
