(* ===== verification/Game_Mod.thy ===== *)
theory Game_Mod
  imports Config_Json
begin

text \<open>
  The rules of the services chosen in Game Mod (\<open>GameMod::BuildRules\<close> of
  \<^verbatim>\<open>src/gharqad/ui/setting/GameModCatalog.cpp\<close>) and their place among the rules of the
  configuration (\<open>PrependGameModRules\<close> of \<^verbatim>\<open>src/gharqad/configs/ConfigBuilder.cpp\<close>). The catalogue is
  the parsed file of the program's resources.
\<close>

definition StringArray :: "json list \<Rightarrow> string list" where
  "StringArray arr = filter (\<lambda>t. t \<noteq> '''') (map json_toString arr)"

text \<open>\<open>QRegularExpression::escape\<close> of one character.\<close>

definition ascii_letter :: "char \<Rightarrow> bool" where
  "ascii_letter c \<longleftrightarrow> of_char c - 65 < (26::int) \<and> of_char c \<ge> (65::int) \<or> of_char c - 97 < (26::int) \<and> of_char c \<ge> (97::int)"

definition escape_char :: "char \<Rightarrow> string" where
  "escape_char c =
     (if c = CHR 0x00 then [CHR 0x5C, CHR ''0'']
      else if is_digit c \<or> ascii_letter c \<or> c = CHR ''_''
      then [c] else [CHR 0x5C, c])"

definition CaseInsensitiveProcessPathPattern :: "string \<Rightarrow> string" where
  "CaseInsensitiveProcessPathPattern processName =
     (let windowsSuffix = suffix ''.exe'' (map lower_char processName);
          normalized = (if windowsSuffix then take (length processName - 4) processName else processName)
      in ''(?i)(?:^|.*['' @ [CHR 0x5C, CHR 0x5C] @ ''/])''
         @ concat (map (\<lambda>c. if c = CHR ''*'' then ''.*'' else if c = CHR ''?'' then ''.'' else escape_char c) normalized)
         @ ''(?:'' @ [CHR 0x5C] @ ''.exe)?$'')"

fun process_patterns :: "string list \<Rightarrow> json list \<Rightarrow> string list" where
  "process_patterns result [] = result"
| "process_patterns result (value # processNames) =
     (let processName = trimmed (json_toString value); pattern = CaseInsensitiveProcessPathPattern processName
      in process_patterns
           (if processName = '''' \<or> pattern \<in> set result then result else result @ [pattern]) processNames)"

definition matched_id :: "string set \<Rightarrow> jobject \<Rightarrow> string" where
  "matched_id enabled service =
     (let serviceId = text_at service ''id''
      in if serviceId \<in> enabled then serviceId
         else case filter (\<lambda>i. i \<in> enabled) (StringArray (json_toArray (qat service ''legacy_ids''))) of
                [] \<Rightarrow> '''' | i # _ \<Rightarrow> i)"

definition service_rule :: "(string \<Rightarrow> string option) \<Rightarrow> string \<Rightarrow> string \<Rightarrow> json \<Rightarrow> jobject" where
  "service_rule serviceOutbounds serviceId matchedId ruleValue =
     (let rule = qremove ''catalog_source'' (json_toObject ruleValue);
          processNames = json_toArray (qat rule ''process_name'');
          rule = (if processNames = [] then rule
            else qset ''process_path_regex'' (strs (process_patterns [] processNames)) (qremove ''process_name'' rule));
          value = (\<lambda>i. case serviceOutbounds i of None \<Rightarrow> '''' | Some t \<Rightarrow> t);
          outbound = (if value serviceId = '''' then value matchedId else value serviceId)
      in if text_at rule ''outbound'' = ''proxy'' \<and> outbound \<noteq> '''' then qset ''outbound'' (QStr outbound) rule else rule)"

definition GameMod_BuildRules :: "jobject \<Rightarrow> string list \<Rightarrow> (string \<Rightarrow> string option) \<Rightarrow> jobject list" where
  "GameMod_BuildRules root enabledServiceIds serviceOutbounds =
     (if enabledServiceIds = [] then []
      else concat (map (\<lambda>value.
             let service = json_toObject value; matchedId = matched_id (set enabledServiceIds) service
             in if matchedId = '''' then []
                else map (service_rule serviceOutbounds (text_at service ''id'') matchedId) (json_toArray (qat service ''rules'')))
           (json_toArray (qat root ''services''))))"

text \<open>The actions that must run first stay in front of the rules of Game Mod.\<close>

definition infrastructure :: "jobject \<Rightarrow> bool" where
  "infrastructure r \<longleftrightarrow> text_at r ''action'' \<in> {''sniff'', ''resolve'', ''hijack-dns''}"

definition PrependGameModRules :: "jobject list \<Rightarrow> jobject list \<Rightarrow> jobject list" where
  "PrependGameModRules gameModRules routeRules =
     takeWhile infrastructure routeRules @ gameModRules @ dropWhile infrastructure routeRules"

definition HasProcessSelectors :: "jobject list \<Rightarrow> bool" where
  "HasProcessSelectors rules \<longleftrightarrow>
     list_ex (\<lambda>r. has_key r ''process_name'' \<or> has_key r ''process_path'' \<or> has_key r ''process_path_regex'') rules"

definition BuildTunProcessRules :: "routing_settings \<Rightarrow> jobject list" where
  "BuildTunProcessRules c =
     (let rule = (\<lambda>out paths. qobj ([(''action'', QStr ''route''), (''outbound'', QStr out),
                                     (''process_path'', QArr (QListStr2QJsonArray paths))]))
      in (if o_tun_proxy c \<noteq> [] then [rule ''proxy'' (o_tun_proxy c)] else [])
         @ (if o_tun_direct c \<noteq> [] then [rule ''direct'' (o_tun_direct c)] else [])
         @ (if o_tun_block c \<noteq> []
            then [qobj [(''action'', QStr ''reject''), (''process_path'', QArr (QListStr2QJsonArray (o_tun_block c)))]] else []))"

definition HasTunProcessRules :: "routing_settings \<Rightarrow> bool" where
  "HasTunProcessRules c \<longleftrightarrow> o_tun_proxy c \<noteq> [] \<or> o_tun_direct c \<noteq> [] \<or> o_tun_block c \<noteq> []"

end
