(* ===== verification/Config_Builder.thy ===== *)
theory Config_Builder
  imports Chain_Builder Game_Mod Route_Chain
begin

text \<open>
  The configuration the core is started with (\<open>BuildConfigSingBox\<close>, \<open>BuildConfig\<close> and
  \<open>BuildTestConfig\<close> of \<^verbatim>\<open>src/gharqad/configs/ConfigBuilder.cpp\<close>), composed of the chains of
  \<open>Chain_Builder\<close>, the routing rules of \<open>Route_Chain\<close> and the helpers of
  \<open>Config_Json\<close>. The routing profiles are those of the manager; a log line and a dialogue of
  the window are not part of the result.
\<close>

section \<open>Inbounds\<close>

record config_env =
  w_build :: build_env
  w_routeChain :: "int \<Rightarrow> RoutingChain option"
  w_enabledChains :: "RoutingChain list"
  w_url :: url_parts
  w_ruleSetMap :: "string \<Rightarrow> string option"
  w_catalog :: jobject
  w_windows :: bool
  w_canonicalFilePath :: "string \<Rightarrow> string"
  w_basePath :: string
  w_serverName :: string
  w_address_null :: "string \<Rightarrow> bool"
  w_isInSubnet :: "string \<Rightarrow> string \<Rightarrow> nat \<Rightarrow> bool"

abbreviation w_settings :: "config_env \<Rightarrow> settings" where
  "w_settings w \<equiv> v_settings (w_build w)"

definition proxyInboundEnabled :: "inbound_settings \<Rightarrow> bool" where
  "proxyInboundEnabled c \<longleftrightarrow> o_inbound_proxy_type c = 1 \<or> o_inbound_proxy_type c = 2"

definition SimpleProxyInbound :: "int \<Rightarrow> string" where
  "SimpleProxyInbound i = (if i = 1 then ''http'' else if i = 2 then ''mixed'' else '''')"

definition IsValidPort :: "int \<Rightarrow> bool" where
  "IsValidPort p \<longleftrightarrow> 1 \<le> p \<and> p \<le> 65535"

definition mixed_inbound :: "inbound_settings \<Rightarrow> jobject" where
  "mixed_inbound c =
     (let o1 = qobj [(''tag'', QStr ''mixed-in''),
            (''type'', QStr (if o_spmode_packet_filter c then ''mixed'' else SimpleProxyInbound (o_inbound_proxy_type c))),
            (''listen'', QStr (if o_spmode_packet_filter c then ''127.0.0.1'' else o_inbound_address c)),
            (''listen_port'', QNum (o_inbound_socks_port c))];
          users = QArr [QObj (qobj [(''username'', QStr (o_inbound_username c)), (''password'', QStr (o_inbound_password c))])];
          o2 = qset_if (o_inbound_username c \<noteq> '''' \<and> o_inbound_password c \<noteq> '''') ''users'' users o1
      in qset ''set_system_proxy'' (QBool (o_spmode_system_proxy c)) o2)"

definition IsPrivateRouteCIDR :: "config_env \<Rightarrow> string \<Rightarrow> bool" where
  "IsPrivateRouteCIDR w cidr =
     (let address = trimmed (takeWhile (\<lambda>ch. ch \<noteq> CHR ''/'') cidr)
      in \<not> w_address_null w address
         \<and> (w_isInSubnet w address ''10.0.0.0'' 8 \<or> w_isInSubnet w address ''172.16.0.0'' 12
             \<or> w_isInSubnet w address ''192.168.0.0'' 16 \<or> w_isInSubnet w address ''127.0.0.0'' 8
             \<or> w_isInSubnet w address ''fc00::'' 7 \<or> w_isInSubnet w address ''fe80::'' 10))"

definition HasProxyPrivateRoute :: "config_env \<Rightarrow> RoutingChain \<Rightarrow> bool" where
  "HasProxyPrivateRoute w c \<longleftrightarrow>
     list_ex (\<lambda>r. \<not> (r_action r \<noteq> ''route'' \<or> r_outboundID r = directID \<or> r_outboundID r = blockID \<or> r_outboundID r = dnsOutID)
                  \<and> (r_ip_is_private r \<or> list_ex (IsPrivateRouteCIDR w) (r_ip_cidr r))) (c_Rules c)"

definition privateCIDRs :: "string list" where
  "privateCIDRs = [''10.0.0.0/8'', ''172.16.0.0/12'', ''192.168.0.0/16'', ''127.0.0.0/8'', ''169.254.0.0/16'',
                   ''224.0.0.0/4'', ''255.255.255.255/32'']"

definition BuildTunInbound :: "bool \<Rightarrow> settings \<Rightarrow> string list \<Rightarrow> string list \<Rightarrow> bool \<Rightarrow> jobject" where
  "BuildTunInbound windows c directIPSets directIPCIDRs routePrivateThroughTun =
     (let i = o_in c;
          obj = qobj [(''tag'', QStr ''tun-in''), (''type'', QStr ''tun''), (''interface_name'', QStr (getTunName windows c)),
            (''auto_route'', QBool True), (''mtu'', QNum (o_vpn_mtu i)), (''stack'', QStr (o_vpn_implementation i)),
            (''strict_route'', QBool (o_vpn_strict_route i)),
            (''address'', strs (getTunAddress c # (if o_vpn_ipv6 i then [getTunAddress6 c] else [])))];
          excl = QListStr2QJsonArray (o_route_exclude_addrs i);
          excl = (if routePrivateThroughTun then filter (\<lambda>v. json_toString v \<notin> set privateCIDRs) excl else excl);
          excl = (if o_enable_tun_routing i then excl @ map QStr directIPCIDRs else excl);
          sets = (if o_enable_tun_routing i then map QStr directIPSets else []);
          obj = qset ''route_exclude_address'' (QArr excl) obj
      in qset_if (sets \<noteq> []) ''route_exclude_address_set'' (QArr sets) obj)"

section \<open>Outbounds of the routing profile\<close>

definition no_longer_exists :: string where
  "no_longer_exists = ''The routing profile is referencing outbounds that no longer exists, consider revising your settings''"

definition initial_outbounds :: "int \<Rightarrow> string option" where
  "initial_outbounds = [proxyID \<mapsto> ''proxy'', directID \<mapsto> ''direct'', blockID \<mapsto> ''block'']"

text \<open>The outbound a rule needs; no tag when the chain cannot be resolved, or an earlier chain left
  an error.\<close>

definition route_chain_outbound :: "build_env \<Rightarrow> entity \<Rightarrow> build_status \<Rightarrow> build_status \<times> string option" where
  "route_chain_outbound v ent s =
     (let (s, ents) = ResolveChainInternal v ent s
      in if s_error s \<noteq> '''' then (s, None)
         else let (s, tag) = BuildChainInternal v (s_chainID s) ents (Some (s_routeID s)) s
              in (s\<lparr>s_routeID := s_routeID s + 1\<rparr>, Some tag))"

text \<open>The loop over the outbounds the rules name, with the addresses to resolve directly; the flag
  is false after an early return.\<close>

fun needed_outbounds ::
  "build_env \<Rightarrow> int list \<Rightarrow> build_status \<Rightarrow> (int \<Rightarrow> string option) \<Rightarrow> string list
   \<Rightarrow> bool \<times> build_status \<times> (int \<Rightarrow> string option) \<times> string list" where
  "needed_outbounds v [] s outboundMap domains = (True, s, outboundMap, domains)"
| "needed_outbounds v (item # items) s outboundMap domains =
     (if item < 0 then needed_outbounds v items s outboundMap domains
      else case v_profile v item of
             None \<Rightarrow> (False, s\<lparr>s_error := no_longer_exists\<rparr>, outboundMap, domains)
           | Some neededEnt \<Rightarrow>
               (case route_chain_outbound v neededEnt s of
                  (s, None) \<Rightarrow> (False, s, outboundMap, domains)
                | (s, Some tag) \<Rightarrow>
                    needed_outbounds v items s (outboundMap(item \<mapsto> tag))
                      (if IsIpAddress (v_net v) (e_serverAddress neededEnt) then domains
                       else domains @ [e_serverAddress neededEnt])))"

definition assigned_profile :: "jobject \<Rightarrow> string \<Rightarrow> int" where
  "assigned_profile obj serviceId =
     (case map_of obj serviceId of
        Some (QNum i) \<Rightarrow> (if - (2 ^ 31) \<le> i \<and> i < 2 ^ 31 then i else -1)
      | _ \<Rightarrow> -1)"

fun game_mod_loop ::
  "build_env \<Rightarrow> string list \<Rightarrow> build_status \<Rightarrow> (int \<Rightarrow> string option) \<Rightarrow> (string \<Rightarrow> string option) \<Rightarrow> string list
   \<Rightarrow> bool \<times> build_status \<times> (int \<Rightarrow> string option) \<times> (string \<Rightarrow> string option) \<times> string list" where
  "game_mod_loop v [] s outboundMap result domains = (True, s, outboundMap, result, domains)"
| "game_mod_loop v (serviceId # ids) s outboundMap result domains =
     (let profileId = assigned_profile (o_game_mod_service_profiles (o_routing (v_settings v))) serviceId
      in if profileId < 0 then game_mod_loop v ids s outboundMap result domains
         else if map_option e_id (s_ent s) = Some profileId
         then game_mod_loop v ids s outboundMap (result(serviceId \<mapsto> ''proxy'')) domains
         else case outboundMap profileId of
                Some tag \<Rightarrow> game_mod_loop v ids s outboundMap (result(serviceId \<mapsto> tag)) domains
              | None \<Rightarrow>
                  (case v_profile v profileId of
                     None \<Rightarrow> game_mod_loop v ids s outboundMap result domains
                   | Some profile \<Rightarrow>
                       (case route_chain_outbound v profile s of
                          (s, None) \<Rightarrow> (False, s, outboundMap, (\<lambda>_. None), domains)
                        | (s, Some tag) \<Rightarrow>
                            game_mod_loop v ids s (outboundMap(profileId \<mapsto> tag)) (result(serviceId \<mapsto> tag))
                              (if IsIpAddress (v_net v) (e_serverAddress profile) then domains
                               else domains @ [e_serverAddress profile]))))"

definition BuildGameModOutbounds ::
  "build_env \<Rightarrow> build_status \<Rightarrow> (int \<Rightarrow> string option) \<Rightarrow> string list
   \<Rightarrow> bool \<times> build_status \<times> (int \<Rightarrow> string option) \<times> (string \<Rightarrow> string option) \<times> string list" where
  "BuildGameModOutbounds v s outboundMap domains =
     game_mod_loop v (o_game_mod_enabled_services (o_routing (v_settings v))) s outboundMap (\<lambda>_. None) domains"

text \<open>The rules of a routing profile for the core, and the profile with its corrected actions.\<close>

definition core_route_rules :: "config_env \<Rightarrow> (int \<Rightarrow> string option) \<Rightarrow> RoutingChain \<Rightarrow> RoutingChain \<times> jobject list" where
  "core_route_rules w outboundMap c =
     get_route_rules (\<lambda>_. None) (u_url (w_url w)) 0 (o_adblock_enable (o_core (w_settings w))) False False outboundMap c"

definition rule_set_json :: "config_env \<Rightarrow> string \<Rightarrow> jobject" where
  "rule_set_json w = get_rule_set_json (w_url w) (w_ruleSetMap w) (o_ruleset_mirror (o_routing (w_settings w)))"

definition BuildNekoboxTunRulesForFullConfig ::
  "config_env \<Rightarrow> build_status \<Rightarrow> jobject \<Rightarrow> build_status \<times> jobject \<times> jobject list" where
  "BuildNekoboxTunRulesForFullConfig w s config =
     (case w_routeChain w (o_current_route_id (o_routing (w_settings w))) of
        None \<Rightarrow> (s, config, [])
      | Some routeChain \<Rightarrow>
          (case needed_outbounds (w_build w) (get_used_outbounds routeChain) s initial_outbounds [] of
             (False, s, _) \<Rightarrow> (s, config, [])
           | (True, s, outboundMap, _) \<Rightarrow>
               (case BuildGameModOutbounds (w_build w) s outboundMap [] of
                  (ok, s, outboundMap, gameModOutbounds, _) \<Rightarrow>
                    if s_error s \<noteq> '''' then (s, config, [])
                    else
                      (let config = qset ''outbounds'' (QArr (json_toArray (qat config ''outbounds'') @ s_outbounds s)) config;
                           config = qref ''endpoints'' config;
                           extraEndpoints = json_toArray (qat config ''endpoints'') @ s_endpoints s;
                           config = (if extraEndpoints = [] then config else qset ''endpoints'' (QArr extraEndpoints) config);
                           route = foldl (\<lambda>r ruleSet. AppendMissingRuleSet r (rule_set_json w ruleSet))
                                     (json_toObject (qat config ''route'')) (get_used_rule_sets routeChain);
                           route = (if o_adblock_enable (o_core (w_settings w))
                             then AppendMissingRuleSet route (rule_set_json w ''nekobox-adblocksingbox'') else route);
                           config = qset ''route'' (QObj route) config;
                           (_, rules) = core_route_rules w outboundMap routeChain;
                           gameModRules = GameMod_BuildRules (w_catalog w)
                             (o_game_mod_enabled_services (o_routing (w_settings w))) gameModOutbounds
                       in (s, config, BuildTunProcessRules (o_routing (w_settings w)) @ PrependGameModRules gameModRules rules)))))"

section \<open>The configuration of a profile\<close>

definition labelled :: "string \<Rightarrow> string list \<Rightarrow> string list" where
  "labelled l xs = map (drop (length l)) (filter (prefix l) xs)"

record direct_parts =
  p_need :: bool
  p_domains :: "string list"
  p_ruleSets :: "string list"
  p_suffixes :: "string list"
  p_keywords :: "string list"
  p_regexes :: "string list"
  p_ipSets :: "string list"
  p_ipCidrs :: "string list"

definition no_parts :: direct_parts where
  "no_parts = \<lparr> p_need = False, p_domains = [], p_ruleSets = [], p_suffixes = [], p_keywords = [], p_regexes = [],
                p_ipSets = [], p_ipCidrs = [] \<rparr>"

definition direct_lists :: "string list \<Rightarrow> RoutingChain \<Rightarrow> direct_parts" where
  "direct_lists domainList c =
     (let sets = get_direct_sites c; ips = get_direct_ips c
      in \<lparr> p_need = (domainList \<noteq> [] \<or> sets \<noteq> []), p_domains = domainList @ labelled ''domain:'' sets,
           p_ruleSets = labelled ''ruleset:'' sets, p_suffixes = labelled ''suffix:'' sets,
           p_keywords = labelled ''keyword:'' sets, p_regexes = labelled ''regex:'' sets,
           p_ipSets = labelled ''ruleset:'' ips, p_ipCidrs = labelled ''ip:'' ips \<rparr>)"

text \<open>The routing profile of the configuration: the chosen one if it is enabled, else the first
  enabled one; everything is blocked when there is no profile to start.\<close>

definition choose_route_chain :: "config_env \<Rightarrow> entity option \<Rightarrow> RoutingChain option" where
  "choose_route_chain w ent =
     (case ent of
        None \<Rightarrow> Some (GetDefaultChain\<lparr>c_defaultOutboundID := blockID\<rparr>)
      | Some _ \<Rightarrow>
          (case w_routeChain w (o_current_route_id (o_routing (w_settings w))) of
             Some c \<Rightarrow> if c_enabled c then Some c else (case w_enabledChains w of [] \<Rightarrow> None | c # _ \<Rightarrow> Some c)
           | None \<Rightarrow> (case w_enabledChains w of [] \<Rightarrow> None | c # _ \<Rightarrow> Some c)))"

definition add_extra_core :: "config_env \<Rightarrow> entity \<Rightarrow> build_status \<Rightarrow> RoutingChain \<Rightarrow> build_status \<times> RoutingChain" where
  "add_extra_core w ent s c =
     (if e_type ent = ''extracore''
      then (let bean = v_bean (w_build w) ent; path = w_canonicalFilePath w (b_extraCorePath bean)
            in (s\<lparr>s_extraCore := Some \<lparr> x_path = path, x_args = b_extraCoreArgs bean, x_config = b_extraCoreConf bean,
                                        x_configDir = w_basePath w, x_noLog = b_noLogs bean \<rparr>\<rparr>,
                c\<lparr>c_Rules := c_Rules c @ [get_processPath_direct_rule path]\<rparr>))
      else (s, c))"

definition action_rule :: "string \<Rightarrow> string list \<Rightarrow> RouteRule" where
  "action_rule action inbound = new_RouteRule\<lparr>r_action := action, r_inbound := inbound\<rparr>"

definition prepend_rule :: "bool \<Rightarrow> RouteRule \<Rightarrow> RoutingChain \<Rightarrow> RoutingChain" where
  "prepend_rule b r c = (if b then c\<lparr>c_Rules := r # c_Rules c\<rparr> else c)"

text \<open>The first half: inbounds, clock, fixed outbounds and the rules of the DNS and redirect
  inbounds.\<close>

definition sing_box_inbounds :: "config_env \<Rightarrow> build_status \<Rightarrow> RoutingChain \<Rightarrow> direct_parts \<Rightarrow> build_status \<times> RoutingChain" where
  "sing_box_inbounds w s c parts =
     (let blockAll = (s_ent s = None); forTest = s_forTest s; st = w_settings w; i = o_in st; co = o_core st;
          mixed = (if IsValidPort (o_inbound_socks_port i) \<and> (\<not> forTest \<or> blockAll)
                      \<and> (proxyInboundEnabled i \<or> o_spmode_packet_filter i) then [QObj (mixed_inbound i)] else []);
          tun = (if o_spmode_vpn i \<and> \<not> forTest \<or> blockAll
            then [QObj (BuildTunInbound (w_windows w) st (p_ipSets parts) (p_ipCidrs parts) (HasProxyPrivateRoute w c))] else []);
          ntp = [(''enabled'', QBool True), (''server'', QStr (o_ntp_server_address co)),
            (''server_port'', QNum (o_ntp_server_port co)), (''interval'', QStr (o_ntp_interval co))];
          s = s\<lparr>s_inbounds := s_inbounds s @ mixed @ tun,
                s_coreConfig := qset_if (o_enable_ntp co \<and> \<not> blockAll) ''ntp'' (QObj (qobj ntp)) (s_coreConfig s),
                s_outbounds := s_outbounds s @ [QObj (qobj [(''type'', QStr ''direct''), (''tag'', QStr ''direct'')]),
                                                QObj (qobj [(''type'', QStr ''block''), (''tag'', QStr ''block'')])],
                s_outboundStats := s_outboundStats s @ [Direct_stat]\<rparr>;
          dns = (o_enable_dns_server co \<and> \<not> forTest); redirect = (o_enable_redirect co \<and> \<not> forTest);
          c = prepend_rule dns (action_rule ''sniff'' [''dns-in'']) (prepend_rule dns (action_rule ''hijack-dns'' [''dns-in'']) c);
          hijack = qobj [(''tag'', QStr ''hijack''), (''type'', QStr ''direct''), (''listen'', QStr (o_redirect_listen_address co)),
            (''listen_port'', QNum (o_redirect_listen_port co))];
          s = (if redirect then s\<lparr>s_inbounds := QObj hijack # s_inbounds s\<rparr> else s);
          c = prepend_rule redirect ((action_rule ''sniff'' [''hijack''])\<lparr>r_sniffOverrideDest := True\<rparr>) c;
          s = (if forTest then s
               else s\<lparr>s_inbounds := s_inbounds s @ json_toArray (qat (o_custom_inbound i) ''inbounds'')\<rparr>)
      in (s, c))"

text \<open>The route section; the flag is false after an early return.\<close>

definition sing_box_route ::
  "config_env \<Rightarrow> build_status \<Rightarrow> RoutingChain \<Rightarrow> direct_parts \<Rightarrow> bool \<times> build_status \<times> jobject \<times> direct_parts" where
  "sing_box_route w s c parts =
     (let blockAll = (s_ent s = None); st = w_settings w; r = o_routing st; co = o_core st;
          routeObj = qset_if (o_spmode_vpn (o_in st) \<or> blockAll) ''auto_detect_interface'' (QBool True) []
      in if s_forTest s then (True, s, routeObj, parts)
         else
           (let (c', allRules) = core_route_rules w (\<lambda>_. None) c;
                c = (if o_connection_statistics co then c else c');
                find = (o_connection_statistics co \<or> HasProcessSelectors allRules \<or> HasTunProcessRules r
                        \<or> o_game_mod_enabled_services r \<noteq> []);
                routeObj = qset_if find ''find_process'' (QBool True) routeObj;
                routeObj = qset ''final'' (QStr (outboundIDToString (c_defaultOutboundID c))) routeObj;
                c = prepend_rule (o_domain_strategy r \<noteq> '''')
                      ((action_rule ''resolve'' [''mixed-in'', ''tun-in''])\<lparr>r_strategy := o_domain_strategy r\<rparr>) c;
                c = prepend_rule (o_sniffing_mode r \<noteq> 0) (action_rule ''sniff'' [''mixed-in'', ''tun-in'']) c
            in case needed_outbounds (w_build w) (get_used_outbounds c) s initial_outbounds (p_domains parts) of
                 (False, s, _) \<Rightarrow> (False, s, routeObj, parts)
               | (True, s, outboundMap, domains) \<Rightarrow>
                   (case BuildGameModOutbounds (w_build w) s outboundMap domains of
                      (ok, s, outboundMap, gameModOutbounds, domains) \<Rightarrow>
                        if s_error s \<noteq> '''' then (False, s, routeObj, parts)
                        else
                          (let parts' = parts\<lparr>p_need := p_need parts \<or> length (p_domains parts) < length domains,
                                              p_domains := domains\<rparr>;
                               rules = PrependGameModRules
                                 (GameMod_BuildRules (w_catalog w) (o_game_mod_enabled_services r) gameModOutbounds)
                                 (snd (core_route_rules w outboundMap c));
                               rules = (if o_spmode_vpn (o_in st) then BuildTunProcessRules r @ rules else rules);
                               routeObj = qset ''rules'' (QArr (map QObj rules)) routeObj;
                               hijackGeo = (if o_enable_dns_server co then labelled ''ruleset:'' (o_dns_server_rules co) else []);
                               needed = foldl (\<lambda>xs x. add_unique x xs) (get_used_rule_sets c) hijackGeo;
                               adblock = (if o_adblock_enable co \<and> \<not> blockAll then [''nekobox-adblocksingbox''] else []);
                               sets = filter (\<lambda>j. j \<noteq> []) (map (rule_set_json w) (needed @ adblock))
                           in (True, s, qset ''rule_set'' (QArr (map QObj sets)) routeObj, parts')))))"

definition remote_dns_server :: "config_env \<Rightarrow> entity \<Rightarrow> string \<Rightarrow> jobject" where
  "remote_dns_server w ent tagProxy =
     (if e_type ent = ''tailscale''
      then qobj [(''type'', QStr ''tailscale''), (''tag'', QStr ''dns-remote''), (''endpoint'', QStr ''proxy''),
             (''accept_default_resolvers'', QBool (b_globalDNS (v_bean (w_build w) ent)))]
      else qset ''detour'' (QStr tagProxy) (qset ''domain_resolver'' (QStr ''dns-local'')
             (qset ''tag'' (QStr ''dns-remote'')
               (BuildDnsObject (o_remote_dns (o_routing (w_settings w))) (o_spmode_vpn (o_in (w_settings w)))))))"

definition localhost_rule :: "string \<Rightarrow> string \<Rightarrow> jobject" where
  "localhost_rule query_type answer =
     qobj [(''domain'', QStr ''localhost''), (''action'', QStr ''predefined''), (''query_type'', QStr query_type),
           (''rcode'', QStr ''NOERROR''), (''answer'', QStr answer)]"

definition hijack_dns_rule :: "string list \<Rightarrow> string \<Rightarrow> string \<Rightarrow> jobject" where
  "hijack_dns_rule rules query_type answer =
     qobj [(''rule_set'', strs (labelled ''ruleset:'' rules)), (''domain'', strs (labelled ''domain:'' rules)),
           (''domain_suffix'', strs (labelled ''suffix:'' rules)), (''domain_regex'', strs (labelled ''regex:'' rules)),
           (''query_type'', QStr query_type), (''action'', QStr ''predefined''), (''rcode'', QStr ''NOERROR''),
           (''answer'', QStr answer)]"

definition direct_dns_rule :: "direct_parts \<Rightarrow> jobject" where
  "direct_dns_rule p =
     qobj [(''rule_set'', strs (p_ruleSets p)), (''domain'', strs (p_domains p)), (''domain_suffix'', strs (p_suffixes p)),
           (''domain_keyword'', strs (p_keywords p)), (''domain_regex'', strs (p_regexes p)), (''action'', QStr ''route''),
           (''server'', QStr ''dns-direct'')]"

definition sing_box_dns_servers :: "config_env \<Rightarrow> build_status \<Rightarrow> string \<Rightarrow> jobject list" where
  "sing_box_dns_servers w s tagProxy =
     (let r = o_routing (w_settings w); co = o_core (w_settings w); vpn = o_spmode_vpn (o_in (w_settings w));
          remote = (case s_ent s of None \<Rightarrow> [] | Some ent \<Rightarrow> [remote_dns_server w ent tagProxy]);
          direct_server = qset ''domain_resolver'' (QStr ''dns-local'')
            (qset ''tag'' (QStr ''dns-direct'') (BuildDnsObject (o_direct_dns r) vpn));
          servers = (if o_dns_final_out_direct r then direct_server # remote else remote @ [direct_server]);
          fake = (if o_fake_dns co \<and> s_ent s \<noteq> None
            then [qobj [(''tag'', QStr ''dns-fake''), (''type'', QStr ''fakeip''), (''inet4_range'', QStr ''198.18.0.0/15''),
                    (''inet6_range'', QStr ''fc00::/18'')]] else []);
          underlying = (if o_core_box_underlying_dns co = '''' then ''local'' else o_core_box_underlying_dns co)
      in servers @ fake @ [qset ''tag'' (QStr ''dns-local'') (BuildDnsObject underlying vpn)])"

definition sing_box_dns_rules :: "config_env \<Rightarrow> build_status \<Rightarrow> direct_parts \<Rightarrow> jobject list" where
  "sing_box_dns_rules w s parts =
     (let co = o_core (w_settings w);
          hijack = (o_enable_dns_server co \<and> \<not> s_forTest s \<and> s_ent s \<noteq> None)
      in [localhost_rule ''A'' ''localhost. IN A 127.0.0.1'', localhost_rule ''AAAA'' ''localhost. IN AAAA ::1'']
         @ (if hijack then [hijack_dns_rule (o_dns_server_rules co) ''A'' (''* IN A '' @ o_dns_v4_resp co)] else [])
         @ (if hijack \<and> o_dns_v6_resp co \<noteq> ''''
            then [hijack_dns_rule (o_dns_server_rules co) ''AAAA'' (''* IN AAAA '' @ o_dns_v6_resp co)] else [])
         @ (if o_fake_dns co \<and> s_ent s \<noteq> None
            then [qobj [(''query_type'', strs [''A'', ''AAAA'']), (''action'', QStr ''route''), (''server'', QStr ''dns-fake'')]]
            else [])
         @ (if p_need parts \<and> s_ent s \<noteq> None then [direct_dns_rule parts] else []))"

definition sing_box_dns :: "config_env \<Rightarrow> build_status \<Rightarrow> string \<Rightarrow> direct_parts \<Rightarrow> jobject" where
  "sing_box_dns w s tagProxy parts =
     (let r = o_routing (w_settings w); co = o_core (w_settings w);
          dns = qset_if (o_fake_dns co \<and> s_ent s \<noteq> None) ''independent_cache'' (QBool True) [];
          dns = qset ''servers'' (QArr (map QObj (sing_box_dns_servers w s tagProxy))) dns;
          dns = qset ''rules'' (QArr (map QObj (sing_box_dns_rules w s parts))) dns;
          dns = qset_if (\<not> o_dns_final_out_direct r) ''final'' (QStr ''dns-remote'') dns
      in if o_use_dns_object r then o_dns_object r else dns)"

definition sing_box_experimental :: "config_env \<Rightarrow> build_status \<Rightarrow> jobject" where
  "sing_box_experimental w s =
     (let co = o_core (w_settings w);
          api = (if 0 < o_core_box_clash_api co
            then qobj [(''external_controller'', QStr (o_core_box_clash_listen_addr co @ '':'' @ show_int (o_core_box_clash_api co))),
                   (''secret'', QStr (o_core_box_clash_api_secret co)), (''external_ui'', QStr ''dashboard'')]
            else qobj [(''default_mode'', QStr '''')]);
          cache = qobj [(''enabled'', QBool True), (''path'', QStr (w_serverName w @ (if s_forTest s then ''-test.db'' else ''-core.db''))),
            (''store_fakeip'', QBool True), (''store_rdrc'', QBool True)]
      in qset_if (s_ent s \<noteq> None) ''cache_file'' (QObj cache)
           (qset_if (\<not> s_forTest s \<and> (0 < o_core_box_clash_api co \<or> o_connection_statistics co)) ''clash_api'' (QObj api) []))"

text \<open>The second half, and the whole.\<close>

definition sing_box_finish :: "config_env \<Rightarrow> build_status \<Rightarrow> jobject \<Rightarrow> string \<Rightarrow> direct_parts \<Rightarrow> build_status" where
  "sing_box_finish w s routeObj tagProxy parts =
     (let r = o_routing (w_settings w); co = o_core (w_settings w);
          routeObj = qset ''default_domain_resolver'' (QObj (qobj [(''server'', QStr ''dns-direct''),
            (''strategy'', QStr (o_outbound_domain_strategy r))])) routeObj;
          dns_in = qobj [(''tag'', QStr ''dns-in''), (''type'', QStr ''direct''),
            (''listen'', QStr (if o_dns_server_listen_lan co then ''0.0.0.0'' else ''127.1.1.1'')),
            (''listen_port'', QNum (o_dns_server_listen_port co))];
          s = (if o_enable_dns_server co \<and> \<not> s_forTest s \<and> s_ent s \<noteq> None
               then s\<lparr>s_inbounds := QObj dns_in # s_inbounds s\<rparr> else s);
          experimental = sing_box_experimental w s;
          config = foldl (\<lambda>obj (k, v). qset k v obj) (s_coreConfig s)
            [(''log'', QObj (qobj [(''level'', QStr (o_log_level co))])),
             (''certificate'', QObj (qobj [(''store'', QStr (if o_use_mozilla_certs co then ''mozilla'' else ''system''))])),
             (''dns'', QObj (sing_box_dns w s tagProxy parts)), (''inbounds'', QArr (s_inbounds s)),
             (''outbounds'', QArr (s_outbounds s)), (''endpoints'', QArr (s_endpoints s)), (''route'', QObj routeObj)]
      in s\<lparr>s_coreConfig := qset_if (experimental \<noteq> []) ''experimental'' (QObj experimental) config\<rparr>)"

definition sing_box_from :: "config_env \<Rightarrow> build_status \<Rightarrow> RoutingChain \<Rightarrow> string \<Rightarrow> direct_parts \<Rightarrow> build_status" where
  "sing_box_from w s c tagProxy parts =
     (let (s, c) = sing_box_inbounds w s c parts
      in case sing_box_route w s c parts of
           (False, s, _) \<Rightarrow> s
         | (True, s, routeObj, parts) \<Rightarrow> sing_box_finish w s routeObj tagProxy parts)"

definition BuildConfigSingBox :: "config_env \<Rightarrow> build_status \<Rightarrow> build_status" where
  "BuildConfigSingBox w s =
     (case choose_route_chain w (s_ent s) of
        None \<Rightarrow> s\<lparr>s_error := ''Routing profile does not exist, try resetting the route profile in Routing Settings''\<rparr>
      | Some routeChain \<Rightarrow>
          (let c = copy_RoutingChain routeChain
           in case s_ent s of
                None \<Rightarrow> sing_box_from w s c ''block'' no_parts
              | Some ent \<Rightarrow>
                  (let (s, tagProxy) = BuildChain (w_build w) (s_chainID s) ent s
                   in if s_error s \<noteq> '''' then s
                      else let (s, c) = add_extra_core w ent s c
                           in sing_box_from w s c tagProxy (direct_lists (s_domainListDNSDirect s) c))))"

section \<open>Full configurations and tests\<close>

definition new_status :: "entity option \<Rightarrow> (int \<Rightarrow> traffic_tag) \<Rightarrow> bool \<Rightarrow> int \<Rightarrow> build_status" where
  "new_status ent traffic forTest chainID =
     \<lparr> s_error = '''', s_coreConfig = [], s_extraCore = None, s_outboundStats = [], s_traffic = traffic, s_ent = ent,
       s_chainID = chainID, s_routeID = 0, s_forTest = forTest, s_domainListDNSDirect = [], s_inbounds = [],
       s_outbounds = [], s_endpoints = [] \<rparr>"

definition full_config_inbounds :: "config_env \<Rightarrow> build_status \<Rightarrow> build_status" where
  "full_config_inbounds w s =
     (let st = w_settings w; i = o_in st; n = v_net (w_build w);
          mixed = (if IsValidPort (o_inbound_socks_port i) \<and> (proxyInboundEnabled i \<or> o_spmode_packet_filter i)
            then [QObj (mixed_inbound i)] else []);
          finish = (\<lambda>inbounds s. if inbounds = [] then s
            else s\<lparr>s_coreConfig := qset ''inbounds'' (QArr inbounds) (s_coreConfig s)\<rparr>)
      in if o_spmode_vpn i
         then (case BuildNekoboxTunRulesForFullConfig w s (s_coreConfig s) of
                 (s, config, nekoboxTunRules) \<Rightarrow>
                   if s_error s \<noteq> '''' then s\<lparr>s_coreConfig := config\<rparr>
                   else (let excludes = CollectTunRouteExcludesForFullConfig n config;
                             tun = QObj (BuildTunInbound (w_windows w) st [] excludes False);
                             config = AddTunRuntimeRules st config excludes (map QObj nekoboxTunRules)
                         in finish (mixed @ [tun]) (s\<lparr>s_coreConfig := config\<rparr>)))
         else finish mixed s)"

definition BuildConfig :: "config_env \<Rightarrow> (int \<Rightarrow> traffic_tag) \<Rightarrow> entity option \<Rightarrow> bool \<Rightarrow> int \<Rightarrow> build_status" where
  "BuildConfig w traffic ent forTest chainID =
     (let s = new_status ent traffic forTest chainID; n = v_net (w_build w)
      in case ent of
           None \<Rightarrow> BuildConfigSingBox w s
         | Some e \<Rightarrow>
             (let bean = v_bean (w_build w) e
              in if e_type e \<noteq> ''custom'' then BuildConfigSingBox w s
                 else let full = (b_core bean = ''internal-full'');
                          config = ResolveFullConfigOutboundServersForRuntime n
                            (NormalizeFullConfigDnsForRuntime n (w_settings w) (b_config_simple bean));
                          s = (if \<not> full then BuildConfigSingBox w s
                               else if forTest then s\<lparr>s_coreConfig := config\<rparr>
                               else full_config_inbounds w (s\<lparr>s_coreConfig := config\<rparr>))
                      in if full \<and> s_error s \<noteq> '''' then s
                         else s\<lparr>s_coreConfig := MergeJson (b_custom_config bean) (s_coreConfig s)\<rparr>))"

record test_config =
  bt_error :: string
  bt_fullConfigs :: "(int \<times> string) list"
  bt_tag2entID :: "(string \<times> int) list"
  bt_coreConfig :: jobject
  bt_outboundTags :: "string list"

text \<open>The outbounds of a full configuration under test, and the tag of the first that is a proxy.\<close>

fun test_outbounds :: "net \<Rightarrow> json list \<Rightarrow> string \<Rightarrow> json list \<times> string" where
  "test_outbounds n [] testTag = ([], testTag)"
| "test_outbounds n (x # xs) testTag =
     (let ob = qref ''tag'' (qref ''type'' (qremove ''domain_resolver'' (json_toObject x)));
          t = text_at ob ''type''; tag = text_at ob ''tag''; is_proxy = (t \<noteq> ''direct'' \<and> t \<noteq> ''block'' \<and> t \<noteq> ''dns'');
          hit = (testTag = '''' \<and> is_proxy);
          tag = (if hit \<and> tag = '''' then ''proxy'' else tag);
          ob = (if hit \<and> text_at ob ''tag'' = '''' then qset ''tag'' (QStr tag) ob else ob);
          ob = (if is_proxy then ResolveOutboundServerForTestConfig n ob else ob);
          (obs, final) = test_outbounds n xs (if hit then tag else testTag)
      in (QObj ob # obs, final))"

definition full_test_config :: "net \<Rightarrow> jobject \<Rightarrow> jobject" where
  "full_test_config n config =
     (let dnsLocal = qset ''tag'' (QStr ''dns-local'') (BuildDnsObject ''local'' False);
          (outbounds, testTag) = test_outbounds n (json_toArray (qat config ''outbounds'')) '''';
          route = qremove ''rules'' (json_toObject (qat config ''route''));
          route = qset_if (testTag \<noteq> '''') ''final'' (QStr testTag) route;
          route = qset ''default_domain_resolver'' (QObj (qobj [(''server'', QStr ''dns-local'')])) route
      in qset ''route'' (QObj route) (qset ''outbounds'' (QArr outbounds)
           (qset ''dns'' (QObj (qobj [(''servers'', QArr [QObj dnsLocal])])) (qset ''inbounds'' (QArr []) config))))"

definition endpoint_type :: "jobject \<Rightarrow> bool" where
  "endpoint_type ob \<longleftrightarrow> text_at ob ''type'' \<in> {''wireguard'', ''tailscale'', ''awg''}"

text \<open>The outbounds of one profile join those of the test; its own gets a number.\<close>

fun add_test_outbounds ::
  "nat \<Rightarrow> int \<Rightarrow> json list \<Rightarrow> json list \<Rightarrow> json list \<Rightarrow> test_config \<Rightarrow> json list \<times> json list \<times> test_config" where
  "add_test_outbounds index entID [] outs ends res = (outs, ends, res)"
| "add_test_outbounds index entID (x # xs) outs ends res =
     (let outbound = qref ''tag'' (json_toObject x); tag = text_at outbound ''tag''
      in if tag = ''direct'' \<or> tag = ''block'' \<or> tag = ''dns-out'' \<or> prefix ''rout'' tag
         then add_test_outbounds index entID xs outs ends res
         else let tag' = (if tag = ''proxy'' \<and> 1 < index then tag @ show_nat index else tag);
                  outbound = (if tag = ''proxy'' then qset ''tag'' (QStr tag') outbound else outbound);
                  res = (if tag = ''proxy''
                    then res\<lparr>bt_outboundTags := bt_outboundTags res @ [tag'], bt_tag2entID := qset tag' entID (bt_tag2entID res)\<rparr>
                    else res)
              in if endpoint_type outbound then add_test_outbounds index entID xs outs (ends @ [QObj outbound]) res
                 else add_test_outbounds index entID xs (outs @ [QObj outbound]) ends res)"

definition test_domains :: "jobject \<Rightarrow> json list" where
  "test_domains config =
     concat (map (\<lambda>rule. json_toArray (qat (json_toObject rule) ''domain''))
       (json_toArray (qat (json_toObject (qat config ''dns'')) ''rules'')))"

record test_build =
  z_index :: nat
  z_outbounds :: "json list"
  z_endpoints :: "json list"
  z_domains :: "json list"
  z_invalid :: "int list"
  z_result :: test_config

text \<open>The loop over the profiles; the flag is false after an early return. The parameters are the
  answer of \<open>IsValid\<close>, the result of \<open>BuildConfig\<close> for the profile and the text of a
  configuration.\<close>

fun test_loop ::
  "config_env \<Rightarrow> (entity \<Rightarrow> bool) \<Rightarrow> (entity \<Rightarrow> nat \<Rightarrow> build_status) \<Rightarrow> (jobject \<Rightarrow> string) \<Rightarrow> entity list \<Rightarrow> test_build
   \<Rightarrow> bool \<times> test_build" where
  "test_loop w valid build print [] z = (True, z)"
| "test_loop w valid build print (item # items) z =
     (let bean = v_bean (w_build w) item; n = v_net (w_build w)
      in if e_type item = ''extracore'' then test_loop w valid build print items z
         else if \<not> valid item then test_loop w valid build print items (z\<lparr>z_invalid := z_invalid z @ [e_id item]\<rparr>)
         else
           (let index = Suc (z_index z); res = build item index; config = s_coreConfig res; z = z\<lparr>z_index := index\<rparr>; r = z_result z
            in if s_error res \<noteq> '''' then (False, z\<lparr>z_result := r\<lparr>bt_error := s_error res\<rparr>\<rparr>)
               else if e_type item = ''custom'' \<and> b_core bean = ''internal-full''
               then test_loop w valid build print items
                      (z\<lparr>z_result := r\<lparr>bt_fullConfigs := qset (e_id item) (print (full_test_config n config)) (bt_fullConfigs r)\<rparr>\<rparr>)
               else
                 (let r = (if bt_coreConfig r = [] then r\<lparr>bt_coreConfig := config\<rparr> else r);
                      outbounds = json_toArray (qat config ''outbounds'')
                  in if outbounds = []
                     then (False, z\<lparr>z_domains := z_domains z @ test_domains config,
                                    z_result := r\<lparr>bt_error := ''outbounds is empty for '' @ e_name item\<rparr>\<rparr>)
                     else
                       (let (outs, ends, r) = add_test_outbounds index (e_id item)
                              (outbounds @ json_toArray (qat config ''endpoints'')) (z_outbounds z) (z_endpoints z) r
                        in test_loop w valid build print items
                             (z\<lparr>z_outbounds := outs, z_endpoints := ends, z_domains := z_domains z @ test_domains config,
                                z_result := r\<rparr>)))))"

definition new_test_build :: test_build where
  "new_test_build =
     \<lparr> z_index = 0, z_outbounds = [QObj (qobj [(''type'', QStr ''direct''), (''tag'', QStr ''direct'')])], z_endpoints = [],
       z_domains = [], z_invalid = [],
       z_result = \<lparr> bt_error = '''', bt_fullConfigs = [], bt_tag2entID = [], bt_coreConfig = [], bt_outboundTags = [] \<rparr> \<rparr>"

text \<open>\<open>BuildTestConfig\<close>: the result, and the profiles that were invalid, whose latency becomes
  \<open>-1\<close>.\<close>

definition BuildTestConfig ::
  "config_env \<Rightarrow> (entity \<Rightarrow> bool) \<Rightarrow> (entity \<Rightarrow> nat \<Rightarrow> build_status) \<Rightarrow> (jobject \<Rightarrow> string) \<Rightarrow> entity list
   \<Rightarrow> test_config \<times> int list" where
  "BuildTestConfig w valid build print profiles =
     (case test_loop w valid build print profiles new_test_build of
        (False, z) \<Rightarrow> (z_result z, z_invalid z)
      | (True, z) \<Rightarrow>
          (let r = z_result z;
               config = qset ''endpoints'' (QArr (z_endpoints z)) (qset ''outbounds'' (QArr (z_outbounds z)) (bt_coreConfig r));
               rule = [QObj (qobj [(''domain'', QArr (z_domains z)), (''action'', QStr ''route''), (''server'', QStr ''dns-direct'')])];
               dns = qset ''rules'' (QArr (if z_domains z = [] then [] else rule)) (json_toObject (qat config ''dns''));
               resolver = qobj [(''server'', QStr ''dns-direct''),
                 (''strategy'', QStr (o_outbound_domain_strategy (o_routing (w_settings w))))];
               route = qobj [(''auto_detect_interface'', QBool True), (''default_domain_resolver'', QObj resolver)]
           in (r\<lparr>bt_coreConfig := qset ''route'' (QObj route) (qset ''dns'' (QObj dns) config)\<rparr>, z_invalid z)))"

end
