(* ===== verification/Config_Links.thy ===== *)
theory Config_Links
  imports Config_Builder
begin

text \<open>
  The links inside a built configuration: traffic dials through the hops of a chain in order, no
  two outbounds share a tag, and every name by which one part of the configuration refers to an
  outbound is the tag of one.
\<close>

section \<open>The hops of a start\<close>

definition hops_of :: "build_env \<Rightarrow> entity \<Rightarrow> entity list" where
  "hops_of v ent =
     (if e_type ent = ''chain'' then List.map_filter (v_profile v) (rev (b_list (v_bean v ent))) else [ent])"

definition extra_of :: "build_env \<Rightarrow> int \<Rightarrow> entity list" where
  "extra_of v i = (if i < 0 then [] else case v_profile v i of None \<Rightarrow> [] | Some e \<Rightarrow> hops_of v e)"

definition start_hops :: "build_env \<Rightarrow> group \<Rightarrow> entity \<Rightarrow> entity list" where
  "start_hops v grp ent = extra_of v (g_landing_proxy_id grp) @ hops_of v ent @ extra_of v (g_front_proxy_id grp)"

lemma resolve_members_ok:
  "snd (resolve_members pm ids) = '''' \<longleftrightarrow> (\<forall>e\<in>set (List.map_filter pm ids). e_type e \<noteq> ''chain'')"
  "snd (resolve_members pm ids) = '''' \<Longrightarrow> fst (resolve_members pm ids) = List.map_filter pm ids"
  by (induction ids) (auto simp: map_filter_simps split_beta split: option.split)

lemma ResolveChain_error: "s_error (fst (ResolveChainInternal v e s)) = '''' \<Longrightarrow> s_error s = ''''"
  by (auto simp: ResolveChainInternal_def split_beta split: if_splits)

lemma ResolveChain_ok:
  assumes "s_error (fst (ResolveChainInternal v e s)) = ''''"
  shows "ResolveChainInternal v e s = (s, hops_of v e)"
  using assms resolve_members_ok(2) [of "v_profile v" "rev (b_list (v_bean v e))"]
  by (auto simp: ResolveChainInternal_def hops_of_def split_beta split: if_splits)

lemma extra_hops_ok:
  assumes "s_error (fst (extra_hops v m i s)) = ''''" and "m \<noteq> ''''"
  shows "extra_hops v m i s = (s, extra_of v i)"
proof (cases "v_profile v i")
  case (Some e)
  then show ?thesis using ResolveChain_ok [of v e s] assms by (auto simp: extra_hops_def extra_of_def split: if_splits)
qed (use assms in \<open>auto simp: extra_hops_def extra_of_def split: if_splits\<close>)

lemma BuildChain_ok:
  assumes "BuildChain v cid ent s = (s', tag)" and "s_error s' = ''''"
  obtains grp where "v_group v (e_gid ent) = Some grp"
    and "tag = snd (BuildChainInternal v cid (start_hops v grp ent) None s)"
    and "s_outbounds s' = s_outbounds (fst (BuildChainInternal v cid (start_hops v grp ent) None s))"
    and "s_endpoints s' = s_endpoints (fst (BuildChainInternal v cid (start_hops v grp ent) None s))"
    and "s_error (fst (BuildChainInternal v cid (start_hops v grp ent) None s)) = ''''"
    and "s_ent s' = s_ent s" "s_forTest s' = s_forTest s" "s_chainID s' = s_chainID s" "s_routeID s' = s_routeID s"
      "s_inbounds s' = s_inbounds s" "s_coreConfig s' = s_coreConfig s"
proof -
  obtain grp where g: "v_group v (e_gid ent) = Some grp" using assms by (auto simp: BuildChain_def split: option.splits)
  let ?l = "extra_hops v ''landing proxy ent not found.'' (g_landing_proxy_id grp) s"
  have l: "s_error (fst ?l) = ''''" using assms g by (auto simp: BuildChain_def split_beta Let_def split: if_splits)
  note L = extra_hops_ok [OF l]
  let ?o = "ResolveChainInternal v ent s"
  have o: "s_error (fst ?o) = ''''" using assms g l L by (auto simp: BuildChain_def split_beta Let_def split: if_splits)
  note O' = ResolveChain_ok [OF o]
  let ?f = "extra_hops v ''front proxy ent not found.'' (g_front_proxy_id grp) s"
  have f: "s_error (fst ?f) = ''''" using assms g l L o O' by (auto simp: BuildChain_def split_beta Let_def split: if_splits)
  note F = extra_hops_ok [OF f]
  have e: "s_error s = ''''" using l L by simp
  let ?b = "BuildChainInternal v cid (start_hops v grp ent) None s"
  have "tag = snd ?b \<and> s_outbounds s' = s_outbounds (fst ?b) \<and> s_endpoints s' = s_endpoints (fst ?b) \<and> s_error (fst ?b) = s_error s'
      \<and> s_ent s' = s_ent (fst ?b) \<and> s_forTest s' = s_forTest (fst ?b) \<and> s_chainID s' = s_chainID (fst ?b)
      \<and> s_routeID s' = s_routeID (fst ?b) \<and> s_inbounds s' = s_inbounds (fst ?b) \<and> s_coreConfig s' = s_coreConfig (fst ?b)"
    using assms(1) g L O' F e
    by (auto simp: BuildChain_def start_hops_def split_beta Let_def split: if_splits)
  with that g assms(2) chain_loop_fields [of v "hop_tag cid None" "nestedMtu v (start_hops v grp ent)" 0 None False "start_hops v grp ent" s]
  show ?thesis by (simp add: BuildChainInternal_def)
qed

section \<open>Properties of chains\<close>

text \<open>C16. A started profile dials through its hops in order: following the detours from the
  outbound \<open>proxy\<close> meets the hops of the landing proxy, of the profile (a chain from its last
  member to its first) and of the front proxy, one outbound each; and the outbound of a hop is
  the object its protocol builds, with the profile's own changes, except for the keys the builder
  writes.\<close>

theorem start_dials_through_hops:
  assumes "BuildChain v cid ent s = (s', tag)" and "s_error s' = ''''" and "s_outbounds s = []" and "s_endpoints s = []"
    and "v_group v (e_gid ent) = Some grp" and "start_hops v grp ent \<noteq> []"
    and "\<forall>e\<in>set (start_hops v grp ent). keeps_links (v_bean v e)"
  shows "let hops = start_hops v grp ent; objs = s_outbounds s' @ s_endpoints s'
    in tag = ''proxy'' \<and> dial_path (length hops) objs ''proxy'' = tags_from (hop_tag cid None) 0 hops
       \<and> length objs = length hops
       \<and> (\<forall>i<length hops. \<exists>j. find (\<lambda>j. tag_of j = hop_tag cid None i (hops ! i)) objs = Some j
            \<and> (\<forall>k. k \<notin> builder_keys \<longrightarrow> qat (json_toObject j) k
                 = qat (MergeJson (b_custom_outbound (v_bean v (hops ! i))) (b_outbound (v_bean v (hops ! i)))) k))"
proof -
  let ?hops = "start_hops v grp ent" and ?b = "BuildChainInternal v cid (start_hops v grp ent) None s"
  from BuildChain_ok [OF assms(1,2)] assms(5)
  have tag: "tag = snd ?b" and o: "s_outbounds s' = s_outbounds (fst ?b)" "s_endpoints s' = s_endpoints (fst ?b)"
    and ok0: "s_error (fst ?b) = ''''" by (auto elim!: BuildChain_ok)
  have ok: "\<forall>e\<in>set ?hops. outbound_ok v (s_forTest s) e \<and> keeps_links (v_bean v e)"
    using ok0 assms(7) by (simp add: BuildChainInternal_ok)
  have old: "\<forall>j\<in>set (s_outbounds s @ s_endpoints s). \<forall>i e. tag_of j \<noteq> hop_tag cid None i e" by (simp add: assms)
  have t: "hop_tag cid None 0 (hd ?hops) = ''proxy''" by (simp add: hop_tag_def)
  have "tag = ''proxy''" using tag assms(6) by (cases ?hops) (simp_all add: BuildChainInternal_def hop_tag_def)
  moreover have "dial_path (length ?hops) (s_outbounds s' @ s_endpoints s') ''proxy'' = tags_from (hop_tag cid None) 0 ?hops"
    using chain_path [OF ok old assms(6)] by (simp add: o t)
  moreover have "length (s_outbounds s' @ s_endpoints s') = length ?hops"
  proof -
    have "length (of_kind False xs) + length (of_kind True xs) = length xs" for xs
      using sum_length_filter_compl [of "\<lambda>x. \<not> fst x" xs] by (simp add: of_kind_def split_def)
    then show ?thesis using assms(3,4) by (simp add: o BuildChainInternal_objects chain_objects_def)
  qed
  moreover have "\<exists>j. find (\<lambda>j. tag_of j = hop_tag cid None i (?hops ! i)) (s_outbounds s' @ s_endpoints s') = Some j
      \<and> (\<forall>k. k \<notin> builder_keys \<longrightarrow> qat (json_toObject j) k
           = qat (MergeJson (b_custom_outbound (v_bean v (?hops ! i))) (b_outbound (v_bean v (?hops ! i)))) k)"
    if "i < length ?hops" for i
    using chain_find [OF ok old that] that ok
      hop_objects_protocol [of ?hops v s i _ "hop_tag cid None" "nestedMtu v ?hops" 0 None]
    by (auto simp: o chain_objects_def)
  ultimately show ?thesis by (simp add: Let_def)
qed

text \<open>A profile behind a front proxy, for the witnesses.\<close>

definition sample_bean :: "jobject \<Rightarrow> bean" where
  "sample_bean outbound =
     \<lparr> b_outbound = outbound, b_error = '''', b_IsEndpoint = False, b_custom_outbound = [], b_custom_config = [],
       b_mux_state = 0, b_enable_brutal = False, b_brutal_speed = 0, b_stream = None, b_list = [], b_core = '''',
       b_config_simple = [], b_MTU = 1420, b_transport_packet_junk_size = 0, b_useSystemInterface = False,
       b_globalDNS = False, b_extraCorePath = '''', b_extraCoreArgs = '''', b_extraCoreConf = '''', b_noLogs = False \<rparr>"

definition hop_profile :: "int \<Rightarrow> entity" where
  "hop_profile i = (NewProxyEntity ''socks'')\<lparr>e_id := i, e_gid := 1\<rparr>"

definition hop_env :: build_env where
  "hop_env =
     \<lparr> v_settings = default_settings,
       v_net = \<lparr> n_is_ip4 = (\<lambda>s. s = ''127.0.0.1''), n_is_ip6 = (\<lambda>_. False), n_getaddrinfo = (\<lambda>_. '''') \<rparr>,
       v_profile = (\<lambda>i. if i = 7 \<or> i = 8 then Some (hop_profile i) else None),
       v_group = (\<lambda>_. Some (NewGroup\<lparr>g_id := 1, g_front_proxy_id := 8\<rparr>)),
       v_bean = (\<lambda>e. sample_bean [(''server'', QStr (e_serverAddress e)), (''type'', QStr ''socks'')]),
       v_IsAdmin = False \<rparr>"

definition no_traffic :: "int \<Rightarrow> traffic_tag" where
  "no_traffic i = \<lparr> tt_id = -1, tt_tag = '''', tt_isChainTail = False, tt_ignoreForRate = False \<rparr>"

lemma sample_hops:
  "start_hops hop_env (NewGroup\<lparr>g_id := 1, g_front_proxy_id := 8\<rparr>) (hop_profile 7) = [hop_profile 7, hop_profile 8]"
  by (simp add: start_hops_def extra_of_def hops_of_def hop_env_def hop_profile_def NewProxyEntity_def NewGroup_def)

lemma sample_links: "keeps_links (v_bean hop_env e)" "outbound_ok hop_env b (hop_profile i)"
  by (simp_all add: keeps_links_def hop_env_def sample_bean_def text_at_def qat_def outbound_ok_def is_wg_def
      hop_profile_def NewProxyEntity_def)

lemma sample_start_ok:
  "s_error (fst (BuildChain hop_env cid (hop_profile 7) (new_status (Some (hop_profile 7)) no_traffic b cid))) = ''''"
proof -
  have v: "v_group hop_env = (\<lambda>_. Some (NewGroup\<lparr>g_id := 1, g_front_proxy_id := 8\<rparr>))"
    "v_profile hop_env 8 = Some (hop_profile 8)" by (simp_all add: hop_env_def)
  have t: "e_type (hop_profile i) = ''socks''" for i by (simp add: hop_profile_def NewProxyEntity_def)
  show ?thesis
    by (simp add: BuildChain_def v extra_hops_def ResolveChainInternal_def t NewGroup_def new_status_def Let_def split_beta
        BuildChainInternal_ok sample_links)
qed

theorem start_dials_through_hops_witness:
  "let s = new_status (Some (hop_profile 7)) no_traffic False 0; s' = fst (BuildChain hop_env 0 (hop_profile 7) s)
   in dial_path 2 (s_outbounds s' @ s_endpoints s') ''proxy'' = [''proxy'', ''c-0-8-1'']"
proof -
  let ?s = "new_status (Some (hop_profile 7)) no_traffic False 0"
  have tags: "tags_from (hop_tag 0 None) 0 [hop_profile 7, hop_profile 8] = [''proxy'', ''c-0-8-1'']"
  proof -
    have "show_int 0 = ''0''" "show_int 8 = ''8''" "show_nat (Suc 0) = ''1''" by code_simp+
    then show ?thesis by (simp add: hop_tag_def chain_tag_def hop_profile_def)
  qed
  let ?g = "NewGroup\<lparr>g_id := 1, g_front_proxy_id := 8\<rparr>"
  have g: "v_group hop_env (e_gid (hop_profile 7)) = Some ?g" by (simp add: hop_env_def)
  have n: "s_outbounds ?s = []" "s_endpoints ?s = []" by (simp_all add: new_status_def)
  have "\<forall>e\<in>set (start_hops hop_env ?g (hop_profile 7)). keeps_links (v_bean hop_env e)" by (simp add: sample_links)
  from start_dials_through_hops [OF prod.collapse [symmetric] sample_start_ok [of 0 False] n g _ this]
  have "let objs = s_outbounds (fst (BuildChain hop_env 0 (hop_profile 7) ?s)) @ s_endpoints (fst (BuildChain hop_env 0 (hop_profile 7) ?s))
      in dial_path (length [hop_profile 7, hop_profile 8]) objs ''proxy'' = tags_from (hop_tag 0 None) 0 [hop_profile 7, hop_profile 8]"
    unfolding sample_hops Let_def by blast
  moreover have "length [hop_profile 7, hop_profile 8] = 2" by simp
  ultimately show ?thesis unfolding Let_def tags by (simp only: simp_thms)
qed

section \<open>Tags and detours of a configuration\<close>

definition objects :: "build_status \<Rightarrow> json list" where
  "objects s = s_outbounds s @ s_endpoints s"

definition tags :: "build_status \<Rightarrow> string set" where
  "tags s = tag_of ` set (objects s)"

text \<open>Tags are different, every detour is a tag, and the numbers still to come are not in use.\<close>

definition wired :: "build_status \<Rightarrow> bool" where
  "wired s \<longleftrightarrow> distinct (map tag_of (objects s)) \<and> (\<forall>j\<in>set (objects s). detour_of j = '''' \<or> detour_of j \<in> tags s)
     \<and> 0 \<le> s_routeID s \<and> (\<forall>t\<in>tags s. \<forall>r\<ge>s_routeID s. \<forall>i e. t \<noteq> hop_tag (s_chainID s) (Some r) i e)"

lemma objects_chain:
  "mset (objects (fst (BuildChainInternal v cid ents sfx s))) = mset (objects s) + mset (map snd (chain_objects v cid sfx s ents))"
proof -
  have "mset (of_kind False xs) + mset (of_kind True xs) = mset (map snd xs)" for xs :: "(bool \<times> json) list"
    by (induction xs) (auto simp: of_kind_def)
  from this [of "chain_objects v cid sfx s ents"] show ?thesis
    by (simp add: objects_def BuildChainInternal_objects)
qed

lemma detours_from_mem: "d \<in> set (detours_from tagf index es) \<Longrightarrow> d = '''' \<or> d \<in> set (tags_from tagf index es)"
proof (induction es arbitrary: index)
  case (Cons e es)
  then show ?case by (cases es) auto
qed simp

lemma detours_from_later: "d \<in> set (detours_from tagf index es) \<Longrightarrow> d = '''' \<or> (\<exists>i>index. \<exists>e. d = tagf i e)"
proof (induction es arbitrary: index)
  case (Cons e es)
  then show ?case by (cases es) (auto dest: Suc_lessD)
qed simp

lemma chain_tags:
  assumes "\<forall>e\<in>set ents. outbound_ok v (s_forTest s) e \<and> keeps_links (v_bean v e)"
    and "distinct (map tag_of (objects s))" and "\<forall>j\<in>set (objects s). detour_of j = '''' \<or> detour_of j \<in> tags s"
    and "\<forall>t\<in>tags s. \<forall>i e. t \<noteq> hop_tag cid sfx i e"
  defines "s' \<equiv> fst (BuildChainInternal v cid ents sfx s)"
  shows "distinct (map tag_of (objects s'))" and "tags s' = tags s \<union> set (tags_from (hop_tag cid sfx) 0 ents)"
    and "\<forall>j\<in>set (objects s'). detour_of j = '''' \<or> detour_of j \<in> tags s'"
proof -
  let ?js = "map snd (chain_objects v cid sfx s ents)"
  note m = objects_chain [of v cid ents sfx s, folded s'_def]
  have T: "map tag_of ?js = tags_from (hop_tag cid sfx) 0 ents" and D: "map detour_of ?js = detours_from (hop_tag cid sfx) 0 ents"
    using chain_objects_links [OF assms(1)] by simp_all
  have set: "set (objects s') = set (objects s) \<union> set ?js" using arg_cong [OF m, of set_mset] by simp
  show tags: "tags s' = tags s \<union> set (tags_from (hop_tag cid sfx) 0 ents)"
    using arg_cong [OF T, of set] by (simp add: tags_def set image_Un image_image)
  have "mset (map tag_of (objects s')) = mset (map tag_of (objects s) @ map tag_of ?js)"
    by (simp only: mset_map m mset_append image_mset_union)
  then have "distinct (map tag_of (objects s')) \<longleftrightarrow> distinct (map tag_of (objects s) @ map tag_of ?js)"
    by (rule mset_eq_imp_distinct_iff)
  also have "\<dots>" unfolding T using assms(2,4) tags_from_distinct by (fastforce simp: tags_def dest: tags_from_mem)
  finally show "distinct (map tag_of (objects s'))" .
  show "\<forall>j\<in>set (objects s'). detour_of j = '''' \<or> detour_of j \<in> tags s'"
  proof
    fix j
    assume "j \<in> set (objects s')"
    then consider "j \<in> set (objects s)" | "j \<in> set ?js" using set by blast
    then show "detour_of j = '''' \<or> detour_of j \<in> tags s'"
    proof cases
      case 2
      then have "detour_of j \<in> set (map detour_of ?js)" unfolding set_map by (rule imageI)
      then show ?thesis using detours_from_mem tags unfolding D by blast
    qed (use assms(3) tags in blast)
  qed
qed

text \<open>A routing outbound keeps the wiring, and its tag is in place.\<close>

definition linked_profiles :: "build_env \<Rightarrow> bool" where
  "linked_profiles v \<longleftrightarrow> (\<forall>i e. v_profile v i = Some e \<longrightarrow> keeps_links (v_bean v e) \<and> hops_of v e \<noteq> [])"

lemma hops_linked:
  assumes "linked_profiles v" and "keeps_links (v_bean v e)" and "h \<in> set (hops_of v e)"
  shows "keeps_links (v_bean v h)"
proof (cases "e_type e = ''chain''")
  case True
  with assms(3) obtain i where "v_profile v i = Some h" by (auto simp: hops_of_def map_filter_def)
  with assms(1) show ?thesis unfolding linked_profiles_def by blast
next
  case False
  with assms(2,3) show ?thesis by (simp add: hops_of_def)
qed

lemma BuildChainInternal_fields [simp]:
  "s_routeID (fst (BuildChainInternal v cid ents sfx s)) = s_routeID s" "s_chainID (fst (BuildChainInternal v cid ents sfx s)) = s_chainID s"
  "s_forTest (fst (BuildChainInternal v cid ents sfx s)) = s_forTest s" "s_ent (fst (BuildChainInternal v cid ents sfx s)) = s_ent s"
  "s_inbounds (fst (BuildChainInternal v cid ents sfx s)) = s_inbounds s"
  "s_coreConfig (fst (BuildChainInternal v cid ents sfx s)) = s_coreConfig s"
  using chain_loop_fields [of v "hop_tag cid sfx" "nestedMtu v ents" 0 None False ents s] by (simp_all add: BuildChainInternal_def)

lemma route_chain_outbound_wired:
  assumes r: "route_chain_outbound v e s = (s', t)" and ok: "s_error s' = ''''" and w: "wired s"
    and l: "linked_profiles v" "keeps_links (v_bean v e)" "hops_of v e \<noteq> []"
  shows "wired s'" and "tags s \<subseteq> tags s'" and "\<exists>tag\<in>tags s'. t = Some tag \<and> tag \<noteq> ''''"
    and "s_chainID s' = s_chainID s \<and> s_forTest s' = s_forTest s \<and> s_ent s' = s_ent s \<and> s_inbounds s' = s_inbounds s
      \<and> s_coreConfig s' = s_coreConfig s" and "s_error s = ''''"
proof -
  let ?b = "BuildChainInternal v (s_chainID s) (hops_of v e) (Some (s_routeID s)) s"
  have e0: "s_error (fst (ResolveChainInternal v e s)) = ''''"
    using r ok by (auto simp: route_chain_outbound_def split_beta Let_def split: if_splits)
  note R = ResolveChain_ok [OF e0]
  have s': "s' = (fst ?b)\<lparr>s_routeID := s_routeID s + 1\<rparr>" and t: "t = Some (snd ?b)"
    using r R e0 by (auto simp: route_chain_outbound_def split_beta Let_def)
  have ok': "\<forall>h\<in>set (hops_of v e). outbound_ok v (s_forTest s) h \<and> keeps_links (v_bean v h)" and "s_error s = ''''"
    using ok hops_linked [OF l(1,2)] by (auto simp: s' BuildChainInternal_ok)
  then show "s_error s = ''''" by simp
  have o: "objects s' = objects (fst ?b)" and tg: "tags s' = tags (fst ?b)" by (simp_all add: s' objects_def tags_def)
  have fresh: "\<forall>t\<in>tags s. \<forall>i e. t \<noteq> hop_tag (s_chainID s) (Some (s_routeID s)) i e" using w by (auto simp: wired_def)
  note C = chain_tags [OF ok' _ _ fresh]
  have w1: "distinct (map tag_of (objects s))" "\<forall>j\<in>set (objects s). detour_of j = '''' \<or> detour_of j \<in> tags s" "0 \<le> s_routeID s"
    using w by (auto simp: wired_def)
  have tags': "tags s' = tags s \<union> set (tags_from (hop_tag (s_chainID s) (Some (s_routeID s))) 0 (hops_of v e))"
    using C(2) [OF w1(1,2)] by (simp add: tg)
  then show "tags s \<subseteq> tags s'" by blast
  have "t \<noteq> hop_tag (s_chainID s) (Some r) i h" if "t \<in> tags s'" "s_routeID s + 1 \<le> r" for t r i h
  proof
    assume h: "t = hop_tag (s_chainID s) (Some r) i h"
    show False
    proof (cases "t \<in> tags s")
      case True
      with w that(2) h show False by (auto simp: wired_def)
    next
      case False
      with that(1) tags' obtain k g where "t = hop_tag (s_chainID s) (Some (s_routeID s)) k g" using tags_from_mem by blast
      with h hop_tag_routes_differ [of r "s_routeID s"] w1(3) that(2) show False by force
    qed
  qed
  with C(1,3) [OF w1(1,2)] w1(3) show "wired s'" by (simp add: wired_def o tg) (simp add: s')
  obtain h hs where h: "hops_of v e = h # hs" using l(3) by (cases "hops_of v e") auto
  then have "snd ?b \<in> tags s'" "snd ?b \<noteq> ''''"
    by (simp_all add: tags' BuildChainInternal_def) (simp add: hop_tag_def chain_tag_def)
  with t show "\<exists>tag\<in>tags s'. t = Some tag \<and> tag \<noteq> ''''" by blast
  show "s_chainID s' = s_chainID s \<and> s_forTest s' = s_forTest s \<and> s_ent s' = s_ent s \<and> s_inbounds s' = s_inbounds s
      \<and> s_coreConfig s' = s_coreConfig s"
    by (simp add: s')
qed

text \<open>A map from identifiers to tags that are in place.\<close>

definition maps_to_tags :: "(int \<Rightarrow> string option) \<Rightarrow> build_status \<Rightarrow> bool" where
  "maps_to_tags m s \<longleftrightarrow> (\<forall>i t. m i = Some t \<longrightarrow> t \<in> tags s \<and> t \<noteq> '''')"

definition keeps_status :: "build_status \<Rightarrow> build_status \<Rightarrow> bool" where
  "keeps_status s s' \<longleftrightarrow> tags s \<subseteq> tags s' \<and> s_chainID s' = s_chainID s \<and> s_forTest s' = s_forTest s \<and> s_ent s' = s_ent s
     \<and> s_inbounds s' = s_inbounds s \<and> s_coreConfig s' = s_coreConfig s"

lemma keeps_status_trans: "keeps_status s t \<Longrightarrow> keeps_status t u \<Longrightarrow> keeps_status s u"
  by (auto simp: keeps_status_def)

lemma needed_outbounds_error:
  "needed_outbounds v items s m ds = (True, s', m', ds') \<Longrightarrow> s_error s' = '''' \<Longrightarrow> s_error s = ''''"
proof (induction items arbitrary: s m ds)
  case (Cons i items)
  then show ?case
    by (auto simp: route_chain_outbound_def split_beta Let_def BuildChainInternal_ok dest!: Cons.IH
        dest: ResolveChain_error split: if_splits option.splits prod.splits)
qed simp

lemma needed_outbounds_wired:
  assumes "needed_outbounds v items s m ds = (True, s', m', ds')" and "s_error s' = ''''" and "wired s"
    and "linked_profiles v" and "maps_to_tags m s"
  shows "wired s' \<and> keeps_status s s' \<and> maps_to_tags m' s' \<and> s_error s = '''' \<and> dom m' = dom m \<union> {i \<in> set items. 0 \<le> i}"
  using assms(1,2,3,5)
proof (induction items arbitrary: s m ds)
  case (Cons i items)
  show ?case
  proof (cases "i < 0")
    case True
    with Cons.prems Cons.IH [of s m ds] show ?thesis by auto
  next
    case False
    with Cons.prems(1) obtain e where e: "v_profile v i = Some e" by (auto split: option.splits)
    obtain s1 t where r: "route_chain_outbound v e s = (s1, t)" by force
    with Cons.prems(1) False e obtain tag where t: "t = Some tag" by (auto split: option.splits)
    let ?ds = "if IsIpAddress (v_net v) (e_serverAddress e) then ds else ds @ [e_serverAddress e]"
    have rest: "needed_outbounds v items s1 (m(i \<mapsto> tag)) ?ds = (True, s', m', ds')" using Cons.prems(1) False e r t by simp
    from needed_outbounds_error [OF rest Cons.prems(2)] have ok: "s_error s1 = ''''" .
    have l: "keeps_links (v_bean v e)" "hops_of v e \<noteq> []" using assms(4) e by (auto simp: linked_profiles_def)
    note R = route_chain_outbound_wired [OF r ok Cons.prems(3) assms(4) l]
    have k: "keeps_status s s1" using R(2,4) by (simp add: keeps_status_def)
    have "maps_to_tags (m(i \<mapsto> tag)) s1" using R(2,3) Cons.prems(4) t by (auto simp: maps_to_tags_def)
    note IH = Cons.IH [OF rest Cons.prems(2) R(1) this]
    have "dom (m(i \<mapsto> tag)) \<union> {j \<in> set items. 0 \<le> j} = dom m \<union> {j \<in> set (i # items). 0 \<le> j}"
      using False by (simp only: dom_fun_upd) auto
    with IH keeps_status_trans [OF k] R(5) show ?thesis by (simp only: simp_thms)
  qed
qed (auto simp: keeps_status_def)

text \<open>The fixed outbounds join the profile's own chain.\<close>

lemma own_chain_wired:
  assumes b: "BuildChain v cid ent s = (s', tag)" and ok: "s_error s' = ''''"
    and s: "s = new_status (Some ent) traffic forTest cid"
    and l: "linked_profiles v" "keeps_links (v_bean v ent)" "hops_of v ent \<noteq> []"
  defines "u \<equiv> s'\<lparr>s_outbounds := s_outbounds s' @ [QObj (qobj [(''type'', QStr ''direct''), (''tag'', QStr ''direct'')]),
      QObj (qobj [(''type'', QStr ''block''), (''tag'', QStr ''block'')])]\<rparr>"
  shows "wired u" and "{''proxy'', ''direct'', ''block''} \<subseteq> tags u" and "tag = ''proxy''"
    and "tags u \<subseteq> {''direct'', ''block''} \<union> {t. \<exists>i e. t = hop_tag cid None i e}"
    and "\<forall>j\<in>set (objects u). detour_of j = '''' \<or> (\<exists>i>0. \<exists>e. detour_of j = hop_tag cid None i e)"
proof -
  from BuildChain_ok [OF b ok] obtain grp where g: "v_group v (e_gid ent) = Some grp" by blast
  let ?hops = "start_hops v grp ent" and ?b = "BuildChainInternal v cid (start_hops v grp ent) None s"
  from BuildChain_ok [OF b ok] g have f: "tag = snd ?b" "s_outbounds s' = s_outbounds (fst ?b)" "s_endpoints s' = s_endpoints (fst ?b)"
      "s_error (fst ?b) = ''''" "s_chainID s' = s_chainID s" "s_routeID s' = s_routeID s" by (auto elim!: BuildChain_ok)
  have e: "e \<in> set (extra_of v i) \<Longrightarrow> keeps_links (v_bean v e)" for e i
  proof -
    assume "e \<in> set (extra_of v i)"
    then obtain x where "v_profile v i = Some x" "e \<in> set (hops_of v x)" by (cases "v_profile v i") (auto simp: extra_of_def split: if_splits)
    with l(1) hops_linked [OF l(1), of x e] show ?thesis by (auto simp: linked_profiles_def)
  qed
  have links: "\<forall>e\<in>set ?hops. outbound_ok v (s_forTest s) e \<and> keeps_links (v_bean v e)"
    using f(4) e hops_linked [OF l(1,2)] by (auto simp: BuildChainInternal_ok start_hops_def)
  obtain h hs where h: "?hops = h # hs" using l(3) by (cases ?hops) (auto simp: start_hops_def)
  have o: "objects s = []" "tags s = {}" by (simp_all add: s new_status_def objects_def tags_def)
  have ob: "objects (fst ?b) = objects s'" "tags (fst ?b) = tags s'" using f by (simp_all add: objects_def tags_def)
  have "\<forall>j\<in>set (objects s). detour_of j = '''' \<or> detour_of j \<in> tags s" "distinct (map tag_of (objects s))"
    and "\<forall>t\<in>tags s. \<forall>i e. t \<noteq> hop_tag cid None i e" by (simp_all add: o)
  from chain_tags [OF links this(2,1,3)] ob
  have d: "distinct (map tag_of (objects s'))" and t: "tags s' = set (tags_from (hop_tag cid None) 0 ?hops)"
    and det: "\<forall>j\<in>set (objects s'). detour_of j = '''' \<or> detour_of j \<in> tags s'" by (simp_all add: o)
  let ?d = "QObj (qobj [(''type'', QStr ''direct''), (''tag'', QStr ''direct'')])"
    and ?k = "QObj (qobj [(''type'', QStr ''block''), (''tag'', QStr ''block'')])"
  have m: "mset (objects u) = mset (objects s' @ [?d, ?k])" by (simp add: objects_def u_def)
  have fixed: "tag_of ?d = ''direct''" "tag_of ?k = ''block''" "detour_of ?d = ''''" "detour_of ?k = ''''"
    by (simp_all add: text_at_def qat_def qobj_lookup)
  have hd: "hd t \<in> {CHR ''p'', CHR ''c''}" if "t \<in> tags s'" for t
    using that by (auto simp: t hop_tag_hd dest!: tags_from_mem split: if_splits)
  have tu: "tags u = tags s' \<union> {''direct'', ''block''}"
    using arg_cong [OF m, of set_mset] fixed by (auto simp: tags_def)
  show "{''proxy'', ''direct'', ''block''} \<subseteq> tags u" by (simp add: tu t h hop_tag_def)
  show "tags u \<subseteq> {''direct'', ''block''} \<union> {t. \<exists>i e. t = hop_tag cid None i e}"
    using tags_from_mem by (fastforce simp: tu t)
  have "set (objects s') = snd ` set (chain_objects v cid None s ?hops)"
    using arg_cong [OF objects_chain [of v cid ?hops None s], of set_mset] by (simp add: ob o)
  then have "detour_of ` set (objects s') = set (detours_from (hop_tag cid None) 0 ?hops)"
    using arg_cong [OF chain_objects_links(2) [OF links], of set] by (simp add: image_image)
  then have "\<forall>j\<in>set (objects s'). detour_of j = '''' \<or> (\<exists>i>0. \<exists>e. detour_of j = hop_tag cid None i e)"
    using detours_from_later by (metis imageI)
  then show "\<forall>j\<in>set (objects u). detour_of j = '''' \<or> (\<exists>i>0. \<exists>e. detour_of j = hop_tag cid None i e)"
    using arg_cong [OF m, of set_mset] fixed by auto
  show "tag = ''proxy''" using h by (simp add: f(1) BuildChainInternal_def hop_tag_def)
  have "mset (map tag_of (objects u)) = mset (map tag_of (objects s' @ [?d, ?k]))" by (simp only: mset_map m)
  then have "distinct (map tag_of (objects u)) \<longleftrightarrow> distinct (map tag_of (objects s' @ [?d, ?k]))"
    by (rule mset_eq_imp_distinct_iff)
  also have "\<dots>" using d fixed hd [of "''direct''"] hd [of "''block''"] by (auto simp: tags_def)
  finally have du: "distinct (map tag_of (objects u))" .
  moreover have "\<forall>j\<in>set (objects u). detour_of j = '''' \<or> detour_of j \<in> tags u"
    using arg_cong [OF m, of set_mset] det fixed tu by auto
  moreover have "t \<noteq> hop_tag c (Some r) i e" if "t \<in> tags u" for t c r i e
  proof -
    have "hd t \<noteq> CHR ''r''" using that hd [of t] by (auto simp: tu)
    then show ?thesis using hop_tag_hd [of c "Some r" i e] by auto
  qed
  moreover have "0 \<le> s_routeID u" by (simp add: u_def f(6)) (simp add: s new_status_def)
  ultimately show "wired u" by (simp add: wired_def)
qed

section \<open>References of the route section\<close>

definition names_tag :: "jobject \<Rightarrow> string \<Rightarrow> string set \<Rightarrow> bool" where
  "names_tag obj k T \<longleftrightarrow> qat obj k = QNull \<or> (\<exists>t\<in>T. qat obj k = QStr t)"

lemma names_tag_mono: "names_tag obj k T \<Longrightarrow> T \<subseteq> U \<Longrightarrow> names_tag obj k U"
  by (auto simp: names_tag_def)

lemma adblock_no_outbound: "qat createAdblockRule ''outbound'' = QNull"
  by (simp add: createAdblockRule_def) (simp add: qat_def)

lemma set_insert_adblock: "set (insert_adblock js) \<subseteq> insert createAdblockRule (set js)"
  by (auto simp: insert_adblock_def dest: set_takeWhileD set_dropWhileD)

lemma rule_names_tag:
  assumes "maps_to_tags m s" and "fix_action r = ''route'' \<longrightarrow> r_outboundID r \<in> dom m"
  shows "names_tag (snd (get_rule_json pm q n ex False (mapped_tag m (r_outboundID r)) r)) ''outbound'' (tags s)"
proof (cases "fix_action r = ''route''")
  case True
  with assms obtain t where "m (r_outboundID r) = Some t" "t \<in> tags s" "t \<noteq> ''''" by (auto simp: maps_to_tags_def)
  with True show ?thesis by (simp add: names_tag_def qat_def get_rule_json_outbound outbound_json_def mapped_tag_def)
qed (simp add: names_tag_def qat_def get_rule_json_outbound)

lemma core_rules_name_tags:
  assumes "maps_to_tags m s" and "\<forall>r\<in>set (c_Rules c). fix_action r = ''route'' \<longrightarrow> r_outboundID r \<in> dom m"
    and "j \<in> set (snd (core_route_rules w m c))"
  shows "names_tag j ''outbound'' (tags s)"
proof -
  let ?js = "map (\<lambda>r. snd (get_rule_json (\<lambda>_. None) (u_url (w_url w)) 0 False False (mapped_tag m (r_outboundID r)) r)) (c_Rules c)"
  have "j \<in> insert createAdblockRule (set ?js)"
    using assms(3) set_insert_adblock [of ?js] get_route_rules_total [of _ _ _ _ _ _ c]
    by (subst (asm) core_route_rules_def, subst (asm) get_route_rules_total)
      (auto simp: list_all_iff get_rule_json_core_nonempty split: if_splits)
  then consider "j = createAdblockRule"
    | r where "r \<in> set (c_Rules c)" "j = snd (get_rule_json (\<lambda>_. None) (u_url (w_url w)) 0 False False (mapped_tag m (r_outboundID r)) r)"
    by auto
  then show ?thesis
  proof cases
    case 1
    then show ?thesis using adblock_no_outbound by (simp add: names_tag_def)
  next
    case (2 r)
    then show ?thesis using rule_names_tag [OF assms(1), of r] assms(2) by blast
  qed
qed

text \<open>Rules that name an outbound of the program or a profile.\<close>

definition known_outbounds :: "RoutingChain \<Rightarrow> bool" where
  "known_outbounds c \<longleftrightarrow> (\<forall>r\<in>set (c_Rules c). -4 \<le> r_outboundID r)"

lemma known_prepend: "known_outbounds c \<Longrightarrow> -4 \<le> r_outboundID r \<Longrightarrow> known_outbounds (prepend_rule b r c)"
  by (auto simp: known_outbounds_def prepend_rule_def)

lemma action_rule_outbound [simp]: "r_outboundID (action_rule a i) = -2"
  by (simp add: action_rule_def new_RouteRule_def outbound_ids)

lemma core_route_rules_chain:
  "fst (core_route_rules w m c) = c\<lparr>c_Rules := map (\<lambda>r. r\<lparr>r_action := fix_action r\<rparr>) (c_Rules c)\<rparr>"
  unfolding core_route_rules_def by (subst get_route_rules_total) (auto simp: list_all_iff get_rule_json_core_nonempty)

lemma process_rules_name_tags:
  "{''proxy'', ''direct''} \<subseteq> T \<Longrightarrow> j \<in> set (BuildTunProcessRules c) \<Longrightarrow> names_tag j ''outbound'' T"
  by (auto simp: BuildTunProcessRules_def Let_def names_tag_def qat_def qobj_lookup split: if_splits)

lemma needed_domain:
  assumes "known_outbounds c" and "dom m = dom initial_outbounds \<union> {i \<in> set (get_used_outbounds c). 0 \<le> i}"
    and "r \<in> set (c_Rules c)" and "fix_action r = ''route''"
  shows "r_outboundID r \<in> dom m"
proof -
  have "-4 \<le> r_outboundID r" "r_outboundID r \<noteq> -3" "r_outboundID r \<noteq> -4"
    using assms(1,3,4) by (auto simp: known_outbounds_def fix_action_def split: if_splits)
  moreover have "{-1, -2, -3} \<subseteq> dom m" using assms(2) by (auto simp: initial_outbounds_def outbound_ids)
  moreover have "r_outboundID r \<in> set (get_used_outbounds c)" using assms(3) by (simp add: get_used_outbounds_def)
  moreover have "r_outboundID r \<in> {-1, -2} \<or> 0 \<le> r_outboundID r" using calculation(1-3) by auto
  ultimately show ?thesis using assms(2) by blast
qed

lemma PrependGameModRules_Nil [simp]: "PrependGameModRules [] rules = rules"
  by (simp add: PrependGameModRules_def)

text \<open>The profile the route section works on, and its result when nothing goes wrong.\<close>

definition route_base :: "config_env \<Rightarrow> RoutingChain \<Rightarrow> RoutingChain" where
  "route_base w c = (if o_connection_statistics (o_core (w_settings w)) then c else fst (core_route_rules w (\<lambda>_. None) c))"

definition route_extended :: "config_env \<Rightarrow> RoutingChain \<Rightarrow> RoutingChain" where
  "route_extended w c =
     (let rt = o_routing (w_settings w)
      in prepend_rule (o_sniffing_mode rt \<noteq> 0) (action_rule ''sniff'' [''mixed-in'', ''tun-in''])
           (prepend_rule (o_domain_strategy rt \<noteq> '''')
             ((action_rule ''resolve'' [''mixed-in'', ''tun-in''])\<lparr>r_strategy := o_domain_strategy rt\<rparr>) (route_base w c)))"

lemma route_base_fields:
  "c_defaultOutboundID (route_base w c) = c_defaultOutboundID c" "known_outbounds c \<Longrightarrow> known_outbounds (route_extended w c)"
proof -
  show "c_defaultOutboundID (route_base w c) = c_defaultOutboundID c" by (simp add: route_base_def core_route_rules_chain)
  assume "known_outbounds c"
  then have "known_outbounds (route_base w c)" by (simp add: route_base_def core_route_rules_chain known_outbounds_def)
  then show "known_outbounds (route_extended w c)" by (simp add: route_extended_def Let_def known_prepend)
qed

lemma no_services: "o_game_mod_enabled_services (o_routing (v_settings v)) = [] \<Longrightarrow>
    BuildGameModOutbounds v s m ds = (True, s, m, (\<lambda>_. None), ds)" "GameMod_BuildRules cat [] f = []"
  by (simp_all add: BuildGameModOutbounds_def GameMod_BuildRules_def)

lemma sing_box_route_success:
  assumes "sing_box_route w s c parts = (True, s', routeObj, parts')" and "\<not> s_forTest s"
    and g: "o_game_mod_enabled_services (o_routing (w_settings w)) = []"
  obtains m ds where
    "needed_outbounds (w_build w) (get_used_outbounds (route_extended w c)) s initial_outbounds (p_domains parts) = (True, s', m, ds)"
    "s_error s' = ''''" "text_at routeObj ''final'' = outboundIDToString (c_defaultOutboundID (route_base w c))"
    "qat routeObj ''rules'' = QArr (map QObj ((if o_spmode_vpn (o_in (w_settings w)) then BuildTunProcessRules (o_routing (w_settings w)) else [])
        @ snd (core_route_rules w m (route_extended w c))))"
proof -
  obtain ok s1 m ds where n: "needed_outbounds (w_build w) (get_used_outbounds (route_extended w c)) s initial_outbounds (p_domains parts)
      = (ok, s1, m, ds)" by (metis prod_cases4)
  let ?f = "core_route_rules w (\<lambda>_. None) c"
  obtain c' rs where f: "?f = (c', rs)" by force
  note base = route_base_def [of w c, unfolded f fst_conv] and ext = route_extended_def [of w c, unfolded Let_def]
  have t: "s_forTest s \<longleftrightarrow> False" using assms(2) by simp
  note r = assms(1) [unfolded sing_box_route_def Let_def t if_False f prod.case base [symmetric] ext [symmetric] n g no_services(1) [OF g]
      no_services(2) PrependGameModRules_Nil]
  have ok: "ok" "s_error s1 = ''''"
    using r by (cases ok; cases "s_error s1 = ''''"; simp only: bool.case prod.case if_True if_False prod.inject; simp)+
  have e: "s_error s1 \<noteq> '''' \<longleftrightarrow> False" using ok(2) by simp
  have ok': "ok = True" using ok(1) by simp
  note r = r [unfolded ok' bool.case prod.case e if_False prod.inject]
  have o: "s' = s1" "text_at routeObj ''final'' = outboundIDToString (c_defaultOutboundID (route_base w c))"
    "qat routeObj ''rules'' = QArr (map QObj ((if o_spmode_vpn (o_in (w_settings w)) then BuildTunProcessRules (o_routing (w_settings w)) else [])
        @ snd (core_route_rules w m (route_extended w c))))"
  proof -
    let ?rt = "o_routing (w_settings w)" and ?rs = "snd (core_route_rules w m (route_extended w c))"
    obtain A B where ro: "routeObj = qset ''rule_set'' A (qset ''rules'' (QArr (map QObj
        (if o_spmode_vpn (o_in (w_settings w)) then BuildTunProcessRules ?rt @ ?rs else ?rs)))
        (qset ''final'' (QStr (outboundIDToString (c_defaultOutboundID (route_base w c)))) B))"
      using r by blast
    show "s' = s1" using r by blast
    show "text_at routeObj ''final'' = outboundIDToString (c_defaultOutboundID (route_base w c))" by (simp add: ro)
    show "qat routeObj ''rules'' = QArr (map QObj ((if o_spmode_vpn (o_in (w_settings w)) then BuildTunProcessRules ?rt else []) @ ?rs))"
      by (simp add: ro)
  qed
  show ?thesis using that [of m ds] n ok o by simp
qed

lemma sing_box_route_wired:
  assumes r: "sing_box_route w s c parts = (True, s', routeObj, parts')" and "\<not> s_forTest s" and w: "wired s"
    and l: "linked_profiles (w_build w)" and fixed: "{''proxy'', ''direct'', ''block''} \<subseteq> tags s"
    and "o_game_mod_enabled_services (o_routing (w_settings w)) = []" and "known_outbounds c"
    and "c_defaultOutboundID c \<in> {proxyID, directID, blockID}"
  shows "wired s' \<and> keeps_status s s' \<and> s_error s' = ''''" and "text_at routeObj ''final'' \<in> tags s'"
    and "\<forall>j\<in>set (json_toArray (qat routeObj ''rules'')). names_tag (json_toObject j) ''outbound'' (tags s')"
proof -
  let ?c = "route_extended w c"
  from sing_box_route_success [OF r assms(2,6)] obtain m ds
    where n: "needed_outbounds (w_build w) (get_used_outbounds ?c) s initial_outbounds (p_domains parts) = (True, s', m, ds)"
      and ok: "s_error s' = ''''" and f: "text_at routeObj ''final'' = outboundIDToString (c_defaultOutboundID (route_base w c))"
      and rules: "qat routeObj ''rules'' = QArr (map QObj ((if o_spmode_vpn (o_in (w_settings w))
        then BuildTunProcessRules (o_routing (w_settings w)) else []) @ snd (core_route_rules w m ?c)))" by metis
  note k = route_base_fields(2) [OF assms(7)]
  have final: "text_at routeObj ''final'' \<in> {''proxy'', ''direct'', ''block''}"
    using assms(8) f route_base_fields(1) [of w c] by (auto simp: outboundIDToString_def outbound_ids)
  have "maps_to_tags initial_outbounds s"
    using fixed by (auto simp: maps_to_tags_def initial_outbounds_def split: if_splits)
  from needed_outbounds_wired [OF n ok w l this] have N: "wired s'" "keeps_status s s'" "maps_to_tags m s'"
    and dm: "dom m = dom initial_outbounds \<union> {i \<in> set (get_used_outbounds ?c). 0 \<le> i}" by simp_all
  with ok show "wired s' \<and> keeps_status s s' \<and> s_error s' = ''''" by blast
  have fixed': "{''proxy'', ''direct'', ''block''} \<subseteq> tags s'" using N(2) fixed by (auto simp: keeps_status_def)
  with final show "text_at routeObj ''final'' \<in> tags s'" by auto
  have "names_tag j ''outbound'' (tags s')" if "j \<in> set (snd (core_route_rules w m ?c))" for j
    by (rule core_rules_name_tags [OF N(3) _ that]) (use needed_domain [OF k dm] in blast)
  then show "\<forall>j\<in>set (json_toArray (qat routeObj ''rules'')). names_tag (json_toObject j) ''outbound'' (tags s')"
    using rules process_rules_name_tags [of "tags s'"] fixed' by (auto split: if_splits)
qed

end
