(* ===== verification/Config_References.thy ===== *)
theory Config_References
  imports Config_Links
begin

text \<open>
  The references of a whole configuration: what the builder of \<open>Config_Builder\<close> writes at the end,
  over the linked outbounds of \<open>Config_Links\<close>.
\<close>

section \<open>The whole configuration\<close>

lemma sing_box_inbounds_status:
  "s_outbounds (fst (sing_box_inbounds w s c parts)) = s_outbounds s @ [QObj (qobj [(''type'', QStr ''direct''), (''tag'', QStr ''direct'')]),
      QObj (qobj [(''type'', QStr ''block''), (''tag'', QStr ''block'')])]"
  "s_endpoints (fst (sing_box_inbounds w s c parts)) = s_endpoints s" "s_error (fst (sing_box_inbounds w s c parts)) = s_error s"
  "s_ent (fst (sing_box_inbounds w s c parts)) = s_ent s" "s_forTest (fst (sing_box_inbounds w s c parts)) = s_forTest s"
  "s_chainID (fst (sing_box_inbounds w s c parts)) = s_chainID s" "s_routeID (fst (sing_box_inbounds w s c parts)) = s_routeID s"
  by (simp_all add: sing_box_inbounds_def Let_def)

lemma sing_box_inbounds_chain:
  "c_defaultOutboundID (snd (sing_box_inbounds w s c parts)) = c_defaultOutboundID c"
  "known_outbounds c \<Longrightarrow> known_outbounds (snd (sing_box_inbounds w s c parts))"
  by (simp_all add: sing_box_inbounds_def Let_def known_prepend) (simp add: prepend_rule_def)

lemma sing_box_finish_config:
  "qat (s_coreConfig (sing_box_finish w s routeObj tagProxy parts)) ''outbounds'' = QArr (s_outbounds s)"
  "qat (s_coreConfig (sing_box_finish w s routeObj tagProxy parts)) ''endpoints'' = QArr (s_endpoints s)"
  "qat (json_toObject (qat (s_coreConfig (sing_box_finish w s routeObj tagProxy parts)) ''route'')) k =
     (if k = ''default_domain_resolver'' then QObj (qobj [(''server'', QStr ''dns-direct''),
        (''strategy'', QStr (o_outbound_domain_strategy (o_routing (w_settings w))))]) else qat routeObj k)"
  "s_error (sing_box_finish w s routeObj tagProxy parts) = s_error s"
  by (simp_all add: sing_box_finish_def Let_def qset_if_def)

lemma sing_box_finish_dns:
  "qat (s_coreConfig (sing_box_finish w s routeObj tagProxy parts)) ''dns'' = QObj (sing_box_dns w s tagProxy parts)"
  by (simp add: sing_box_finish_def Let_def qset_if_def sing_box_dns_def sing_box_dns_servers_def sing_box_dns_rules_def)

lemma BuildDnsObject_no_detour: "k \<notin> {''type'', ''server'', ''interface'', ''server_port'', ''path''} \<Longrightarrow> qat (BuildDnsObject a b) k = QNull"
  by (auto simp: BuildDnsObject_def Let_def split_beta qset_if_def qat_def qset_lookup qobj_lookup)

lemma dns_servers_detour:
  assumes "\<not> o_use_dns_object (o_routing (w_settings w))" and "srv \<in> set (json_toArray (qat (sing_box_dns w s tagProxy parts) ''servers''))"
  shows "text_at (json_toObject srv) ''detour'' \<in> {'''', tagProxy}"
proof -
  have d: "text_at (BuildDnsObject a b) ''detour'' = ''''" for a b
    using BuildDnsObject_no_detour [of "''detour''" a b] by (simp add: text_at_def)
  have q: "text_at (qobj kvs) k = (case map_of (rev kvs) k of None \<Rightarrow> '''' | Some v \<Rightarrow> json_toString v)" for kvs k
    by (simp add: text_at_def qat_def qobj_lookup split: option.split)
  have "srv \<in> QObj ` set (sing_box_dns_servers w s tagProxy)"
    using assms by (simp add: sing_box_dns_def Let_def qset_if_def split: if_splits)
  then show ?thesis
    by (auto simp: sing_box_dns_servers_def Let_def remote_dns_server_def d q split: option.splits if_splits)
qed

lemma copy_RoutingChain_same:
  "c_defaultOutboundID (copy_RoutingChain c) = c_defaultOutboundID c" "map r_outboundID (c_Rules (copy_RoutingChain c)) = map r_outboundID (c_Rules c)"
  by (simp_all add: copy_RoutingChain_def copy_RouteRule_def new_RoutingChain_def comp_def)

lemma known_copy: "known_outbounds c \<Longrightarrow> known_outbounds (copy_RoutingChain c)"
proof -
  have "known_outbounds c \<longleftrightarrow> (\<forall>i\<in>set (map r_outboundID (c_Rules c)). -4 \<le> i)" for c by (simp add: known_outbounds_def)
  then show "known_outbounds c \<Longrightarrow> known_outbounds (copy_RoutingChain c)" by (simp only: copy_RoutingChain_same(2))
qed

section \<open>Properties of configurations\<close>

lemma needed_outbounds_failed: "needed_outbounds v items s m ds = (False, s', m', ds') \<Longrightarrow> s_error s' \<noteq> ''''"
proof (induction items arbitrary: s m ds)
  case (Cons i items)
  from Cons.prems show ?case
    by (auto simp: no_longer_exists_def route_chain_outbound_def split_beta Let_def dest: Cons.IH
        split: if_splits option.splits prod.splits)
qed simp

lemma sing_box_route_failed:
  assumes "fst (sing_box_route w s c parts) = False"
  shows "s_error (fst (snd (sing_box_route w s c parts))) \<noteq> ''''"
proof (cases "s_forTest s")
  case True
  with assms show ?thesis by (simp add: sing_box_route_def Let_def)
next
  case False
  obtain ok s1 m ds where n: "needed_outbounds (w_build w) (get_used_outbounds (route_extended w c)) s initial_outbounds (p_domains parts)
      = (ok, s1, m, ds)" by (metis prod_cases4)
  obtain ok2 s2 m2 gm ds2 where g: "BuildGameModOutbounds (w_build w) s1 m ds = (ok2, s2, m2, gm, ds2)" by (metis prod_cases5)
  obtain c' rs where f: "core_route_rules w (\<lambda>_. None) c = (c', rs)" by force
  note base = route_base_def [of w c, unfolded f fst_conv] and ext = route_extended_def [of w c, unfolded Let_def]
  have t: "s_forTest s \<longleftrightarrow> False" using False by simp
  note eq = sing_box_route_def [of w s c parts, unfolded Let_def t if_False f prod.case base [symmetric] ext [symmetric] n]
  show ?thesis
  proof (cases ok)
    case True
    then have ok: "ok = True" by simp
    note eq' = eq [unfolded ok bool.case prod.case g]
    show ?thesis
    proof (rule ccontr)
      assume h: "\<not> ?thesis"
      then have "s_error s2 = ''''" unfolding eq' by (cases "s_error s2 = ''''") simp_all
      then have e: "s_error s2 \<noteq> '''' \<longleftrightarrow> False" by simp
      from assms show False unfolding eq' e if_False fst_conv by blast
    qed
  next
    case False
    then have ok: "ok = False" by simp
    show ?thesis using needed_outbounds_failed [OF n [unfolded ok]] unfolding eq ok bool.case prod.case fst_conv snd_conv .
  qed
qed

lemma wired_cong:
  "objects s = objects t \<Longrightarrow> s_routeID s = s_routeID t \<Longrightarrow> s_chainID s = s_chainID t \<Longrightarrow> wired s \<longleftrightarrow> wired t"
  by (simp add: wired_def tags_def)

lemma add_extra_core_fields:
  "objects (fst (add_extra_core w e s c)) = objects s" "s_error (fst (add_extra_core w e s c)) = s_error s"
  "s_routeID (fst (add_extra_core w e s c)) = s_routeID s" "s_chainID (fst (add_extra_core w e s c)) = s_chainID s"
  "s_forTest (fst (add_extra_core w e s c)) = s_forTest s" "s_ent (fst (add_extra_core w e s c)) = s_ent s"
  "s_outbounds (fst (add_extra_core w e s c)) = s_outbounds s" "s_endpoints (fst (add_extra_core w e s c)) = s_endpoints s"
  "c_defaultOutboundID (snd (add_extra_core w e s c)) = c_defaultOutboundID c"
  "known_outbounds c \<Longrightarrow> known_outbounds (snd (add_extra_core w e s c))"
  by (simp_all add: add_extra_core_def Let_def objects_def known_outbounds_def get_processPath_direct_rule_def
      outbound_ids new_RouteRule_def)

text \<open>The steps of a successful start.\<close>

lemma start_steps:
  assumes "s_error (BuildConfigSingBox w (new_status (Some ent) traffic forTest cid)) = ''''"
    and "choose_route_chain w (Some ent) = Some chain"
  obtains s1 tag s2 c2 parts s3 routeObj parts' where
    "BuildChain (w_build w) cid ent (new_status (Some ent) traffic forTest cid) = (s1, tag)" "s_error s1 = ''''"
    "sing_box_inbounds w (fst (add_extra_core w ent s1 (copy_RoutingChain chain)))
       (snd (add_extra_core w ent s1 (copy_RoutingChain chain))) parts = (s2, c2)"
    "sing_box_route w s2 c2 parts = (True, s3, routeObj, parts')" "s_error s3 = ''''"
    "BuildConfigSingBox w (new_status (Some ent) traffic forTest cid) = sing_box_finish w s3 routeObj tag parts'"
proof -
  let ?n = "new_status (Some ent) traffic forTest cid" and ?c = "copy_RoutingChain chain"
  have n: "s_ent ?n = Some ent" "s_chainID ?n = cid" by (simp_all add: new_status_def)
  obtain s1 tag where b: "BuildChain (w_build w) cid ent ?n = (s1, tag)" by force
  obtain s' c' where x: "add_extra_core w ent s1 ?c = (s', c')" by force
  let ?parts = "direct_lists (s_domainListDNSDirect s') c'"
  have eq: "BuildConfigSingBox w ?n = (if s_error s1 \<noteq> '''' then s1 else sing_box_from w s' c' tag ?parts)"
    unfolding BuildConfigSingBox_def n assms(2) option.case Let_def b prod.case x ..
  with assms(1) have s1: "s_error s1 = ''''" by (cases "s_error s1 = ''''") simp_all
  with eq have eq: "BuildConfigSingBox w ?n = sing_box_from w s' c' tag ?parts" by simp
  obtain s2 c2 where i: "sing_box_inbounds w s' c' ?parts = (s2, c2)" by force
  obtain ok s3 routeObj parts' where r: "sing_box_route w s2 c2 ?parts = (ok, s3, routeObj, parts')" by (metis prod_cases4)
  show thesis
  proof (cases ok)
    case True
    have "BuildConfigSingBox w ?n = sing_box_finish w s3 routeObj tag parts'"
      using eq i r True by (simp add: sing_box_from_def)
    moreover from this have "s_error s3 = ''''" using assms(1) sing_box_finish_config(4) [of w s3] by metis
    ultimately show thesis using that [of s1 tag ?parts s2 c2 s3 routeObj parts'] b s1 i r True x by simp
  next
    case False
    then have "BuildConfigSingBox w ?n = s3" using eq i r by (simp add: sing_box_from_def)
    moreover have "s_error s3 \<noteq> ''''" using sing_box_route_failed [of w s2 c2 ?parts] r False by simp
    ultimately show thesis using assms(1) by simp
  qed
qed

lemma sing_box_route_outcome:
  assumes "\<not> s_forTest s" and g: "o_game_mod_enabled_services (o_routing (w_settings w)) = []"
    and n: "needed_outbounds (w_build w) (get_used_outbounds (route_extended w c)) s initial_outbounds (p_domains parts) = (True, s1, m, ds)"
    and "s_error s1 = ''''"
  shows "fst (sing_box_route w s c parts)" and "fst (snd (sing_box_route w s c parts)) = s1"
proof -
  obtain c' rs where f: "core_route_rules w (\<lambda>_. None) c = (c', rs)" by force
  note base = route_base_def [of w c, unfolded f fst_conv] and ext = route_extended_def [of w c, unfolded Let_def]
  have t: "s_forTest s \<longleftrightarrow> False" "s_error s1 \<noteq> '''' \<longleftrightarrow> False" using assms(1,4) by simp_all
  note eq = sing_box_route_def [of w s c parts, unfolded Let_def t if_False f prod.case base [symmetric] ext [symmetric] n bool.case
      g no_services(1) [OF g] no_services(2) t if_False]
  show "fst (sing_box_route w s c parts)" unfolding eq fst_conv ..
  show "fst (snd (sing_box_route w s c parts)) = s1" unfolding eq fst_conv snd_conv ..
qed

text \<open>C15. Every reference of the configuration a profile is started with resolves: the outbounds
  and endpoints have different tags, and the tag of one is what each detour, the default outbound
  of the route section, the outbound of each of its rules and the detour of each DNS server names.
  The stored profiles have hops and leave the builder's own keys alone, the rules of the routing
  profile name an outbound of the program or a profile, and no game service is on.\<close>

theorem config_references_resolve:
  assumes start: "s_error (BuildConfigSingBox w (new_status (Some ent) traffic False cid)) = ''''"
    and l: "linked_profiles (w_build w)" "keeps_links (v_bean (w_build w) ent)" "hops_of (w_build w) ent \<noteq> []"
    and chain: "choose_route_chain w (Some ent) = Some chain" "known_outbounds chain"
      "c_defaultOutboundID chain \<in> {proxyID, directID, blockID}"
    and g: "o_game_mod_enabled_services (o_routing (w_settings w)) = []" and d: "\<not> o_use_dns_object (o_routing (w_settings w))"
  shows "let config = s_coreConfig (BuildConfigSingBox w (new_status (Some ent) traffic False cid));
      objs = json_toArray (qat config ''outbounds'') @ json_toArray (qat config ''endpoints''); T = tag_of ` set objs;
      route = json_toObject (qat config ''route'');
      servers = json_toArray (qat (json_toObject (qat config ''dns'')) ''servers'')
    in distinct (map tag_of objs) \<and> (\<forall>j\<in>set objs. detour_of j = '''' \<or> detour_of j \<in> T)
       \<and> text_at route ''final'' \<in> T
       \<and> (\<forall>j\<in>set (json_toArray (qat route ''rules'')). names_tag (json_toObject j) ''outbound'' T)
       \<and> (\<forall>j\<in>set servers. text_at (json_toObject j) ''detour'' = '''' \<or> text_at (json_toObject j) ''detour'' \<in> T)"
proof -
  from start_steps [OF start chain(1)] obtain s1 tag s2 c2 parts s3 routeObj parts'
    where b: "BuildChain (w_build w) cid ent (new_status (Some ent) traffic False cid) = (s1, tag)" "s_error s1 = ''''"
      and i: "sing_box_inbounds w (fst (add_extra_core w ent s1 (copy_RoutingChain chain)))
         (snd (add_extra_core w ent s1 (copy_RoutingChain chain))) parts = (s2, c2)"
      and r: "sing_box_route w s2 c2 parts = (True, s3, routeObj, parts')" "s_error s3 = ''''"
      and f: "BuildConfigSingBox w (new_status (Some ent) traffic False cid) = sing_box_finish w s3 routeObj tag parts'" by metis
  let ?x = "add_extra_core w ent s1 (copy_RoutingChain chain)"
  note O = own_chain_wired [OF b refl l]
  from BuildChain_ok [OF b] have s1: "\<not> s_forTest s1" by (metis new_status_def build_status.select_convs(9))
  note I = sing_box_inbounds_status [of w "fst ?x" "snd ?x" parts, unfolded i fst_conv add_extra_core_fields]
    sing_box_inbounds_chain [where w = w and s = "fst ?x" and c = "snd ?x" and parts = parts, unfolded i snd_conv add_extra_core_fields copy_RoutingChain_same]
  have o2: "objects s2 = objects (s1\<lparr>s_outbounds := s_outbounds s1 @ [QObj (qobj [(''type'', QStr ''direct''), (''tag'', QStr ''direct'')]),
      QObj (qobj [(''type'', QStr ''block''), (''tag'', QStr ''block'')])]\<rparr>)"
    by (simp add: objects_def I)
  have w2: "wired s2" using O(1) by (subst wired_cong [OF o2]) (simp_all add: I)
  have t2: "{''proxy'', ''direct'', ''block''} \<subseteq> tags s2" using O(2) by (simp add: tags_def o2)
  have "known_outbounds c2" using chain(2) I(9) by (simp add: add_extra_core_fields known_copy)
  with r s1 w2 l(1) t2 g chain(3) have R: "wired s3 \<and> keeps_status s2 s3" "text_at routeObj ''final'' \<in> tags s3"
    "\<forall>j\<in>set (json_toArray (qat routeObj ''rules'')). names_tag (json_toObject j) ''outbound'' (tags s3)"
    using sing_box_route_wired [OF r(1)] I(5,8) by simp_all
  have "''proxy'' \<in> tags s3" using R(1) t2 by (auto simp: keeps_status_def)
  then have D: "text_at (json_toObject j) ''detour'' = '''' \<or> text_at (json_toObject j) ''detour'' \<in> tags s3"
    if "j \<in> set (json_toArray (qat (sing_box_dns w s3 tag parts') ''servers''))" for j
    using dns_servers_detour [OF d that] O(3) by auto
  have T: "tags s3 = tag_of ` set (s_outbounds s3 @ s_endpoints s3)" by (simp add: tags_def objects_def)
  show ?thesis
    using R D unfolding f Let_def T
    by (simp add: sing_box_finish_config sing_box_finish_dns wired_def objects_def tags_def text_at_def)
qed

text \<open>A routing profile that sends one domain through the second profile.\<close>

definition sample_chain :: RoutingChain where
  "sample_chain = GetDefaultChain\<lparr>c_enabled := True, c_Rules := [new_RouteRule\<lparr>r_domain := [''a.org''], r_outboundID := 8\<rparr>]\<rparr>"

definition sample_config_env :: config_env where
  "sample_config_env =
     \<lparr> w_build = hop_env, w_routeChain = (\<lambda>i. if i = 1 then Some sample_chain else None), w_enabledChains = [],
       w_url = \<lparr> u_url = \<lparr> url_isValid = (\<lambda>_. False), url_fileName = (\<lambda>s. s), url_hash = length \<rparr>,
         u_toString = (\<lambda>s. s), u_host = (\<lambda>s. s), u_path = (\<lambda>s. s) \<rparr>,
       w_ruleSetMap = (\<lambda>_. None), w_catalog = [], w_windows = False, w_canonicalFilePath = (\<lambda>s. s), w_basePath = '''',
       w_serverName = '''', w_address_null = (\<lambda>_. True), w_isInSubnet = (\<lambda>_ _ _. False) \<rparr>"

lemma sing_box_from_ok:
  assumes "\<not> s_forTest s" and "o_game_mod_enabled_services (o_routing (w_settings w)) = []" and "s_error s = ''''"
    and "\<And>s' m ds. s_error s' = '''' \<Longrightarrow> s_forTest s' = False \<Longrightarrow> \<exists>s1 m1 ds1. s_error s1 = '''' \<and>
      needed_outbounds (w_build w) (get_used_outbounds (route_extended w (snd (sing_box_inbounds w s c parts)))) s' m ds = (True, s1, m1, ds1)"
  shows "s_error (sing_box_from w s c tag parts) = ''''"
proof -
  obtain s2 c2 where i: "sing_box_inbounds w s c parts = (s2, c2)" by force
  have s2: "\<not> s_forTest s2" "s_error s2 = ''''" using sing_box_inbounds_status [of w s c parts] i assms(1,3) by simp_all
  with assms(4) [of s2 initial_outbounds "p_domains parts"] i obtain s1 m1 ds1 where s1: "s_error s1 = ''''"
    and n: "needed_outbounds (w_build w) (get_used_outbounds (route_extended w c2)) s2 initial_outbounds (p_domains parts) = (True, s1, m1, ds1)"
    by auto
  note O = sing_box_route_outcome [OF s2(1) assms(2) n s1]
  obtain ok s3 r p where r: "sing_box_route w s2 c2 parts = (ok, s3, r, p)" by (metis prod_cases4)
  then show ?thesis using O s1 by (simp add: sing_box_from_def i sing_box_finish_config(4))
qed

lemma sample_config_ok:
  "s_error (BuildConfigSingBox sample_config_env (new_status (Some (hop_profile 7)) no_traffic False 0)) = ''''"
proof -
  let ?w = sample_config_env and ?n = "new_status (Some (hop_profile 7)) no_traffic False 0"
  have build: "w_build ?w = hop_env" by (simp add: sample_config_env_def)
  have chain: "choose_route_chain ?w (Some (hop_profile 7)) = Some sample_chain"
    by (simp add: choose_route_chain_def build hop_env_def default_settings_def default_routing_def)
      (simp add: sample_config_env_def sample_chain_def)
  have t: "e_type (hop_profile i) = ''socks''" for i by (simp add: hop_profile_def NewProxyEntity_def)
  obtain s1 tag where b: "BuildChain hop_env 0 (hop_profile 7) ?n = (s1, tag)" by force
  have s1: "s_error s1 = ''''" using sample_start_ok [of 0 False] b by simp
  from BuildChain_ok [OF b s1] have f: "\<not> s_forTest s1" by (metis new_status_def build_status.select_convs(9))
  have x: "add_extra_core ?w (hop_profile 7) s1 c = (s1, c)" for c by (simp add: add_extra_core_def t)
  have n: "s_ent ?n = Some (hop_profile 7)" "s_chainID ?n = 0" by (simp_all add: new_status_def)
  let ?c = "copy_RoutingChain sample_chain" and ?p = "direct_lists (s_domainListDNSDirect s1) (copy_RoutingChain sample_chain)"
  have eq: "BuildConfigSingBox ?w ?n = sing_box_from ?w s1 ?c tag ?p"
    by (simp add: BuildConfigSingBox_def n chain b s1 x build Let_def)
  have used: "get_used_outbounds (route_extended ?w (snd (sing_box_inbounds ?w s1 ?c ?p))) = [-2, 8]"
    by (simp add: sing_box_inbounds_def Let_def get_used_outbounds_def route_extended_def route_base_def prepend_rule_def
        build hop_env_def default_settings_def default_routing_def default_core_def)
      (simp add: sample_chain_def copy_RoutingChain_def copy_RouteRule_def new_RoutingChain_def new_RouteRule_def)
  have p: "v_profile hop_env 8 = Some (hop_profile 8)" by (simp add: hop_env_def)
  have "\<exists>s1 m1 ds1. s_error s1 = '''' \<and> needed_outbounds hop_env [-2, 8] s' m ds = (True, s1, m1, ds1)"
    if "s_error s' = ''''" "s_forTest s' = False" for s' m ds
    using that by (simp add: p route_chain_outbound_def ResolveChainInternal_def t split_beta Let_def BuildChainInternal_ok sample_links)
  then show ?thesis unfolding eq using f s1
    by (intro sing_box_from_ok) (simp_all add: used build, simp add: hop_env_def default_settings_def default_routing_def)
qed

theorem config_references_resolve_witness:
  "let config = s_coreConfig (BuildConfigSingBox sample_config_env (new_status (Some (hop_profile 7)) no_traffic False 0));
      objs = json_toArray (qat config ''outbounds'') @ json_toArray (qat config ''endpoints'')
   in text_at (json_toObject (qat config ''route'')) ''final'' \<in> tag_of ` set objs"
proof -
  have l: "linked_profiles (w_build sample_config_env)"
    by (auto simp: linked_profiles_def sample_config_env_def sample_links hops_of_def)
      (auto simp: hop_env_def hop_profile_def NewProxyEntity_def split: if_splits)
  have s: "w_settings sample_config_env = default_settings" by (simp add: sample_config_env_def hop_env_def)
  have k: "keeps_links (v_bean (w_build sample_config_env) (hop_profile 7))" "hops_of (w_build sample_config_env) (hop_profile 7) \<noteq> []"
    by (simp_all add: sample_config_env_def sample_links hops_of_def) (simp add: hop_profile_def NewProxyEntity_def)
  have c: "choose_route_chain sample_config_env (Some (hop_profile 7)) = Some sample_chain"
    by (simp add: choose_route_chain_def s default_settings_def default_routing_def) (simp add: sample_config_env_def sample_chain_def)
  have d: "known_outbounds sample_chain" "c_defaultOutboundID sample_chain \<in> {proxyID, directID, blockID}"
    by (simp_all add: sample_chain_def known_outbounds_def GetDefaultChain_def)
  have o: "o_game_mod_enabled_services (o_routing (w_settings sample_config_env)) = []" "\<not> o_use_dns_object (o_routing (w_settings sample_config_env))"
    by (simp_all add: s default_settings_def default_routing_def)
  show ?thesis using config_references_resolve [OF sample_config_ok l k c d o] unfolding Let_def by blast
qed

end
