(* ===== verification/Config_Test.thy ===== *)
theory Config_Test
  imports Config_References
begin

text \<open>
  The configuration of a latency test (\<open>BuildTestConfig\<close>): one configuration that holds the
  outbounds of every profile under test, with a number behind the tag of each.
\<close>

section \<open>The outbounds of one profile\<close>

definition test_tag :: "nat \<Rightarrow> string" where
  "test_tag index = (if 1 < index then ''proxy'' @ show_nat index else ''proxy'')"

definition test_skipped :: "string \<Rightarrow> bool" where
  "test_skipped tag \<longleftrightarrow> tag = ''direct'' \<or> tag = ''block'' \<or> tag = ''dns-out'' \<or> prefix ''rout'' tag"

definition test_object :: "nat \<Rightarrow> json \<Rightarrow> json" where
  "test_object index x =
     (let ob = qref ''tag'' (json_toObject x)
      in QObj (if text_at ob ''tag'' = ''proxy'' then qset ''tag'' (QStr (test_tag index)) ob else ob))"

lemma test_object_fields:
  "tag_of (test_object index x) = (if tag_of x = ''proxy'' then test_tag index else tag_of x)"
  "detour_of (test_object index x) = detour_of x"
  by (auto simp: test_object_def Let_def tag_of_def detour_of_def)

definition count_own :: "nat \<Rightarrow> int \<Rightarrow> json \<Rightarrow> test_config \<Rightarrow> test_config" where
  "count_own index entID x res =
     (if tag_of x = ''proxy''
      then res\<lparr>bt_outboundTags := bt_outboundTags res @ [test_tag index],
               bt_tag2entID := qset (test_tag index) entID (bt_tag2entID res)\<rparr>
      else res)"

lemma add_test_step:
  "add_test_outbounds index entID (x # xs) outs ends res =
     (if test_skipped (tag_of x) then add_test_outbounds index entID xs outs ends res
      else let y = test_object index x; res = count_own index entID x res
           in if endpoint_type (json_toObject y) then add_test_outbounds index entID xs outs (ends @ [y]) res
              else add_test_outbounds index entID xs (outs @ [y]) ends res)"
  by (cases "tag_of x = ''proxy''"; cases "1 < index")
    (simp_all add: test_skipped_def test_object_def count_own_def test_tag_def tag_of_def Let_def del: append_assoc)

lemma add_test_outbounds_spec:
  "let (outs', ends', res') = add_test_outbounds index entID xs outs ends res; own = filter (\<lambda>x. tag_of x = ''proxy'') xs
   in mset (outs' @ ends') = mset (outs @ ends) + mset (map (test_object index) (filter (\<lambda>x. \<not> test_skipped (tag_of x)) xs))
      \<and> bt_outboundTags res' = bt_outboundTags res @ map (\<lambda>_. test_tag index) own
      \<and> map_of (bt_tag2entID res') = (if own = [] then map_of (bt_tag2entID res) else (map_of (bt_tag2entID res))(test_tag index \<mapsto> entID))
      \<and> bt_error res' = bt_error res \<and> bt_fullConfigs res' = bt_fullConfigs res"
proof (induction xs arbitrary: outs ends res)
  case (Cons x xs)
  let ?y = "test_object index x" and ?r = "count_own index entID x res"
  have p: "\<not> test_skipped ''proxy''" by (simp add: test_skipped_def)
  have r: "bt_outboundTags ?r = bt_outboundTags res @ (if tag_of x = ''proxy'' then [test_tag index] else [])" "bt_error ?r = bt_error res" "bt_fullConfigs ?r = bt_fullConfigs res"
    "map_of (bt_tag2entID ?r) = (if tag_of x = ''proxy'' then (map_of (bt_tag2entID res))(test_tag index \<mapsto> entID) else map_of (bt_tag2entID res))"
    by (auto simp: count_own_def fun_eq_iff qset_lookup)
  show ?case
  proof (cases "test_skipped (tag_of x)")
    case True
    with p have "tag_of x \<noteq> ''proxy''" by auto
    with True Cons.IH [of outs ends res] show ?thesis by (simp add: add_test_step Let_def split_beta del: add_test_outbounds.simps)
  next
    case False
    then show ?thesis
      using Cons.IH [of outs "ends @ [?y]" ?r] Cons.IH [of "outs @ [?y]" ends ?r] p
      by (simp add: add_test_step Let_def split_beta r del: add_test_outbounds.simps)
  qed
qed simp

section \<open>Tags of different profiles\<close>

lemma test_tag_inj: "0 < k \<Longrightarrow> 0 < l \<Longrightarrow> test_tag k = test_tag l \<Longrightarrow> k = l"
  by (auto simp: test_tag_def show_nat_inj split: if_splits dest: sym [of "[]"])

lemma test_tag_hd: "hd (test_tag k) = CHR ''p''"
  by (simp add: test_tag_def)

lemma hop_tag_chains_differ:
  assumes "0 \<le> c" and "0 \<le> d" and "0 < i" and "0 < j" and "hop_tag c None i e = hop_tag d None j e'"
  shows "c = d"
proof -
  have "show_int c @ CHR ''-'' # (show_int (e_id e) @ ''-'' @ show_nat i) = show_int d @ CHR ''-'' # (show_int (e_id e') @ ''-'' @ show_nat j)"
    using assms by (simp add: hop_tag_def chain_tag_def)
  from first_sep [OF show_int_no_dash show_int_no_dash this] assms(1,2) show_int_inj show ?thesis by blast
qed

text \<open>What building one profile for a test leaves.\<close>

lemma test_build_objects:
  assumes "s_error (BuildConfigSingBox w (new_status (Some ent) traffic True cid)) = ''''"
    and "choose_route_chain w (Some ent) = Some chain"
    and l: "linked_profiles (w_build w)" "keeps_links (v_bean (w_build w) ent)" "hops_of (w_build w) ent \<noteq> []"
  defines "config \<equiv> s_coreConfig (BuildConfigSingBox w (new_status (Some ent) traffic True cid))"
  defines "objs \<equiv> json_toArray (qat config ''outbounds'') @ json_toArray (qat config ''endpoints'')"
  shows "json_toArray (qat config ''outbounds'') \<noteq> []" and "distinct (map tag_of objs)" and "''proxy'' \<in> tag_of ` set objs"
    and "tag_of ` set objs \<subseteq> {''direct'', ''block''} \<union> {t. \<exists>i e. t = hop_tag cid None i e}"
    and "\<forall>j\<in>set objs. detour_of j = '''' \<or> detour_of j \<in> tag_of ` set objs"
    and "\<forall>j\<in>set objs. detour_of j = '''' \<or> (\<exists>i>0. \<exists>e. detour_of j = hop_tag cid None i e)"
proof -
  from start_steps [OF assms(1,2)] obtain s1 tag s2 c2 parts s3 routeObj parts'
    where b: "BuildChain (w_build w) cid ent (new_status (Some ent) traffic True cid) = (s1, tag)" "s_error s1 = ''''"
      and i: "sing_box_inbounds w (fst (add_extra_core w ent s1 (copy_RoutingChain chain)))
         (snd (add_extra_core w ent s1 (copy_RoutingChain chain))) parts = (s2, c2)"
      and r: "sing_box_route w s2 c2 parts = (True, s3, routeObj, parts')"
      and f: "BuildConfigSingBox w (new_status (Some ent) traffic True cid) = sing_box_finish w s3 routeObj tag parts'" by metis
  let ?x = "add_extra_core w ent s1 (copy_RoutingChain chain)"
  note O = own_chain_wired [OF b refl l]
  from BuildChain_ok [OF b] have s1: "s_forTest s1" by (metis new_status_def build_status.select_convs(9))
  note I = sing_box_inbounds_status [of w "fst ?x" "snd ?x" parts, unfolded i fst_conv add_extra_core_fields]
  have "s_forTest s2" using I(5) s1 by simp
  then have "s3 = s2" using r by (simp add: sing_box_route_def Let_def)
  then have o: "objs = objects (s1\<lparr>s_outbounds := s_outbounds s1 @ [QObj (qobj [(''type'', QStr ''direct''), (''tag'', QStr ''direct'')]),
      QObj (qobj [(''type'', QStr ''block''), (''tag'', QStr ''block'')])]\<rparr>)"
    by (simp add: objs_def config_def f sing_box_finish_config objects_def I)
  show "json_toArray (qat config ''outbounds'') \<noteq> []" using \<open>s3 = s2\<close> by (simp add: config_def f sing_box_finish_config I)
  show "distinct (map tag_of objs)" "\<forall>j\<in>set objs. detour_of j = '''' \<or> detour_of j \<in> tag_of ` set objs"
    using O(1) by (simp_all add: wired_def o tags_def)
  show "''proxy'' \<in> tag_of ` set objs" "tag_of ` set objs \<subseteq> {''direct'', ''block''} \<union> {t. \<exists>i e. t = hop_tag cid None i e}"
    using O(2,4) by (simp_all add: o tags_def)
  show "\<forall>j\<in>set objs. detour_of j = '''' \<or> (\<exists>i>0. \<exists>e. detour_of j = hop_tag cid None i e)" using O(5) by (simp add: o)
qed

section \<open>The loop over the profiles\<close>

text \<open>A tag of the first \<open>n\<close> profiles: numbered, or that of a hop further along.\<close>

definition test_names :: "nat \<Rightarrow> string set" where
  "test_names n = {''direct''} \<union> {t. \<exists>k. 0 < k \<and> k \<le> n \<and> (t = test_tag k \<or> (\<exists>i>0. \<exists>e. t = hop_tag (int k) None i e))}"

text \<open>A profile that is a whole configuration takes an index of its own, but no tag.\<close>

definition full_config :: "config_env \<Rightarrow> entity \<Rightarrow> bool" where
  "full_config w e \<longleftrightarrow> e_type e = ''custom'' \<and> b_core (v_bean (w_build w) e) = ''internal-full''"

definition numbered :: "config_env \<Rightarrow> entity list \<Rightarrow> nat list" where
  "numbered w es = filter (\<lambda>k. \<not> full_config w (es ! k)) [0..<length es]"

lemma numbered_snoc [simp]: "numbered w (es @ [e]) = numbered w es @ (if full_config w e then [] else [length es])"
proof -
  have "filter (\<lambda>k. \<not> full_config w ((es @ [e]) ! k)) [0..<length es] = numbered w es"
    unfolding numbered_def by (intro filter_cong) (simp_all add: nth_append)
  then show ?thesis by (simp add: numbered_def)
qed

lemma numbered_less: "k \<in> set (numbered w es) \<Longrightarrow> k < length es"
  by (simp add: numbered_def)

definition test_wired :: "config_env \<Rightarrow> entity list \<Rightarrow> test_build \<Rightarrow> bool" where
  "test_wired w tested z \<longleftrightarrow>
     (let n = length tested; objs = z_outbounds z @ z_endpoints z; r = z_result z
      in z_index z = n \<and> distinct (map tag_of objs) \<and> tag_of ` set objs \<subseteq> test_names n
         \<and> (\<forall>j\<in>set objs. detour_of j = '''' \<or> detour_of j \<in> tag_of ` set objs)
         \<and> bt_outboundTags r = map (\<lambda>k. test_tag (Suc k)) (numbered w tested) \<and> set (bt_outboundTags r) \<subseteq> tag_of ` set objs
         \<and> (\<forall>k\<in>set (numbered w tested). map_of (bt_tag2entID r) (test_tag (Suc k)) = Some (e_id (tested ! k)))
         \<and> fst ` set (bt_fullConfigs r) = e_id ` {e\<in>set tested. full_config w e})"

lemma test_wired_full:
  assumes t: "test_wired w tested z" and e: "full_config w e"
    and z': "z_index z' = Suc (length tested)" "z_outbounds z' = z_outbounds z" "z_endpoints z' = z_endpoints z"
      "z_result z' = (z_result z)\<lparr>bt_fullConfigs := qset (e_id e) text (bt_fullConfigs (z_result z))\<rparr>"
  shows "test_wired w (tested @ [e]) z'"
proof -
  have mono: "test_names (length tested) \<subseteq> test_names (Suc (length tested))" unfolding test_names_def using le_SucI by blast
  have old: "\<forall>k\<in>set (numbered w tested). (tested @ [e]) ! k = tested ! k" by (auto simp: nth_append dest: numbered_less)
  have full: "insert (e_id e) (e_id ` {e\<in>set tested. full_config w e}) = e_id ` {e'\<in>set (tested @ [e]). full_config w e'}"
    using e by auto
  show ?thesis using t e old mono unfolding test_wired_def Let_def z' full [symmetric] by auto
qed

lemma one_own: "distinct (map f xs) \<Longrightarrow> t \<in> f ` set xs \<Longrightarrow> length (filter (\<lambda>x. f x = t) xs) = 1"
proof (induction xs)
  case (Cons x xs)
  then show ?case by (cases "f x = t") (auto simp: filter_empty_conv image_iff)
qed simp

text \<open>The objects one profile adds: new tags, and detours among them.\<close>

lemma test_objects_fresh:
  assumes d: "distinct (map tag_of xs)" "''proxy'' \<in> tag_of ` set xs"
    and t: "tag_of ` set xs \<subseteq> {''direct'', ''block''} \<union> {t. \<exists>i e. t = hop_tag (int (Suc n)) None i e}"
    and det: "\<forall>j\<in>set xs. detour_of j = '''' \<or> detour_of j \<in> tag_of ` set xs"
      "\<forall>j\<in>set xs. detour_of j = '''' \<or> (\<exists>i>0. \<exists>e. detour_of j = hop_tag (int (Suc n)) None i e)"
  defines "new \<equiv> map (test_object (Suc n)) (filter (\<lambda>x. \<not> test_skipped (tag_of x)) xs)"
  shows "distinct (map tag_of new)" and "tag_of ` set new \<inter> test_names n = {}" and "tag_of ` set new \<subseteq> test_names (Suc n)"
    and "test_tag (Suc n) \<in> tag_of ` set new" and "\<forall>j\<in>set new. detour_of j = '''' \<or> detour_of j \<in> tag_of ` set new"
    and "length (filter (\<lambda>x. tag_of x = ''proxy'') xs) = 1"
proof -
  let ?keep = "\<lambda>x. \<not> test_skipped (tag_of x)" and ?cid = "int (Suc n)"
  let ?ren = "\<lambda>t. if t = ''proxy'' then test_tag (Suc n) else t"
  have hop: "hop_tag ?cid None i e = ''proxy'' \<longleftrightarrow> i = 0" for i e using hop_tag_own [of ?cid i e] by auto
  have keep: "\<not> test_skipped (hop_tag ?cid None i e)" for i e
    by (simp add: hop_tag_def chain_tag_def test_skipped_def)
  have mem: "?ren (tag_of x) = test_tag (Suc n) \<or> (\<exists>i>0. \<exists>e. ?ren (tag_of x) = hop_tag ?cid None i e)"
    if "x \<in> set xs" "?keep x" for x
  proof -
    have "tag_of x \<in> {''direct'', ''block''} \<union> {t. \<exists>i e. t = hop_tag ?cid None i e}" using t that(1) by blast
    with that(2) obtain i e where "tag_of x = hop_tag ?cid None i e" by (auto simp: test_skipped_def)
    then show ?thesis using hop [of i e] by (cases "i = 0") auto
  qed
  have tags: "map tag_of new = map ?ren (map tag_of (filter ?keep xs))"
    by (simp add: new_def test_object_fields)
  have cp: "hop_tag c None i e \<noteq> test_tag k" if "0 < i" for c i e k
    using that hop_tag_hd [of c None i e] test_tag_hd [of k] by auto
  have "inj_on ?ren (tag_of ` set (filter ?keep xs))"
  proof (rule inj_onI)
    fix a b
    assume "a \<in> tag_of ` set (filter ?keep xs)" "b \<in> tag_of ` set (filter ?keep xs)" "?ren a = ?ren b"
    moreover have "c \<noteq> test_tag (Suc n) \<or> c = ''proxy''" if h: "c \<in> tag_of ` set (filter ?keep xs)" for c
    proof -
      obtain x where x: "x \<in> set xs" "?keep x" "c = tag_of x" using h by auto
      then have "c \<in> {''direct'', ''block''} \<union> {t. \<exists>i e. t = hop_tag ?cid None i e}" using t by blast
      with x obtain i e where "c = hop_tag ?cid None i e" by (auto simp: test_skipped_def)
      then show ?thesis using hop [of i e] cp [of i ?cid e "Suc n"] by (cases "i = 0") auto
    qed
    ultimately show "a = b" by (metis (full_types))
  qed
  moreover have "distinct (map tag_of (filter ?keep xs))" using d(1) by (rule distinct_map_filter)
  ultimately show "distinct (map tag_of new)" unfolding tags distinct_map [of ?ren] by simp
  have set_new: "tag_of ` set new = ?ren ` (tag_of ` set (filter ?keep xs))" using arg_cong [OF tags, of set] by (simp only: set_map)
  show "tag_of ` set new \<subseteq> test_names (Suc n)"
  proof
    fix t
    assume "t \<in> tag_of ` set new"
    then obtain x where x: "x \<in> set xs" "?keep x" "t = ?ren (tag_of x)" unfolding set_new by auto
    from mem [OF x(1,2)] x(3) have "t = test_tag (Suc n) \<or> (\<exists>i>0. \<exists>e. t = hop_tag ?cid None i e)" by (simp only:)
    then show "t \<in> test_names (Suc n)" unfolding test_names_def by blast
  qed
  have "?ren (tag_of x) \<notin> test_names n" if "x \<in> set xs" "?keep x" for x
    using mem [OF that]
  proof
    assume h: "?ren (tag_of x) = test_tag (Suc n)"
    have "test_tag (Suc n) \<noteq> ''direct''" using test_tag_hd [of "Suc n"] by auto
    moreover have False if k: "0 < k" "k \<le> n" and e: "test_tag (Suc n) = test_tag k" for k
      using test_tag_inj [OF _ k(1) e] k(2) by simp
    ultimately show ?thesis unfolding h test_names_def using cp [THEN not_sym] by blast
  next
    assume "\<exists>i>0. \<exists>e. ?ren (tag_of x) = hop_tag ?cid None i e"
    then obtain i e where i: "0 < i" and h: "?ren (tag_of x) = hop_tag ?cid None i e" by blast
    have "hop_tag ?cid None i e \<noteq> ''direct''" using hop_tag_hd [of ?cid None i e] i by auto
    moreover have "False" if "hop_tag ?cid None i e = hop_tag (int k) None j e'" "0 < j" "k \<le> n" for k j e'
      using hop_tag_chains_differ [of ?cid "int k" i j e e'] that i by simp
    ultimately show ?thesis unfolding h test_names_def using cp [OF i] by blast
  qed
  then show "tag_of ` set new \<inter> test_names n = {}" unfolding set_new image_image set_filter by blast
  have "''proxy'' \<in> tag_of ` set (filter ?keep xs)" 
  proof -
    obtain x where x: "x \<in> set xs" "tag_of x = ''proxy''" using d(2) by auto
    then have "x \<in> set (filter ?keep xs)" by (simp add: test_skipped_def)
    with x(2) show ?thesis by (metis imageI)
  qed
  then show own: "test_tag (Suc n) \<in> tag_of ` set new" unfolding set_new by force
  show "\<forall>j\<in>set new. detour_of j = '''' \<or> detour_of j \<in> tag_of ` set new"
  proof
    fix j
    assume "j \<in> set new"
    then obtain x where x: "x \<in> set xs" "detour_of j = detour_of x" by (auto simp: new_def test_object_fields)
    show "detour_of j = '''' \<or> detour_of j \<in> tag_of ` set new"
    proof (cases "detour_of x = ''''")
      case False
      with det(1) x(1) obtain y where y: "y \<in> set xs" "detour_of x = tag_of y" by blast
      from det(2) x(1) False obtain i e where "0 < i" "detour_of x = hop_tag ?cid None i e" by blast
      with y(2) have y': "tag_of y = hop_tag ?cid None i e" "0 < i" by simp_all
      have k: "y \<in> set (filter ?keep xs)" "tag_of (test_object (Suc n) y) = detour_of j"
      proof -
        from y' keep have "?keep y" by (simp only: not_False_eq_True)
        with y(1) show "y \<in> set (filter ?keep xs)" by simp
        from y' hop [of i e] have "tag_of y \<noteq> ''proxy''" by (simp only: neq0_conv)
        then show "tag_of (test_object (Suc n) y) = detour_of j" using y(2) x(2) by (simp only: test_object_fields if_False)
      qed
      have "test_object (Suc n) y \<in> set new" unfolding new_def set_map by (rule imageI [OF k(1)])
      then show ?thesis using k(2) by (metis imageI)
    qed (use x in simp)
  qed
  show "length (filter (\<lambda>x. tag_of x = ''proxy'') xs) = 1"
    using d by (rule one_own)
qed

lemma test_step:
  assumes w: "test_wired w tested z" and n: "n = length tested" and e: "\<not> full_config w e"
    and d: "distinct (map tag_of xs)" "''proxy'' \<in> tag_of ` set xs"
    and t: "tag_of ` set xs \<subseteq> {''direct'', ''block''} \<union> {t. \<exists>i e. t = hop_tag (int (Suc n)) None i e}"
    and det: "\<forall>j\<in>set xs. detour_of j = '''' \<or> detour_of j \<in> tag_of ` set xs"
      "\<forall>j\<in>set xs. detour_of j = '''' \<or> (\<exists>i>0. \<exists>e. detour_of j = hop_tag (int (Suc n)) None i e)"
    and a: "add_test_outbounds (Suc n) (e_id e) xs (z_outbounds z) (z_endpoints z) r = (outs, ends, r')"
    and r: "bt_outboundTags r = bt_outboundTags (z_result z)" "bt_tag2entID r = bt_tag2entID (z_result z)" "bt_fullConfigs r = bt_fullConfigs (z_result z)"
    and z': "z_index z' = Suc n" "z_outbounds z' = outs" "z_endpoints z' = ends" "z_result z' = r'"
  shows "test_wired w (tested @ [e]) z'"
proof -
  let ?new = "map (test_object (Suc n)) (filter (\<lambda>x. \<not> test_skipped (tag_of x)) xs)"
    and ?old = "z_outbounds z @ z_endpoints z" and ?objs = "outs @ ends"
  note F = test_objects_fresh [OF d t det]
  have own: "filter (\<lambda>x. tag_of x = ''proxy'') xs \<noteq> []" using F(6) by auto
  have W: "distinct (map tag_of ?old)" "tag_of ` set ?old \<subseteq> test_names n" "\<forall>j\<in>set ?old. detour_of j = '''' \<or> detour_of j \<in> tag_of ` set ?old"
      "bt_outboundTags r = map (\<lambda>k. test_tag (Suc k)) (numbered w tested)" "set (bt_outboundTags r) \<subseteq> tag_of ` set ?old"
      "\<forall>k\<in>set (numbered w tested). map_of (bt_tag2entID r) (test_tag (Suc k)) = Some (e_id (tested ! k))"
      "fst ` set (bt_fullConfigs r) = e_id ` {e\<in>set tested. full_config w e}"
    using w unfolding test_wired_def Let_def n [symmetric] r by blast+
  have S: "mset ?objs = mset ?old + mset ?new" "bt_outboundTags r' = bt_outboundTags r @ map (\<lambda>_. test_tag (Suc n)) (filter (\<lambda>x. tag_of x = ''proxy'') xs)"
      "map_of (bt_tag2entID r') = (map_of (bt_tag2entID r))(test_tag (Suc n) \<mapsto> e_id e)" "bt_fullConfigs r' = bt_fullConfigs r"
    using add_test_outbounds_spec [of "Suc n" "e_id e" xs "z_outbounds z" "z_endpoints z" r] a own by (simp_all add: Let_def)
  have one: "map (\<lambda>_. test_tag (Suc n)) (filter (\<lambda>x. tag_of x = ''proxy'') xs) = [test_tag (Suc n)]"
    using F(6) by (cases "filter (\<lambda>x. tag_of x = ''proxy'') xs") auto
  have set: "set ?objs = set ?old \<union> set ?new" using arg_cong [OF S(1), of set_mset] by simp
  have "mset (map tag_of ?objs) = image_mset tag_of (mset ?old + mset ?new)" unfolding S(1) [symmetric] by (rule mset_map)
  also have "\<dots> = mset (map tag_of ?old @ map tag_of ?new)" by (simp only: mset_map mset_append image_mset_union)
  finally have "distinct (map tag_of ?objs) \<longleftrightarrow> distinct (map tag_of ?old @ map tag_of ?new)" by (rule mset_eq_imp_distinct_iff)
  also have "\<dots>" unfolding distinct_append using W(1,2) F(1,2) by (auto simp only: set_map)
  finally have dist: "distinct (map tag_of ?objs)" .
  have tags: "tag_of ` set ?objs = tag_of ` set ?old \<union> tag_of ` set ?new" unfolding set by (rule image_Un)
  have mono: "test_names n \<subseteq> test_names (Suc n)" unfolding test_names_def using le_SucI by blast
  have names: "tag_of ` set ?objs \<subseteq> test_names (Suc n)" unfolding tags using W(2) F(3) mono by blast
  have detours: "\<forall>j\<in>set ?objs. detour_of j = '''' \<or> detour_of j \<in> tag_of ` set ?objs" unfolding tags set using W(3) F(5) by blast
  have num: "numbered w (tested @ [e]) = numbered w tested @ [n]" using e n by simp
  have ot: "bt_outboundTags r' = map (\<lambda>k. test_tag (Suc k)) (numbered w (tested @ [e]))" unfolding num S(2) one W(4) by simp
  have os: "set (bt_outboundTags r') \<subseteq> tag_of ` set ?objs"   proof -
    have "set (bt_outboundTags r') = insert (test_tag (Suc n)) (set (bt_outboundTags r))" unfolding S(2) one by simp
    moreover have "set (bt_outboundTags r) \<subseteq> tag_of ` set ?old \<union> tag_of ` set ?new" using W(5) by (rule le_supI1)
    moreover have "test_tag (Suc n) \<in> tag_of ` set ?old \<union> tag_of ` set ?new" using F(4) by (rule UnI2)
    ultimately show ?thesis unfolding tags by (simp only: insert_subset simp_thms)
  qed
  have ids: "map_of (bt_tag2entID r') (test_tag (Suc k)) = Some (e_id ((tested @ [e]) ! k))"
    if "k \<in> set (numbered w (tested @ [e]))" for k
  proof (cases "k = n")
    case False
    with that num have m: "k \<in> set (numbered w tested)" by simp
    then have k: "k < n" using numbered_less n by blast
    have "test_tag (Suc k) \<noteq> test_tag (Suc n)" using test_tag_inj [of "Suc k" "Suc n"] k by auto
    then show ?thesis using W(6) k m n by (simp add: S(3) nth_append)
  qed (simp add: S(3) nth_append n)
  have "fst ` set (bt_fullConfigs r') = e_id ` {e'\<in>set (tested @ [e]). full_config w e'}"
    unfolding S(4) W(7) using e by auto
  then show ?thesis using dist names detours ot os n ids unfolding test_wired_def z' Let_def by simp
qed

lemma test_chain_chosen:
  assumes "s_error (BuildConfigSingBox w (new_status (Some ent) traffic True cid)) = ''''"
  obtains chain where "choose_route_chain w (Some ent) = Some chain"
  using assms by (cases "choose_route_chain w (Some ent)") (auto simp: BuildConfigSingBox_def new_status_def)

text \<open>A profile whose configuration the builder makes: the rest of the configuration is not merged
  with a text of the profile, and its own options leave the tags and detours to the builder.\<close>

definition test_ready :: "config_env \<Rightarrow> entity \<Rightarrow> bool" where
  "test_ready w e \<longleftrightarrow> full_config w e \<or>
     (let bean = v_bean (w_build w) e
      in (e_type e = ''custom'' \<longrightarrow> b_custom_config bean = []) \<and> keeps_links bean \<and> hops_of (w_build w) e \<noteq> [])"

lemma test_loop_wired:
  assumes "test_loop w valid (\<lambda>e i. BuildConfig w traffic (Some e) True (int i)) print items z = (True, z')"
    and l: "linked_profiles (w_build w)" and p: "\<forall>e\<in>set items. e_type e \<noteq> ''extracore'' \<and> valid e \<longrightarrow> test_ready w e"
    and "test_wired w tested z"
  shows "test_wired w (tested @ filter (\<lambda>e. e_type e \<noteq> ''extracore'' \<and> valid e) items) z'
    \<and> z_invalid z' = z_invalid z @ map e_id (filter (\<lambda>e. e_type e \<noteq> ''extracore'' \<and> \<not> valid e) items)"
  using assms(1,3,4)
proof (induction items arbitrary: z tested)
  case (Cons e items)
  consider "e_type e = ''extracore''" | "e_type e \<noteq> ''extracore''" "\<not> valid e" | "e_type e \<noteq> ''extracore''" "valid e" by blast
  then show ?case
  proof cases
    case 1
    with Cons show ?thesis by (simp add: Let_def)
  next
    case 2
    let ?z = "z\<lparr>z_invalid := z_invalid z @ [e_id e]\<rparr>"
    have "test_wired w tested ?z" using Cons.prems(3) by (simp add: test_wired_def)
    with 2 Cons.IH [of ?z tested] Cons.prems show ?thesis by (simp add: Let_def)
  next
    case 3
    have i: "z_index z = length tested" using Cons.prems(3) by (simp add: test_wired_def Let_def)
    show ?thesis
    proof (cases "full_config w e")
    case True
    let ?n = "length tested"
    let ?res = "BuildConfig w traffic (Some e) True (int (Suc ?n))"
    let ?z = "z\<lparr>z_index := Suc ?n, z_result := (z_result z)\<lparr>bt_fullConfigs :=
      qset (e_id e) (print (full_test_config (v_net (w_build w)) (s_coreConfig ?res))) (bt_fullConfigs (z_result z))\<rparr>\<rparr>"
    have "test_loop w valid (\<lambda>e i. BuildConfig w traffic (Some e) True (int i)) print items ?z = (True, z')"
      using Cons.prems(1) 3 True i by (simp add: Let_def full_config_def split: if_splits)
    moreover have "test_wired w (tested @ [e]) ?z" by (rule test_wired_full [OF Cons.prems(3) True]) simp_all
    ultimately show ?thesis using Cons.IH [of ?z "tested @ [e]"] Cons.prems(2) 3 by simp
    next
    case False
    let ?n = "length tested" and ?s = "new_status (Some e) traffic True (int (Suc (length tested)))"
    let ?res = "BuildConfigSingBox w ?s"
    let ?config = "s_coreConfig ?res"
    let ?xs = "json_toArray (qat ?config ''outbounds'') @ json_toArray (qat ?config ''endpoints'')"
    have ready: "e_type e \<noteq> ''custom'' \<or> b_custom_config (v_bean (w_build w) e) = []" "keeps_links (v_bean (w_build w) e)"
        "hops_of (w_build w) e \<noteq> []"
      using Cons.prems(2) 3 False by (auto simp: test_ready_def Let_def)
    have custom: "\<not> (e_type e = ''custom'' \<and> b_core (v_bean (w_build w) e) = ''internal-full'')" using False by (simp add: full_config_def)
    have b: "BuildConfig w traffic (Some e) True (int (Suc ?n)) = ?res" using ready(1) custom by (auto simp: BuildConfig_def Let_def)
    have ok: "s_error ?res = ''''"
      using Cons.prems(1) 3 custom i b by (cases "s_error ?res = ''''") (simp_all add: Let_def)
    then obtain chain where chain: "choose_route_chain w (Some e) = Some chain" by (rule test_chain_chosen)
    note T = test_build_objects [OF ok chain l ready(2,3)]
    let ?r = "if bt_coreConfig (z_result z) = [] then (z_result z)\<lparr>bt_coreConfig := ?config\<rparr> else z_result z"
    obtain outs ends r where a: "add_test_outbounds (Suc ?n) (e_id e) ?xs (z_outbounds z) (z_endpoints z) ?r = (outs, ends, r)"
      by (metis prod_cases3)
    let ?z = "z\<lparr>z_index := Suc ?n, z_outbounds := outs, z_endpoints := ends, z_domains := z_domains z @ test_domains ?config, z_result := r\<rparr>"
    have "test_loop w valid (\<lambda>e i. BuildConfig w traffic (Some e) True (int i)) print items ?z = (True, z')"
      using Cons.prems(1) 3 custom i b ok a T(1) by (simp add: Let_def split: if_splits)
    moreover have "test_wired w (tested @ [e]) ?z"
      by (intro test_step [OF Cons.prems(3) refl False T(2-6) a]) simp_all
    ultimately show ?thesis using Cons.IH [of ?z "tested @ [e]"] Cons.prems(2) 3 by simp
    qed
  qed
qed simp

lemma test_loop_failed:
  "test_loop w valid build print items z = (False, z') \<Longrightarrow> bt_error (z_result z') \<noteq> ''''"
proof (induction items arbitrary: z)
  case (Cons e items)
  from Cons.prems show ?case
    by (auto simp: Let_def split: if_splits prod.splits dest: Cons.IH)
qed simp

section \<open>Properties of tests\<close>

text \<open>C17. When a latency test is built without an error, no two outbounds of its configuration share
  a tag, every detour leads to one of them, and the results can be told apart. The profiles that are
  tested are the valid ones without a core of their own; each takes the next number from 1. A custom
  profile that is a whole configuration has no tag: its configuration is in the table of full
  configurations, which has exactly these profiles. Every other profile has the tag \<open>proxy\<close> with its
  number behind it (1 is left out), these are the tags of the test in the order of the profiles, each is
  the tag of an outbound, and the table of tags names for each the identifier of its profile. The
  profiles that were not valid are the ones whose latency becomes \<open>-1\<close>. The conditions: the custom
  options of the profiles and of the members of chains set neither \<open>tag\<close> nor \<open>detour\<close>, no chain is without
  members, and a custom outbound that is tested has no configuration text to merge.\<close>

theorem test_tags_attributed:
  assumes r: "BuildTestConfig w valid (\<lambda>e i. BuildConfig w traffic (Some e) True (int i)) print profiles = (res, invalid)"
    and ok: "bt_error res = ''''" and l: "linked_profiles (w_build w)"
    and p: "\<forall>e\<in>set profiles. e_type e \<noteq> ''extracore'' \<and> valid e \<longrightarrow> test_ready w e"
  shows "let tested = filter (\<lambda>e. e_type e \<noteq> ''extracore'' \<and> valid e) profiles; config = bt_coreConfig res;
      objs = json_toArray (qat config ''outbounds'') @ json_toArray (qat config ''endpoints'')
    in distinct (map tag_of objs) \<and> (\<forall>j\<in>set objs. detour_of j = '''' \<or> detour_of j \<in> tag_of ` set objs)
       \<and> bt_outboundTags res = map (\<lambda>k. test_tag (Suc k)) (numbered w tested)
       \<and> set (bt_outboundTags res) \<subseteq> tag_of ` set objs
       \<and> (\<forall>k\<in>set (numbered w tested). map_of (bt_tag2entID res) (test_tag (Suc k)) = Some (e_id (tested ! k)))
       \<and> fst ` set (bt_fullConfigs res) = e_id ` {e\<in>set tested. full_config w e}
       \<and> invalid = map e_id (filter (\<lambda>e. e_type e \<noteq> ''extracore'' \<and> \<not> valid e) profiles)"
proof -
  let ?build = "\<lambda>e i. BuildConfig w traffic (Some e) True (int i)"
  obtain b z where z: "test_loop w valid ?build print profiles new_test_build = (b, z)" by force
  have b: b using test_loop_failed [of w valid ?build print profiles new_test_build z] z r ok
    by (cases b) (auto simp: BuildTestConfig_def)
  have fields: "bt_outboundTags res = bt_outboundTags (z_result z)" "bt_tag2entID res = bt_tag2entID (z_result z)"
      "bt_fullConfigs res = bt_fullConfigs (z_result z)"
      "qat (bt_coreConfig res) ''outbounds'' = QArr (z_outbounds z)" "qat (bt_coreConfig res) ''endpoints'' = QArr (z_endpoints z)"
      "invalid = z_invalid z"
    using r z b by (auto simp: BuildTestConfig_def Let_def)
  have "test_wired w [] new_test_build"
    by (simp add: test_wired_def numbered_def new_test_build_def test_names_def Let_def text_at_def qat_def qobj_lookup)
  from test_loop_wired [OF _ l p this] z b
  have "test_wired w (filter (\<lambda>e. e_type e \<noteq> ''extracore'' \<and> valid e) profiles) z"
    "invalid = map e_id (filter (\<lambda>e. e_type e \<noteq> ''extracore'' \<and> \<not> valid e) profiles)"
    by (simp_all add: fields(6)) (simp add: new_test_build_def)
  then show ?thesis unfolding test_wired_def Let_def fields(1-5) json_toArray.simps by blast
qed

lemma sample_linked:
  "linked_profiles (w_build sample_config_env)" "choose_route_chain sample_config_env (Some e) = Some sample_chain"
  "keeps_links (v_bean (w_build sample_config_env) (hop_profile i))" "hops_of (w_build sample_config_env) (hop_profile i) \<noteq> []"
  "e_type (hop_profile i) = ''socks''"
proof -
  show "linked_profiles (w_build sample_config_env)"
    by (auto simp: linked_profiles_def sample_config_env_def sample_links hops_of_def)
      (auto simp: hop_env_def hop_profile_def NewProxyEntity_def split: if_splits)
  have "w_settings sample_config_env = default_settings" by (simp add: sample_config_env_def hop_env_def)
  then show "choose_route_chain sample_config_env (Some e) = Some sample_chain"
    by (simp add: choose_route_chain_def default_settings_def default_routing_def) (simp add: sample_config_env_def sample_chain_def)
  show "keeps_links (v_bean (w_build sample_config_env) (hop_profile i))" by (simp add: sample_config_env_def sample_links)
  show "e_type (hop_profile i) = ''socks''" by (simp add: hop_profile_def NewProxyEntity_def)
  then show "hops_of (w_build sample_config_env) (hop_profile i) \<noteq> []" by (simp add: hops_of_def)
qed

lemma sample_test_build_ok: "s_error (BuildConfigSingBox sample_config_env (new_status (Some (hop_profile 7)) no_traffic True cid)) = ''''"
proof -
  let ?w = sample_config_env and ?n = "new_status (Some (hop_profile 7)) no_traffic True cid"
  have build: "w_build ?w = hop_env" by (simp add: sample_config_env_def)
  obtain s1 tag where b: "BuildChain hop_env cid (hop_profile 7) ?n = (s1, tag)" by force
  have s1: "s_error s1 = ''''" using sample_start_ok [of cid True] b by simp
  from BuildChain_ok [OF b s1] have f: "s_forTest s1" by (metis new_status_def build_status.select_convs(9))
  have x: "add_extra_core ?w (hop_profile 7) s1 c = (s1, c)" for c by (simp add: add_extra_core_def sample_linked)
  have n: "s_ent ?n = Some (hop_profile 7)" "s_chainID ?n = cid" by (simp_all add: new_status_def)
  have "s_error (sing_box_from ?w s1 c tag p) = ''''" for c p
  proof -
    obtain s2 c2 where i: "sing_box_inbounds ?w s1 c p = (s2, c2)" by force
    have "s_forTest s2" "s_error s2 = ''''" using sing_box_inbounds_status [of ?w s1 c p] i f s1 by simp_all
    then show ?thesis by (simp add: sing_box_from_def i sing_box_route_def Let_def sing_box_finish_config(4))
  qed
  then show ?thesis by (simp add: BuildConfigSingBox_def n sample_linked b s1 x build Let_def)
qed

theorem test_tags_attributed_witness:
  "let res = fst (BuildTestConfig sample_config_env (\<lambda>_. True)
         (\<lambda>e i. BuildConfig sample_config_env no_traffic (Some e) True (int i)) (\<lambda>_. '''') [hop_profile 7])
   in bt_outboundTags res = [''proxy''] \<and> map_of (bt_tag2entID res) ''proxy'' = Some 7"
proof -
  let ?w = sample_config_env and ?build = "\<lambda>e i. BuildConfig sample_config_env no_traffic (Some e) True (int i)"
  let ?s = "new_status (Some (hop_profile 7)) no_traffic True 1"
  have b: "BuildConfig ?w no_traffic (Some (hop_profile 7)) True 1 = BuildConfigSingBox ?w ?s"
    by (simp add: BuildConfig_def Let_def sample_linked)
  note ok = sample_test_build_ok [of 1]
  note o = test_build_objects(1) [OF ok sample_linked(2,1,3,4)]
  have loop: "\<exists>z. test_loop ?w (\<lambda>_. True) ?build (\<lambda>_. '''') [hop_profile 7] new_test_build = (True, z) \<and> bt_error (z_result z) = ''''"
  proof -
    let ?config = "s_coreConfig (BuildConfigSingBox ?w ?s)"
    let ?xs = "json_toArray (qat ?config ''outbounds'') @ json_toArray (qat ?config ''endpoints'')"
    have e: "bt_error r = '''' \<Longrightarrow> bt_error (snd (snd (add_test_outbounds 1 7 ?xs outs ends r))) = ''''" for outs ends r
      using add_test_outbounds_spec [of 1 7 ?xs outs ends r] by (simp add: Let_def split_beta)
    show ?thesis using o e by (auto simp: Let_def split_beta sample_linked new_test_build_def b ok) (simp add: hop_profile_def)
  qed
  obtain res inv where r: "BuildTestConfig ?w (\<lambda>_. True) ?build (\<lambda>_. '''') [hop_profile 7] = (res, inv)" by force
  with loop have "bt_error res = ''''" by (auto simp: BuildTestConfig_def Let_def)
  moreover have "test_ready ?w (hop_profile 7)" by (simp add: test_ready_def sample_linked Let_def)
  moreover have "numbered ?w [hop_profile 7] = [0]" by (simp add: numbered_def full_config_def sample_linked)
  ultimately have "bt_outboundTags res = map (\<lambda>k. test_tag (Suc k)) [0] \<and> (\<forall>k\<in>set [0]. map_of (bt_tag2entID res) (test_tag (Suc k)) = Some (e_id ([hop_profile 7] ! k)))"
    using test_tags_attributed [OF r _ sample_linked(1)] by (simp add: sample_linked Let_def)
  then show ?thesis by (simp add: r test_tag_def) (simp add: hop_profile_def)
qed

end
