(* ===== verification/Config_Props.thy ===== *)
theory Config_Props
  imports Config_References
begin

text \<open>
  More properties of the configuration builder: what merging a user's object into an outbound does
  at every path, the numbers of the profiles in a test, and the two places where a configuration
  is built that the core cannot use.
\<close>

section \<open>Merging objects\<close>

fun at_path :: "json \<Rightarrow> string list \<Rightarrow> json option" where
  "at_path j [] = Some j"
| "at_path (QObj obj) (k # ks) = (case map_of obj k of None \<Rightarrow> None | Some j \<Rightarrow> at_path j ks)"
| "at_path _ (k # ks) = None"

text \<open>No object has a key twice.\<close>

fun unique_keys :: "json \<Rightarrow> bool" where
  "unique_keys (QObj obj) \<longleftrightarrow> distinct (map fst obj) \<and> (\<forall>kv\<in>set obj. unique_keys (snd kv))"
| "unique_keys j \<longleftrightarrow> True"

lemma unique_keys_member: "unique_keys (QObj obj) \<Longrightarrow> map_of obj k = Some v \<Longrightarrow> unique_keys v"
  by (auto dest!: map_of_SomeD)

lemma merged_at:
  "unique_keys (QObj cust) \<Longrightarrow> at_path (QObj (MergeJson cust obj)) (k # ks) =
     (case map_of cust k of None \<Rightarrow> at_path (QObj obj) (k # ks) | Some v \<Rightarrow> at_path (merged v (map_of obj k)) ks)"
  by (simp add: MergeJson_lookup split: option.split)

lemma MergeJson_leaf:
  "unique_keys (QObj cust) \<Longrightarrow> at_path (QObj cust) p = Some v \<Longrightarrow> (\<forall>x. v \<noteq> QObj x)
     \<Longrightarrow> at_path (QObj (MergeJson cust obj)) p = Some v"
proof (induction p arbitrary: cust obj)
  case (Cons k p)
  from Cons.prems(2) obtain w where w: "map_of cust k = Some w" "at_path w p = Some v" by (auto split: option.splits)
  show ?case
  proof (cases "\<exists>vo o'. w = QObj vo \<and> map_of obj k = Some (QObj o')")
    case True
    then obtain vo o' where vo: "w = QObj vo" "map_of obj k = Some (QObj o')" by blast
    then have "merged w (map_of obj k) = QObj (MergeJson vo o')" by (simp add: merged_def)
    moreover have "unique_keys (QObj vo)" using unique_keys_member [OF Cons.prems(1) w(1)] vo(1) by simp
    from Cons.IH [OF this _ Cons.prems(3), of o'] w(2) vo(1) have "at_path (QObj (MergeJson vo o')) p = Some v" by simp
    ultimately show ?thesis using w(1) by (simp only: merged_at [OF Cons.prems(1)] option.case)
  next
    case False
    then have "merged w (map_of obj k) = w" by (auto simp: merged_def split: json.split option.split)
    then show ?thesis using w by (simp only: merged_at [OF Cons.prems(1)] option.case)
  qed
qed auto

lemma MergeJson_untouched:
  "unique_keys (QObj cust) \<Longrightarrow> at_path (QObj cust) q = Some (QObj c) \<Longrightarrow> map_of c k = None
     \<Longrightarrow> at_path (QObj (MergeJson cust obj)) (q @ k # r) = at_path (QObj obj) (q @ k # r)"
proof (induction q arbitrary: cust obj)
  case Nil
  then show ?case by (simp add: MergeJson_lookup)
next
  case (Cons l q)
  from Cons.prems(2) obtain w where w: "map_of cust l = Some w" "at_path w q = Some (QObj c)" by (auto split: option.splits)
  have none: "at_path j (s @ k # r) = None" if "at_path j s = Some (QObj c)" for j s
    using that by (induction j s rule: at_path.induct) (auto simp: Cons.prems(3) split: option.splits)
  obtain vo where vo: "w = QObj vo" using w(2) by (cases q; cases w) auto
  have u: "unique_keys (QObj vo)" using unique_keys_member [OF Cons.prems(1) w(1)] vo by simp
  show ?case
  proof (cases "\<exists>o'. map_of obj l = Some (QObj o')")
    case True
    then obtain o' where o': "map_of obj l = Some (QObj o')" by blast
    then have "merged w (map_of obj l) = QObj (MergeJson vo o')" by (simp add: merged_def vo)
    with Cons.IH [OF u _ Cons.prems(3), of o'] w vo o' merged_at [OF Cons.prems(1), of obj l "q @ k # r"]
    show ?thesis by simp
  next
    case False
    then have "merged w (map_of obj l) = w" by (auto simp: merged_def vo split: json.split option.split)
    moreover have "at_path (QObj obj) ((l # q) @ k # r) = None"
    proof (cases "map_of obj l")
      case (Some j)
      with False show ?thesis by (cases j; cases q) auto
    qed simp
    ultimately show ?thesis using none [OF w(2)] w(1) merged_at [OF Cons.prems(1), of obj l "q @ k # r"] by simp
  qed
qed

section \<open>A chain whose members are gone\<close>

lemma needed_outbounds_none: "\<forall>i\<in>set items. i < 0 \<Longrightarrow> needed_outbounds v items s m ds = (True, s, m, ds)"
  by (induction items) auto

definition no_profiles_named :: "RoutingChain \<Rightarrow> bool" where
  "no_profiles_named c \<longleftrightarrow> (\<forall>r\<in>set (c_Rules c). r_outboundID r < 0)"

lemma no_profiles_prepend: "no_profiles_named c \<Longrightarrow> r_outboundID r < 0 \<Longrightarrow> no_profiles_named (prepend_rule b r c)"
  by (simp add: no_profiles_named_def prepend_rule_def)

lemma no_profiles_named_steps:
  "no_profiles_named c \<Longrightarrow> no_profiles_named (snd (sing_box_inbounds w s c parts))"
  "no_profiles_named c \<Longrightarrow> no_profiles_named (route_extended w c)"
  "no_profiles_named c \<Longrightarrow> no_profiles_named (copy_RoutingChain c)"
proof -
  have base: "no_profiles_named (route_base w c)" if "no_profiles_named c" for c
    using that by (simp add: route_base_def core_route_rules_chain no_profiles_named_def)
  have "no_profiles_named c \<longleftrightarrow> (\<forall>i\<in>set (map r_outboundID (c_Rules c)). i < 0)" for c by (simp add: no_profiles_named_def)
  then show "no_profiles_named c \<Longrightarrow> no_profiles_named (copy_RoutingChain c)" by (simp only: copy_RoutingChain_same(2))
  show "no_profiles_named c \<Longrightarrow> no_profiles_named (snd (sing_box_inbounds w s c parts))"
    by (simp add: sing_box_inbounds_def Let_def no_profiles_prepend)
  show "no_profiles_named c \<Longrightarrow> no_profiles_named (route_extended w c)"
    using base by (simp add: route_extended_def Let_def no_profiles_prepend)
qed

lemma BuildChain_no_members:
  assumes "hops_of v ent = []" and "e_type ent = ''chain''" and "v_group v (e_gid ent) = Some grp"
    and "g_landing_proxy_id grp < 0" and "g_front_proxy_id grp < 0" and "s_error s = ''''"
  shows "BuildChain v cid ent s = (s, '''')"
proof -
  have m: "List.map_filter (v_profile v) (rev (b_list (v_bean v ent))) = []" using assms(1,2) by (simp add: hops_of_def)
  then have "resolve_members (v_profile v) (rev (b_list (v_bean v ent))) = ([], '''')"
    using resolve_members_ok [of "v_profile v" "rev (b_list (v_bean v ent))"] by (simp add: prod_eq_iff)
  then show ?thesis
    using assms by (simp add: BuildChain_def extra_hops_def ResolveChainInternal_def BuildChainInternal_def)
qed

lemma empty_start:
  assumes b: "BuildChain (w_build w) cid ent (new_status (Some ent) traffic False cid) = (new_status (Some ent) traffic False cid, tag0)"
    and chain: "choose_route_chain w (Some ent) = Some chain" "no_profiles_named chain" and t: "e_type ent \<noteq> ''extracore''"
    and g: "o_game_mod_enabled_services (o_routing (w_settings w)) = []"
  defines "cfg \<equiv> BuildConfigSingBox w (new_status (Some ent) traffic False cid)"
  shows "s_error cfg = ''''" and "qat (s_coreConfig cfg) ''outbounds'' = QArr [QObj (qobj [(''type'', QStr ''direct''), (''tag'', QStr ''direct'')]),
      QObj (qobj [(''type'', QStr ''block''), (''tag'', QStr ''block'')])]"
    and "qat (s_coreConfig cfg) ''endpoints'' = QArr []"
    and "text_at (json_toObject (qat (s_coreConfig cfg) ''route'')) ''final'' = outboundIDToString (c_defaultOutboundID chain)"
proof -
  let ?n = "new_status (Some ent) traffic False cid" and ?c = "copy_RoutingChain chain"
  have n: "s_ent ?n = Some ent" "s_chainID ?n = cid" "s_error ?n = ''''" "\<not> s_forTest ?n" "s_outbounds ?n = []" "s_endpoints ?n = []"
    by (simp_all add: new_status_def)
  have x: "add_extra_core w ent s c = (s, c)" for s c using t by (simp add: add_extra_core_def)
  have eq: "cfg = sing_box_from w ?n ?c tag0 (direct_lists (s_domainListDNSDirect ?n) ?c)"
    by (simp add: cfg_def BuildConfigSingBox_def n chain b x Let_def)
  obtain s2 c2 where i: "sing_box_inbounds w ?n ?c (direct_lists (s_domainListDNSDirect ?n) ?c) = (s2, c2)" by force
  note I = sing_box_inbounds_status [where w = w and s = ?n and c = ?c, of "direct_lists (s_domainListDNSDirect ?n) ?c", unfolded i fst_conv n]
  have c2: "no_profiles_named c2" "c_defaultOutboundID c2 = c_defaultOutboundID chain"
    using no_profiles_named_steps(1,3) [OF no_profiles_named_steps(3) [OF chain(2)]] sing_box_inbounds_chain(1) [of w ?n ?c] i
    by (metis snd_conv, metis snd_conv copy_RoutingChain_same(1))
  have "needed_outbounds (w_build w) (get_used_outbounds (route_extended w c2)) s2 m ds = (True, s2, m, ds)" for m ds
    using no_profiles_named_steps(2) [OF c2(1), of w]
    by (intro needed_outbounds_none) (auto simp: no_profiles_named_def get_used_outbounds_def)
  note N = this
  have s2: "\<not> s_forTest s2" "s_error s2 = ''''" using I(3,5) n by simp_all
  note O = sing_box_route_outcome [OF s2(1) g N s2(2)]
  obtain routeObj parts' where r: "sing_box_route w s2 c2 (direct_lists (s_domainListDNSDirect ?n) ?c) = (True, s2, routeObj, parts')"
    using O [of "direct_lists (s_domainListDNSDirect ?n) ?c"] by (metis (full_types) prod.collapse)
  have cfg: "cfg = sing_box_finish w s2 routeObj tag0 parts'" using eq i r by (simp add: sing_box_from_def)
  show "s_error cfg = ''''" by (simp add: cfg sing_box_finish_config I)
  show "qat (s_coreConfig cfg) ''outbounds'' = QArr [QObj (qobj [(''type'', QStr ''direct''), (''tag'', QStr ''direct'')]),
      QObj (qobj [(''type'', QStr ''block''), (''tag'', QStr ''block'')])]" by (simp add: cfg sing_box_finish_config I)
  show "qat (s_coreConfig cfg) ''endpoints'' = QArr []" by (simp add: cfg sing_box_finish_config I)
  have "text_at routeObj ''final'' = outboundIDToString (c_defaultOutboundID (route_base w c2))"
    using sing_box_route_success [OF r s2(1) g] by metis
  then show "text_at (json_toObject (qat (s_coreConfig cfg) ''route'')) ''final'' = outboundIDToString (c_defaultOutboundID chain)"
    by (simp add: cfg text_at_def sing_box_finish_config route_base_fields c2)
qed

text \<open>C18. The builder does not refuse a chain whose members have all been deleted (the error
  \<open>chain missing ent\<close> is behind a \<open>continue\<close> and cannot be reached): with no landing and no front
  proxy it reports no error and writes a configuration whose default outbound is \<open>proxy\<close>, while
  the only outbounds are the fixed two, so that the core is handed a name that does not exist.\<close>

theorem chain_of_missing_members_dangles:
  assumes "e_type ent = ''chain''" and "\<forall>i\<in>set (b_list (v_bean (w_build w) ent)). v_profile (w_build w) i = None"
    and "v_group (w_build w) (e_gid ent) = Some grp" and "g_landing_proxy_id grp < 0" and "g_front_proxy_id grp < 0"
    and "choose_route_chain w (Some ent) = Some chain" and "c_defaultOutboundID chain = proxyID" and "no_profiles_named chain"
    and "o_game_mod_enabled_services (o_routing (w_settings w)) = []"
  shows "let s = BuildConfigSingBox w (new_status (Some ent) traffic False cid); config = s_coreConfig s;
      objs = json_toArray (qat config ''outbounds'') @ json_toArray (qat config ''endpoints'')
    in s_error s = '''' \<and> text_at (json_toObject (qat config ''route'')) ''final'' = ''proxy''
       \<and> tag_of ` set objs = {''direct'', ''block''}"
proof -
  have "hops_of (w_build w) ent = []" using assms(1,2) by (simp add: hops_of_def map_filter_def)
  from BuildChain_no_members [OF this assms(1,3,4,5)]
  have b: "BuildChain (w_build w) cid ent (new_status (Some ent) traffic False cid) = (new_status (Some ent) traffic False cid, '''')"
    by (simp add: new_status_def)
  have t: "text_at (qobj [(''type'', QStr x), (''tag'', QStr x)]) ''tag'' = x" for x
    by (simp add: text_at_def qat_def qobj_lookup)
  show ?thesis
    using empty_start [OF b assms(6,8) _ assms(9)] assms(1,7)
    by (simp add: Let_def t outboundIDToString_def outbound_ids insert_commute)
qed

theorem chain_of_missing_members_dangles_witness:
  "let w = sample_config_env\<lparr>w_build := hop_env\<lparr>v_profile := (\<lambda>_. None), v_group := (\<lambda>_. Some NewGroup),
         v_bean := (\<lambda>_. (sample_bean [])\<lparr>b_list := [7, 8]\<rparr>)\<rparr>,
         w_routeChain := (\<lambda>_. Some GetDefaultChain)\<rparr>;
       ent = (NewProxyEntity ''chain'')\<lparr>e_id := 9\<rparr>
   in s_error (BuildConfigSingBox w (new_status (Some ent) no_traffic False 0)) = ''''"
proof -
  let ?w = "sample_config_env\<lparr>w_build := hop_env\<lparr>v_profile := (\<lambda>_. None), v_group := (\<lambda>_. Some NewGroup),
         v_bean := (\<lambda>_. (sample_bean [])\<lparr>b_list := [7, 8]\<rparr>)\<rparr>, w_routeChain := (\<lambda>_. Some GetDefaultChain)\<rparr>"
  let ?e = "(NewProxyEntity ''chain'')\<lparr>e_id := 9\<rparr>"
  have s: "w_settings ?w = default_settings" by (simp add: hop_env_def)
  have e: "e_type ?e = ''chain''" by (simp add: NewProxyEntity_def)
  have m: "\<forall>i\<in>set (b_list (v_bean (w_build ?w) ?e)). v_profile (w_build ?w) i = None" by simp
  have g: "v_group (w_build ?w) (e_gid ?e) = Some NewGroup" "g_landing_proxy_id NewGroup < 0" "g_front_proxy_id NewGroup < 0"
    by (simp_all add: NewGroup_def)
  have c: "choose_route_chain ?w (Some ?e) = Some GetDefaultChain" "c_defaultOutboundID GetDefaultChain = proxyID"
    "no_profiles_named GetDefaultChain"
    by (simp_all add: choose_route_chain_def GetDefaultChain_def new_RoutingChain_def no_profiles_named_def new_RouteRule_def outbound_ids)
  have o: "o_game_mod_enabled_services (o_routing (w_settings ?w)) = []" by (simp only: s) (simp add: default_settings_def default_routing_def)
  show ?thesis
    using chain_of_missing_members_dangles [OF e m g c(1,2,3) o, of no_traffic 0] unfolding Let_def by blast
qed

section \<open>Properties of merging\<close>

text \<open>C30. Merging the user's object into an outbound works at every depth: each value of the user's
  that is not an object is found at its path, replacing whatever was there, and where an object of
  the user's has no key, the outbound keeps everything below that key.\<close>

theorem MergeJson_paths:
  assumes "unique_keys (QObj cust)"
  shows "(\<forall>p v. at_path (QObj cust) p = Some v \<and> (\<nexists>x. v = QObj x) \<longrightarrow> at_path (QObj (MergeJson cust obj)) p = Some v)
    \<and> (\<forall>q c k r. at_path (QObj cust) q = Some (QObj c) \<and> map_of c k = None
          \<longrightarrow> at_path (QObj (MergeJson cust obj)) (q @ k # r) = at_path (QObj obj) (q @ k # r))"
  using MergeJson_leaf [OF assms] MergeJson_untouched [OF assms] by blast

theorem MergeJson_paths_witness:
  "let tls = QObj [(''alpn'', QStr ''h2''), (''enabled'', QBool True)]; cust = [(''tls'', QObj [(''enabled'', QBool False)])];
     obj = [(''server'', QStr ''a''), (''tls'', tls)]
   in at_path (QObj (MergeJson cust obj)) [''tls'', ''enabled''] = Some (QBool False)
      \<and> at_path (QObj (MergeJson cust obj)) [''tls'', ''alpn''] = Some (QStr ''h2'')"
proof -
  let ?c = "[(''tls'', QObj [(''enabled'', QBool False)])]"
    and ?o = "[(''server'', QStr ''a''), (''tls'', QObj [(''alpn'', QStr ''h2''), (''enabled'', QBool True)])]"
  have u: "unique_keys (QObj ?c)" by simp
  have "at_path (QObj ?c) [''tls'', ''enabled''] = Some (QBool False)" by simp
  moreover have "at_path (QObj ?c) [''tls''] = Some (QObj [(''enabled'', QBool False)])" "map_of [(''enabled'', QBool False)] ''alpn'' = None"
    by simp_all
  moreover have o: "at_path (QObj ?o) ([''tls''] @ ''alpn'' # []) = Some (QStr ''h2'')" by simp
  moreover have "\<nexists>x. QBool False = QObj x" by simp
  moreover note P = MergeJson_paths [OF u, of ?o]
  note P = P [THEN conjunct1, rule_format, OF conjI] P [THEN conjunct2, rule_format, OF conjI]
  ultimately have "at_path (QObj (MergeJson ?c ?o)) [''tls'', ''enabled''] = Some (QBool False)"
    and "at_path (QObj (MergeJson ?c ?o)) ([''tls''] @ ''alpn'' # []) = at_path (QObj ?o) ([''tls''] @ ''alpn'' # [])"
    using P(1) [of "[''tls'', ''enabled'']" "QBool False"] P(2) [of "[''tls'']" "[(''enabled'', QBool False)]" "''alpn''" "[]"] by blast+
  note this(1) this(2) [unfolded o]
  then show ?thesis unfolding Let_def by (simp only: append_Cons append_Nil simp_thms)
qed

section \<open>Checking chains\<close>

text \<open>The check of a profile returns on chains that do not reach themselves, with any fuel above the
  rank, and for no fuel on a chain whose first member is itself.\<close>

lemma all_valid_returns: "(\<And>i e. i \<in> set ids \<Longrightarrow> pm i = Some e \<Longrightarrow> valid e \<noteq> None) \<Longrightarrow> all_valid valid pm ids \<noteq> None"
  by (induction ids) (fastforce split: option.split bool.split)+

lemma IsValid_returns:
  assumes "\<And>ent i e. e_type ent = ''chain'' \<Longrightarrow> i \<in> set (b_list (v_bean v ent)) \<Longrightarrow> v_profile v i = Some e \<Longrightarrow> rank e < rank ent"
    and "rank ent < (n::nat)"
  shows "IsValid v C n ent \<noteq> None"
  using assms(2)
proof (induction n arbitrary: ent)
  case (Suc n)
  show ?case
  proof (cases "e_type ent = ''chain''")
    case True
    have "IsValid v C n e \<noteq> None" if "i \<in> set (b_list (v_bean v ent))" "v_profile v i = Some e" for i e
      using Suc.IH [of e] assms(1) [OF True that] Suc.prems by linarith
    then have "all_valid (IsValid v C n) (v_profile v) (b_list (v_bean v ent)) \<noteq> None" by (rule all_valid_returns)
    with True show ?thesis by simp
  qed (simp add: split_beta Let_def)
qed simp

lemma IsValid_self_chain:
  assumes "e_type ent = ''chain''" and "b_list (v_bean v ent) = i # ids" and "v_profile v i = Some ent"
  shows "IsValid v C n ent = None"
  by (induction n) (simp_all add: assms)

end
