(* ===== verification/Auto_Tester.thy ===== *)
theory Auto_Tester
  imports Manager_Steps Config_Builder
begin

text \<open>
  The automatic tester of profiles (\<^verbatim>\<open>src/gharqad/stats/autotester/ProxyAutoTester.cpp\<close>): it tests
  the profiles of the current group in rounds, keeps a pool of those that work, watches the
  running profile and switches to one of the pool when it fails. Its timers run in the window's
  thread; each test is a thread of its own and runs as one step, with the answers of the core as
  arguments. What the tester asks the window to do, and its signals, are the list of events.
\<close>

section \<open>State\<close>

record test_settings =
  as_enable :: bool
  as_interval_seconds :: int
  as_proxy_count :: int
  as_working_pool_size :: int
  as_latency_threshold_ms :: int
  as_failure_retry_count :: int
  as_spmode_vpn :: bool
  as_spmode_packet_filter :: bool
  as_core_running :: bool

datatype event =
    Log string
  | TestCycleStarted
  | TestCycleCompleted nat nat
  | WorkingPoolUpdated "int list"
  | ActiveProxyFailed int
  | FailoverTriggered int int
  | NoWorkingProxiesAvailable
  | Profile_start int
  | Refresh_proxy_list

datatype test_thread = Perform_test "int list" | Health_check int ptr

record tester =
  a_cfg :: test_settings
  a_man :: manager
  a_now :: int
  a_testTimer :: "int option"
  a_healthCheckTimer :: "int option"
  a_workingProxyPool :: "int list"
  a_lastTestTime :: "int \<Rightarrow> int option"
  a_failureCount :: "int \<Rightarrow> int option"
  a_currentTestOffset :: nat
  a_activeProxyFailureCount :: int
  a_isTestingInProgress :: bool
  a_lastLogTime :: int
  a_threads :: "test_thread list"
  a_events :: "event list"

definition emit :: "event \<Rightarrow> tester \<Rightarrow> tester" where
  "emit e t = t\<lparr>a_events := a_events t @ [e]\<rparr>"

text \<open>One line in five seconds; \<open>a_now\<close> is the clock in milliseconds.\<close>

definition logStatus :: "string \<Rightarrow> tester \<Rightarrow> tester" where
  "logStatus message t =
     (if a_now t - a_lastLogTime t < 5000 then t
      else emit (Log (''[Auto-Test] '' @ message)) (t\<lparr>a_lastLogTime := a_now t\<rparr>))"

definition ask_profile :: "int \<Rightarrow> tester \<Rightarrow> tester \<times> ptr option" where
  "ask_profile i t = (case GetProfile i (a_man t) of (m, p) \<Rightarrow> (t\<lparr>a_man := m\<rparr>, p))"

section \<open>The round of profiles\<close>

text \<open>The argument \<open>full\<close> says of a profile whether it holds a full configuration
  (\<open>IsFullConfig\<close> of its bean).\<close>

definition shouldTestProxy :: "(int \<Rightarrow> bool) \<Rightarrow> entity \<Rightarrow> bool" where
  "shouldTestProxy full e =
     (if e_type e = ''chain'' then False else if e_type e = ''custom'' then full (e_id e) else True)"

fun pick_proxies :: "(int \<Rightarrow> bool) \<Rightarrow> int \<Rightarrow> int list \<Rightarrow> manager \<Rightarrow> manager \<times> ptr list" where
  "pick_proxies full limit [] m = (m, [])"
| "pick_proxies full limit (i # ids) m =
     (if limit \<le> 0 then (m, [])
      else case GetProfile i m of
             (m, None) \<Rightarrow> pick_proxies full limit ids m
           | (m, Some p) \<Rightarrow>
               if shouldTestProxy full (m_heap m p)
               then (let (m, ps) = pick_proxies full (limit - 1) ids m in (m, p # ps))
               else pick_proxies full limit ids m)"

definition getProxiesToTest :: "(int \<Rightarrow> bool) \<Rightarrow> tester \<Rightarrow> tester \<times> ptr list" where
  "getProxiesToTest full t =
     (case CurrentGroup (a_man t) of
        None \<Rightarrow> (logStatus ''No group found for auto-test'' t, [])
      | Some g \<Rightarrow>
          (let allProxies = g_profiles (m_gheap (a_man t) g); n = length allProxies
           in if allProxies = [] then (logStatus ''No proxies in group'' t, [])
              else if 3000 < n then (logStatus ''Too much profiles in group'' t, [])
              else (let t = logStatus (''Found '' @ show_nat n @ '' total proxies in group'') t;
                        startIdx = a_currentTestOffset t mod n;
                        (m, result) = pick_proxies full (as_proxy_count (a_cfg t)) (drop startIdx allProxies @ take startIdx allProxies) (a_man t)
                    in (t\<lparr>a_man := m, a_currentTestOffset := (startIdx + length result) mod n\<rparr>, result))))"

definition performTest :: "int list \<Rightarrow> tester \<Rightarrow> tester" where
  "performTest proxyIds t =
     (if proxyIds = [] then emit (TestCycleCompleted 0 (length (a_workingProxyPool t))) (t\<lparr>a_isTestingInProgress := False\<rparr>)
      else t\<lparr>a_threads := a_threads t @ [Perform_test proxyIds]\<rparr>)"

definition RunTestCycle :: "(int \<Rightarrow> bool) \<Rightarrow> tester \<Rightarrow> tester" where
  "RunTestCycle full t =
     (if a_isTestingInProgress t then logStatus ''Test cycle already in progress, skipping'' t
      else if \<not> as_enable (a_cfg t) then logStatus ''Auto-test is not enabled, skipping test cycle'' t
      else if \<not> as_core_running (a_cfg t) then logStatus ''Core is not running, skipping test cycle'' t
      else (let t = emit TestCycleStarted (t\<lparr>a_isTestingInProgress := True\<rparr>);
                (t, proxiesToTest) = getProxiesToTest full (logStatus ''Starting test cycle'' t)
            in if proxiesToTest = []
               then (let t = logStatus ''No proxies available to test'' t
                     in emit (TestCycleCompleted 0 (length (a_workingProxyPool t))) (t\<lparr>a_isTestingInProgress := False\<rparr>))
               else (let proxyIds = map (\<lambda>p. e_id (m_heap (a_man t) p)) proxiesToTest
                     in performTest proxyIds (logStatus (''Testing '' @ show_nat (length proxyIds) @ '' proxies in this cycle'') t))))"

section \<open>Control\<close>

definition Tester_Stop :: "tester \<Rightarrow> tester" where
  "Tester_Stop t =
     logStatus ''Auto-testing system stopped''
       (t\<lparr>a_testTimer := None, a_healthCheckTimer := None, a_isTestingInProgress := False\<rparr>)"

definition Tester_Start :: "(int \<Rightarrow> bool) \<Rightarrow> tester \<Rightarrow> tester" where
  "Tester_Start full t =
     (if \<not> as_enable (a_cfg t) then logStatus ''Auto-testing is disabled in settings'' t
      else (let t = logStatus ''Starting auto-testing system'' (Tester_Stop t);
                t = t\<lparr>a_testTimer := Some (as_interval_seconds (a_cfg t) * 1000), a_healthCheckTimer := Some 30000\<rparr>;
                t = logStatus (if as_spmode_vpn (a_cfg t) \<or> as_spmode_packet_filter (a_cfg t)
                      then ''Health monitoring enabled (transparent mode)'' else ''Health monitoring enabled (Proxy mode)'') t
            in RunTestCycle full t))"

definition Tester_Reset :: "tester \<Rightarrow> tester" where
  "Tester_Reset t =
     (let t = (Tester_Stop t)\<lparr>a_workingProxyPool := [], a_lastTestTime := (\<lambda>_. None), a_failureCount := (\<lambda>_. None),
                              a_currentTestOffset := 0, a_activeProxyFailureCount := 0\<rparr>
      in logStatus ''Auto-testing state reset'' (emit (WorkingPoolUpdated (a_workingProxyPool t)) t))"

section \<open>The pool\<close>

definition updateWorkingPool :: "int \<Rightarrow> bool \<Rightarrow> int list \<Rightarrow> int list" where
  "updateWorkingPool proxyId isWorking pool =
     (if isWorking then (if proxyId \<notin> set pool then proxyId # pool else proxyId # removeAll proxyId pool)
      else removeAll proxyId pool)"

text \<open>The entries at the end that are too many, on the reversed list. Removing from an empty
  list is undefined (\<open>None\<close>); it is reached when the size is negative.\<close>

fun excess_loop :: "int \<Rightarrow> int list \<Rightarrow> int list option" where
  "excess_loop maxPoolSize [] = (if maxPoolSize < 0 then None else Some [])"
| "excess_loop maxPoolSize (i # ids) =
     (if maxPoolSize < int (length (i # ids)) then excess_loop maxPoolSize ids else Some (i # ids))"

fun not_working :: "int list \<Rightarrow> manager \<Rightarrow> manager \<times> int list" where
  "not_working [] m = (m, [])"
| "not_working (i # ids) m =
     (case GetProfile i m of
        (m, p) \<Rightarrow>
          (let gone = (case p of None \<Rightarrow> True | Some p \<Rightarrow> \<not> e_is_working (m_heap m p)); (m, toRemove) = not_working ids m
           in (m, if gone then i # toRemove else toRemove)))"

definition pruneWorkingPool :: "tester \<Rightarrow> tester option" where
  "pruneWorkingPool t =
     (case excess_loop (as_working_pool_size (a_cfg t)) (rev (a_workingProxyPool t)) of
        None \<Rightarrow> None
      | Some r \<Rightarrow>
          (let (m, toRemove) = not_working (rev r) (a_man t)
           in Some (t\<lparr>a_man := m, a_workingProxyPool := foldl (\<lambda>pool i. removeAll i pool) (rev r) toRemove\<rparr>)))"

definition GetNextWorkingProxy :: "tester \<Rightarrow> (tester \<times> int) option" where
  "GetNextWorkingProxy t =
     map_option (\<lambda>t. (t, case a_workingProxyPool t of [] \<Rightarrow> -1 | i # _ \<Rightarrow> i)) (pruneWorkingPool t)"

section \<open>Failover\<close>

definition set_working :: "bool \<Rightarrow> ptr \<Rightarrow> manager \<Rightarrow> manager" where
  "set_working b p m = Entity_Save p (set_entity p (\<lambda>e. e\<lparr>e_is_working := b\<rparr>) m)"

text \<open>\<open>display\<close> is \<open>DisplayTypeAndName\<close>; the window's line and the start are posted to its
  thread.\<close>

definition failed_line :: "string \<Rightarrow> event" where
  "failed_line name = Log (''[Auto-Test] Active proxy failed, switching to: '' @ name)"

definition HandleProxyFailure :: "(entity \<Rightarrow> string) \<Rightarrow> int \<Rightarrow> int \<Rightarrow> tester \<Rightarrow> tester option" where
  "HandleProxyFailure display proxyId attemptCount t =
     (let t = logStatus (''Handling failure for proxy '' @ show_int proxyId @ '' after '' @ show_int attemptCount @ '' attempts'') t;
          (t, proxy) = ask_profile proxyId t;
          t = (case proxy of None \<Rightarrow> t | Some p \<Rightarrow> t\<lparr>a_man := set_working False p (a_man t)\<rparr>);
          t = t\<lparr>a_workingProxyPool := removeAll proxyId (a_workingProxyPool t)\<rparr>;
          t = emit (WorkingPoolUpdated (a_workingProxyPool t)) t
      in if m_started_id (a_man t) \<noteq> proxyId then Some t
         else (case GetNextWorkingProxy t of
                 None \<Rightarrow> None
               | Some (t, nextProxyId) \<Rightarrow>
                   if 0 \<le> nextProxyId
                   then (let t = logStatus (''Triggering automatic failover from proxy '' @ show_int proxyId @ '' to '' @ show_int nextProxyId) t;
                             (t, nextProxy) = ask_profile nextProxyId (emit (FailoverTriggered proxyId nextProxyId) t);
                             name = (case nextProxy of Some p \<Rightarrow> display (m_heap (a_man t) p) | None \<Rightarrow> show_int nextProxyId)
                         in Some (emit (Profile_start nextProxyId) (emit (failed_line name) (t\<lparr>a_activeProxyFailureCount := 0\<rparr>))))
                   else Some (emit (Log ''[Auto-Test] Active proxy failed but no backup proxy available!'')
                                (emit NoWorkingProxiesAvailable (logStatus ''No working proxies available for failover'' t)))))"

definition CheckActiveProxyHealth :: "tester \<Rightarrow> tester" where
  "CheckActiveProxyHealth t =
     (let activeProxyId = m_started_id (a_man t)
      in if \<not> as_core_running (a_cfg t) \<or> activeProxyId < 0 then t
         else (case ask_profile activeProxyId t of
                 (t, None) \<Rightarrow> t
               | (t, Some p) \<Rightarrow> t\<lparr>a_threads := a_threads t @ [Health_check activeProxyId p]\<rparr>))"

record test_result =
  tr_outbound_tag :: string
  tr_error :: string
  tr_latency_ms :: int

definition healthy :: "tester \<Rightarrow> test_result \<Rightarrow> bool" where
  "healthy t res \<longleftrightarrow> tr_error res = '''' \<and> 0 < tr_latency_ms res \<and> tr_latency_ms res < as_latency_threshold_ms (a_cfg t)"

text \<open>A failure of the running profile is counted, and reported when there have been enough.\<close>

definition count_failure :: "(entity \<Rightarrow> string) \<Rightarrow> string \<Rightarrow> int \<Rightarrow> tester \<Rightarrow> tester option" where
  "count_failure display message activeProxyId t =
     (let t = t\<lparr>a_activeProxyFailureCount := a_activeProxyFailureCount t + 1\<rparr>;
          retry = as_failure_retry_count (a_cfg t); n = a_activeProxyFailureCount t;
          t = logStatus (message @ '' (attempt '' @ show_int n @ ''/'' @ show_int retry @ '')'') t
      in if retry \<le> n then HandleProxyFailure display activeProxyId n (emit (ActiveProxyFailed activeProxyId) t) else Some t)"

text \<open>The thread of a health check; the core's answer is \<open>None\<close> when it could not be asked.\<close>

definition run_health_check :: "(entity \<Rightarrow> string) \<Rightarrow> test_result list option \<Rightarrow> int \<Rightarrow> ptr \<Rightarrow> tester \<Rightarrow> tester option" where
  "run_health_check display answer activeProxyId p t =
     (case answer of
        Some (res # _) \<Rightarrow>
          if healthy t res
          then Some (t\<lparr>a_activeProxyFailureCount := 0,
                       a_man := Entity_Save p (set_entity p (\<lambda>e. e\<lparr>e_is_working := True,
                                  e_last_auto_test_time := word_of_int (a_now t div 1000)\<rparr>) (a_man t))\<rparr>)
          else count_failure display (''Active proxy unhealthy: '' @ tr_error res) activeProxyId t
      | _ \<Rightarrow> count_failure display ''Active proxy health check failed'' activeProxyId t)"

section \<open>The thread of a test\<close>

record counts =
  k_tested :: nat
  k_working :: nat

text \<open>One profile has been tested.\<close>

definition record_test :: "int \<Rightarrow> bool \<Rightarrow> int \<Rightarrow> int \<Rightarrow> ptr \<Rightarrow> tester \<Rightarrow> tester" where
  "record_test currentTime isWorking latency proxyId p t =
     t\<lparr>a_man := Entity_Save p (set_entity p (\<lambda>e. e\<lparr>e_is_working := isWorking, e_last_auto_test_time := word_of_int currentTime,
                   e_latencyInt := (if isWorking then latency else -1)\<rparr>) (a_man t)),
       a_workingProxyPool := updateWorkingPool proxyId isWorking (a_workingProxyPool t),
       a_lastTestTime := (a_lastTestTime t)(proxyId \<mapsto> currentTime)\<rparr>"

definition count_test :: "bool \<Rightarrow> counts \<Rightarrow> counts" where
  "count_test b k = k\<lparr>k_tested := Suc (k_tested k), k_working := (if b then Suc (k_working k) else k_working k)\<rparr>"

fun combined_results :: "int \<Rightarrow> (string \<times> int) list \<Rightarrow> test_result list \<Rightarrow> tester \<Rightarrow> counts \<Rightarrow> tester \<times> counts" where
  "combined_results currentTime tag2entID [] t k = (t, k)"
| "combined_results currentTime tag2entID (res # results) t k =
     (case map_of tag2entID (tr_outbound_tag res) of
        None \<Rightarrow> combined_results currentTime tag2entID results t k
      | Some proxyId \<Rightarrow>
          (case ask_profile proxyId t of
             (t, None) \<Rightarrow> combined_results currentTime tag2entID results t k
           | (t, Some p) \<Rightarrow>
               (let b = healthy t res
                in combined_results currentTime tag2entID results
                     (record_test currentTime b (tr_latency_ms res) proxyId p t) (count_test b k))))"

fun full_results :: "int \<Rightarrow> (int \<Rightarrow> test_result list option) \<Rightarrow> (int \<times> string) list \<Rightarrow> tester \<Rightarrow> counts \<Rightarrow> tester \<times> counts" where
  "full_results currentTime answer [] t k = (t, k)"
| "full_results currentTime answer ((proxyId, config) # configs) t k =
     (case ask_profile proxyId t of
        (t, None) \<Rightarrow> full_results currentTime answer configs t k
      | (t, Some p) \<Rightarrow>
          (let (b, latency) = (case answer proxyId of
                  Some (res # _) \<Rightarrow> (healthy t res, tr_latency_ms res) | _ \<Rightarrow> (False, -1))
           in full_results currentTime answer configs (record_test currentTime b latency proxyId p t) (count_test b k)))"

definition running_line :: "int \<Rightarrow> string" where
  "running_line i = ''[Auto-Test] Proxy already running (ID: '' @ show_int i @ ''), skipping auto-start''"

definition status_line :: "int \<Rightarrow> nat \<Rightarrow> string" where
  "status_line i n = ''[Auto-Test] Current status - started_id: '' @ show_int i @ '', working proxies: '' @ show_nat n"

definition start_line :: "string \<Rightarrow> int \<Rightarrow> string" where
  "start_line name i = ''[Auto-Test] No proxy running, automatically starting: '' @ name @ '' (ID: '' @ show_int i @ '')''"

text \<open>The end of a round: a profile of the pool is started if none is running.\<close>

definition finish_test :: "(entity \<Rightarrow> string) \<Rightarrow> counts \<Rightarrow> tester \<Rightarrow> tester option" where
  "finish_test display k t =
     (case pruneWorkingPool t of
        None \<Rightarrow> None
      | Some t \<Rightarrow>
          (let n = length (a_workingProxyPool t); currentStartedId = m_started_id (a_man t);
               t = logStatus (''Test cycle completed: '' @ show_nat (k_tested k) @ '' proxies tested, '' @ show_nat (k_working k)
                     @ '' working, pool size: '' @ show_nat n) t;
               t = emit (TestCycleCompleted (k_tested k) n) (t\<lparr>a_isTestingInProgress := False\<rparr>);
               t = emit (Log (status_line currentStartedId n)) (emit (WorkingPoolUpdated (a_workingProxyPool t)) t)
           in if currentStartedId < 0 \<and> a_workingProxyPool t \<noteq> []
              then (case GetNextWorkingProxy t of
                      None \<Rightarrow> None
                    | Some (t, proxyToStart) \<Rightarrow>
                        if 0 \<le> proxyToStart
                        then (case ask_profile proxyToStart t of
                                (t, Some p) \<Rightarrow>
                                  Some (emit Refresh_proxy_list (emit (Profile_start proxyToStart)
                                          (emit (Log (start_line (display (m_heap (a_man t) p)) proxyToStart)) t)))
                              | (t, None) \<Rightarrow>
                                  Some (emit Refresh_proxy_list (emit (Log ''[Auto-Test] ERROR: Could not get proxy profile for auto-start'') t)))
                        else Some (emit Refresh_proxy_list (emit (Log ''[Auto-Test] ERROR: GetNextWorkingProxy returned invalid ID'') t)))
              else Some (emit Refresh_proxy_list (if 0 \<le> currentStartedId then emit (Log (running_line currentStartedId)) t else t))))"

text \<open>A round that ends without results.\<close>

definition end_early :: "string \<Rightarrow> tester \<Rightarrow> tester" where
  "end_early message t =
     (let t = (logStatus message t)\<lparr>a_isTestingInProgress := False\<rparr> in emit (TestCycleCompleted 0 (length (a_workingProxyPool t))) t)"

text \<open>The whole thread. \<open>build\<close> is \<open>BuildTestConfig\<close>, whose second result lists the profiles it
  found invalid, and \<open>combined\<close> and \<open>single\<close> are the core's answers.\<close>

definition run_test ::
  "(entity \<Rightarrow> string) \<Rightarrow> (entity list \<Rightarrow> test_config \<times> int list) \<Rightarrow> test_result list option \<Rightarrow> (int \<Rightarrow> test_result list option)
   \<Rightarrow> int list \<Rightarrow> tester \<Rightarrow> tester option" where
  "run_test display build combined single proxyIds t =
     (let (m, proxies) = FillProfileEnts proxyIds (a_man t); t = t\<lparr>a_man := m\<rparr>
      in if proxies = [] then Some (end_early ''No valid proxies to test'' t)
         else
           (let (conf, invalid) = build (map (m_heap m) proxies);
                m = foldl (\<lambda>m p. if e_id (m_heap m p) \<in> set invalid then set_entity p (\<lambda>e. e\<lparr>e_latencyInt := -1\<rparr>) m else m) m proxies;
                t = t\<lparr>a_man := m\<rparr>; currentTime = a_now t div 1000
            in if bt_error conf \<noteq> '''' then Some (end_early (''Failed to build test config: '' @ bt_error conf) t)
               else if bt_outboundTags conf = [] \<and> bt_fullConfigs conf = [] then Some (end_early ''No testable configs generated'' t)
               else
                 (let k = \<lparr> k_tested = 0, k_working = 0 \<rparr>
                  in if bt_outboundTags conf \<noteq> [] \<and> combined = None then Some (end_early ''RPC test call failed'' t)
                     else
                       (let (t, k) = (if bt_outboundTags conf = [] then (t, k)
                              else combined_results currentTime (bt_tag2entID conf) (the combined) t k);
                            (t, k) = full_results currentTime single (bt_fullConfigs conf) t k
                        in finish_test display k t))))"

end
