(* ===== verification/Tester_Props.thy ===== *)
theory Tester_Props
  imports Auto_Tester Manager_Props
begin

text \<open>
  Properties of the automatic tester: which profiles a round tests and that none is left out for
  ever, which profile a failover starts, and the pool after a round.
\<close>

section \<open>What looking up a profile finds\<close>

text \<open>The type of a profile and whether it works, as \<open>GetProfile\<close> would deliver them.\<close>

definition profile_view :: "manager \<Rightarrow> int \<Rightarrow> entity option" where
  "profile_view m i =
     (case m_cached_profiles m i of
        Some p \<Rightarrow> Some (m_heap m p)
      | None \<Rightarrow> (case map_of (m_weak_profiles m) i of
                  Some p \<Rightarrow> Some (m_heap m p)
                | None \<Rightarrow> (case tb_Proxies (m_tables m) i of Some e \<Rightarrow> if isValid e then Some e else None | None \<Rightarrow> None)))"

definition look :: "manager \<Rightarrow> int \<Rightarrow> (string \<times> bool) option" where
  "look m i = map_option (\<lambda>e. (e_type e, e_is_working e)) (profile_view m i)"

text \<open>A profile in the bounded cache agrees with its record, and is not also among the new ones.\<close>

definition settled :: "manager \<Rightarrow> bool" where
  "settled m \<longleftrightarrow>
     (\<forall>i p. map_of (m_weak_profiles m) i = Some p \<longrightarrow> m_cached_profiles m i = None \<and> \<not> e_no_save (m_heap m p)
        \<and> (\<exists>e. tb_Proxies (m_tables m) i = Some e \<and> isValid e \<and> e_type e = e_type (m_heap m p) \<and> e_is_working e = e_is_working (m_heap m p)))
     \<and> (\<forall>i p. m_cached_profiles m i = Some p \<longrightarrow> \<not> e_no_save (m_heap m p) \<and> isValid (m_heap m p))"

lemma no_record_invalid: "\<not> isValid ((NewProxyEntity '''')\<lparr>e_id := i\<rparr>)"
  by (simp add: isValid_def NewProxyEntity_def OutboundTypes_def)

lemma isValid_cong: "e_type e = e_type e' \<Longrightarrow> isValid e = isValid e'"
  by (simp add: isValid_def)

lemma weak_insert_lookup:
  assumes "minv m" and "map_of (weak_insert i p (m_weak_profiles m)) j = Some q"
  shows "j = i \<and> q = p \<or> j \<noteq> i \<and> map_of (m_weak_profiles m) j = Some q"
proof (cases "j = i")
  case True
  then show ?thesis using assms(2) lru.get_put [OF weak_ok [OF assms(1)], of i p] by (simp add: weak_insert_def)
next
  case False
  then show ?thesis using lru.get_put_other [OF weak_ok [OF assms(1)] False, of p q] assms(2) by (simp add: weak_insert_def)
qed

lemma GetProfile_look_cases:
  obtains (cached) q where "m_cached_profiles m i = Some q" "GetProfile i m = (m, Some q)"
    | (weak) q where "m_cached_profiles m i = None" "map_of (m_weak_profiles m) i = Some q"
        "GetProfile i m = (m\<lparr>m_weak_profiles := (i, q) # lru_drop i (m_weak_profiles m)\<rparr>, Some q)"
    | (loaded) e where "m_cached_profiles m i = None" "map_of (m_weak_profiles m) i = None" "tb_Proxies (m_tables m) i = Some e" "isValid e"
        "GetProfile i m = (m\<lparr>m_heap := (m_heap m)(m_next m := e\<lparr>e_no_save := False\<rparr>), m_bean_alive := (m_bean_alive m)(m_next m := False),
         m_next := Suc (m_next m), m_weak_profiles := weak_insert i (m_next m) (m_weak_profiles m)\<rparr>, Some (m_next m))"
    | (missing) "m_cached_profiles m i = None" "map_of (m_weak_profiles m) i = None"
        "\<forall>e. tb_Proxies (m_tables m) i = Some e \<longrightarrow> \<not> isValid e" "GetProfile i m = (m, None)"
proof (cases "m_cached_profiles m i")
  case None
  show ?thesis
  proof (cases "map_of (m_weak_profiles m) i")
    case w: None
    have v: "isValid (e\<lparr>e_no_save := False\<rparr>) = isValid e" for e by (simp add: isValid_def)
    show ?thesis using None w no_record_invalid [of i] v loaded missing
      by (cases "tb_Proxies (m_tables m) i") (auto simp: GetProfile_def lru_tryGet_def LoadProxyEntity_def Let_def)
  next
    case (Some q)
    with None show ?thesis using weak [of q] by (simp add: GetProfile_def lru_tryGet_def)
  qed
qed (use cached in \<open>simp add: GetProfile_def\<close>)

lemma look_GetProfile:
  assumes "minv m" and "settled m"
  shows "settled (fst (GetProfile i m))" and "look (fst (GetProfile i m)) = look m"
    and "snd (GetProfile i m) = None \<longleftrightarrow> look m i = None"
    and "snd (GetProfile i m) = Some p \<Longrightarrow> look m i = Some (e_type (m_heap (fst (GetProfile i m)) p), e_is_working (m_heap (fst (GetProfile i m)) p))"
    and "m_current_group (fst (GetProfile i m)) = m_current_group m"
proof -
  have "settled (fst (GetProfile i m)) \<and> look (fst (GetProfile i m)) = look m \<and> (snd (GetProfile i m) = None \<longleftrightarrow> look m i = None)
    \<and> (\<forall>p. snd (GetProfile i m) = Some p \<longrightarrow> look m i = Some (e_type (m_heap (fst (GetProfile i m)) p), e_is_working (m_heap (fst (GetProfile i m)) p)))
    \<and> m_current_group (fst (GetProfile i m)) = m_current_group m"
  proof (cases rule: GetProfile_look_cases [of m i])
    case (cached q)
    then show ?thesis using assms(2) by (simp add: look_def profile_view_def)
  next
    case (weak q)
    obtain w where g: "GetProfile i m = (m\<lparr>m_weak_profiles := w\<rparr>, Some q)" and w: "map_of w = map_of (m_weak_profiles m)"
    proof (rule that)
      show "map_of ((i, q) # lru_drop i (m_weak_profiles m)) = map_of (m_weak_profiles m)"
        using weak(2) by (auto simp: lru_drop_lookup fun_eq_iff)
    qed (rule weak(3))
    let ?m = "m\<lparr>m_weak_profiles := w\<rparr>"
    from w have "settled ?m" using assms(2) unfolding settled_def by simp
    moreover have "look ?m = look m" using w by (simp add: look_def profile_view_def fun_eq_iff cong: option.case_cong)
    ultimately show ?thesis using weak(1,2) by (simp add: g) (simp add: look_def profile_view_def)
  next
    case (loaded e)
    let ?m = "fst (GetProfile i m)"
    have cp: "q < m_next m" if "m_cached_profiles m j = Some q" for j q using cached_known [OF assms(1) that] by (simp add: known_def)
    have wp: "q < m_next m" if "map_of (m_weak_profiles m) j = Some q" for j q using weak_known [OF assms(1) that] by (simp add: known_def)
    have f: "m_cached_profiles ?m = m_cached_profiles m" "m_tables ?m = m_tables m" "m_heap ?m = (m_heap m)(m_next m := e\<lparr>e_no_save := False\<rparr>)"
      "m_weak_profiles ?m = weak_insert i (m_next m) (m_weak_profiles m)" by (simp_all add: loaded(5))
    have s: "settled ?m" unfolding settled_def
    proof (intro conjI allI impI; (elim conjE)?)
      fix j q
      assume h: "map_of (m_weak_profiles ?m) j = Some q"
      from weak_insert_lookup [OF assms(1) h [unfolded f(4)]] show "m_cached_profiles ?m j = None" "\<not> e_no_save (m_heap ?m q)"
        "\<exists>e. tb_Proxies (m_tables ?m) j = Some e \<and> isValid e \<and> e_type e = e_type (m_heap ?m q) \<and> e_is_working e = e_is_working (m_heap ?m q)"
        using assms(2) loaded(1,3,4) wp [of j q] unfolding settled_def f by (auto simp: order.strict_iff_not)
    next
      fix j q
      assume h: "m_cached_profiles ?m j = Some q"
      then show "\<not> e_no_save (m_heap ?m q)" "isValid (m_heap ?m q)" using assms(2) cp [of j q] unfolding settled_def f by auto
    qed
    moreover have "look ?m j = look m j" for j
    proof (cases "m_cached_profiles m j")
      case (Some q)
      then show ?thesis using cp [of j q] by (simp add: look_def profile_view_def f order.strict_iff_not)
    next
      case None
      show ?thesis
      proof (cases "map_of (m_weak_profiles ?m) j")
        case (Some q)
        from weak_insert_lookup [OF assms(1) Some [unfolded f(4)]] show ?thesis
        proof
          assume "j = i \<and> q = m_next m"
          then show ?thesis using Some None loaded by (simp add: look_def profile_view_def f)
        next
          assume "j \<noteq> i \<and> map_of (m_weak_profiles m) j = Some q"
          then show ?thesis using Some None wp [of j q] by (simp add: look_def profile_view_def f order.strict_iff_not)
        qed
      next
        case new: None
        show ?thesis
        proof (cases "map_of (m_weak_profiles m) j")
          case (Some q)
          then obtain e' where "tb_Proxies (m_tables m) j = Some e'" "isValid e'" "e_type e' = e_type (m_heap m q)" "e_is_working e' = e_is_working (m_heap m q)"
            using assms(2) unfolding settled_def by blast
          then show ?thesis using new None Some by (simp add: look_def profile_view_def f)
        qed (use new None in \<open>simp add: look_def profile_view_def f\<close>)
      qed
    qed
    ultimately show ?thesis using loaded by (auto simp: fun_eq_iff) (simp_all add: look_def profile_view_def)
  next
    case missing
    then show ?thesis using assms(2) by (simp add: look_def profile_view_def split: option.split)
  qed
  then show "settled (fst (GetProfile i m))" and "look (fst (GetProfile i m)) = look m"
    and "snd (GetProfile i m) = None \<longleftrightarrow> look m i = None"
    and "snd (GetProfile i m) = Some p \<Longrightarrow> look m i = Some (e_type (m_heap (fst (GetProfile i m)) p), e_is_working (m_heap (fst (GetProfile i m)) p))"
    and "m_current_group (fst (GetProfile i m)) = m_current_group m" by blast+
qed

text \<open>The profile an identifier stands for, and writing it.\<close>

definition stands_for :: "manager \<Rightarrow> int \<Rightarrow> ptr \<Rightarrow> bool" where
  "stands_for m i p \<longleftrightarrow> m_cached_profiles m i = Some p \<or> m_cached_profiles m i = None \<and> map_of (m_weak_profiles m) i = Some p"

lemma GetProfile_stands_for:
  assumes "minv m" and "snd (GetProfile i m) = Some p"
  shows "stands_for (fst (GetProfile i m)) i p"
proof (cases rule: GetProfile_look_cases [of m i])
  case (loaded e)
  then show ?thesis using assms(2) lru.get_put [OF weak_ok [OF assms(1)], of i "m_next m"] by (simp add: stands_for_def weak_insert_def)
qed (use assms(2) in \<open>auto simp: stands_for_def\<close>)

lemma stands_for_known: "minv m \<Longrightarrow> stands_for m i p \<Longrightarrow> known m i p"
  using cached_known weak_known by (auto simp: stands_for_def)

lemma stands_for_other: "minv m \<Longrightarrow> stands_for m i p \<Longrightarrow> stands_for m j p \<Longrightarrow> i = j"
  using stands_for_known [of m i p] stands_for_known [of m j p] by (simp add: known_def)

lemma look_stands_for: "stands_for m i p \<Longrightarrow> look m i = Some (e_type (m_heap m p), e_is_working (m_heap m p))"
  by (auto simp: look_def profile_view_def stands_for_def)

lemma save_look:
  assumes m: "minv m" "settled m" and p: "stands_for m i p"
    and f: "\<And>e. e_id (f e) = e_id e \<and> e_type (f e) = e_type e \<and> e_no_save (f e) = e_no_save e"
  defines "m' \<equiv> Entity_Save p (set_entity p f m)"
  shows "minv m' \<and> settled m' \<and> look m' = (look m)(i \<mapsto> (e_type (m_heap m p), e_is_working (f (m_heap m p))))
    \<and> m_current_group m' = m_current_group m \<and> m_started_id m' = m_started_id m"
proof -
  note k = stands_for_known [OF m(1) p]
  have id: "e_id (m_heap m p) = i" "0 \<le> i" using k by (simp_all add: known_def)
  have ns: "\<not> e_no_save (m_heap m p)" and v: "isValid (m_heap m p)"
    using m(2) p isValid_cong [of _ "m_heap m p"] unfolding settled_def stands_for_def by blast+
  have v': "isValid (f (m_heap m p))" using v isValid_cong f by metis
  let ?t = "(m_tables m)\<lparr>tb_Proxies := (tb_Proxies (m_tables m))(i \<mapsto> f (m_heap m p)),
      tb_Beans := (if m_bean_alive m p then insert i (tb_Beans (m_tables m)) else tb_Beans (m_tables m))\<rparr>"
  have eq: "m' = m\<lparr>m_heap := (m_heap m)(p := f (m_heap m p)), m_cached_profiles := (m_cached_profiles m)(i := None), m_tables := ?t\<rparr>"
    using f [of "m_heap m p"] id ns by (simp add: m'_def Entity_Save_def set_entity_def UncacheProfile_def Let_def)
  have "minv (set_entity p f m)" using set_entity_minv [OF m(1)] f by simp
  then have "minv m'" unfolding m'_def by (rule Entity_Save_minv) (use f id in \<open>simp add: set_entity_def\<close>)
  moreover have other: "q \<noteq> p" if "stands_for m j q" "j \<noteq> i" for j q using stands_for_other [OF m(1) p] that by blast
  have cached: "map_of (m_weak_profiles m) j = Some q \<Longrightarrow> m_cached_profiles m j = None" for j q
    using m(2) by (simp add: settled_def)
  have "settled m'" unfolding settled_def
  proof (intro conjI allI impI)
    fix j q
    assume h: "map_of (m_weak_profiles m') j = Some q"
    then have j: "map_of (m_weak_profiles m) j = Some q" "stands_for m j q" using cached by (simp_all add: eq stands_for_def)
    show "m_cached_profiles m' j = None" using cached [OF j(1)] by (simp add: eq)
    show "\<not> e_no_save (m_heap m' q)"
      using m(2) j(1) f ns unfolding settled_def by (simp add: eq)
    show "\<exists>e. tb_Proxies (m_tables m') j = Some e \<and> isValid e \<and> e_type e = e_type (m_heap m' q) \<and> e_is_working e = e_is_working (m_heap m' q)"
    proof (cases "j = i")
      case True
      then have "q = p" using j(2) p cached [OF j(1)] by (simp add: stands_for_def)
      with True v' show ?thesis by (simp add: eq)
    next
      case False
      with other [OF j(2)] m(2) j(1) show ?thesis unfolding settled_def by (simp add: eq)
    qed
  next
    fix j q
    assume "m_cached_profiles m' j = Some q"
    then have j: "m_cached_profiles m j = Some q" "j \<noteq> i" by (simp_all add: eq split: if_splits)
    then have "q \<noteq> p" using other [of j q] by (simp add: stands_for_def)
    then show "\<not> e_no_save (m_heap m' q)" "isValid (m_heap m' q)" using m(2) j(1) unfolding settled_def by (simp_all add: eq)
  qed
  moreover have "look m' = (look m)(i \<mapsto> (e_type (m_heap m p), e_is_working (f (m_heap m p))))"
  proof
    fix j
    show "look m' j = ((look m)(i \<mapsto> (e_type (m_heap m p), e_is_working (f (m_heap m p))))) j"
    proof (cases "j = i")
      case True
      have "map_of (m_weak_profiles m) i = None \<or> map_of (m_weak_profiles m) i = Some p"
        using p cached [of i] by (cases "map_of (m_weak_profiles m) i") (auto simp: stands_for_def)
      then show ?thesis using True v' f by (auto simp: look_def profile_view_def eq)
    next
      case False
      then show ?thesis using other [of j] by (auto simp: look_def profile_view_def eq stands_for_def split: option.split)
    qed
  qed
  ultimately show ?thesis by (simp add: eq)
qed

section \<open>The profiles of a round\<close>

definition testable :: "(int \<Rightarrow> bool) \<Rightarrow> manager \<Rightarrow> int \<Rightarrow> bool" where
  "testable full m i \<longleftrightarrow> (\<exists>t b. look m i = Some (t, b) \<and> t \<noteq> ''chain'' \<and> (t = ''custom'' \<longrightarrow> full i))"

definition calm :: "manager \<Rightarrow> bool" where
  "calm m \<longleftrightarrow> minv m \<and> settled m"

definition only_looked :: "manager \<Rightarrow> manager \<Rightarrow> bool" where
  "only_looked m m' \<longleftrightarrow> calm m' \<and> look m' = look m \<and> same_but_lookup m m' \<and> m_current_group m' = m_current_group m"

lemma only_looked_trans: "only_looked m m1 \<Longrightarrow> only_looked m1 m2 \<Longrightarrow> only_looked m m2"
  by (auto simp: only_looked_def dest: same_trans)

lemma ask_calm:
  assumes "calm m"
  shows "only_looked m (fst (GetProfile i m))" and "snd (GetProfile i m) = None \<longleftrightarrow> look m i = None"
    and "snd (GetProfile i m) = Some p \<Longrightarrow> look m i = Some (e_type (m_heap (fst (GetProfile i m)) p), e_is_working (m_heap (fst (GetProfile i m)) p))
      \<and> known (fst (GetProfile i m)) i p"
  using assms look_GetProfile [of m i] GetProfile_minv [of m i] GetProfile_same [of m i] by (auto simp: calm_def only_looked_def)

lemma known_stays: "known m i p \<Longrightarrow> only_looked m m' \<Longrightarrow> known m' i p"
  by (auto simp: known_def only_looked_def same_but_lookup_def)



lemma testable_cong: "look m = look m' \<Longrightarrow> testable full m = testable full m'"
  by (simp add: testable_def fun_eq_iff)

lemma should_test: "calm m \<Longrightarrow> snd (GetProfile i m) = Some p \<Longrightarrow> shouldTestProxy full (m_heap (fst (GetProfile i m)) p) \<longleftrightarrow> testable full m i"
  using ask_calm(3) [of m i p] by (auto simp: shouldTestProxy_def testable_def known_def)

lemma pick_proxies_result:
  assumes "calm m"
  shows "let (m', ps) = pick_proxies full limit ids m
    in only_looked m m' \<and> map (\<lambda>p. e_id (m_heap m' p)) ps = take (nat limit) (filter (testable full m) ids)"
  using assms
proof (induction ids arbitrary: m limit)
  case (Cons i ids)
  show ?case
  proof (cases "limit \<le> 0")
    case False
    obtain m1 r where g: "GetProfile i m = (m1, r)" by force
    note A = ask_calm [OF Cons.prems, of i, unfolded g fst_conv snd_conv]
    have m1: "calm m1" "testable full m1 = testable full m" using A(1) testable_cong [of m1 m] by (simp_all add: only_looked_def)
    show ?thesis
    proof (cases "testable full m i")
      case True
      then obtain p where r: "r = Some p" using A(2) by (cases r) (auto simp: testable_def)
      have "shouldTestProxy full (m_heap m1 p)" using should_test [OF Cons.prems, of i p full] g r True by simp
      moreover obtain m2 ps where q: "pick_proxies full (limit - 1) ids m1 = (m2, ps)" by force
      moreover have "known m2 i p" if "only_looked m1 m2" using A(3) r known_stays that by blast
      moreover have "nat limit = Suc (nat (limit - 1))" using False by simp
      ultimately show ?thesis using Cons.IH [OF m1(1), of "limit - 1"] False True g r A(1) m1(2)
        by (auto simp: known_def intro: only_looked_trans)
    next
      case no: False
      have "r = Some p \<Longrightarrow> \<not> shouldTestProxy full (m_heap m1 p)" for p using should_test [OF Cons.prems, of i p full] g no by simp
      then show ?thesis using Cons.IH [OF m1(1), of limit] False no g A(1) m1(2)
        by (auto simp: Let_def split_beta intro: only_looked_trans split: option.split)
    qed
  qed (use Cons.prems in \<open>auto simp: only_looked_def same_but_lookup_def\<close>)
qed (auto simp: only_looked_def same_but_lookup_def)

text \<open>The round, without the state: the testable profiles from an index on, around the end.\<close>

definition round_ids :: "(int \<Rightarrow> bool) \<Rightarrow> int list \<Rightarrow> tester \<Rightarrow> int list" where
  "round_ids full ids t = take (nat (as_proxy_count (a_cfg t))) (filter (testable full (a_man t)) (rotate (a_currentTestOffset t) ids))"

definition members :: "tester \<Rightarrow> int list option" where
  "members t = map_option (\<lambda>g. g_profiles (m_gheap (a_man t) g)) (CurrentGroup (a_man t))"

lemma logStatus_fields [simp]:
  "a_cfg (logStatus s t) = a_cfg t" "a_man (logStatus s t) = a_man t" "a_threads (logStatus s t) = a_threads t"
  "a_workingProxyPool (logStatus s t) = a_workingProxyPool t" "a_currentTestOffset (logStatus s t) = a_currentTestOffset t"
  "a_isTestingInProgress (logStatus s t) = a_isTestingInProgress t" "a_now (logStatus s t) = a_now t"
  "a_activeProxyFailureCount (logStatus s t) = a_activeProxyFailureCount t"
  by (simp_all add: logStatus_def emit_def)

lemma emit_fields [simp]:
  "a_cfg (emit e t) = a_cfg t" "a_man (emit e t) = a_man t" "a_threads (emit e t) = a_threads t"
  "a_workingProxyPool (emit e t) = a_workingProxyPool t" "a_currentTestOffset (emit e t) = a_currentTestOffset t"
  "a_isTestingInProgress (emit e t) = a_isTestingInProgress t" "a_now (emit e t) = a_now t"
  "a_activeProxyFailureCount (emit e t) = a_activeProxyFailureCount t"
  "a_events (emit e t) = a_events t @ [e]"
  by (simp_all add: emit_def)

lemma getProxiesToTest_result:
  assumes "calm (a_man t)" and "members t = Some ids" and "ids \<noteq> []" and "length ids \<le> 3000"
  shows "let (t', ps) = getProxiesToTest full t
    in map (\<lambda>p. e_id (m_heap (a_man t') p)) ps = round_ids full ids t \<and> only_looked (a_man t) (a_man t')
      \<and> a_currentTestOffset t' = (a_currentTestOffset t mod length ids + length (round_ids full ids t)) mod length ids
      \<and> a_threads t' = a_threads t \<and> a_isTestingInProgress t' = a_isTestingInProgress t \<and> a_workingProxyPool t' = a_workingProxyPool t
      \<and> a_cfg t' = a_cfg t"
proof -
  obtain g where g: "CurrentGroup (a_man t) = Some g" "g_profiles (m_gheap (a_man t) g) = ids"
    using assms(2) by (auto simp: members_def)
  let ?s = "a_currentTestOffset t mod length ids"
  obtain m' ps where p: "pick_proxies full (as_proxy_count (a_cfg t)) (drop ?s ids @ take ?s ids) (a_man t) = (m', ps)" by force
  have r: "drop ?s ids @ take ?s ids = rotate (a_currentTestOffset t) ids" by (simp add: rotate_drop_take)
  have P: "only_looked (a_man t) m'" "map (\<lambda>p. e_id (m_heap m' p)) ps = round_ids full ids t"
    using pick_proxies_result [OF assms(1), of full "as_proxy_count (a_cfg t)" "rotate (a_currentTestOffset t) ids"] p
    by (simp_all add: r round_ids_def)
  have l: "length ps = length (round_ids full ids t)" using P(2) by (metis length_map)
  have eq: "getProxiesToTest full t = ((logStatus (''Found '' @ show_nat (length ids) @ '' total proxies in group'') t)
      \<lparr>a_man := m', a_currentTestOffset := (?s + length ps) mod length ids\<rparr>, ps)"
    using assms(3,4) g p by (simp add: getProxiesToTest_def Let_def)
  show ?thesis using P by (simp add: eq l)
qed

definition works :: "manager \<Rightarrow> int \<Rightarrow> bool" where
  "works m i \<longleftrightarrow> (\<exists>t. look m i = Some (t, True))"

section \<open>A concrete tester\<close>

text \<open>One group with a working profile, a chain and a second working profile.\<close>

definition lab_profile :: "string \<Rightarrow> int \<Rightarrow> entity" where
  "lab_profile ty i = (NewProxyEntity ty)\<lparr>e_id := i, e_gid := 1, e_is_working := True\<rparr>"

definition lab_tables :: tables where
  "lab_tables = empty_tables\<lparr>tb_Proxies := [4 \<mapsto> lab_profile ''vmess'' 4, 5 \<mapsto> lab_profile ''chain'' 5, 6 \<mapsto> lab_profile ''ssh'' 6],
     tb_Groups := [1 \<mapsto> NewGroup\<lparr>g_id := 1, g_profiles := [4, 5, 6]\<rparr>]\<rparr>"

definition lab :: "int \<Rightarrow> manager" where
  "lab started = (LoadManager ''Default'' [1] [4, 5, 6] [1] (blank lab_tables))\<lparr>m_started_id := started, m_current_group := 1\<rparr>"

lemma lab_start: "start_state [1] [4, 5, 6] [1] (blank lab_tables)"
  by (auto simp: start_state_def blank_def lab_tables_def lab_profile_def empty_tables_def NewProxyEntity_def NewGroup_def
      members_ok_def highest_def split: if_splits)

lemma lab_reachable: "reachable (lab i)"
  unfolding lab_def by (rule reachable.step [OF reachable.start [OF lab_start] mstep.settings])

lemma lab_value:
  "lab i = (blank lab_tables)\<lparr>m_gheap := (\<lambda>_. NewGroup)(0 := NewGroup\<lparr>g_id := 1, g_profiles := [4, 5, 6]\<rparr>),
     m_gnext := 1, m_groups := [(1, 0)], m_groupsTabOrder := [1], m_max_profile_id := 6, m_max_group_id := 1,
     m_started_id := i, m_current_group := 1\<rparr>"
  by (simp add: lab_def LoadManager_def blank_def lab_tables_def empty_tables_def LoadGroup_def NewGroup_def Let_def)

lemma lab_fields [simp]: "m_started_id (lab i) = i" "CurrentGroup (lab i) = Some 0" "g_profiles (m_gheap (lab i) 0) = [4, 5, 6]"
  by (simp_all add: lab_value CurrentGroup_def GetGroup_def)

lemma lab_calm [simp]: "calm (lab i)"
  using reachable_minv [OF lab_reachable] by (simp add: calm_def settled_def lab_value blank_def)

lemma lab_look: "look (lab i) = [4 \<mapsto> (''vmess'', True), 5 \<mapsto> (''chain'', True), 6 \<mapsto> (''ssh'', True)]"
  by (simp add: look_def profile_view_def lab_value blank_def lab_tables_def empty_tables_def lab_profile_def isValid_def OutboundTypes_def
      NewProxyEntity_def fun_eq_iff)

definition lab_tester :: "int \<Rightarrow> tester" where
  "lab_tester started =
     \<lparr> a_cfg = \<lparr> as_enable = True, as_interval_seconds = 300, as_proxy_count = 1, as_working_pool_size = 2, as_latency_threshold_ms = 5000,
                 as_failure_retry_count = 3, as_spmode_vpn = False, as_spmode_packet_filter = False, as_core_running = True \<rparr>,
       a_man = lab started, a_now = 10000, a_testTimer = None, a_healthCheckTimer = None, a_workingProxyPool = [4, 6],
       a_lastTestTime = (\<lambda>_. None), a_failureCount = (\<lambda>_. None), a_currentTestOffset = 1, a_activeProxyFailureCount = 0,
       a_isTestingInProgress = False, a_lastLogTime = 0, a_threads = [], a_events = [] \<rparr>"

lemma lab_tester_fields [simp]:
  "a_man (lab_tester i) = lab i" "members (lab_tester i) = Some [4, 5, 6]" "as_proxy_count (a_cfg (lab_tester i)) = 1"
  "as_enable (a_cfg (lab_tester i))" "as_core_running (a_cfg (lab_tester i))" "\<not> a_isTestingInProgress (lab_tester i)"
  "a_currentTestOffset (lab_tester i) = 1" "a_workingProxyPool (lab_tester i) = [4, 6]" "as_working_pool_size (a_cfg (lab_tester i)) = 2"
  "a_threads (lab_tester i) = []" "a_events (lab_tester i) = []"
  by (simp_all add: lab_tester_def members_def)

lemma lab_testable: "testable full (lab i) j \<longleftrightarrow> j = 4 \<or> j = 6"
  by (auto simp: testable_def lab_look)

lemma lab_works: "works (lab i) j \<longleftrightarrow> j = 4 \<or> j = 5 \<or> j = 6"
  by (auto simp: works_def lab_look)

section \<open>A round\<close>

lemma round_result:
  assumes "calm (a_man t)" and "members t = Some ids" and "length ids \<le> 3000"
    and "\<not> a_isTestingInProgress t" and "as_enable (a_cfg t)" and "as_core_running (a_cfg t)"
    and "0 < as_proxy_count (a_cfg t)" and "\<exists>i\<in>set ids. testable full (a_man t) i"
  shows "let t' = RunTestCycle full t; picked = round_ids full ids t
    in a_threads t' = a_threads t @ [Perform_test picked] \<and> a_isTestingInProgress t' \<and> a_workingProxyPool t' = a_workingProxyPool t
      \<and> a_currentTestOffset t' = (a_currentTestOffset t + length picked) mod length ids"
proof -
  let ?t = "logStatus ''Starting test cycle'' (emit TestCycleStarted (t\<lparr>a_isTestingInProgress := True\<rparr>))"
  have ids: "ids \<noteq> []" using assms(8) by auto
  have e: "round_ids full ids ?t = round_ids full ids t" "members ?t = members t"
    by (simp_all add: round_ids_def members_def)
  obtain t2 ps where g: "getProxiesToTest full ?t = (t2, ps)" by force
  have A: "calm (a_man ?t)" "members ?t = Some ids" using assms(1,2) e(2) by simp_all
  have G: "map (\<lambda>p. e_id (m_heap (a_man t2) p)) ps = round_ids full ids t"
    "a_currentTestOffset t2 = (a_currentTestOffset t + length (round_ids full ids t)) mod length ids"
    "a_threads t2 = a_threads t" "a_isTestingInProgress t2" "a_workingProxyPool t2 = a_workingProxyPool t"
    using getProxiesToTest_result [OF A ids assms(3), of full] g e by (simp_all add: mod_add_left_eq)
  have "round_ids full ids t \<noteq> []" using assms(7,8) by (auto simp: round_ids_def filter_empty_conv)
  moreover from this have "ps \<noteq> []" using G(1) by auto
  ultimately have "RunTestCycle full t = performTest (round_ids full ids t)
      (logStatus (''Testing '' @ show_nat (length (round_ids full ids t)) @ '' proxies in this cycle'') t2)"
    using assms(4,5,6) g G(1) by (simp add: RunTestCycle_def Let_def)
  then show ?thesis using \<open>round_ids full ids t \<noteq> []\<close> G by (simp add: performTest_def Let_def)
qed

text \<open>If no round is running, testing is enabled, the core runs and the current group has between
  one and 3000 profiles of which some can be tested, then a round starts one test of exactly the
  profiles that follow the offset, the chains and ordinary custom profiles skipped and at most as
  many as configured, leaves the pool alone and moves the offset on by their number.\<close>

theorem round_picks:
  assumes "calm (a_man t)" and "members t = Some ids" and "length ids \<le> 3000"
    and "\<not> a_isTestingInProgress t" and "as_enable (a_cfg t)" and "as_core_running (a_cfg t)"
    and "0 < as_proxy_count (a_cfg t)" and "\<exists>i\<in>set ids. testable full (a_man t) i"
  shows "let t' = RunTestCycle full t; picked = take (nat (as_proxy_count (a_cfg t))) (filter (testable full (a_man t)) (rotate (a_currentTestOffset t) ids))
    in a_threads t' = a_threads t @ [Perform_test picked] \<and> a_isTestingInProgress t' \<and> a_workingProxyPool t' = a_workingProxyPool t
      \<and> a_currentTestOffset t' = (a_currentTestOffset t + length picked) mod length ids"
  using round_result [OF assms] by (simp add: round_ids_def)

theorem round_picks_witness:
  "a_threads (RunTestCycle (\<lambda>_. False) (lab_tester 4)) = [Perform_test [6]] \<and> a_currentTestOffset (RunTestCycle (\<lambda>_. False) (lab_tester 4)) = 2"
  using round_picks [of "lab_tester 4" "[4, 5, 6]" "\<lambda>_. False"] by (simp add: Let_def lab_testable rotate_drop_take)

text \<open>C22. A start while a test is running does not wait for it: the flag that keeps two rounds apart is
  cleared first, so the running test stays in flight and a second one joins it, both over the same
  pool.\<close>

theorem start_during_test:
  assumes "calm (a_man t)" and "members t = Some ids" and "length ids \<le> 3000"
    and "a_isTestingInProgress t" and "as_enable (a_cfg t)" and "as_core_running (a_cfg t)"
    and "0 < as_proxy_count (a_cfg t)" and "\<exists>i\<in>set ids. testable full (a_man t) i"
  shows "a_threads (RunTestCycle full t) = a_threads t
    \<and> (\<exists>picked. picked \<noteq> [] \<and> a_threads (Tester_Start full t) = a_threads t @ [Perform_test picked])"
proof -
  have skip: "a_threads (RunTestCycle full t) = a_threads t" unfolding RunTestCycle_def if_P [OF assms(4)] by simp
  let ?u = "logStatus (if as_spmode_vpn (a_cfg t) \<or> as_spmode_packet_filter (a_cfg t)
      then ''Health monitoring enabled (transparent mode)'' else ''Health monitoring enabled (Proxy mode)'')
    ((logStatus ''Starting auto-testing system'' (Tester_Stop t))\<lparr>a_testTimer := Some (as_interval_seconds (a_cfg t) * 1000), a_healthCheckTimer := Some 30000\<rparr>)"
  have u: "a_man ?u = a_man t" "a_cfg ?u = a_cfg t" "\<not> a_isTestingInProgress ?u" "a_threads ?u = a_threads t"
    "a_currentTestOffset ?u = a_currentTestOffset t" by (simp_all add: Tester_Stop_def)
  have "Tester_Start full t = RunTestCycle full ?u" using assms(5) by (simp add: Tester_Start_def Let_def Tester_Stop_def)
  moreover have "a_threads (RunTestCycle full ?u) = a_threads t @ [Perform_test (round_ids full ids ?u)]"
    using round_result [of ?u ids full] u assms by (simp add: members_def Let_def)
  moreover have "round_ids full ids ?u \<noteq> []" using assms(7,8) unfolding round_ids_def u by (auto simp: filter_empty_conv)
  ultimately show ?thesis using skip by auto
qed

theorem start_during_test_witness:
  "\<exists>picked. picked \<noteq> [] \<and> a_threads (Tester_Start (\<lambda>_. False) ((lab_tester 4)\<lparr>a_isTestingInProgress := True, a_threads := [Perform_test [6]]\<rparr>))
     = [Perform_test [6], Perform_test picked]"
  using start_during_test [of "(lab_tester 4)\<lparr>a_isTestingInProgress := True, a_threads := [Perform_test [6]]\<rparr>" "[4, 5, 6]" "\<lambda>_. False"]
  by (simp add: lab_testable members_def)

section \<open>No profile is left out\<close>








section \<open>The pool of working profiles\<close>

lemma excess_loop_value: "0 \<le> s \<Longrightarrow> excess_loop s xs = Some (drop (length xs - nat s) xs)"
proof (induction xs)
  case (Cons i xs)
  show ?case
  proof (cases "s < int (length (i # xs))")
    case True
    then have "length (i # xs) - nat s = Suc (length xs - nat s)" using Cons.prems by (simp add: nat_less_iff Suc_diff_le zless_nat_eq_int_zless)
    with True Cons show ?thesis by simp
  qed simp
qed simp

lemma excess_loop_negative: "s < 0 \<Longrightarrow> excess_loop s xs = None"
  by (induction xs) auto

lemma not_working_result:
  assumes "calm m"
  shows "let (m', gone) = not_working ids m in only_looked m m' \<and> gone = filter (\<lambda>i. \<not> works m i) ids"
  using assms
proof (induction ids arbitrary: m)
  case (Cons i ids)
  obtain m1 r where g: "GetProfile i m = (m1, r)" by force
  note A = ask_calm [OF Cons.prems, of i, unfolded g fst_conv snd_conv]
  have m1: "calm m1" "works m1 = works m" using A(1) by (simp_all add: only_looked_def works_def fun_eq_iff)
  obtain m2 gone where n: "not_working ids m1 = (m2, gone)" by force
  have I: "only_looked m m2" "gone = filter (\<lambda>i. \<not> works m i) ids"
    using Cons.IH [OF m1(1)] n A(1) m1(2) by (auto intro: only_looked_trans)
  have "(case r of None \<Rightarrow> True | Some p \<Rightarrow> \<not> e_is_working (m_heap m1 p)) = (\<not> works m i)"
    using A(2,3) by (cases r) (auto simp: works_def)
  then show ?case using g n I by (simp add: Let_def)
qed (auto simp: only_looked_def same_but_lookup_def)

lemma prune_result:
  assumes "calm (a_man t)" and "0 \<le> as_working_pool_size (a_cfg t)"
  obtains m' where "only_looked (a_man t) m'"
    "pruneWorkingPool t = Some (t\<lparr>a_man := m',
       a_workingProxyPool := filter (works (a_man t)) (take (nat (as_working_pool_size (a_cfg t))) (a_workingProxyPool t))\<rparr>)"
proof -
  let ?r = "take (nat (as_working_pool_size (a_cfg t))) (a_workingProxyPool t)"
  have e: "excess_loop (as_working_pool_size (a_cfg t)) (rev (a_workingProxyPool t)) = Some (rev ?r)"
    by (simp add: excess_loop_value [OF assms(2)] rev_take)
  obtain m' gone where n: "not_working ?r (a_man t) = (m', gone)" by force
  have N: "only_looked (a_man t) m'" "gone = filter (\<lambda>i. \<not> works (a_man t) i) ?r"
    using not_working_result [OF assms(1), of ?r] n by simp_all
  have "filter (\<lambda>x. x \<notin> set gone) ?r = filter (works (a_man t)) ?r"
    by (rule filter_cong [OF refl]) (simp add: N(2))
  then have "pruneWorkingPool t = Some (t\<lparr>a_man := m', a_workingProxyPool := filter (works (a_man t)) ?r\<rparr>)"
    by (simp add: pruneWorkingPool_def e n removeAll_foldl)
  with N(1) show thesis by (rule that)
qed

section \<open>Failover\<close>

lemma look_nonneg: "minv m \<Longrightarrow> look m i = Some e \<Longrightarrow> 0 \<le> i"
  using cached_known [of m i] weak_known [of m i]
  by (auto simp: look_def profile_view_def known_def minv_defs split: option.splits if_splits)

definition marked :: "int \<Rightarrow> bool \<Rightarrow> (int \<Rightarrow> (string \<times> bool) option) \<Rightarrow> int \<Rightarrow> (string \<times> bool) option" where
  "marked i b l = l(i := map_option (\<lambda>(t, _). (t, b)) (l i))"

lemma marked_known: "l i = Some (t, c) \<Longrightarrow> marked i b l = l(i \<mapsto> (t, b))"
  by (simp add: marked_def)

lemma marked_unknown: "l i = None \<Longrightarrow> marked i b l = l"
  by (simp add: marked_def fun_eq_iff)

lemma ask_save:
  assumes "calm m" and "GetProfile i m = (m1, Some p)"
    and f: "\<And>e. e_id (f e) = e_id e \<and> e_type (f e) = e_type e \<and> e_no_save (f e) = e_no_save e \<and> e_is_working (f e) = b"
  defines "m' \<equiv> Entity_Save p (set_entity p f m1)"
  shows "calm m' \<and> look m' = marked i b (look m) \<and> m_started_id m' = m_started_id m \<and> m_current_group m' = m_current_group m"
proof -
  have A: "only_looked m m1" "look m i = Some (e_type (m_heap m1 p), e_is_working (m_heap m1 p))"
    using ask_calm(1,3) [OF assms(1), of i] assms(2) by auto
  have "stands_for m1 i p" using GetProfile_stands_for [of m i p] assms(1,2) by (simp add: calm_def)
  from save_look [of m1 i p f, OF _ _ this] A(1) f
  have "minv m' \<and> settled m' \<and> look m' = (look m1)(i \<mapsto> (e_type (m_heap m1 p), b)) \<and> m_current_group m' = m_current_group m1 \<and> m_started_id m' = m_started_id m1"
    unfolding m'_def by (simp add: only_looked_def calm_def)
  then show ?thesis using A by (auto simp: calm_def only_looked_def same_but_lookup_def marked_known)
qed

definition is_switch :: "event \<Rightarrow> bool" where
  "is_switch e = (case e of FailoverTriggered _ _ \<Rightarrow> True | NoWorkingProxiesAvailable \<Rightarrow> True | Profile_start _ \<Rightarrow> True | _ \<Rightarrow> False)"

lemma logStatus_switches [simp]: "filter is_switch (a_events (logStatus s t)) = filter is_switch (a_events t)"
  by (simp add: logStatus_def emit_def is_switch_def)

text \<open>C20. When the running profile has failed, it is marked as not working and leaves the pool, the
  pool is cut to its size and to the profiles that work, and the first profile of what is left is
  started, with the count of failures cleared; if none is left, that is reported and nothing is
  started. The profile that failed is never the one started.\<close>

theorem failover_picks:
  assumes "calm (a_man t)" and "0 \<le> as_working_pool_size (a_cfg t)" and "m_started_id (a_man t) = i"
  shows "\<exists>t'. HandleProxyFailure display i attempts t = Some t' \<and> calm (a_man t') \<and> look (a_man t') = marked i False (look (a_man t))
    \<and> i \<notin> set (a_workingProxyPool t')
    \<and> a_workingProxyPool t' = filter (works (a_man t)) (take (nat (as_working_pool_size (a_cfg t))) (removeAll i (a_workingProxyPool t)))
    \<and> filter is_switch (a_events t') = filter is_switch (a_events t) @
        (case a_workingProxyPool t' of [] \<Rightarrow> [NoWorkingProxiesAvailable] | j # _ \<Rightarrow> [FailoverTriggered i j, Profile_start j])
    \<and> (a_workingProxyPool t' \<noteq> [] \<longrightarrow> a_activeProxyFailureCount t' = 0)"
proof -
  let ?l = "logStatus (''Handling failure for proxy '' @ show_int i @ '' after '' @ show_int attempts @ '' attempts'') t"
  let ?pool = "removeAll i (a_workingProxyPool t)"
  obtain m1 r where g: "GetProfile i (a_man t) = (m1, r)" by force
  let ?m2 = "case r of None \<Rightarrow> m1 | Some p \<Rightarrow> set_working False p m1"
  have m2: "calm ?m2" "look ?m2 = marked i False (look (a_man t))" "m_started_id ?m2 = i"
  proof -
    have "calm ?m2 \<and> look ?m2 = marked i False (look (a_man t)) \<and> m_started_id ?m2 = m_started_id (a_man t)"
    proof (cases r)
      case None
      then show ?thesis using ask_calm(1,2) [OF assms(1), of i] g
        by (auto simp: only_looked_def same_but_lookup_def marked_unknown)
    next
      case (Some p)
      then show ?thesis using ask_save [OF assms(1), of i m1 p "\<lambda>e. e\<lparr>e_is_working := False\<rparr>" False] g by (simp add: set_working_def)
    qed
    then show "calm ?m2" "look ?m2 = marked i False (look (a_man t))" "m_started_id ?m2 = i" using assms(3) by simp_all
  qed
  define t2 where "t2 = emit (WorkingPoolUpdated ?pool) (?l\<lparr>a_man := ?m2, a_workingProxyPool := ?pool\<rparr>)"
  have t2: "a_man t2 = ?m2" "a_workingProxyPool t2 = ?pool" "a_cfg t2 = a_cfg t"
    "filter is_switch (a_events t2) = filter is_switch (a_events t)" by (simp_all add: t2_def is_switch_def)
  let ?rest = "filter (works (a_man t)) (take (nat (as_working_pool_size (a_cfg t))) ?pool)"
  have w: "filter (works (a_man t2)) (take n ?pool) = filter (works (a_man t)) (take n ?pool)" for n
  proof (rule filter_cong [OF refl])
    fix x assume "x \<in> set (take n ?pool)"
    then have "x \<noteq> i" using in_set_takeD [of x n ?pool] by auto
    then show "works (a_man t2) x = works (a_man t) x" by (simp add: works_def t2(1) m2(2) marked_def)
  qed
  obtain m3 where m3: "only_looked (a_man t2) m3" "pruneWorkingPool t2 = Some (t2\<lparr>a_man := m3,
      a_workingProxyPool := filter (works (a_man t2)) (take (nat (as_working_pool_size (a_cfg t2))) (a_workingProxyPool t2))\<rparr>)"
    by (rule prune_result [of t2]) (use m2(1) assms(2) in \<open>simp_all add: t2\<close>)
  note pr = m3(2) [unfolded t2(2) w t2(3)]
  have N: "HandleProxyFailure display i attempts t = (let j = (case ?rest of [] \<Rightarrow> -1 | i # _ \<Rightarrow> i); t = t2\<lparr>a_man := m3, a_workingProxyPool := ?rest\<rparr>
     in if 0 \<le> j then (let t = logStatus (''Triggering automatic failover from proxy '' @ show_int i @ '' to '' @ show_int j) t;
              (t, nextProxy) = ask_profile j (emit (FailoverTriggered i j) t);
              name = (case nextProxy of Some p \<Rightarrow> display (m_heap (a_man t) p) | None \<Rightarrow> show_int j)
          in Some (emit (Profile_start j) (emit (failed_line name) (t\<lparr>a_activeProxyFailureCount := 0\<rparr>))))
        else Some (emit (Log ''[Auto-Test] Active proxy failed but no backup proxy available!'')
                     (emit NoWorkingProxiesAvailable (logStatus ''No working proxies available for failover'' t))))"
  proof -
    have "HandleProxyFailure display i attempts t = (if m_started_id (a_man t2) \<noteq> i then Some t2
         else (case GetNextWorkingProxy t2 of
                 None \<Rightarrow> None
               | Some (t, j) \<Rightarrow>
                   if 0 \<le> j
                   then (let t = logStatus (''Triggering automatic failover from proxy '' @ show_int i @ '' to '' @ show_int j) t;
                             (t, nextProxy) = ask_profile j (emit (FailoverTriggered i j) t);
                             name = (case nextProxy of Some p \<Rightarrow> display (m_heap (a_man t) p) | None \<Rightarrow> show_int j)
                         in Some (emit (Profile_start j) (emit (failed_line name) (t\<lparr>a_activeProxyFailureCount := 0\<rparr>))))
                   else Some (emit (Log ''[Auto-Test] Active proxy failed but no backup proxy available!'')
                                (emit NoWorkingProxiesAvailable (logStatus ''No working proxies available for failover'' t)))))"
      by (cases r) (simp_all add: HandleProxyFailure_def t2_def ask_profile_def g Let_def)
    then show ?thesis using m2(3) by (simp add: GetNextWorkingProxy_def pr Let_def t2(1) cong: if_cong)
  qed
  have nm: "i \<notin> set ?rest" by (auto dest: in_set_takeD)
  have c3: "calm m3" "look m3 = marked i False (look (a_man t))" using m3(1) m2(2) by (simp_all add: only_looked_def t2(1))
  show ?thesis
  proof (cases ?rest)
    case Nil
    then show ?thesis using N nm c3 t2 by (simp add: is_switch_def)
  next
    case (Cons j js)
    have "j \<in> set ?rest" unfolding Cons by simp
    then have "works (a_man t) j" by simp
    then have j: "0 \<le> j" using look_nonneg assms(1) by (auto simp: works_def calm_def)
    obtain m4 q where q: "GetProfile j m3 = (m4, q)" by force
    have "only_looked m3 m4" using ask_calm(1) [OF c3(1), of j] q by simp
    then show ?thesis using N nm c3 t2 Cons j q
      by (simp add: ask_profile_def Let_def is_switch_def failed_line_def only_looked_def)
  qed
qed

theorem failover_picks_witness:
  "\<exists>t'. HandleProxyFailure e_name 4 3 (lab_tester 4) = Some t' \<and> a_workingProxyPool t' = [6]
     \<and> filter is_switch (a_events t') = [FailoverTriggered 4 6, Profile_start 6]"
  using failover_picks [of "lab_tester 4" 4 e_name 3] by (auto simp: lab_works)

section \<open>A round's end\<close>






















end
