(* ===== verification/Config_Typing.thy ===== *)
theory Config_Typing
  imports Config_Item
begin

text \<open>
  Stored objects are typed: reading JSON or bytes, whatever they hold, never changes the names and
  types of an object's items, nor those of its nested objects and of the members of its lists.
\<close>

section \<open>Well-typed objects\<close>

text \<open>The items of an object have distinct hashes, nested objects are well-typed, and the members of
  a list are well-typed objects of the class of its template.\<close>

function (sequential) typed_v :: "(string \<Rightarrow> bytes) \<Rightarrow> cval \<Rightarrow> bool" and typed :: "(string \<Rightarrow> bytes) \<Rightarrow> store \<Rightarrow> bool"
  and typed_all :: "(string \<Rightarrow> bytes) \<Rightarrow> store \<Rightarrow> store list \<Rightarrow> bool" where
  "typed_v hsh (CStore (Some fs)) = typed hsh fs"
| "typed_v hsh (CShared (Some fs)) = typed hsh fs"
| "typed_v hsh (CStoreList tpl xs) = (typed hsh tpl \<and> typed_all hsh tpl xs)"
| "typed_v hsh v = True"
| "typed hsh [] = True"
| "typed hsh ((n, v) # fs) = (hsh n \<notin> hsh ` fst ` set fs \<and> typed_v hsh v \<and> typed hsh fs)"
| "typed_all hsh tpl [] = True"
| "typed_all hsh tpl (x # xs) = (shape x = shape tpl \<and> typed hsh x \<and> typed_all hsh tpl xs)"
  by pat_completeness auto
termination
  by (relation "measure (\<lambda>x. case x of Inl (_, v) \<Rightarrow> size v
        | Inr (Inl (_, fs)) \<Rightarrow> size_list (size_prod (\<lambda>_. 0) size) fs
        | Inr (Inr (_, _, xs)) \<Rightarrow> size_list (size_list (size_prod (\<lambda>_. 0) size)) xs)") auto

lemma typed_members:
  "typed hsh fs \<longleftrightarrow> distinct (map (hsh \<circ> fst) fs) \<and> (\<forall>(n, v)\<in>set fs. typed_v hsh v)"
proof (induction fs)
  case (Cons p fs)
  have "(hsh n \<notin> hsh ` fst ` set fs) = (hsh n \<notin> set (map (hsh \<circ> fst) fs))" for n by (simp add: image_comp)
  with Cons show ?case by (cases p) auto
qed simp

lemma shape_map: "shape fs = map (\<lambda>(n, v). (n, shape_v v)) fs"
  by (induction fs) auto

lemma put_field_same:
  assumes "typed hsh fs" and "(n, v) \<in> set fs" and "shape_v v' = shape_v v" and "typed_v hsh v'"
  shows "shape (put_field n v' fs) = shape fs \<and> typed hsh (put_field n v' fs)"
proof -
  have "inj_on fst (set fs)" using assms(1) by (auto simp: typed_members distinct_map inj_on_def)
  then have "w = v" if "(n, w) \<in> set fs" for w using assms(2) that inj_onD [of fst "set fs" "(n, w)" "(n, v)"] by simp
  then have "shape (put_field n v' fs) = shape fs" using assms(3) by (auto simp: shape_map put_field_def)
  moreover have "map (hsh \<circ> fst) (put_field n v' fs) = map (hsh \<circ> fst) fs" by (auto simp: put_field_def)
  moreover have "\<forall>(m, w)\<in>set (put_field n v' fs). typed_v hsh w"
    using assms(1,4) by (auto simp: typed_members put_field_def split: if_splits)
  ultimately show ?thesis using assms(1) by (simp add: typed_members)
qed

lemma item_at_member: "item_at hsh key fs = Some (n, v) \<Longrightarrow> (n, v) \<in> set fs"
  by (auto simp: item_at_def find_Some_iff in_set_conv_nth)

lemma typed_item: "typed hsh fs \<Longrightarrow> item_at hsh key fs = Some (n, v) \<Longrightarrow> typed_v hsh v"
  by (drule item_at_member) (auto simp: typed_members)

section \<open>Reading\<close>

lemma read_json_typed:
  "typed_v hsh v \<Longrightarrow> shape_v (setNode hsh doc v j) = shape_v v \<and> typed_v hsh (setNode hsh doc v j)"
  "typed hsh fs \<Longrightarrow> shape (from_json hsh doc fs kvs) = shape fs \<and> typed hsh (from_json hsh doc fs kvs)"
  "typed hsh tpl \<Longrightarrow> typed_all hsh tpl (from_jsons hsh doc tpl js)"
proof (induction hsh doc v j and hsh doc fs kvs and hsh doc tpl js rule: setNode_from_json_from_jsons.induct)
  case (15 hsh doc fs key j kvs)
  show ?case
  proof (cases "item_at hsh (hsh key) fs")
    case None
    then show ?thesis using 15 by simp
  next
    case (Some p)
    obtain name v where p: "p = (name, v)" by force
    show ?thesis
    proof (cases "name = key")
      case True
      have "shape_v (setNode hsh doc v j) = shape_v v \<and> typed_v hsh (setNode hsh doc v j)"
        using 15(3) [OF Some p [symmetric]] typed_item [OF 15(5)] Some p True by simp
      then have "shape (put_field name (setNode hsh doc v j) fs) = shape fs \<and> typed hsh (put_field name (setNode hsh doc v j) fs)"
        using put_field_same [OF 15(5)] item_at_member Some p by blast
      then show ?thesis using 15(4) [OF Some p [symmetric]] Some p True by simp
    next
      case False
      then show ?thesis using 15(2) [OF Some p [symmetric]] 15(5) Some p by simp
    qed
  qed
qed (auto split: json.splits)

lemma read_bytes_typed:
  "(\<forall>v bs v' r. typed_v hsh v \<longrightarrow> deserialize n S hsh v bs = Inr (v', r) \<longrightarrow> shape_v v' = shape_v v \<and> typed_v hsh v')
   \<and> (\<forall>fs bs fs' b. typed hsh fs \<longrightarrow> from_bytes n S hsh fs bs = Inr (fs', b) \<longrightarrow> shape fs' = shape fs \<and> typed hsh fs')
   \<and> (\<forall>tpl arrs xs. typed hsh tpl \<longrightarrow> from_bytes_all n S hsh tpl arrs = Inr xs \<longrightarrow> typed_all hsh tpl xs)"
proof (induction n)
  case (Suc n)
  have D: "typed_v hsh v \<Longrightarrow> deserialize n S hsh v bs = Inr (v', r) \<Longrightarrow> shape_v v' = shape_v v \<and> typed_v hsh v'"
    and F: "typed hsh fs \<Longrightarrow> from_bytes n S hsh fs bs = Inr (fs', b) \<Longrightarrow> shape fs' = shape fs \<and> typed hsh fs'"
    and A: "typed hsh tpl \<Longrightarrow> from_bytes_all n S hsh tpl arrs = Inr xs \<Longrightarrow> typed_all hsh tpl xs"
    for v bs v' r fs fs' b tpl arrs xs using Suc.IH by blast+
  have "shape_v v' = shape_v v \<and> typed_v hsh v'" if "typed_v hsh v" "deserialize (Suc n) S hsh v bs = Inr (v', r)" for v bs v' r
    using that by (cases v rule: shape_v.cases) (auto simp: Let_def split: prod.splits sum.splits dest: F A)
  moreover have "shape fs' = shape fs \<and> typed hsh fs'" if t: "typed hsh fs" and r: "from_bytes (Suc n) S hsh fs bs = Inr (fs', b)" for fs bs fs' b
  proof (cases "bs = []")
    case False
    obtain key bs1 where k: "get_v (s_bytes S) bs = (key, bs1)" by force
    obtain ty bs2 where y: "get_v (s_byte S) bs1 = (ty, bs2)" by force
    have skip: ?thesis if "map_sum id (\<lambda>(fs', _). (fs', True)) (from_bytes n S hsh fs (skip_item S ty bs2)) = Inr (fs', b)"
      using that F [OF t] by (cases "from_bytes n S hsh fs (skip_item S ty bs2)") auto
    show ?thesis
    proof (cases "item_at hsh key fs")
      case None
      then show ?thesis using skip r False k y by (simp add: Let_def)
    next
      case (Some p)
      obtain name v where p: "p = (name, v)" by force
      show ?thesis
      proof (cases "item_type v = ty")
        case True
        then obtain v' bs3 where d: "deserialize n S hsh v bs2 = Inr (v', bs3)" "from_bytes n S hsh (put_field name v' fs) bs3 = Inr (fs', b)"
          using r False k y Some p by (auto simp: Let_def split: sum.splits)
        have "shape (put_field name v' fs) = shape fs \<and> typed hsh (put_field name v' fs)"
          using put_field_same [OF t] item_at_member typed_item [OF t] D [OF _ d(1)] Some p by blast
        then show ?thesis using F d(2) by metis
      next
        case no: False
        then show ?thesis using skip r False k y Some p by (simp add: Let_def)
      qed
    qed
  qed (use t r in simp)
  moreover have "typed_all hsh tpl xs" if t: "typed hsh tpl" "from_bytes_all (Suc n) S hsh tpl arrs = Inr xs" for tpl arrs xs
  proof (cases arrs)
    case (Cons x rest)
    then obtain y b ys where "from_bytes n S hsh tpl x = Inr (y, b)" "from_bytes_all n S hsh tpl rest = Inr ys" "xs = y # ys"
      using t(2) by (auto split: sum.splits)
    then show ?thesis using F [OF t(1)] A [OF t(1)] by simp
  qed (use t in simp)
  ultimately show ?case by blast
qed simp

lemma from_bytes_typed:
  "typed hsh fs \<Longrightarrow> from_bytes n S hsh fs bs = Inr (fs', b) \<Longrightarrow> shape fs' = shape fs \<and> typed hsh fs'"
  using read_bytes_typed [of hsh n S] by blast

lemma shape_items: "shape xs = shape ys \<Longrightarrow> map (\<lambda>(n, v). (n, item_type v)) xs = map (\<lambda>(n, v). (n, item_type v)) ys"
proof (induction xs arbitrary: ys)
  case Nil
  then show ?case by (cases ys rule: shape.cases) simp_all
next
  case (Cons p xs)
  obtain n v where p: "p = (n, v)" by force
  with Cons.prems have "shape ys = (n, shape_v v) # shape xs" by simp
  then obtain w ys' where "ys = (n, w) # ys'" "shape_v w = shape_v v" "shape ys' = shape xs" unfolding shape_Cons by blast
  then show ?case using Cons.IH [of ys'] shape_type [of w v] p by simp
qed

section \<open>Properties\<close>

text \<open>Whatever data a stored object is loaded from, be it its binary form, JSON, or anything else,
  every reading that does not fail leaves the object in its class: the same items under the same
  names with the same types, nested objects likewise, and only objects of the list's class in every
  list.\<close>

theorem reading_keeps_types:
  assumes "typed hsh fs" and "content_in n S hsh doc parse fs data = Inr (fs', ok)"
  shows "shape fs' = shape fs \<and> typed hsh fs' \<and> map (\<lambda>(n, v). (n, item_type v)) fs' = map (\<lambda>(n, v). (n, item_type v)) fs"
proof -
  have "shape fs' = shape fs \<and> typed hsh fs'"
  proof (cases "length data > 7 \<and> take 7 data = magic")
    case True
    then obtain b where "from_bytes n S hsh fs (drop 7 data) = Inr (fs', b)"
      using assms(2) by (cases "from_bytes n S hsh fs (drop 7 data)") (auto simp: content_in_def)
    then show ?thesis by (rule from_bytes_typed [OF assms(1)])
  next
    case False
    then have "FromJsonBytes hsh doc parse fs data = (fs', ok)" using assms(2) by (auto simp: content_in_def)
    then have "fs' = fs \<or> (\<exists>j. fs' = from_json hsh doc fs j)" by (auto simp: FromJsonBytes_def split: option.splits)
    then show ?thesis using read_json_typed(2) [OF assms(1)] assms(1) by blast
  qed
  then show ?thesis using shape_items [of fs' fs] by blast
qed

definition odd_json :: "bytes \<Rightarrow> json option" where
  "odd_json _ = Some (QObj [(''id'', QStr ''x''), (''members'', QArr [QNum 1, QObj []])])"

theorem reading_keeps_types_witness:
  "shape (fst (FromJsonBytes name_hash (\<lambda>_. None) odd_json sample_store [])) = shape sample_store"
proof -
  have t: "typed name_hash sample_store" by (simp add: sample_store_def name_hash_def)
  obtain fs' ok where f: "FromJsonBytes name_hash (\<lambda>_. None) odd_json sample_store [] = (fs', ok)" by (rule prod.exhaust)
  then have "content_in 100 unary_stream name_hash (\<lambda>_. None) odd_json sample_store [] = Inr (fs', ok)"
    unfolding content_in_def by simp
  from reading_keeps_types [OF t this] f show ?thesis by simp
qed

text \<open>The JSON values an item takes something from. An empty array does not replace a list, and an
  object that is not there takes nothing.\<close>

fun json_fits :: "cval \<Rightarrow> json \<Rightarrow> bool" where
  "json_fits (CInt _) (QNum _) = True"
| "json_fits (CLong _) (QNum _) = True"
| "json_fits (CStr _) (QStr _) = True"
| "json_fits (CBool _) (QBool _) = True"
| "json_fits (CBoolPtr _) (QBool _) = True"
| "json_fits (CStrList _) (QArr arr) = (arr \<noteq> [])"
| "json_fits (CIntList _) (QArr arr) = (arr \<noteq> [])"
| "json_fits (CStrMap _) (QObj _) = True"
| "json_fits (CStrMap _) (QStr _) = True"
| "json_fits (CStore (Some _)) (QObj _) = True"
| "json_fits (CShared (Some _)) (QObj _) = True"
| "json_fits (CStoreList _ _) (QArr _) = True"
| "json_fits (CEnum _ (Some _)) (QStr _) = True"
| "json_fits (CEnum _ (Some _)) (QNum _) = True"
| "json_fits _ _ = False"

lemma setNode_unfit: "\<not> json_fits v j \<Longrightarrow> setNode hsh doc v j = v"
proof (cases v)
  case (CStore a)
  then show "\<not> json_fits v j \<Longrightarrow> ?thesis" by (cases a; cases j) simp_all
next
  case (CShared a)
  then show "\<not> json_fits v j \<Longrightarrow> ?thesis" by (cases a; cases j) simp_all
next
  case (CEnum m a)
  then show "\<not> json_fits v j \<Longrightarrow> ?thesis" by (cases a; cases j) (simp_all add: enum_set_json_def)
qed (cases j; simp)+

text \<open>C27. Reading a JSON object into a stored object takes every item from the value under its own name
  and from nothing else: the object keeps its items, their order and their class, down to nested
  objects and the members of lists; an item whose name is missing, or whose value is not of the
  item's kind (for a list also an empty array), keeps its value; and a key the class does not know
  changes nothing, even if its hash is that of an item. The hashes of an object's names are
  distinct. (What a fallback object does with unknown keys is another matter, see \<open>Group_Load\<close>.)\<close>

theorem json_reads_items:
  assumes "typed hsh fs" and "distinct (map fst obj)"
  shows "let fs' = from_json hsh doc fs obj
    in map fst fs' = map fst fs \<and> shape fs' = shape fs \<and> typed hsh fs'
      \<and> (\<forall>n. map_of fs' n = (case map_of fs n of None \<Rightarrow> None
          | Some v \<Rightarrow> (case map_of obj n of None \<Rightarrow> Some v
              | Some j \<Rightarrow> if json_fits v j then Some (setNode hsh doc v j) else Some v)))"
proof -
  have d: "distinct (map (hsh \<circ> fst) fs)" using assms(1) by (simp add: typed_members)
  have "map_of (from_json hsh doc fs obj) n = (case map_of fs n of None \<Rightarrow> None
      | Some v \<Rightarrow> (case map_of obj n of None \<Rightarrow> Some v | Some j \<Rightarrow> if json_fits v j then Some (setNode hsh doc v j) else Some v))" for n
    unfolding from_json_lookup [OF d assms(2)] by (simp add: setNode_unfit split: option.split)
  then show ?thesis using read_json_typed(2) [OF assms(1), of doc obj] by (simp add: Let_def)
qed

theorem json_reads_items_witness:
  "map_of (from_json name_hash (\<lambda>_. None) sample_store [(''id'', QStr ''x''), (''members'', QArr []), (''more'', QNum 1)]) ''id'' = Some (CInt 3)"
  using json_reads_items [of name_hash sample_store "[(''id'', QStr ''x''), (''members'', QArr []), (''more'', QNum 1)]" "\<lambda>_. None"]
  by (simp add: sample_store_def name_hash_def Let_def)

end
