(* ===== verification/Traffic.thy ===== *)
theory Traffic
  imports Nb_Prelude "HOL-Library.Signed_Division" "HOL-Library.Word"
begin

text \<open>
  Traffic statistics (\<^verbatim>\<open>src/gharqad/stats/traffic/TrafficLooper.cpp\<close>, and the usage log of
  \<^verbatim>\<open>src/gharqad/dataStore/Database.cpp\<close>): once a second the counters of the core, which are the
  bytes since the last query, are added to the counters of the running profile's outbounds and to
  the totals of the session; at the start the totals of the last session move to the log. The
  counters are shared objects, so an item is an address.
\<close>

section \<open>State\<close>

text \<open>A \<open>long long\<close> is a word of 64 bits, whose sum wraps, and an \<open>int\<close> one of 32, to which a
  \<open>long long\<close> is cut. Both are read as signed numbers (\<open>sint\<close>).\<close>

type_synonym int64 = "64 word"
type_synonym int32 = "32 word"

record traffic_data =
  td_id :: int
  td_tag :: string
  td_isChainTail :: bool
  td_ignoreForRate :: bool
  td_downlink :: int64
  td_uplink :: int64
  td_downlink_rate :: int64
  td_uplink_rate :: int64
  td_last_update :: int64

record looper =
  lo_heap :: "nat \<Rightarrow> traffic_data"
  lo_items :: "nat list"
  lo_isChain :: bool
  lo_proxy :: traffic_data
  lo_direct :: traffic_data
  lo_loop_enabled :: bool
  lo_looping :: bool
  lo_no_save :: bool

record usage_log =
  ul_start_count :: int
  ul_first_launch_time :: int
  ul_last_launch_time :: int
  ul_total_proxy :: traffic_data
  ul_total_direct :: traffic_data
  ul_usage_time :: int
  ul_usage_since :: int

text \<open>A 64-bit value assigned to an \<open>int\<close>.\<close>

definition to_int32 :: "int64 \<Rightarrow> int32" where
  "to_int32 x = ucast x"

text \<open>The answer of the core to \<open>QueryStats\<close>: the bytes up and the bytes down since the last query,
  by the outbound's tag; and the clock.\<close>

type_synonym counts = "string \<Rightarrow> int64 option"
type_synonym answer = "counts \<times> counts"

section \<open>One update\<close>

text \<open>Bytes a second, cut to an integer. The code divides doubles, which gives this value as long
  as an update brings at most 2^53 / 1000 bytes.\<close>

definition rate :: "int64 \<Rightarrow> int64 \<Rightarrow> int64" where
  "rate bytes interval = word_of_int ((sint bytes * 1000) sdiv sint interval)"

definition count_item :: "int64 \<Rightarrow> int64 \<Rightarrow> int64 \<Rightarrow> traffic_data \<Rightarrow> traffic_data" where
  "count_item up down interval d =
     d\<lparr>td_uplink := td_uplink d + up, td_downlink := td_downlink d + down,
       td_uplink_rate := rate up interval, td_downlink_rate := rate down interval\<rparr>"

definition count_total :: "int64 \<Rightarrow> int64 \<Rightarrow> traffic_data \<Rightarrow> traffic_data \<Rightarrow> traffic_data" where
  "count_total up down item d =
     d\<lparr>td_uplink := td_uplink d + up, td_downlink := td_downlink d + down,
       td_uplink_rate := td_uplink_rate d + td_uplink_rate item, td_downlink_rate := td_downlink_rate d + td_downlink_rate item\<rparr>"

text \<open>The first loop of \<open>UpdateAll\<close>. The clock is read for every item the core knows, here by the
  item's position; \<open>ups\<close> and \<open>downs\<close> are the core's answer, and a tag that is missing in the
  second counts nothing. The integers are \<open>proxyUp\<close> and \<open>proxyDown\<close>.\<close>

fun update_items ::
  "counts \<Rightarrow> counts \<Rightarrow> (nat \<Rightarrow> int64) \<Rightarrow> nat \<Rightarrow> nat list \<Rightarrow> looper \<times> int32 \<times> int32 \<Rightarrow> looper \<times> int32 \<times> int32" where
  "update_items ups downs now k [] s = s"
| "update_items ups downs now k (a # items) (t, proxyUp, proxyDown) =
     (let item = lo_heap t a; tag = td_tag item
      in case ups tag of
           None \<Rightarrow> update_items ups downs now (Suc k) items (t, proxyUp, proxyDown)
         | Some up \<Rightarrow>
             (let interval = now k - td_last_update item; item = item\<lparr>td_last_update := now k\<rparr>
              in if interval \<le>s 0 then update_items ups downs now (Suc k) items (t\<lparr>lo_heap := (lo_heap t)(a := item)\<rparr>, proxyUp, proxyDown)
                 else
                   (let down = (case downs tag of Some d \<Rightarrow> d | None \<Rightarrow> 0);
                        (proxyUp, proxyDown) = (if tag = ''proxy'' then (to_int32 up, to_int32 down) else (proxyUp, proxyDown));
                        item = count_item up down interval item;
                        t = t\<lparr>lo_heap := (lo_heap t)(a := item)\<rparr>;
                        t = (if td_ignoreForRate item then t
                             else if tag = ''direct'' then t\<lparr>lo_direct := count_total up down item (lo_direct t)\<rparr>
                             else t\<lparr>lo_proxy := count_total up down item (lo_proxy t)\<rparr>)
                    in update_items ups downs now (Suc k) items (t, proxyUp, proxyDown))))"

definition tail_item :: "int32 \<Rightarrow> int32 \<Rightarrow> nat \<Rightarrow> looper \<Rightarrow> looper" where
  "tail_item proxyUp proxyDown a t =
     (let item = lo_heap t a
      in if td_isChainTail item
         then t\<lparr>lo_heap := (lo_heap t)(a := item\<lparr>td_uplink := td_uplink item + scast proxyUp, td_downlink := td_downlink item + scast proxyDown\<rparr>)\<rparr>
         else t)"

definition no_rate :: "traffic_data \<Rightarrow> traffic_data" where
  "no_rate d = d\<lparr>td_uplink_rate := 0, td_downlink_rate := 0\<rparr>"

definition UpdateAll :: "bool \<Rightarrow> answer option \<Rightarrow> (nat \<Rightarrow> int64) \<Rightarrow> looper \<Rightarrow> looper" where
  "UpdateAll disable_traffic_stats resp now t =
     (if disable_traffic_stats then t
      else (let t = t\<lparr>lo_proxy := no_rate (lo_proxy t), lo_direct := no_rate (lo_direct t)\<rparr>;
                (t, proxyUp, proxyDown) =
                  (case resp of None \<Rightarrow> (t, 0, 0) | Some (ups, downs) \<Rightarrow> update_items ups downs now 0 (lo_items t) (t, 0, 0))
            in if lo_isChain t then fold (tail_item proxyUp proxyDown) (lo_items t) t else t))"

section \<open>The loop\<close>



section \<open>Sessions\<close>

definition total_proxy_upload :: "looper \<Rightarrow> int32" where
  "total_proxy_upload t = to_int32 (td_uplink (lo_proxy t))"

definition total_proxy_download :: "looper \<Rightarrow> int32" where
  "total_proxy_download t = to_int32 (td_downlink (lo_proxy t))"

definition total_direct_upload :: "looper \<Rightarrow> int32" where
  "total_direct_upload t = to_int32 (td_uplink (lo_direct t))"

definition total_direct_download :: "looper \<Rightarrow> int32" where
  "total_direct_download t = to_int32 (td_downlink (lo_direct t))"



text \<open>The times of the log are milliseconds, \<open>ul_usage_since\<close> is \<open>usage_time_update\<close>; \<open>time\<close> is the clock.\<close>

definition get_usage_time :: "int \<Rightarrow> usage_log \<Rightarrow> int" where
  "get_usage_time time u = ul_usage_time u + (time - ul_usage_since u)"

definition log_initialize :: "int \<Rightarrow> usage_log \<Rightarrow> usage_log" where
  "log_initialize time u =
     (let u = u\<lparr>ul_start_count := signed_take_bit 31 (ul_start_count u + 1)\<rparr>;
          u = (if ul_first_launch_time u = 0 then u\<lparr>ul_first_launch_time := time\<rparr> else u)
      in u\<lparr>ul_last_launch_time := time, ul_usage_since := time\<rparr>)"

text \<open>What \<open>Save\<close> leaves in memory, and writes.\<close>

definition log_save :: "int \<Rightarrow> usage_log \<Rightarrow> usage_log" where
  "log_save time u = (let ret = get_usage_time time u in u\<lparr>ul_usage_since := 0, ul_usage_time := ret\<rparr>)"

section \<open>What an update counts\<close>

text \<open>An item is heard when the core knows its tag and the clock has moved on since the item was last
  looked at; the bytes of an item that is known but not heard are lost, since the core has forgotten
  them. \<open>hear\<close> is what happens to the item, \<open>take_total\<close> what it adds to a total.\<close>

definition bytes :: "counts \<Rightarrow> traffic_data \<Rightarrow> int64" where
  "bytes xs d = (case xs (td_tag d) of Some n \<Rightarrow> n | None \<Rightarrow> 0)"

definition heard :: "counts \<Rightarrow> (nat \<Rightarrow> int64) \<Rightarrow> nat \<Rightarrow> traffic_data \<Rightarrow> bool" where
  "heard ups now k d \<longleftrightarrow> ups (td_tag d) \<noteq> None \<and> 0 <s now k - td_last_update d"

definition goes_to :: "bool \<Rightarrow> traffic_data \<Rightarrow> bool" where
  "goes_to direct d \<longleftrightarrow> \<not> td_ignoreForRate d \<and> (td_tag d = ''direct'') = direct"

definition hear :: "counts \<Rightarrow> counts \<Rightarrow> (nat \<Rightarrow> int64) \<Rightarrow> nat \<Rightarrow> traffic_data \<Rightarrow> traffic_data" where
  "hear ups downs now k d =
     (if ups (td_tag d) = None then d
      else if heard ups now k d then count_item (bytes ups d) (bytes downs d) (now k - td_last_update d) (d\<lparr>td_last_update := now k\<rparr>)
      else d\<lparr>td_last_update := now k\<rparr>)"

definition take_total :: "bool \<Rightarrow> counts \<Rightarrow> counts \<Rightarrow> (nat \<Rightarrow> int64) \<Rightarrow> nat \<times> traffic_data \<Rightarrow> traffic_data \<Rightarrow> traffic_data" where
  "take_total direct ups downs now p T =
     (if heard ups now (fst p) (snd p) \<and> goes_to direct (snd p)
      then count_total (bytes ups (snd p)) (bytes downs (snd p)) (hear ups downs now (fst p) (snd p)) T else T)"

lemma hear_frame [simp]:
  "td_tag (hear ups downs now k d) = td_tag d" "td_isChainTail (hear ups downs now k d) = td_isChainTail d"
  "td_ignoreForRate (hear ups downs now k d) = td_ignoreForRate d" "td_id (hear ups downs now k d) = td_id d"
  by (simp_all add: hear_def count_item_def)

lemma hear_counts:
  "td_uplink (hear ups downs now k d) = td_uplink d + (if heard ups now k d then bytes ups d else 0)"
  "td_downlink (hear ups downs now k d) = td_downlink d + (if heard ups now k d then bytes downs d else 0)"
  by (simp_all add: hear_def count_item_def heard_def)

definition visit :: "counts \<Rightarrow> counts \<Rightarrow> (nat \<Rightarrow> int64) \<Rightarrow> nat \<times> nat \<Rightarrow> (nat \<Rightarrow> traffic_data) \<Rightarrow> nat \<Rightarrow> traffic_data" where
  "visit ups downs now p h = h(snd p := hear ups downs now (fst p) (h (snd p)))"

text \<open>The items as the loop finds them, with their positions. An item that is listed twice is found as
  the first visit left it.\<close>

fun hearings :: "counts \<Rightarrow> counts \<Rightarrow> (nat \<Rightarrow> int64) \<Rightarrow> nat \<Rightarrow> (nat \<Rightarrow> traffic_data) \<Rightarrow> nat list \<Rightarrow> (nat \<times> traffic_data) list" where
  "hearings ups downs now k h [] = []"
| "hearings ups downs now k h (a # items) = (k, h a) # hearings ups downs now (Suc k) (h(a := hear ups downs now k (h a))) items"

lemma hearings_distinct:
  "distinct items \<Longrightarrow> hearings ups downs now k h items = map (\<lambda>(k, a). (k, h a)) (enumerate k items)"
proof (induction items arbitrary: k h)
  case (Cons a items)
  have "map (\<lambda>(k, b). (k, (h(a := d)) b)) (enumerate (Suc k) items) = map (\<lambda>(k, b). (k, h b)) (enumerate (Suc k) items)" for d
    using Cons.prems by (auto simp: in_set_enumerate_eq dest: nth_mem)
  then show ?case using Cons by simp
qed simp

definition loud_proxy :: "counts \<Rightarrow> (nat \<Rightarrow> int64) \<Rightarrow> (nat \<times> traffic_data) list \<Rightarrow> bool" where
  "loud_proxy ups now hs \<longleftrightarrow> (\<exists>(k, d)\<in>set hs. td_tag d = ''proxy'' \<and> heard ups now k d)"

definition answered :: "counts \<Rightarrow> string \<Rightarrow> int64" where
  "answered xs tag = (case xs tag of Some n \<Rightarrow> n | None \<Rightarrow> 0)"

lemma bytes_answered: "bytes xs d = answered xs (td_tag d)"
  by (simp add: bytes_def answered_def)

lemma update_items_Cons:
  "update_items ups downs now k (a # items) (t, pu, pd) =
     (let d = lo_heap t a; loud = (td_tag d = ''proxy'' \<and> heard ups now k d)
      in update_items ups downs now (Suc k) items
          (t\<lparr>lo_heap := (lo_heap t)(a := hear ups downs now k d), lo_proxy := take_total False ups downs now (k, d) (lo_proxy t),
             lo_direct := take_total True ups downs now (k, d) (lo_direct t)\<rparr>,
           if loud then to_int32 (answered ups ''proxy'') else pu, if loud then to_int32 (answered downs ''proxy'') else pd))"
proof (cases "ups (td_tag (lo_heap t a))")
  case None
  then show ?thesis by (simp add: Let_def hear_def take_total_def heard_def)
next
  case (Some up)
  have "(0 <s now k - td_last_update (lo_heap t a)) = (\<not> now k - td_last_update (lo_heap t a) \<le>s 0)"
    by (simp add: word_sless_alt word_sle_eq not_le)
  with Some show ?thesis
    by (cases "td_ignoreForRate (lo_heap t a)"; cases "td_tag (lo_heap t a) = ''direct''"; cases "td_tag (lo_heap t a) = ''proxy''")
      (simp_all add: Let_def hear_def take_total_def heard_def bytes_def answered_def goes_to_def count_item_def)
qed

lemma update_items_result:
  "update_items ups downs now k items (t, pu, pd) =
     (let hs = hearings ups downs now k (lo_heap t) items
      in (t\<lparr>lo_heap := fold (visit ups downs now) (enumerate k items) (lo_heap t),
            lo_proxy := fold (take_total False ups downs now) hs (lo_proxy t), lo_direct := fold (take_total True ups downs now) hs (lo_direct t)\<rparr>,
          if loud_proxy ups now hs then to_int32 (answered ups ''proxy'') else pu,
          if loud_proxy ups now hs then to_int32 (answered downs ''proxy'') else pd))"
proof (induction items arbitrary: k t pu pd)
  case Nil
  then show ?case by (simp add: loud_proxy_def)
next
  case (Cons a items)
  show ?case unfolding update_items_Cons Let_def Cons by (auto simp: Let_def loud_proxy_def visit_def)
qed

lemma visit_apply: "visit ups downs now (k, a) h b = (if b = a then hear ups downs now k (h a) else h b)"
  by (simp add: visit_def)

lemma fold_heap_other:
  "a \<notin> set items \<Longrightarrow> fold (visit ups downs now) (enumerate n items) h a = h a"
  by (induction items arbitrary: n h) (simp_all add: visit_apply)

lemma fold_heap_item:
  "distinct items \<Longrightarrow> (k, a) \<in> set (enumerate n items) \<Longrightarrow>
   fold (visit ups downs now) (enumerate n items) h a = hear ups downs now k (h a)"
proof (induction items arbitrary: n h)
  case (Cons b items)
  show ?case
  proof (cases "(k, a) = (n, b)")
    case True
    then show ?thesis using Cons.prems(1) by (simp add: fold_heap_other visit_apply)
  next
    case False
    then have "(k, a) \<in> set (enumerate (Suc n) items)" using Cons.prems(2) by auto
    moreover have "a \<noteq> b" using calculation Cons.prems(1) by (auto simp: in_set_enumerate_eq)
    ultimately show ?thesis using Cons by (simp add: visit_apply)
  qed
qed simp

definition gained :: "bool \<Rightarrow> counts \<Rightarrow> (nat \<Rightarrow> int64) \<Rightarrow> counts \<Rightarrow> (nat \<times> traffic_data) list \<Rightarrow> int64" where
  "gained direct ups now xs hs = (\<Sum>(k, d)\<leftarrow>hs. if heard ups now k d \<and> goes_to direct d then bytes xs d else 0)"

lemma gained_simps [simp]:
  "gained direct ups now xs [] = 0"
  "gained direct ups now xs (p # hs) = (if heard ups now (fst p) (snd p) \<and> goes_to direct (snd p) then bytes xs (snd p) else 0) + gained direct ups now xs hs"
  by (simp_all add: gained_def split: prod.splits)

lemma totals_result:
  "td_uplink (fold (take_total direct ups downs now) hs T) = td_uplink T + gained direct ups now ups hs"
  "td_downlink (fold (take_total direct ups downs now) hs T) = td_downlink T + gained direct ups now downs hs"
  by (induction hs arbitrary: T) (simp_all add: take_total_def count_total_def add.assoc)

lemma tails_result:
  assumes "distinct items"
  shows "lo_heap (fold (tail_item pu pd) items t) a =
      (if a \<in> set items \<and> td_isChainTail (lo_heap t a)
       then (lo_heap t a)\<lparr>td_uplink := td_uplink (lo_heap t a) + scast pu, td_downlink := td_downlink (lo_heap t a) + scast pd\<rparr> else lo_heap t a)"
  using assms by (induction items arbitrary: t) (auto simp: tail_item_def Let_def)

lemma tails_frame [simp]:
  "lo_proxy (fold (tail_item pu pd) items t) = lo_proxy t" "lo_direct (fold (tail_item pu pd) items t) = lo_direct t"
  "lo_items (fold (tail_item pu pd) items t) = lo_items t" "lo_no_save (fold (tail_item pu pd) items t) = lo_no_save t"
  by (induction items arbitrary: t) (simp_all add: tail_item_def Let_def)

text \<open>What the totals gain in an update, whatever the answer; \<open>pick\<close> is the direction.\<close>

definition update_bytes :: "bool \<Rightarrow> (answer \<Rightarrow> counts) \<Rightarrow> bool \<Rightarrow> answer option \<Rightarrow> (nat \<Rightarrow> int64) \<Rightarrow> looper \<Rightarrow> int64" where
  "update_bytes direct pick disable_traffic_stats resp now t =
     (case resp of None \<Rightarrow> 0
      | Some r \<Rightarrow> if disable_traffic_stats then 0
                  else gained direct (fst r) now (pick r) (hearings (fst r) (snd r) now 0 (lo_heap t) (lo_items t)))"

lemma UpdateAll_totals:
  "td_uplink (lo_proxy (UpdateAll off resp now t)) = td_uplink (lo_proxy t) + update_bytes False fst off resp now t"
  "td_downlink (lo_proxy (UpdateAll off resp now t)) = td_downlink (lo_proxy t) + update_bytes False snd off resp now t"
  "td_uplink (lo_direct (UpdateAll off resp now t)) = td_uplink (lo_direct t) + update_bytes True fst off resp now t"
  "td_downlink (lo_direct (UpdateAll off resp now t)) = td_downlink (lo_direct t) + update_bytes True snd off resp now t"
  by (cases resp; simp add: UpdateAll_def update_bytes_def update_items_result totals_result no_rate_def Let_def split: prod.splits)+

section \<open>Properties\<close>

text \<open>C28. An update accounts for the core's answer in both directions, modulo 2^64: each outbound that is
  heard grows by the bytes of its tag, each of the two totals of the session by the sum over the
  outbounds that are heard and counted for it (the direct ones in one, the others in the other),
  the tail of a chain also by the bytes of the outbound named \<open>proxy\<close>, cut to a C \<open>int\<close>, and no
  other counter changes. An outbound the core knows that was looked at in the same millisecond is
  not heard, and its bytes are lost. The outbounds are distinct counter objects.\<close>

theorem update_accounts:
  assumes "distinct (lo_items t)"
  shows "let t' = UpdateAll False (Some (ups, downs)) now t; h = lo_heap t; ps = enumerate 0 (lo_items t);
      total = (\<lambda>direct xs. \<Sum>(k, a)\<leftarrow>ps. if heard ups now k (h a) \<and> goes_to direct (h a) then answered xs (td_tag (h a)) else 0);
      cut = (\<lambda>xs. if \<exists>(k, a)\<in>set ps. td_tag (h a) = ''proxy'' \<and> heard ups now k (h a) then scast (ucast (answered xs ''proxy'') :: int32) else 0);
      grows = (\<lambda>k a xs. (if heard ups now k (h a) then answered xs (td_tag (h a)) else 0)
        + (if lo_isChain t \<and> td_isChainTail (h a) then cut xs else 0))
    in td_uplink (lo_proxy t') = td_uplink (lo_proxy t) + total False ups
      \<and> td_downlink (lo_proxy t') = td_downlink (lo_proxy t) + total False downs
      \<and> td_uplink (lo_direct t') = td_uplink (lo_direct t) + total True ups
      \<and> td_downlink (lo_direct t') = td_downlink (lo_direct t) + total True downs
      \<and> (\<forall>(k, a)\<in>set ps. td_uplink (lo_heap t' a) = td_uplink (h a) + grows k a ups
          \<and> td_downlink (lo_heap t' a) = td_downlink (h a) + grows k a downs)
      \<and> (\<forall>a. a \<notin> set (lo_items t) \<longrightarrow> lo_heap t' a = h a)"
proof -
  let ?hs = "hearings ups downs now 0 (lo_heap t) (lo_items t)" and ?r = "Some (ups, downs)"
  let ?t' = "UpdateAll False ?r now t"
  have hs: "?hs = map (\<lambda>(k, a). (k, lo_heap t a)) (enumerate 0 (lo_items t))" by (rule hearings_distinct [OF assms])
  have tot: "update_bytes d pick False ?r now t = (\<Sum>(k, a)\<leftarrow>enumerate 0 (lo_items t).
      if heard ups now k (lo_heap t a) \<and> goes_to d (lo_heap t a) then answered (pick (ups, downs)) (td_tag (lo_heap t a)) else 0)" for d pick
    by (simp add: update_bytes_def hs gained_def bytes_answered o_def split_def cong: if_cong)
  define cut where "cut xs = (if \<exists>(k, a)\<in>set (enumerate 0 (lo_items t)). td_tag (lo_heap t a) = ''proxy'' \<and> heard ups now k (lo_heap t a)
      then scast (ucast (answered xs ''proxy'') :: int32) else (0 :: int64))" for xs
  have loud: "loud_proxy ups now ?hs = (\<exists>(k, a)\<in>set (enumerate 0 (lo_items t)). td_tag (lo_heap t a) = ''proxy'' \<and> heard ups now k (lo_heap t a))"
    by (simp add: loud_proxy_def hs split_def)
  have item: "lo_heap ?t' a = (let d = fold (visit ups downs now) (enumerate 0 (lo_items t)) (lo_heap t) a
      in if lo_isChain t \<and> a \<in> set (lo_items t) \<and> td_isChainTail d
         then d\<lparr>td_uplink := td_uplink d + cut ups, td_downlink := td_downlink d + cut downs\<rparr> else d)" for a
    by (simp add: UpdateAll_def update_items_result tails_result [OF assms] Let_def loud cut_def to_int32_def)
  show ?thesis unfolding Let_def cut_def [symmetric] UpdateAll_totals tot prod.sel
    by (auto simp: item fold_heap_item [OF assms] fold_heap_other hear_counts bytes_answered Let_def in_set_enumerate_eq
        intro!: nth_mem)
qed

text \<open>A chain whose proxy brings more than its tail's counter can take at once.\<close>

definition lab_data :: "int \<Rightarrow> string \<Rightarrow> bool \<Rightarrow> traffic_data" where
  "lab_data i tag tail = \<lparr> td_id = i, td_tag = tag, td_isChainTail = tail, td_ignoreForRate = False, td_downlink = 0, td_uplink = 0,
     td_downlink_rate = 0, td_uplink_rate = 0, td_last_update = 0 \<rparr>"

definition lab_looper :: looper where
  "lab_looper = \<lparr> lo_heap = (\<lambda>_. lab_data (-1) '''' False)(0 := lab_data 4 ''proxy'' False, 1 := lab_data 5 ''c-5'' True, 2 := lab_data (-1) ''direct'' False),
     lo_items = [0, 1, 2], lo_isChain = True, lo_proxy = lab_data (-1) ''proxy'' False, lo_direct = lab_data (-1) ''direct'' False,
     lo_loop_enabled = True, lo_looping = True, lo_no_save = False \<rparr>"

theorem update_accounts_witness:
  "let t' = UpdateAll False (Some ([''proxy'' \<mapsto> 2147483648, ''direct'' \<mapsto> 7], [''direct'' \<mapsto> 9])) (\<lambda>_. 1000) lab_looper
   in td_uplink (lo_proxy t') = 2147483648 \<and> td_uplink (lo_direct t') = 7 \<and> td_downlink (lo_direct t') = 9
     \<and> sint (td_uplink (lo_heap t' 1)) = - 2147483648"
  using update_accounts [of lab_looper "[''proxy'' \<mapsto> 2147483648, ''direct'' \<mapsto> 7]" "[''direct'' \<mapsto> 9]" "\<lambda>_. 1000"]
  by (simp add: lab_looper_def lab_data_def Let_def answered_def goes_to_def heard_def enumerate_eq_zip word_sless_alt)

section \<open>Sessions\<close>










lemma update_bytes_cong [simp]:
  "update_bytes direct pick off resp now (t\<lparr>lo_looping := b\<rparr>) = update_bytes direct pick off resp now t"
  "update_bytes direct pick off resp now (t\<lparr>lo_loop_enabled := b\<rparr>) = update_bytes direct pick off resp now t"
  by (cases resp; simp add: update_bytes_def)+












text \<open>What the statistics window adds to the log's totals goes through a C \<open>int\<close>: it is the true
  count only while the session is below 2 GiB.\<close>

lemma total_proxy_upload_exact:
  "sint (total_proxy_upload t) = sint (td_uplink (lo_proxy t))
   \<longleftrightarrow> - (2 ^ 31) \<le> sint (td_uplink (lo_proxy t)) \<and> sint (td_uplink (lo_proxy t)) < 2 ^ 31"
proof -
  have "sint (ucast x :: int32) = signed_take_bit 31 (sint x)" for x :: int64
    by (simp add: sint_uint unsigned_ucast_eq take_bit_word_eq_self signed_take_bit_take_bit)
  then show ?thesis by (auto simp: total_proxy_upload_def to_int32_def signed_take_bit_int_eq_self_iff)
qed

text \<open>A session adds its length to the usage time when the log is saved; but saving clears the moment
  the session is counted from, so a second save in the same process, as at the end of a desktop
  session that is followed by the exit, adds the whole time since 1970 as well.\<close>

theorem second_save_adds_epoch:
  "ul_usage_time (log_save stop (log_initialize start u)) = ul_usage_time u + (stop - start)
   \<and> ul_usage_time (log_save again (log_save stop (log_initialize start u))) = ul_usage_time u + (stop - start) + again"
  by (simp add: log_save_def log_initialize_def get_usage_time_def Let_def)

end
