(* ===== verification/Route_Import.thy ===== *)
theory Route_Import
  imports Route_Chain Manager_Props
begin

text \<open>
  Importing routing rules from JSON (\<^verbatim>\<open>parseJsonArray\<close> and the outbound look-ups of
  \<^verbatim>\<open>src/gharqad/dataStore/RouteEntity.cpp\<close>, \<^verbatim>\<open>getProxyId\<close> of
  \<^verbatim>\<open>src/gharqad/dataStore/Configs.cpp\<close>), and what an exported rule becomes when it is imported.
\<close>

section \<open>Outbounds\<close>

text \<open>The profiles an import makes get a bean: the object they were parsed from, or the members of
  a chain. The argument \<open>try_parse\<close> is \<open>TryParseJson\<close> of a type's bean, which also changes the
  profile it belongs to (its name, address and port).\<close>

datatype import_bean = Parsed_bean jobject | Chain_bean "int list"

record import_state =
  im_man :: manager
  im_beans :: "ptr \<Rightarrow> import_bean option"
  im_imported_group :: int

definition ask_import :: "int \<Rightarrow> import_state \<Rightarrow> import_state \<times> ptr option" where
  "ask_import i st = (case GetProfile i (im_man st) of (m, p) \<Rightarrow> (st\<lparr>im_man := m\<rparr>, p))"

definition isOutboundIDValid :: "int \<Rightarrow> import_state \<Rightarrow> import_state \<times> bool" where
  "isOutboundIDValid i st =
     (if i = -1 \<or> i = -2 then (st, True)
      else (case ask_import i st of (st, p) \<Rightarrow> (st, p \<noteq> None)))"

type_synonym bean_parser = "string \<Rightarrow> jobject \<Rightarrow> entity \<Rightarrow> entity \<times> bool"

text \<open>A new profile with its bean; a tag that is a text replaces the name.\<close>

definition make_profile :: "entity \<Rightarrow> json \<Rightarrow> import_bean \<Rightarrow> import_state \<Rightarrow> import_state \<times> ptr" where
  "make_profile e tag bean st =
     (let m = im_man st; p = m_next m; e = (case tag of QStr t \<Rightarrow> e\<lparr>e_name := t\<rparr> | _ \<Rightarrow> e)
      in (st\<lparr>im_man := m\<lparr>m_heap := (m_heap m)(p := e), m_bean_alive := (m_bean_alive m)(p := True), m_next := Suc p\<rparr>,
             im_beans := (im_beans st)(p \<mapsto> bean)\<rparr>, p))"

definition getProxyId :: "string \<Rightarrow> ptr \<Rightarrow> import_state \<Rightarrow> import_state \<times> int" where
  "getProxyId imported ent st =
     (let i = im_imported_group st;
          st = (if i < 0 \<or> GetGroup i (im_man st) = None
                then (let m = im_man st; g = m_gnext m;
                          (m, _) = AddGroup g (m\<lparr>m_gheap := (m_gheap m)(g := NewGroup\<lparr>g_name := imported\<rparr>), m_gnext := Suc g\<rparr>)
                      in st\<lparr>im_man := m, im_imported_group := g_id (m_gheap m g)\<rparr>)
                else st);
          (m, ok) = Manager_AddProfile ent (im_imported_group st) (im_man st)
      in (st\<lparr>im_man := m\<rparr>, if ok then e_id (m_heap m ent) else INVALID_ID))"

text \<open>\<open>chain_lambda\<close>: a profile of one of the known types.\<close>

definition import_profile :: "string \<Rightarrow> bean_parser \<Rightarrow> string \<Rightarrow> jobject \<Rightarrow> import_state \<Rightarrow> import_state \<times> int" where
  "import_profile imported try_parse ty0 object st =
     (let ty = (if ty0 = '''' then json_toString (qat object ''type'') else ty0)
      in if ty \<in> fst ` set (OutboundTypes id)
         then (let (e, ok) = try_parse ty object (NewProxyEntity ty);
                   (st, ent) = make_profile e (qat object ''tag'') (Parsed_bean object) st
               in if ok then getProxyId imported ent st else (st, INVALID_ID))
         else (st, INVALID_ID))"

fun import_members :: "string \<Rightarrow> bean_parser \<Rightarrow> json list \<Rightarrow> import_state \<Rightarrow> import_state \<times> int list option" where
  "import_members imported try_parse [] st = (st, Some [])"
| "import_members imported try_parse (QObj o' # vals) st =
     (case import_profile imported try_parse '''' o' st of
        (st, i) \<Rightarrow>
          if i = INVALID_ID then (st, None)
          else (case import_members imported try_parse vals st of (st, ids) \<Rightarrow> (st, map_option ((#) i) ids)))"
| "import_members imported try_parse (_ # vals) st = (st, None)"

definition getOutboundID_object :: "string \<Rightarrow> bean_parser \<Rightarrow> jobject \<Rightarrow> import_state \<Rightarrow> import_state \<times> int" where
  "getOutboundID_object imported try_parse object st =
     (case qat object ''type'' of
        QStr ty \<Rightarrow>
          if ty = ''proxy'' then (st, -1)
          else if ty = ''direct'' then (st, -2)
          else if ty = ''block'' then (st, -3)
          else if ty = ''chain'' then
            (case qat object ''chain'' of
               QArr vals \<Rightarrow>
                 (case import_members imported try_parse vals st of
                    (st, None) \<Rightarrow> (st, INVALID_ID)
                  | (st, Some chain_list) \<Rightarrow>
                      (let (st, ent) = make_profile (NewProxyEntity ''chain'') (qat object ''tag'') (Chain_bean chain_list) st
                       in getProxyId imported ent st))
             | _ \<Rightarrow> (st, INVALID_ID))
          else import_profile imported try_parse ty object st
      | _ \<Rightarrow> (st, INVALID_ID))"

text \<open>The look-up by name, which goes through the groups and answers with the key it is at.\<close>

fun name_in_group :: "string \<Rightarrow> int list \<Rightarrow> import_state \<Rightarrow> import_state \<times> bool" where
  "name_in_group name [] st = (st, False)"
| "name_in_group name (i # ids) st =
     (case ask_import i st of
        (st, Some p) \<Rightarrow> if e_name (m_heap (im_man st) p) = name then (st, True) else name_in_group name ids st
      | (st, None) \<Rightarrow> name_in_group name ids st)"

fun name_in_groups :: "string \<Rightarrow> (int \<times> gptr) list \<Rightarrow> import_state \<Rightarrow> import_state \<times> int" where
  "name_in_groups name [] st = (st, INVALID_ID)"
| "name_in_groups name ((key, g) # groups) st =
     (case name_in_group name (g_profiles (m_gheap (im_man st) g)) st of
        (st, True) \<Rightarrow> (st, key)
      | (st, False) \<Rightarrow> name_in_groups name groups st)"

definition getOutboundID_name :: "string \<Rightarrow> import_state \<Rightarrow> import_state \<times> int" where
  "getOutboundID_name name st =
     (if name = ''proxy'' then (st, -1)
      else if name = ''direct'' then (st, -2)
      else if name = ''block'' then (st, -3)
      else name_in_groups name (m_groups (im_man st)) st)"

section \<open>Rules\<close>

text \<open>\<open>Bad_access\<close> is the read of \<open>value[0]\<close> on an empty list.\<close>

datatype import_error = Bad_access | Parse_error string

fun json_type :: "json \<Rightarrow> int" where
  "json_type QNull = 0"
| "json_type (QBool _) = 1"
| "json_type (QNum _) = 2"
| "json_type (QStr _) = 3"
| "json_type (QArr _) = 4"
| "json_type (QObj _) = 5"

definition set_imported :: "string \<Rightarrow> string list \<Rightarrow> RouteRule \<Rightarrow> import_error + RouteRule" where
  "set_imported key v r = (case set_field_value key v r of None \<Rightarrow> Inl Bad_access | Some r \<Rightarrow> Inr r)"

definition import_outbound :: "string \<Rightarrow> bean_parser \<Rightarrow> json \<Rightarrow> RouteRule \<Rightarrow> import_state \<Rightarrow> import_state \<times> (import_error + RouteRule)" where
  "import_outbound imported try_parse val rule st =
     (case val of
        QNum _ \<Rightarrow>
          (case isOutboundIDValid (json_toInt val) st of
             (st, ok) \<Rightarrow> (st, if ok then Inr (rule\<lparr>r_outboundID := json_toInt val\<rparr>)
                             else Inl (Parse_error (''outbound id '' @ show_int (json_toInt val) @ '' is not valid''))))
      | QStr name \<Rightarrow>
          (case getOutboundID_name name st of
             (st, i) \<Rightarrow> (st, if i = INVALID_ID then Inl (Parse_error (''outbound with name '' @ name @ '' does not exist''))
                            else Inr (rule\<lparr>r_outboundID := i\<rparr>)))
      | QObj object \<Rightarrow>
          (case getOutboundID_object imported try_parse object st of
             (st, i) \<Rightarrow> (st, if i = INVALID_ID then Inl (Parse_error ''outbound json  not parseable'')
                            else Inr (rule\<lparr>r_outboundID := i\<rparr>)))
      | _ \<Rightarrow> (st, Inr rule))"

definition import_field :: "string \<Rightarrow> bean_parser \<Rightarrow> string \<Rightarrow> json \<Rightarrow> RouteRule \<Rightarrow> import_state \<Rightarrow> import_state \<times> (import_error + RouteRule)" where
  "import_field imported try_parse key val rule st =
     (if key = ''outbound'' then import_outbound imported try_parse val rule st
      else (st, case val of
                  QArr xs \<Rightarrow> set_imported key (QJsonArray2QListStr xs) rule
                | QStr s \<Rightarrow> set_imported key [s] rule
                | QBool b \<Rightarrow> set_imported key [if b then ''true'' else ''false''] rule
                | _ \<Rightarrow> Inr rule))"

fun import_keys :: "string \<Rightarrow> bean_parser \<Rightarrow> jobject \<Rightarrow> RouteRule \<Rightarrow> import_state \<Rightarrow> import_state \<times> (import_error + RouteRule)" where
  "import_keys imported try_parse [] rule st = (st, Inr rule)"
| "import_keys imported try_parse ((key, val) # kvs) rule st =
     (case import_field imported try_parse key val rule st of
        (st, Inl e) \<Rightarrow> (st, Inl e)
      | (st, Inr rule) \<Rightarrow> import_keys imported try_parse kvs rule st)"

definition imported_name :: "nat \<Rightarrow> string" where
  "imported_name ruleID = ''imported rule #'' @ show_nat ruleID"

fun import_rules :: "string \<Rightarrow> bean_parser \<Rightarrow> nat \<Rightarrow> json list \<Rightarrow> import_state \<Rightarrow> import_state \<times> (import_error + RouteRule list)" where
  "import_rules imported try_parse ruleID [] st = (st, Inr [])"
| "import_rules imported try_parse ruleID (QObj obj # arr) st =
     (case import_keys imported try_parse obj new_RouteRule st of
        (st, Inl e) \<Rightarrow> (st, Inl e)
      | (st, Inr rule) \<Rightarrow>
          (case import_rules imported try_parse (Suc ruleID) arr st of
             (st, Inl e) \<Rightarrow> (st, Inl e)
           | (st, Inr rules) \<Rightarrow> (st, Inr (rule\<lparr>r_name := imported_name ruleID\<rparr> # rules))))"
| "import_rules imported try_parse ruleID (item # arr) st =
     (st, Inl (Parse_error (''expected array of json objects but have member of type '' @ [CHR 0x27] @ show_int (json_type item) @ [CHR 0x27])))"

definition parseJsonArray :: "string \<Rightarrow> bean_parser \<Rightarrow> json list \<Rightarrow> import_state \<Rightarrow> import_state \<times> (import_error + RouteRule list)" where
  "parseJsonArray imported try_parse arr st =
     (if arr = [] then (st, Inl (Parse_error ''Input is not a valid json array''))
      else import_rules imported try_parse 1 arr st)"

section \<open>What an import reads\<close>

text \<open>The texts an item of a rule hands to the editor's setter.\<close>

fun written :: "json \<Rightarrow> string list option" where
  "written (QArr xs) = Some (map json_toString xs)"
| "written (QStr s) = Some [s]"
| "written (QBool b) = Some [if b then ''true'' else ''false'']"
| "written _ = None"

lemma import_field_written:
  "key \<noteq> ''outbound'' \<Longrightarrow> import_field imp tp key val rule st =
     (st, case written val of None \<Rightarrow> Inr rule | Some v \<Rightarrow> set_imported key v rule)"
  by (cases val) (simp_all add: import_field_def QJsonArray2QListStr_def)

lemma set_imported_Inr: "set_imported key v rule = Inr r' \<longleftrightarrow> set_field_value key v rule = Some r'"
  by (simp add: set_imported_def split: option.split)

lemma set_field_value_reads:
  assumes "set_field_value f v r = Some r'"
  shows "map_of list_fields f \<noteq> None \<Longrightarrow> get_current_value_string f r' = filterEmpty v"
    and "map_of text_fields f \<noteq> None \<Longrightarrow> f \<noteq> ''outbound'' \<Longrightarrow> get_current_value_string f r' = [hd v]"
    and "map_of bool_fields f \<noteq> None \<Longrightarrow> get_current_value_bool f r' = (if hd v = ''true'' then ''true'' else ''false'')"
  using assms by (auto simp: set_field_value_def get_current_value_string_def get_current_value_bool_def fields_get_put
      dest: fields_disjoint split: option.splits list.splits)

lemma outbound_frame:
  assumes "g \<noteq> ''outbound''"
  shows "get_current_value_string g (r\<lparr>r_outboundID := i\<rparr>) = get_current_value_string g r
    \<and> get_current_value_bool g (r\<lparr>r_outboundID := i\<rparr>) = get_current_value_bool g r"
proof -
  have "list_all (\<lambda>(k, g, u). k = ''outbound'' \<or> (\<forall>i r. g (r\<lparr>r_outboundID := i\<rparr>) = g r)) text_fields" by (simp add: text_fields_def)
  then have "map_of text_fields g = Some (get, u) \<Longrightarrow> get (r\<lparr>r_outboundID := i\<rparr>) = get r" for get u
    using assms by (fastforce simp: list_all_iff dest: map_of_SomeD)
  moreover have "list_all (\<lambda>(k, g, u). \<forall>i r. g (r\<lparr>r_outboundID := i\<rparr>) = g r) list_fields" by (simp add: list_fields_def)
  then have "map_of list_fields g = Some (get, u) \<Longrightarrow> get (r\<lparr>r_outboundID := i\<rparr>) = get r" for get u
    by (fastforce simp: list_all_iff dest: map_of_SomeD)
  moreover have "list_all (\<lambda>(k, g, u). \<forall>i r. g (r\<lparr>r_outboundID := i\<rparr>) = g r) bool_fields" by (simp add: bool_fields_def)
  then have "map_of bool_fields g = Some (get, u) \<Longrightarrow> get (r\<lparr>r_outboundID := i\<rparr>) = get r" for get u
    by (fastforce simp: list_all_iff dest: map_of_SomeD)
  ultimately show ?thesis by (auto simp: get_current_value_string_def get_current_value_bool_def split: option.split)
qed

text \<open>What a field reads after its key was read with a value, and a rule after a whole object.\<close>

definition reads :: "RouteRule \<Rightarrow> string \<Rightarrow> string list option \<Rightarrow> RouteRule \<Rightarrow> bool" where
  "reads r f w r' \<longleftrightarrow>
     (map_of list_fields f \<noteq> None \<longrightarrow> get_current_value_string f r' = (case w of Some v \<Rightarrow> filterEmpty v | None \<Rightarrow> get_current_value_string f r))
     \<and> (map_of text_fields f \<noteq> None \<longrightarrow> get_current_value_string f r' = (case w of Some v \<Rightarrow> [hd v] | None \<Rightarrow> get_current_value_string f r))
     \<and> (map_of bool_fields f \<noteq> None \<longrightarrow>
          get_current_value_bool f r' = (case w of Some v \<Rightarrow> if hd v = ''true'' then ''true'' else ''false'' | None \<Rightarrow> get_current_value_bool f r))"

lemma set_field_reads:
  assumes "set_field_value k v r = Some r1" and "f \<noteq> ''outbound''"
  shows "reads r f (if k = f then Some v else None) r1"
  using set_field_value_reads [OF assms(1)] set_field_value_frame [OF assms(1), of f] assms(2) by (auto simp: reads_def)

lemma reads_step: "reads r f w r1 \<Longrightarrow> reads r1 f None r' \<Longrightarrow> reads r f w r'"
  by (auto simp: reads_def split: option.split)

lemma reads_skip: "reads r f None r1 \<Longrightarrow> reads r1 f w r' \<Longrightarrow> reads r f w r'"
  by (auto simp: reads_def split: option.split)

text \<open>The object of a rule that can be imported without touching the profiles.\<close>

definition importable :: "string \<Rightarrow> json \<Rightarrow> bool" where
  "importable k v \<longleftrightarrow> (if k = ''outbound'' then v = QStr ''proxy'' \<or> v = QStr ''direct'' else v \<noteq> QArr [])"

definition outbound_of :: "json option \<Rightarrow> int \<Rightarrow> int" where
  "outbound_of v i = (if v = Some (QStr ''proxy'') then -1 else if v = Some (QStr ''direct'') then -2 else i)"

lemma set_field_total: "v \<noteq> [] \<Longrightarrow> \<exists>r'. set_field_value k v r = Some r'"
  by (cases v) (auto simp: set_field_value_def split: option.split)

lemma set_field_outbound: "set_field_value k v r = Some r' \<Longrightarrow> k \<noteq> ''outbound'' \<Longrightarrow> r_outboundID r' = r_outboundID r"
proof -
  assume s: "set_field_value k v r = Some r'" "k \<noteq> ''outbound''"
  have "list_all (\<lambda>(k, g, u). k = ''outbound'' \<or> (\<forall>v r. r_outboundID (u v r) = r_outboundID r)) text_fields" by (simp add: text_fields_def)
  then have "map_of text_fields k = Some (g, u) \<Longrightarrow> r_outboundID (u x r) = r_outboundID r" for g u x
    using s(2) by (fastforce simp: list_all_iff dest: map_of_SomeD)
  moreover have "list_all (\<lambda>(k, g, u). \<forall>v r. r_outboundID (u v r) = r_outboundID r) list_fields" by (simp add: list_fields_def)
  then have "map_of list_fields k = Some (g, u) \<Longrightarrow> r_outboundID (u x r) = r_outboundID r" for g u x
    by (fastforce simp: list_all_iff dest: map_of_SomeD)
  moreover have "list_all (\<lambda>(k, g, u). \<forall>v r. r_outboundID (u v r) = r_outboundID r) bool_fields" by (simp add: bool_fields_def)
  then have "map_of bool_fields k = Some (g, u) \<Longrightarrow> r_outboundID (u x r) = r_outboundID r" for g u x
    by (fastforce simp: list_all_iff dest: map_of_SomeD)
  ultimately show ?thesis using s(1) by (auto simp: set_field_value_def split: option.splits list.splits)
qed

text \<open>What the editor's setter never writes.\<close>

definition unwritten :: "RouteRule \<Rightarrow> string \<times> int \<times> int option \<times> string list" where
  "unwritten r = (r_name r, r_type r, r_simpleAction r, r_sniffers r)"

lemma set_field_unwritten: "set_field_value k v r = Some r' \<Longrightarrow> unwritten r' = unwritten r"
proof -
  assume s: "set_field_value k v r = Some r'"
  have "list_all (\<lambda>(k, g, u). \<forall>v r. unwritten (u v r) = unwritten r) text_fields" by (simp add: text_fields_def unwritten_def)
  then have "map_of text_fields k = Some (g, u) \<Longrightarrow> unwritten (u x r) = unwritten r" for g u x
    by (fastforce simp: list_all_iff dest: map_of_SomeD)
  moreover have "list_all (\<lambda>(k, g, u). \<forall>v r. unwritten (u v r) = unwritten r) list_fields" by (simp add: list_fields_def unwritten_def)
  then have "map_of list_fields k = Some (g, u) \<Longrightarrow> unwritten (u x r) = unwritten r" for g u x
    by (fastforce simp: list_all_iff dest: map_of_SomeD)
  moreover have "list_all (\<lambda>(k, g, u). \<forall>v r. unwritten (u v r) = unwritten r) bool_fields" by (simp add: bool_fields_def unwritten_def)
  then have "map_of bool_fields k = Some (g, u) \<Longrightarrow> unwritten (u x r) = unwritten r" for g u x
    by (fastforce simp: list_all_iff dest: map_of_SomeD)
  ultimately show ?thesis using s by (auto simp: set_field_value_def split: option.splits list.splits)
qed

lemma import_keys_unwritten: "import_keys imp tp kvs r st = (st', Inr r') \<Longrightarrow> unwritten r' = unwritten r"
proof (induction kvs arbitrary: r st)
  case (Cons p kvs)
  obtain k v where p: "p = (k, v)" by force
  obtain st1 x where f: "import_field imp tp k v r st = (st1, x)" by force
  with Cons.prems p obtain r1 where x: "x = Inr r1" by (cases x) auto
  have "unwritten r1 = unwritten r"
  proof (cases "k = ''outbound''")
    case True
    then show ?thesis using f x
      by (auto simp: import_field_def import_outbound_def unwritten_def split: json.splits prod.splits if_splits)
  next
    case False
    then show ?thesis using f x set_field_unwritten by (auto simp: import_field_written set_imported_Inr split: option.splits)
  qed
  then show ?case using Cons.IH [of r1 st1] Cons.prems f x p by simp
qed simp

lemma rule_eqI:
  assumes "list_all (\<lambda>(f, g, u). f = ''outbound'' \<or> g r = g s) text_fields" and "list_all (\<lambda>(f, g, u). g r = g s) list_fields"
    and "list_all (\<lambda>(f, g, u). g r = g s) bool_fields" and "r_outboundID r = r_outboundID s" and "unwritten r = unwritten s"
  shows "r = s"
  using assms by (cases r; cases s) (simp add: text_fields_def list_fields_def bool_fields_def unwritten_def)

lemma import_keys_reads:
  assumes "\<forall>(k, v)\<in>set kvs. importable k v" and "distinct (map fst kvs)"
  shows "\<exists>r'. import_keys imp tp kvs r st = (st, Inr r') \<and> r_outboundID r' = outbound_of (map_of kvs ''outbound'') (r_outboundID r)
    \<and> (\<forall>f. f \<noteq> ''outbound'' \<longrightarrow> reads r f (Option.bind (map_of kvs f) written) r')"
  using assms
proof (induction kvs arbitrary: r)
  case Nil
  then show ?case by (simp add: reads_def outbound_of_def)
next
  case (Cons p kvs)
  obtain k v where p: "p = (k, v)" by force
  have i: "importable k v" and rest: "\<forall>(k, v)\<in>set kvs. importable k v" "distinct (map fst kvs)" using Cons.prems p by auto
  have new: "map_of kvs k = None" using Cons.prems(2) p by (simp add: map_of_eq_None_iff)
  show ?case
  proof (cases "k = ''outbound''")
    case True
    then obtain j where j: "import_field imp tp k v r st = (st, Inr (r\<lparr>r_outboundID := j\<rparr>))" "outbound_of (Some v) (r_outboundID r) = j"
      using i by (auto simp: importable_def import_field_def import_outbound_def getOutboundID_name_def outbound_of_def INVALID_ID_def)
    obtain r' where r': "import_keys imp tp kvs (r\<lparr>r_outboundID := j\<rparr>) st = (st, Inr r')" "r_outboundID r' = outbound_of (map_of kvs ''outbound'') j"
      "\<forall>f. f \<noteq> ''outbound'' \<longrightarrow> reads (r\<lparr>r_outboundID := j\<rparr>) f (Option.bind (map_of kvs f) written) r'"
      using Cons.IH [OF rest, of "r\<lparr>r_outboundID := j\<rparr>"] by auto
    have "reads r f (Option.bind (map_of (p # kvs) f) written) r'" if "f \<noteq> ''outbound''" for f
    proof -
      have "reads r f None (r\<lparr>r_outboundID := j\<rparr>)" using outbound_frame [OF that, of j r] by (simp add: reads_def)
      then show ?thesis using reads_skip r'(3) that p True by simp
    qed
    then show ?thesis using r'(1,2) j p True new by (auto simp: outbound_of_def)
  next
    case False
    obtain r1 where r1: "import_field imp tp k v r st = (st, Inr r1)" "r_outboundID r1 = r_outboundID r"
      "\<And>f. f \<noteq> ''outbound'' \<Longrightarrow> reads r f (if k = f then written v else None) r1"
    proof (cases "written v")
      case None
      then show ?thesis using that [of r] False by (simp add: import_field_written reads_def)
    next
      case (Some w)
      then have "w \<noteq> []" using i False by (cases v) (auto simp: importable_def)
      then obtain r1 where "set_field_value k w r = Some r1" using set_field_total by blast
      then show ?thesis using that [of r1, unfolded Some] False Some set_field_reads [of k w r r1] set_field_outbound [of k w r r1]
        by (simp add: import_field_written set_imported_def)
    qed
    obtain r' where r': "import_keys imp tp kvs r1 st = (st, Inr r')" "r_outboundID r' = outbound_of (map_of kvs ''outbound'') (r_outboundID r1)"
      "\<forall>f. f \<noteq> ''outbound'' \<longrightarrow> reads r1 f (Option.bind (map_of kvs f) written) r'"
      using Cons.IH [OF rest, of r1] by blast
    have "reads r f (Option.bind (map_of (p # kvs) f) written) r'" if "f \<noteq> ''outbound''" for f
    proof (cases "k = f")
      case True
      then have "reads r f (written v) r1" "reads r1 f None r'" using r1(3) [OF that] r'(3) [rule_format, OF that] True new by simp_all
      then show ?thesis using p True reads_step by simp
    next
      case k: False
      then have "reads r f None r1" "reads r1 f (Option.bind (map_of kvs f) written) r'" using r1(3) [OF that] r'(3) [rule_format, OF that] k by simp_all
      then show ?thesis using p k reads_skip by simp
    qed
    then show ?thesis using r'(1,2) r1(1,2) p False by simp
  qed
qed

section \<open>What an export holds\<close>

definition exported :: "(int \<Rightarrow> profile_view option) \<Rightarrow> qurl \<Rightarrow> nat \<Rightarrow> RouteRule \<Rightarrow> jobject" where
  "exported pm q n r = snd (get_rule_json pm q n True True '''' r)"

definition good :: "jobject \<Rightarrow> bool" where
  "good kvs \<longleftrightarrow> (\<forall>(k, v)\<in>set kvs. importable k v)"

lemma qset_members: "set (qset k v kvs) \<subseteq> insert (k, v) (set kvs)"
  by (induction kvs) (auto split: if_splits)

lemma good_qset: "importable k v \<Longrightarrow> good kvs \<Longrightarrow> good (qset k v kvs)"
  using qset_members [of k v kvs] by (auto simp: good_def)

lemma good_qset_if: "(b \<Longrightarrow> importable k v) \<Longrightarrow> good kvs \<Longrightarrow> good (qset_if b k v kvs)"
  by (simp add: qset_if_def good_qset)

lemma good_array: "isValidStrArray xs \<Longrightarrow> k \<noteq> ''outbound'' \<Longrightarrow> importable k (get_as_array b g xs)"
  by (cases xs) (auto simp: importable_def get_as_array_def isValidStrArray_def)

lemma good_adds:
  "k \<noteq> ''outbound'' \<Longrightarrow> good kvs \<Longrightarrow> good (add_strs k xs kvs)" "k \<noteq> ''outbound'' \<Longrightarrow> good kvs \<Longrightarrow> good (add_nums k xs kvs)"
  "k \<noteq> ''outbound'' \<Longrightarrow> good kvs \<Longrightarrow> good (add_text k t kvs)" "k \<noteq> ''outbound'' \<Longrightarrow> good kvs \<Longrightarrow> good (add_flag k b kvs)"
  by (auto simp: add_defs importable_def intro!: good_qset_if good_array)

lemma good_match: "good (match_json q True r)"
  unfolding match_json_def Let_def
  by (intro good_adds good_qset_if good_array) (simp_all add: importable_def good_def)

lemma fixed_outbound: "r_outboundID r = -1 \<or> r_outboundID r = -2 \<Longrightarrow>
  outbound_json pm n True True '''' r = Some (QStr (if r_outboundID r = -1 then ''proxy'' else ''direct''))"
  by (auto simp: outbound_json_def)

lemma exported_good:
  assumes "fix_action r = ''route'' \<longrightarrow> r_outboundID r = -1 \<or> r_outboundID r = -2"
  shows "good (exported pm q n r)"
proof -
  have "good (snd (get_rule_json pm q n True True '''' r))"
    using assms fixed_outbound [of "r\<lparr>r_action := ''route''\<rparr>" pm n] good_match [of q "r\<lparr>r_action := fix_action r\<rparr>"]
    unfolding get_rule_json_def Let_def
    by (auto intro!: good_adds good_qset good_qset_if simp: importable_def)
  then show ?thesis by (simp add: exported_def)
qed

text \<open>The lists an import keeps; the two others are exported as numbers.\<close>

definition kept_lists :: "string list" where
  "kept_lists =
     [''inbound'', ''domain'', ''domain_suffix'', ''domain_keyword'', ''domain_regex'', ''source_ip_cidr'', ''ip_cidr'', ''source_port_range'',
      ''port_range'', ''process_name'', ''process_path'', ''process_path_regex'', ''rule_set'']"

definition action_keys :: "string list" where
  "action_keys = [''action'', ''no_drop'', ''reject_method'', ''override_port'', ''override_address'', ''outbound'', ''override_destination'', ''strategy'']"

lemma match_json_action [simp]: "match_json q view (r\<lparr>r_action := a\<rparr>) = match_json q view r"
  by (simp add: match_json_def)

lemma exported_match:
  assumes "fix_action r = ''route'' \<longrightarrow> r_outboundID r = -1 \<or> r_outboundID r = -2" and "f \<notin> set action_keys"
  shows "map_of (exported pm q n r) f = map_of (match_json q True r) f"
proof -
  have f: "f \<noteq> ''action''" "f \<noteq> ''no_drop''" "f \<noteq> ''reject_method''" "f \<noteq> ''override_port''" "f \<noteq> ''override_address''"
    "f \<noteq> ''outbound''" "f \<noteq> ''override_destination''" "f \<noteq> ''strategy''" using assms(2) by (auto simp: action_keys_def)
  have o: "fix_action r = ''route'' \<Longrightarrow> \<exists>out. outbound_json pm n True True '''' (r\<lparr>r_action := ''route''\<rparr>) = Some out"
    using assms(1) fixed_outbound [of "r\<lparr>r_action := ''route''\<rparr>" pm n] by auto
  show ?thesis using f o unfolding exported_def get_rule_json_def Let_def
    by (cases "fix_action r = ''route''") (auto simp: qset_lookup)
qed

lemma match_list:
  assumes "k \<in> set kept_lists"
  shows "map_of (match_json q True r) k =
    (if isValidStrArray (get_current_value_string k r) then Some (get_as_array False id (get_current_value_string k r)) else None)"
proof -
  have "list_all (\<lambda>k. map_of (match_json q True r) k =
    (if isValidStrArray (get_current_value_string k r) then Some (get_as_array False id (get_current_value_string k r)) else None)) kept_lists"
    unfolding match_json_def Let_def kept_lists_def list.pred_inject get_current_value_string_def add_lookup qset_if_lookup
    by (simp add: text_fields_def list_fields_def)
  then show ?thesis using assms by (simp add: list_all_iff)
qed

lemma match_others:
  "map_of (match_json q True r) ''network'' = (if r_network r \<noteq> '''' then Some (QStr (r_network r)) else None)"
  "map_of (match_json q True r) ''protocol'' = (if r_protocol r \<noteq> '''' then Some (QStr (r_protocol r)) else None)"
  "map_of (match_json q True r) ''ip_version'' = (if r_ip_version r \<noteq> '''' then Some (QNum (toInt (r_ip_version r))) else None)"
  "map_of (match_json q True r) ''source_ip_is_private'' = (if r_source_ip_is_private r then Some (QBool True) else None)"
  "map_of (match_json q True r) ''ip_is_private'' = (if r_ip_is_private r then Some (QBool True) else None)"
  "map_of (match_json q True r) ''invert'' = (if r_invert r then Some (QBool True) else None)"
  "map_of (match_json q True r) ''method'' = None"
  "map_of (match_json q True r) ''port'' = (if isValidStrArray (r_port r) then Some (get_as_array True id (r_port r)) else None)"
  "map_of (match_json q True r) ''source_port'' = (if isValidStrArray (r_source_port r) then Some (get_as_array True id (r_source_port r)) else None)"
  unfolding match_json_def Let_def add_lookup qset_if_lookup by simp_all

lemma exported_action:
  assumes "fix_action r = ''route'' \<longrightarrow> r_outboundID r = -1 \<or> r_outboundID r = -2"
  shows "map_of (exported pm q n r) ''action'' = Some (QStr (fix_action r))"
    and "fix_action r = ''route'' \<Longrightarrow> map_of (exported pm q n r) ''outbound'' = Some (QStr (if r_outboundID r = -1 then ''proxy'' else ''direct''))"
    and "Option.bind (map_of (exported pm q n r) ''override_port'') written = None"
proof -
  have o: "fix_action r = ''route'' \<Longrightarrow> outbound_json pm n True True '''' (r\<lparr>r_action := ''route''\<rparr>) =
      Some (QStr (if r_outboundID r = -1 then ''proxy'' else ''direct''))"
    using assms fixed_outbound [of "r\<lparr>r_action := ''route''\<rparr>" pm n] by simp
  show "map_of (exported pm q n r) ''action'' = Some (QStr (fix_action r))"
    using o unfolding exported_def get_rule_json_def Let_def by (cases "fix_action r = ''route''") (simp_all add: qset_lookup)
  show "fix_action r = ''route'' \<Longrightarrow> map_of (exported pm q n r) ''outbound'' = Some (QStr (if r_outboundID r = -1 then ''proxy'' else ''direct''))"
    using o unfolding exported_def get_rule_json_def Let_def by (simp add: qset_lookup)
  have "map_of (match_json q True r) ''override_port'' = None" unfolding match_json_def Let_def add_lookup qset_if_lookup by simp
  then show "Option.bind (map_of (exported pm q n r) ''override_port'') written = None"
    using o unfolding exported_def get_rule_json_def Let_def by (cases "fix_action r = ''route''") (auto simp: qset_lookup)
qed

lemma exported_options:
  assumes "fix_action r = ''route'' \<longrightarrow> r_outboundID r = -1 \<or> r_outboundID r = -2"
  shows "map_of (exported pm q n r) ''no_drop'' = (if fix_action r = ''reject'' \<and> r_no_drop r then Some (QBool True) else None)"
    and "map_of (exported pm q n r) ''override_address'' = (if (fix_action r = ''route'' \<or> fix_action r = ''route-options'') \<and> r_override_address r \<noteq> ''''
      then Some (QStr (r_override_address r)) else None)"
    and "map_of (exported pm q n r) ''override_destination'' = (if fix_action r = ''sniff'' \<and> r_sniffOverrideDest r then Some (QBool True) else None)"
    and "map_of (exported pm q n r) ''strategy'' = (if fix_action r = ''resolve'' \<and> r_strategy r \<noteq> '''' then Some (QStr (r_strategy r)) else None)"
proof -
  have o: "fix_action r = ''route'' \<Longrightarrow> outbound_json pm n True True '''' (r\<lparr>r_action := ''route''\<rparr>) =
      Some (QStr (if r_outboundID r = -1 then ''proxy'' else ''direct''))"
    using assms fixed_outbound [of "r\<lparr>r_action := ''route''\<rparr>" pm n] by simp
  have m: "map_of (match_json q True r) ''no_drop'' = None" "map_of (match_json q True r) ''override_address'' = None"
    "map_of (match_json q True r) ''override_destination'' = None" "map_of (match_json q True r) ''strategy'' = None"
    unfolding match_json_def Let_def add_lookup qset_if_lookup by simp_all
  show "map_of (exported pm q n r) ''no_drop'' = (if fix_action r = ''reject'' \<and> r_no_drop r then Some (QBool True) else None)"
    using o m(1) unfolding exported_def get_rule_json_def Let_def by (cases "fix_action r = ''route''") (simp_all add: qset_lookup)
  show "map_of (exported pm q n r) ''override_address'' = (if (fix_action r = ''route'' \<or> fix_action r = ''route-options'') \<and> r_override_address r \<noteq> ''''
      then Some (QStr (r_override_address r)) else None)"
    using o m(2) unfolding exported_def get_rule_json_def Let_def by (cases "fix_action r = ''route''") (simp_all add: qset_lookup)
  show "map_of (exported pm q n r) ''override_destination'' = (if fix_action r = ''sniff'' \<and> r_sniffOverrideDest r then Some (QBool True) else None)"
    using o m(3) unfolding exported_def get_rule_json_def Let_def by (cases "fix_action r = ''route''") (simp_all add: qset_lookup)
  show "map_of (exported pm q n r) ''strategy'' = (if fix_action r = ''resolve'' \<and> r_strategy r \<noteq> '''' then Some (QStr (r_strategy r)) else None)"
    using o m(4) unfolding exported_def get_rule_json_def Let_def by (cases "fix_action r = ''route''") (simp_all add: qset_lookup)
qed

section \<open>Properties\<close>

text \<open>The rule that an import makes of an export: the conditions without blank list entries, the
  outbound of a routing action, and of the actions' options those that belong to the action. What is
  exported as a number (the IP version, the ports, the overriding port) or under another name than the
  import knows (the method of a rejection) is gone.\<close>

definition reimported :: "RouteRule \<Rightarrow> RouteRule" where
  "reimported r =
     (let a = fix_action r
      in new_RouteRule\<lparr>r_network := r_network r, r_protocol := r_protocol r, r_inbound := filterEmpty (r_inbound r),
           r_domain := filterEmpty (r_domain r), r_domain_suffix := filterEmpty (r_domain_suffix r),
           r_domain_keyword := filterEmpty (r_domain_keyword r), r_domain_regex := filterEmpty (r_domain_regex r),
           r_source_ip_cidr := filterEmpty (r_source_ip_cidr r), r_source_ip_is_private := r_source_ip_is_private r,
           r_ip_cidr := filterEmpty (r_ip_cidr r), r_ip_is_private := r_ip_is_private r,
           r_source_port_range := filterEmpty (r_source_port_range r), r_port_range := filterEmpty (r_port_range r),
           r_process_name := filterEmpty (r_process_name r), r_process_path := filterEmpty (r_process_path r),
           r_process_path_regex := filterEmpty (r_process_path_regex r), r_rule_set := filterEmpty (r_rule_set r),
           r_invert := r_invert r, r_action := a,
           r_outboundID := (if a = ''route'' then r_outboundID r else directID),
           r_no_drop := (a = ''reject'' \<and> r_no_drop r),
           r_override_address := (if a = ''route'' \<or> a = ''route-options'' then r_override_address r else ''''),
           r_sniffOverrideDest := (a = ''sniff'' \<and> r_sniffOverrideDest r),
           r_strategy := (if a = ''resolve'' then r_strategy r else '''')\<rparr>)"

lemma reimported_kept: "k \<in> set kept_lists \<Longrightarrow> get_current_value_string k (reimported r) = filterEmpty (get_current_value_string k r)"
proof -
  have "list_all (\<lambda>k. get_current_value_string k (reimported r) = filterEmpty (get_current_value_string k r)) kept_lists"
    unfolding kept_lists_def list.pred_inject
    by (simp add: get_current_value_string_def text_fields_def list_fields_def reimported_def Let_def)
  then show "k \<in> set kept_lists \<Longrightarrow> ?thesis" by (simp add: list_all_iff)
qed

lemma kept_facts:
  assumes "k \<in> set kept_lists"
  shows "k \<notin> set action_keys" and "k \<noteq> ''outbound''" and "map_of list_fields k \<noteq> None"
    and "get_current_value_string k new_RouteRule = []" and "get_current_value_string k (r\<lparr>r_name := name\<rparr>) = get_current_value_string k r"
proof -
  have "list_all (\<lambda>k. k \<notin> set action_keys \<and> k \<noteq> ''outbound'' \<and> map_of list_fields k \<noteq> None
    \<and> get_current_value_string k new_RouteRule = [] \<and> get_current_value_string k (r\<lparr>r_name := name\<rparr>) = get_current_value_string k r) kept_lists"
    unfolding kept_lists_def list.pred_inject
    by (simp add: action_keys_def get_current_value_string_def text_fields_def list_fields_def new_RouteRule_def)
  then show "k \<notin> set action_keys" and "k \<noteq> ''outbound''" and "map_of list_fields k \<noteq> None"
    and "get_current_value_string k new_RouteRule = []" and "get_current_value_string k (r\<lparr>r_name := name\<rparr>) = get_current_value_string k r"
    using assms by (simp_all add: list_all_iff)
qed

lemma import_exported:
  assumes "fix_action r = ''route'' \<longrightarrow> r_outboundID r = -1 \<or> r_outboundID r = -2"
  shows "import_keys imp tp (exported pm q n r) new_RouteRule st = (st, Inr (reimported r))"
proof -
  let ?o = "exported pm q n r"
  have "\<forall>(k, v)\<in>set ?o. importable k v" using exported_good [OF assms] by (simp add: good_def)
  moreover have "distinct (map fst ?o)"
    using get_rule_json_sorted [of pm q n True True "''''" r] strict_sorted_iff by (auto simp: exported_def qsorted_def)
  ultimately obtain r' where r': "import_keys imp tp ?o new_RouteRule st = (st, Inr r')"
      "r_outboundID r' = outbound_of (map_of ?o ''outbound'') (r_outboundID new_RouteRule)"
      "\<forall>f. f \<noteq> ''outbound'' \<longrightarrow> reads new_RouteRule f (Option.bind (map_of ?o f) written) r'"
    using import_keys_reads by blast
  have R: "reads new_RouteRule f w r'" if "Option.bind (map_of ?o f) written = w" "f \<noteq> ''outbound''" for f w using r'(3) that by blast
  have R': "reads new_RouteRule f (Option.bind x written) r'" if "map_of ?o f = x" "f \<noteq> ''outbound''" for f x using r'(3) that by blast
  have M: "Option.bind (map_of ?o f) written = Option.bind (map_of (match_json q True r) f) written" if "f \<notin> set action_keys" for f
    using exported_match [OF assms that] by simp
  have empty: "filterEmpty (map json_toString (map (QNum \<circ> g) xs)) = []" for g xs
    by (simp add: filterEmpty_def comp_def trimmed_def trim_with_def)
  have kept: "get_current_value_string k r' = get_current_value_string k (reimported r)" if "k \<in> set kept_lists" for k
  proof -
    note K = kept_facts [OF that]
    have "reads new_RouteRule k (Option.bind (if isValidStrArray (get_current_value_string k r)
        then Some (get_as_array False id (get_current_value_string k r)) else None) written) r'"
      using R [OF M [OF K(1)] K(2)] unfolding match_list [OF that] .
    moreover have "\<not> isValidStrArray xs \<Longrightarrow> filterEmpty xs = []" for xs by (auto simp: isValidStrArray_def filterEmpty_def list_ex_iff)
    moreover have "map (json_toString \<circ> (\<lambda>item. let conv = id item in if False then QNum (toInt conv) else QStr conv)) xs = xs" for xs
      by (simp add: comp_def)
    ultimately show ?thesis using K(3,4) reimported_kept [OF that, of r] by (auto simp: reads_def get_as_array_def split: if_splits)
  qed
  have texts: "r_network r' = r_network r" "r_protocol r' = r_protocol r" "r_action r' = fix_action r"
    "r_ip_version r' = ''''" "r_override_port r' = ''''" "r_rejectMethod r' = ''''"
    using R [OF M, of "''network''"] R [OF M, of "''protocol''"] R [OF arg_cong [OF exported_action(1) [OF assms], of "\<lambda>x. Option.bind x written"]]
      R [OF M, of "''ip_version''"] R [OF exported_action(3) [OF assms]] R [OF M, of "''method''"]
    unfolding match_others
    by (auto simp: action_keys_def reads_def get_current_value_string_def text_fields_def list_fields_def new_RouteRule_def split: if_splits)
  have options: "r_override_address r' = r_override_address (reimported r)" "r_strategy r' = r_strategy (reimported r)"
    using R' [OF exported_options(2) [OF assms]] R' [OF exported_options(4) [OF assms]]
    by (auto simp: reads_def get_current_value_string_def text_fields_def list_fields_def new_RouteRule_def reimported_def Let_def split: if_splits)
  have flags: "r_source_ip_is_private r' = r_source_ip_is_private r" "r_ip_is_private r' = r_ip_is_private r" "r_invert r' = r_invert r"
    using R [OF M, of "''source_ip_is_private''"] R [OF M, of "''ip_is_private''"] R [OF M, of "''invert''"]
    unfolding match_others
    by (auto simp: action_keys_def reads_def get_current_value_bool_def bool_fields_def new_RouteRule_def split: if_splits)
  have switches: "r_no_drop r' = r_no_drop (reimported r)" "r_sniffOverrideDest r' = r_sniffOverrideDest (reimported r)"
    using R' [OF exported_options(1) [OF assms]] R' [OF exported_options(3) [OF assms]]
    by (auto simp: reads_def get_current_value_bool_def bool_fields_def new_RouteRule_def reimported_def Let_def split: if_splits)
  have ports: "r_port r' = []" "r_source_port r' = []"
    using R [OF M, of "''port''"] R [OF M, of "''source_port''"] empty
    unfolding match_others
    by (auto simp: action_keys_def reads_def get_current_value_string_def text_fields_def list_fields_def new_RouteRule_def get_as_array_def
       comp_def split: if_splits)
  have out: "r_outboundID r' = r_outboundID (reimported r)"
  proof (cases "fix_action r = ''route''")
    case True
    then show ?thesis using r'(2) exported_action(2) [OF assms] assms by (auto simp: outbound_of_def reimported_def Let_def)
  next
    case False
    then have "map_of ?o ''outbound'' = None" by (simp add: exported_def get_rule_json_outbound)
    then show ?thesis using r'(2) False by (simp add: outbound_of_def reimported_def Let_def new_RouteRule_def)
  qed
  have lists: "list_all (\<lambda>k. get_current_value_string k r' = get_current_value_string k (reimported r)) kept_lists"
    using kept by (simp add: list_all_iff)
  have un: "unwritten r' = unwritten (reimported r)"
    using import_keys_unwritten [OF r'(1)] by (simp add: unwritten_def reimported_def Let_def)
  have "r' = reimported r"
  proof (rule rule_eqI [OF _ _ _ out un])
    show "list_all (\<lambda>(f, g, u). f = ''outbound'' \<or> g r' = g (reimported r)) text_fields"
      using texts options unfolding text_fields_def by (simp add: reimported_def Let_def new_RouteRule_def)
    show "list_all (\<lambda>(f, g, u). g r' = g (reimported r)) bool_fields"
      using flags switches unfolding bool_fields_def by (simp add: reimported_def Let_def)
    show "list_all (\<lambda>(f, g, u). g r' = g (reimported r)) list_fields"
      using lists ports unfolding kept_lists_def list.pred_inject
      by (simp add: list_fields_def text_fields_def get_current_value_string_def) (simp add: reimported_def Let_def new_RouteRule_def)
  qed
  then show ?thesis using r'(1) by simp
qed

lemma import_rules_exported:
  assumes "\<forall>r\<in>set rs. fix_action r = ''route'' \<longrightarrow> r_outboundID r = -1 \<or> r_outboundID r = -2"
  shows "import_rules imp tp k (map (\<lambda>r. QObj (exported pm q n r)) rs) st =
    (st, Inr (map (\<lambda>(i, r). (reimported r)\<lparr>r_name := imported_name i\<rparr>) (enumerate k rs)))"
  using assms by (induction rs arbitrary: k) (simp_all add: import_exported)

text \<open>C25. Importing the export of a list of rules that go to the proxy, to a direct connection or
  nowhere succeeds, asks for no profile, and gives exactly the rules \<open>reimported\<close>, named by their
  positions: every condition but those on the IP version and on the ports, every list without its
  blank entries, the action (a routed block as a rejection) with its outbound, overriding address,
  strategy, and the flags \<open>no_drop\<close> and \<open>override_destination\<close> where they belong to the action. Whatever the
  originals say, the results have no IP version, no ports, no source ports, no overriding port and no
  method of rejection: these are exported as numbers, or under another name, and an import reads
  neither.\<close>

theorem import_of_export:
  assumes "rs \<noteq> []" and "\<forall>r\<in>set rs. fix_action r = ''route'' \<longrightarrow> r_outboundID r = -1 \<or> r_outboundID r = -2"
  shows "parseJsonArray imp tp (map (\<lambda>r. QObj (snd (get_rule_json pm q n True True '''' r))) rs) st =
    (st, Inr (map (\<lambda>(i, r). (reimported r)\<lparr>r_name := imported_name i\<rparr>) (enumerate 1 rs)))"
  using import_rules_exported [OF assms(2), of imp tp 1 pm q n st] assms(1)
  by (simp add: parseJsonArray_def exported_def)

definition import_sample :: import_state where
  "import_sample = \<lparr> im_man = sample, im_beans = (\<lambda>_. None), im_imported_group = -1 \<rparr>"

theorem import_of_export_witness:
  "parseJsonArray ''Imported'' (\<lambda>_ _ e. (e, False))
      [QObj (snd (get_rule_json (\<lambda>_. None) sample_qurl 9 True True '''' (new_RouteRule\<lparr>r_port := [''443''], r_domain := [''a.com''], r_override_address := ''b''\<rparr>)))] import_sample
   = (import_sample, Inr [new_RouteRule\<lparr>r_name := ''imported rule #1'', r_domain := [''a.com''], r_override_address := ''b''\<rparr>])"
proof -
  let ?r = "new_RouteRule\<lparr>r_port := [''443''], r_domain := [''a.com''], r_override_address := ''b''\<rparr>"
  have "fix_action ?r = ''route''" "r_outboundID ?r = -2" by (simp_all add: fix_action_def new_RouteRule_def outbound_ids)
  moreover have "imported_name 1 = ''imported rule #1''" by code_simp
  moreover have "filterEmpty [''a.com''] = [''a.com'']" "filterEmpty [] = []" by code_simp+
  ultimately show ?thesis
    using import_of_export [of "[?r]" "''Imported''" "\<lambda>_ _ e. (e, False)" "\<lambda>_. None" sample_qurl 9 import_sample]
    by (simp add: reimported_def Let_def) (simp add: new_RouteRule_def)
qed

section \<open>The look-up by name\<close>

text \<open>The profile a look-up of an identifier answers with: the object of a profile that waits to be
  saved, or else what its readable record says. In memory the profiles that were looked up before
  are as their records say (\<open>faithful\<close>), unless they were changed and not saved yet.\<close>

definition loaded :: "manager \<Rightarrow> int \<Rightarrow> entity option" where
  "loaded s i = (case tb_Proxies (m_tables s) i of Some e \<Rightarrow> if isValid e then Some (e\<lparr>e_no_save := False\<rparr>) else None | None \<Rightarrow> None)"

definition profile_of :: "manager \<Rightarrow> int \<Rightarrow> entity option" where
  "profile_of s i = (case m_cached_profiles s i of Some p \<Rightarrow> Some (m_heap s p) | None \<Rightarrow> loaded s i)"

definition faithful :: "manager \<Rightarrow> bool" where
  "faithful s \<longleftrightarrow> (\<forall>i p. m_cached_profiles s i = None \<longrightarrow> map_of (m_weak_profiles s) i = Some p \<longrightarrow> loaded s i = Some (m_heap s p))"

lemma profile_of_same:
  assumes "minv s" and "same_but_lookup s t"
  shows "profile_of t i = profile_of s i" and "loaded t i = loaded s i"
proof -
  show l: "loaded t i = loaded s i" using assms(2) by (simp add: loaded_def same_but_lookup_def)
  have "m_cached_profiles s i = Some p \<Longrightarrow> m_heap t p = m_heap s p" for p
    using assms cached_known [OF assms(1), of i p] by (simp add: same_but_lookup_def known_def)
  then show "profile_of t i = profile_of s i" using assms(2) l by (auto simp: profile_of_def same_but_lookup_def split: option.split)
qed

lemma GetProfile_answers:
  assumes "minv s" and "faithful s"
  shows "map_option (m_heap (fst (GetProfile i s))) (snd (GetProfile i s)) = profile_of s i \<and> faithful (fst (GetProfile i s))"
proof (cases "m_cached_profiles s i")
  case (Some p)
  then show ?thesis using assms(2) by (simp add: GetProfile_def profile_of_def)
next
  case None
  from assms(1) show ?thesis
  proof (cases rule: GetProfile_cases [where i = i])
    case (weak p w)
    have "faithful (s\<lparr>m_weak_profiles := w\<rparr>)" using assms(2) weak(2) by (simp add: faithful_def loaded_def)
    then show ?thesis using None weak assms(2) by (simp add: profile_of_def faithful_def)
  next
    case (loaded e)
    let ?t = "fst (GetProfile i s)"
    have l: "loaded s i = Some (e\<lparr>e_no_save := False\<rparr>)" using loaded(1,2) by (simp add: loaded_def)
    have "loaded ?t j = Some (m_heap ?t p)" if c: "m_cached_profiles ?t j = None" "map_of (m_weak_profiles ?t) j = Some p" for j p
    proof (cases "j = i")
      case True
      have "map_of (m_weak_profiles ?t) i = Some (m_next s)"
        using lru.get_put [OF weak_ok [OF assms(1)], of i "m_next s"] loaded(3) by (simp add: weak_insert_def)
      then show ?thesis using True c l loaded(3) by (simp add: loaded_def)
    next
      case False
      have w: "map_of (m_weak_profiles s) j = Some p"
        using lru.get_put_other [OF weak_ok [OF assms(1)], of j i "m_next s" p] c(2) False loaded(3) by (simp add: weak_insert_def)
      then have "p < m_next s" using weak_known [OF assms(1)] by (simp add: known_def)
      then show ?thesis using w c(1) assms(2) loaded(3) by (simp add: faithful_def loaded_def)
    qed
    then show ?thesis using None l loaded(3) by (simp add: profile_of_def faithful_def)
  next
    case missing
    then show ?thesis using assms(2) None by (auto simp: profile_of_def loaded_def split: option.split)
  qed (use None in simp)
qed

definition lists_name :: "manager \<Rightarrow> string \<Rightarrow> gptr \<Rightarrow> bool" where
  "lists_name s name g \<longleftrightarrow> (\<exists>i\<in>set (g_profiles (m_gheap s g)). \<exists>e. profile_of s i = Some e \<and> e_name e = name)"

lemma name_in_group_result:
  assumes "minv (im_man st)" and "faithful (im_man st)"
  shows "snd (name_in_group name ids st) = (\<exists>i\<in>set ids. \<exists>e. profile_of (im_man st) i = Some e \<and> e_name e = name)
    \<and> minv (im_man (fst (name_in_group name ids st))) \<and> faithful (im_man (fst (name_in_group name ids st)))
    \<and> same_but_lookup (im_man st) (im_man (fst (name_in_group name ids st)))"
  using assms
proof (induction ids arbitrary: st)
  case (Cons i ids)
  let ?m = "im_man st" and ?st = "st\<lparr>im_man := fst (GetProfile i (im_man st))\<rparr>"
  have a: "ask_import i st = (?st, snd (GetProfile i ?m))" by (simp add: ask_import_def split: prod.split)
  have t: "minv (im_man ?st)" "faithful (im_man ?st)" "same_but_lookup ?m (im_man ?st)"
    using GetProfile_minv [OF Cons.prems(1), of i] GetProfile_answers [OF Cons.prems, of i] GetProfile_same [OF Cons.prems(1), of i] by simp_all
  have q: "map_option (m_heap (im_man ?st)) (snd (GetProfile i ?m)) = profile_of ?m i" using GetProfile_answers [OF Cons.prems, of i] by simp
  note IH = Cons.IH [OF t(1,2)]
  have p: "profile_of (im_man ?st) j = profile_of ?m j" for j by (rule profile_of_same(1) [OF Cons.prems(1) t(3)])
  show ?case
  proof (cases "snd (GetProfile i ?m)")
    case None
    then show ?thesis using IH a q p same_trans [OF t(3)] by auto
  next
    case (Some x)
    then have x: "profile_of ?m i = Some (m_heap (im_man ?st) x)" using q by simp
    show ?thesis
    proof (cases "e_name (m_heap (im_man ?st) x) = name")
      case True
      then show ?thesis using a Some x t by auto
    next
      case False
      then show ?thesis using IH a Some x p same_trans [OF t(3)] by auto
    qed
  qed
qed (auto simp: same_but_lookup_def)

lemma name_in_groups_result:
  assumes "minv (im_man st)" and "faithful (im_man st)"
  shows "snd (name_in_groups name gs st) = (case find (\<lambda>(k, g). lists_name (im_man st) name g) gs of Some (k, _) \<Rightarrow> k | None \<Rightarrow> INVALID_ID)
    \<and> same_but_lookup (im_man st) (im_man (fst (name_in_groups name gs st)))"
  using assms
proof (induction gs arbitrary: st)
  case (Cons kg gs)
  obtain k g where kg: "kg = (k, g)" by force
  obtain st1 b where n: "name_in_group name (g_profiles (m_gheap (im_man st) g)) st = (st1, b)" by force
  note R = name_in_group_result [OF Cons.prems, of name "g_profiles (m_gheap (im_man st) g)", unfolded n, simplified]
  have b: "b = lists_name (im_man st) name g" using R by (simp add: lists_name_def)
  have p: "profile_of (im_man st1) i = profile_of (im_man st) i" for i using R by (intro profile_of_same(1) [OF Cons.prems(1)]) blast
  have "m_gheap (im_man st1) = m_gheap (im_man st)" using R by (simp add: same_but_lookup_def)
  then have same: "lists_name (im_man st1) name g = lists_name (im_man st) name g" for g by (simp add: lists_name_def p)
  show ?case
  proof (cases b)
    case True
    then show ?thesis using n b R kg by simp
  next
    case False
    have "minv (im_man st1)" "faithful (im_man st1)" "same_but_lookup (im_man st) (im_man st1)" using R by blast+
    with Cons.IH [OF this(1,2)] same_trans [OF this(3)] show ?thesis using False n b kg by (simp add: same)
  qed
qed (simp add: same_but_lookup_def)

text \<open>C26. The look-up of an outbound by name: \<open>proxy\<close>, \<open>direct\<close> and \<open>block\<close> have their numbers; any other name
  gives the identifier of the first group, in the order of the identifiers, that lists a profile of
  this name (waiting to be saved or stored), not the identifier of the profile, and none if no group
  does; and only the cache of profiles changes. So a rule imported with a profile's name is bound to
  whatever profile has the number of the group.\<close>

theorem name_gives_group:
  assumes "reachable (im_man st)" and "faithful (im_man st)"
  shows "snd (getOutboundID_name name st) =
      (if name = ''proxy'' then -1 else if name = ''direct'' then -2 else if name = ''block'' then -3
       else case find (\<lambda>(k, g). lists_name (im_man st) name g) (m_groups (im_man st)) of Some (k, _) \<Rightarrow> k | None \<Rightarrow> INVALID_ID)
    \<and> same_but_lookup (im_man st) (im_man (fst (getOutboundID_name name st)))
    \<and> sorted (map fst (m_groups (im_man st)))"
proof -
  have inv: "minv (im_man st)" by (rule reachable_minv [OF assms(1)])
  then have "sorted (map fst (m_groups (im_man st)))" by (auto simp: minv_defs qsorted_def intro: strict_sorted_imp_sorted)
  moreover have "same_but_lookup (im_man st) (im_man st)" by (simp add: same_but_lookup_def)
  ultimately show ?thesis using name_in_groups_result [OF inv assms(2), of name "m_groups (im_man st)"]
    by (auto simp: getOutboundID_name_def)
qed

theorem name_gives_group_witness: "snd (getOutboundID_name '''' import_sample) = 1 \<and> e_id sample_profile = 4"
proof -
  have m: "m_groups sample = [(1, 0), (2, 1)]" "g_profiles (m_gheap sample 0) = [4]" "e_name sample_profile = []" "e_id sample_profile = 4"
      "m_cached_profiles sample = (\<lambda>_. None)" "m_weak_profiles sample = []" "tb_Proxies (m_tables sample) 4 = Some sample_profile" "isValid sample_profile"
    by (simp_all add: sample_value blank_def sample_profile_def NewProxyEntity_def sample_tables_def isValid_def OutboundTypes_def)
  then have "lists_name sample '''' 0" by (auto simp: lists_name_def profile_of_def loaded_def)
  moreover have "faithful sample" using m(6) by (simp add: faithful_def)
  ultimately show ?thesis using name_gives_group [of import_sample "''''"] sample_reachable m(1,4) by (simp add: import_sample_def)
qed

end
