(* ===== verification/Sub_Reader.thy ===== *)
theory Sub_Reader
  imports Proxy_Entity
begin

text \<open>
  Reading a subscription (\<open>RawUpdater\<close> of \<^verbatim>\<open>src/gharqad/configs/sub/GroupUpdater.cpp\<close>): a text may be
  base64, JSON of several forms, Clash YAML, a WireGuard file, many lines or one link; what it
  contains is put on a work list of texts or becomes a profile. The decoders, the YAML and JSON
  parsers, and the beans that read one server are arguments (the record \<open>readers\<close>); which of
  them reads what, in which order, is the code's. A bean changes fields of the profile it
  belongs to, so its argument maps the new profile to the one it leaves, or to \<open>None\<close> when it
  does not accept the text. \<open>RawUpdater_FixEnt\<close> changes the bean only.
\<close>

section \<open>Arguments\<close>

record readers =
  r_base64 :: "string \<Rightarrow> string"
  r_decrypt :: "string \<Rightarrow> string"
  r_json :: "string \<Rightarrow> json option"
  r_yaml :: "string \<Rightarrow> (string \<times> string) list option"
  r_url_host :: "string \<Rightarrow> string option"
  r_sanitize :: "jobject \<Rightarrow> jobject"
  r_v2rayn :: "jobject \<Rightarrow> jobject"
  r_parse_json :: "entity \<Rightarrow> jobject \<Rightarrow> entity option"
  r_parse_sip008 :: "entity \<Rightarrow> jobject \<Rightarrow> entity option"
  r_parse_yaml :: "entity \<Rightarrow> string \<Rightarrow> entity option"
  r_parse_wg :: "entity \<Rightarrow> string \<Rightarrow> entity option"
  r_parse_nekoray :: "entity \<Rightarrow> string \<Rightarrow> entity option"
  r_parse_link :: "entity \<Rightarrow> string \<Rightarrow> entity option"

section \<open>Cutting a text into pieces\<close>

text \<open>\<open>JsonEndIdx\<close>: the index of the brace that closes the one at \<open>begin\<close>; braces inside
  strings count.\<close>

fun json_end :: "int \<Rightarrow> nat \<Rightarrow> string \<Rightarrow> nat option" where
  "json_end counter i [] = None"
| "json_end counter i (c # cs) =
     (let counter = (if c = CHR ''{'' then counter + 1 else counter);
          counter = (if c = CHR ''}'' then counter - 1 else counter)
      in if counter = 0 then Some i else json_end counter (Suc i) cs)"

definition JsonEndIdx :: "string \<Rightarrow> nat \<Rightarrow> nat option" where
  "JsonEndIdx str start = json_end 1 (Suc start) (drop (Suc start) str)"

text \<open>\<open>Disect\<close>; the text from \<open>idx\<close> on is the argument, and indices count from there.\<close>

function Disect :: "string \<Rightarrow> string list" where
  "Disect [] = []"
| "Disect (c # cs) =
     (if c = CHR 0x0A then Disect cs
      else if c = CHR ''{''
      then (case JsonEndIdx (c # cs) 0 of
              None \<Rightarrow> []
            | Some endIdx \<Rightarrow> take (Suc endIdx) (c # cs) # Disect (drop endIdx cs))
      else (let l = takeWhile (\<lambda>x. x \<noteq> CHR 0x0A) (c # cs) in l # Disect (drop (length l) cs)))"
  by pat_completeness auto
termination by (relation "measure length") auto

text \<open>The scheme of a link: the position of the colon in front of two slashes, looked for in the
  first 30 characters. Letters and numbers are those of Latin-1.\<close>

definition isLetterOrNumber :: "char \<Rightarrow> bool" where
  "isLetterOrNumber ch \<longleftrightarrow>
     (let n = (of_char ch :: nat)
      in 48 \<le> n \<and> n \<le> 57 \<or> 65 \<le> n \<and> n \<le> 90 \<or> 97 \<le> n \<and> n \<le> 122
         \<or> n \<in> {170, 178, 179, 181, 185, 186, 188, 189, 190} \<or> 192 \<le> n \<and> n \<noteq> 215 \<and> n \<noteq> 247)"

fun scheme_scan :: "int \<Rightarrow> int \<Rightarrow> nat \<Rightarrow> string \<Rightarrow> int \<times> nat" where
  "scheme_scan index colon_index slash_count [] = (colon_index, slash_count)"
| "scheme_scan index colon_index slash_count (ch # s) =
     (if 0 \<le> colon_index
      then (if ch = CHR ''/''
            then (if slash_count + 1 = 2 then (colon_index, 2)
                  else scheme_scan (index + 1) colon_index (slash_count + 1) s)
            else (colon_index, slash_count))
      else if isLetterOrNumber ch \<or> ch = CHR ''+'' \<or> ch = CHR ''-'' \<or> ch = CHR ''.''
      then scheme_scan (index + 1) colon_index slash_count s
      else if ch = CHR '':'' then scheme_scan (index + 1) index slash_count s
      else (colon_index, slash_count))"

definition scheme_index :: "string \<Rightarrow> int" where
  "scheme_index str =
     (case scheme_scan 0 (-1) 0 (take 30 str) of
        (colon_index, slash_count) \<Rightarrow> if 0 < colon_index \<and> slash_count = 2 then colon_index else -1)"

section \<open>Configurations and lists of servers\<close>

text \<open>Upper-casing below code unit 256.\<close>

definition upper_char :: "char \<Rightarrow> char" where
  "upper_char c =
     (let n = (of_char c :: nat)
      in if 97 \<le> n \<and> n \<le> 122 \<or> 224 \<le> n \<and> n \<le> 254 \<and> n \<noteq> 247 then char_of (n - 32) else c)"

definition contains :: "jobject \<Rightarrow> string \<Rightarrow> bool" where
  "contains obj k \<longleftrightarrow> map_of obj k \<noteq> None"

definition text_of :: "jobject \<Rightarrow> string \<Rightarrow> string" where
  "text_of obj k = json_toString (qat obj k)"

definition array_of :: "jobject \<Rightarrow> string \<Rightarrow> json list" where
  "array_of obj k = json_toArray (qat obj k)"

definition full_json_type :: "jobject \<Rightarrow> string" where
  "full_json_type cleanJson =
     (let name = (\<lambda>ob. map upper_char (text_of (json_toObject ob) ''type''))
      in case find (\<lambda>ob. name ob \<notin> {'''', ''DIRECT'', ''BLOCK'', ''DNS''}) (array_of cleanJson ''outbounds'') of
           None \<Rightarrow> ''''
         | Some ob \<Rightarrow>
             (let tr = map upper_char (text_of (json_toObject (qat (json_toObject ob) ''transport'')) ''type'')
              in name ob @ (if tr \<noteq> '''' \<and> tr \<noteq> ''TCP'' then ''/'' @ tr else '''') @ ''/JSON''))"

definition addFullJsonProxy :: "readers \<Rightarrow> jobject \<Rightarrow> string \<Rightarrow> entity" where
  "addFullJsonProxy P json remarks =
     (let ent = NewProxyEntity ''custom''; dp = full_json_type (r_sanitize P json);
          ent = (if remarks \<noteq> '''' then ent\<lparr>e_name := remarks\<rparr> else ent)
      in if dp \<noteq> '''' then ent\<lparr>e_display_type := dp\<rparr> else ent)"

definition object_items :: "json list \<Rightarrow> jobject list" where
  "object_items xs = concat (map (\<lambda>v. case v of QObj obj \<Rightarrow> [obj] | _ \<Rightarrow> []) xs)"

definition sing_box_item :: "readers \<Rightarrow> string \<Rightarrow> bool \<Rightarrow> jobject \<Rightarrow> entity list" where
  "sing_box_item P name single out0 =
     (if out0 = [] then []
      else let out = (if text_of out0 ''type'' = '''' \<and> text_of out0 ''protocol'' \<noteq> '''' then r_v2rayn P out0 else out0);
               ent = NewProxyEntity (scheme_of (text_of out ''type''))
           in if \<not> isValid ent then []
              else case r_parse_json P ent out of
                     None \<Rightarrow> []
                   | Some ent \<Rightarrow> [if name \<noteq> '''' \<and> single then ent\<lparr>e_name := name\<rparr> else ent])"

definition updateSingBox :: "readers \<Rightarrow> jobject \<Rightarrow> string \<Rightarrow> entity list" where
  "updateSingBox P json name =
     (let items = object_items (array_of json ''outbounds'') @ object_items (array_of json ''endpoints'')
      in concat (map (sing_box_item P name (length items = 1)) items))"

definition sip008_server :: "readers \<Rightarrow> json \<Rightarrow> entity list" where
  "sip008_server P v =
     (let out = json_toObject v
      in if out = [] then []
         else let out = (if \<not> contains out ''server_port'' \<and> contains out ''port''
                         then qset ''server_port'' (qat out ''port'') out else out)
              in case r_parse_sip008 P (NewProxyEntity ''shadowsocks'') out of None \<Rightarrow> [] | Some ent \<Rightarrow> [ent])"

definition updateSIP008 :: "readers \<Rightarrow> json list \<Rightarrow> entity list" where
  "updateSIP008 P servers = concat (map (sip008_server P) servers)"

text \<open>Clash: the types and texts of the nodes under \<open>proxies\<close>; \<open>None\<close> where the text does not
  load or has no such list. A node that throws ends the reading, with the profiles before it
  added.\<close>

fun clash_loop :: "readers \<Rightarrow> (string \<times> string) list \<Rightarrow> bool \<Rightarrow> entity list \<times> bool" where
  "clash_loop P [] ret = ([], ret)"
| "clash_loop P ((type, proxy) # proxies) ret =
     (let ent = NewProxyEntity type
      in if \<not> isValid ent then clash_loop P proxies True
         else case r_parse_yaml P ent proxy of
                None \<Rightarrow> ([], False)
              | Some ent \<Rightarrow> (case clash_loop P proxies True of (ents, ret) \<Rightarrow> (ent # ents, ret)))"

definition updateClash :: "readers \<Rightarrow> string \<Rightarrow> entity list \<times> bool" where
  "updateClash P str = (case r_yaml P str of None \<Rightarrow> ([], False) | Some nodes \<Rightarrow> clash_loop P nodes False)"

text \<open>\<open>importJsonValue\<close>: the texts it puts on the work list, the profiles it adds, and whether it
  found anything.\<close>

abbreviation fields_size :: "jobject \<Rightarrow> nat" where
  "fields_size \<equiv> size_list (size_prod (\<lambda>_. 0) size)"

lemma array_of_size: "size_list size (array_of obj k) \<le> fields_size obj"
proof (induction obj)
  case (Cons kv obj)
  have "size_list size (json_toArray v) \<le> size v" for v by (cases v) auto
  then have "size_list size (json_toArray (snd kv)) \<le> size (snd kv)" .
  with Cons show ?case by (cases kv) (auto simp: array_of_def qat_def)
qed (simp add: array_of_def qat_def)

fun first_link :: "jobject \<Rightarrow> string list \<Rightarrow> string option" where
  "first_link obj [] = None"
| "first_link obj (k # ks) =
     (let link = trimmed (text_of obj k) in if link \<noteq> '''' then Some link else first_link obj ks)"

function (sequential) importJsonValue :: "readers \<Rightarrow> json \<Rightarrow> string list \<times> entity list \<times> bool"
  and import_items :: "readers \<Rightarrow> json list \<Rightarrow> string list \<times> entity list \<times> bool" where
  "importJsonValue P (QStr s) = (let link = trimmed s in (if link \<noteq> '''' then [link] else [], [], link \<noteq> ''''))"
| "importJsonValue P (QObj obj) =
     (case first_link obj [''proxy'', ''url'', ''uri'', ''link''] of
        Some link \<Rightarrow> ([link], [], True)
      | None \<Rightarrow>
          (let remarks = text_of obj ''remarks''
           in if contains obj ''outbounds'' \<or> contains obj ''endpoints''
              then ([], if list_ex (contains obj) [''inbounds'', ''routing'', ''route'', ''dns'']
                        then [addFullJsonProxy P obj remarks] else updateSingBox P obj remarks, True)
              else if contains obj ''type'' then ([], updateSingBox P [(''outbounds'', QArr [QObj obj])] remarks, True)
              else if contains obj ''protocol'' \<and> r_v2rayn P obj \<noteq> []
              then ([], updateSingBox P [(''outbounds'', QArr [QObj (r_v2rayn P obj)])] remarks, True)
              else case import_items P (array_of obj ''nodes'') of
                     (links1, ents1, b1) \<Rightarrow>
                       (case import_items P (array_of obj ''configs'') of
                          (links2, ents2, b2) \<Rightarrow>
                            (case import_items P (array_of obj ''items'') of
                               (links3, ents3, b3) \<Rightarrow>
                                 (links1 @ links2 @ links3, ents1 @ ents2 @ ents3, b1 \<or> b2 \<or> b3)))))"
| "importJsonValue P _ = ([], [], False)"
| "import_items P [] = ([], [], False)"
| "import_items P (v # vs) =
     (case importJsonValue P v of
        (links1, ents1, b1) \<Rightarrow>
          (case import_items P vs of (links2, ents2, b2) \<Rightarrow> (links1 @ links2, ents1 @ ents2, b1 \<or> b2)))"
  by pat_completeness auto
termination
  by (relation "measure (case_sum (\<lambda>(P, v). size v) (\<lambda>(P, vs). size_list size vs))")
    (auto simp: le_imp_less_Suc array_of_size)

section \<open>One text of the work list\<close>

fun decode_loop :: "readers \<Rightarrow> nat \<Rightarrow> string \<Rightarrow> string" where
  "decode_loop P 0 str = str"
| "decode_loop P (Suc i) str = (let str2 = r_base64 P str in if str2 \<noteq> '''' then decode_loop P i str2 else str)"

definition sip008_like :: "json \<Rightarrow> bool" where
  "sip008_like v =
     (case v of
        QObj obj \<Rightarrow> contains obj ''method'' \<and> contains obj ''server'' \<and> (contains obj ''server_port'' \<or> contains obj ''port'')
      | _ \<Rightarrow> False)"

definition with_server_port :: "jobject \<Rightarrow> jobject" where
  "with_server_port obj =
     (if contains obj ''server_port'' then obj else qset ''server_port'' (qat obj ''port'') obj)"

definition read_array :: "readers \<Rightarrow> json list \<Rightarrow> string list \<times> entity list" where
  "read_array P xs =
     (let sip008Servers = map (\<lambda>v. QObj (with_server_port (json_toObject v))) (filter sip008_like xs)
      in case import_items P (filter (\<lambda>v. \<not> sip008_like v) xs) of
           (links, ents, _) \<Rightarrow> (links, ents @ updateSIP008 P sip008Servers))"

text \<open>What the code does with an object that no reader takes ends without a profile: a JSON text has
  no scheme.\<close>

definition read_object :: "readers \<Rightarrow> string \<Rightarrow> jobject \<Rightarrow> string list \<times> entity list" where
  "read_object P str json =
     (if contains json ''outbounds'' \<or> contains json ''endpoints''
      then ([], if list_ex (contains json) [''inbounds'', ''routing'', ''route'', ''dns'']
                then [addFullJsonProxy P json (text_of json ''remarks'')] else updateSingBox P json '''')
      else case qat json ''servers'' of
             QArr servers \<Rightarrow> ([], updateSIP008 P servers)
           | _ \<Rightarrow>
               (let (clash, ok) = (case qat json ''proxies'' of QArr _ \<Rightarrow> updateClash P str | _ \<Rightarrow> ([], False))
                in if ok then ([], clash)
                   else case importJsonValue P (QObj json) of (links, ents, _) \<Rightarrow> (links, clash @ ents)))"

definition read_link :: "readers \<Rightarrow> string \<Rightarrow> string list \<times> entity list" where
  "read_link P str =
     (let i = scheme_index str; scheme = map lower_char (take (nat i) str);
          parsed = (\<lambda>ent parse. if \<not> isValid ent then [] else case parse ent str of None \<Rightarrow> [] | Some ent \<Rightarrow> [ent])
      in if prefix ''//'' str \<or> prefix ''#'' str \<or> length str < 2 \<or> i \<le> 0 then ([], [])
         else if scheme = ''happ'' then (let decrypted = r_decrypt P str in (if decrypted \<noteq> '''' then [decrypted] else [], []))
         else if scheme = ''nekoray''
         then ([], case r_url_host P str of None \<Rightarrow> [] | Some host \<Rightarrow> parsed (NewProxyEntity host) (r_parse_nekoray P))
         else ([], parsed (NewProxyEntity (scheme_of scheme)) (r_parse_link P)))"

definition read_other :: "readers \<Rightarrow> string \<Rightarrow> string list \<times> entity list" where
  "read_other P str =
     (let plain = scheme_index str = -1;
          (clash, ok) = (if plain then updateClash P str else ([], False));
          wg = (if plain then r_parse_wg P (NewProxyEntity ''wireguard'') str else None)
      in if ok then ([], clash)
         else case wg of
                Some ent \<Rightarrow> ([], clash @ [ent])
              | None \<Rightarrow>
                  if CHR 0x0A \<in> set str then (map trimmed (Disect str), clash)
                  else case read_link P str of (links, ents) \<Rightarrow> (links, clash @ ents))"

definition read_text :: "readers \<Rightarrow> string \<Rightarrow> string list \<times> entity list" where
  "read_text P str0 =
     (let str = decode_loop P 32 str0
      in case if scheme_index str = -1 then r_json P str else None of
           None \<Rightarrow> read_other P str
         | Some (QArr xs) \<Rightarrow> read_array P xs
         | Some (QObj json) \<Rightarrow> read_object P str json
         | Some _ \<Rightarrow> ([], []))"

text \<open>\<open>RawUpdater::update\<close>: the profiles in the order in which \<open>AddProxy\<close> gets them; \<open>None\<close>
  when the work list never becomes empty.\<close>

partial_function (option) read_loop :: "readers \<Rightarrow> string list \<Rightarrow> entity list option" where
  "read_loop P stack =
     (case stack of
        [] \<Rightarrow> Some []
      | str # stack \<Rightarrow>
          (case read_text P str of
             (links, ents) \<Rightarrow>
               Option.bind (read_loop P (stack @ links)) (\<lambda>ents2. Some (ents @ ents2))))"

definition RawUpdater_update :: "readers \<Rightarrow> string \<Rightarrow> entity list option" where
  "RawUpdater_update P str = read_loop P [str]"

section \<open>The pieces of a text\<close>

lemma read_loop_simps [simp]:
  "read_loop P [] = Some []"
  "read_loop P (str # stack) =
     Option.bind (read_loop P (stack @ fst (read_text P str))) (\<lambda>ents2. Some (snd (read_text P str) @ ents2))"
  by (subst read_loop.simps, simp split: prod.split)+

declare read_loop_simps(2) [simp del]

lemma json_end_Cons:
  "json_end counter i (c # cs) =
     (let n = (if c = CHR ''}'' then counter - 1 else if c = CHR ''{'' then counter + 1 else counter)
      in if n = 0 then Some i else json_end n (Suc i) cs)"
  by (cases "c = CHR ''{''") (simp_all add: Let_def)

lemma json_end_at:
  "json_end counter i s = Some e \<Longrightarrow> 0 < counter \<Longrightarrow> i \<le> e \<and> e - i < length s \<and> s ! (e - i) = CHR ''}''"
proof (induction s arbitrary: counter i)
  case (Cons c cs)
  define n where "n = (if c = CHR ''}'' then counter - 1 else if c = CHR ''{'' then counter + 1 else counter)"
  have e: "(if n = 0 then Some i else json_end n (Suc i) cs) = Some e" using Cons.prems(1) by (simp only: json_end_Cons Let_def n_def)
  show ?case
  proof (cases "n = 0")
    case True
    with e Cons.prems(2) show ?thesis by (simp add: n_def split: if_splits)
  next
    case False
    have "Suc i \<le> e \<and> e - Suc i < length cs \<and> cs ! (e - Suc i) = CHR ''}''"
      by (rule Cons.IH [of n]) (use e False Cons.prems(2) in \<open>simp_all add: n_def split: if_splits\<close>)
    moreover from this have "e - i = Suc (e - Suc i)" by linarith
    ultimately show ?thesis by simp
  qed
qed simp

text \<open>A text that is one block of braces is one piece, unchanged.\<close>

lemma block_piece:
  assumes "JsonEndIdx (CHR ''{'' # t) 0 = Some (length t)"
  shows "Disect (CHR ''{'' # t) = [CHR ''{'' # t]" and "trimmed (CHR ''{'' # t) = CHR ''{'' # t"
proof -
  have "t ! (length t - 1) = CHR ''}'' \<and> 1 \<le> length t"
    using json_end_at [of 1 1 t "length t"] assms by (simp add: JsonEndIdx_def)
  moreover from this have "t \<noteq> []" by (cases t) simp_all
  ultimately have "last t = CHR ''}''" "t \<noteq> []" by (simp_all add: last_conv_nth)
  then have "last (CHR ''{'' # t) = CHR ''}''" by simp
  moreover have "\<not> qt_space (CHR ''}'')" "\<not> qt_space (CHR ''{'')" by (simp_all add: qt_space_def)
  ultimately show "trimmed (CHR ''{'' # t) = CHR ''{'' # t" unfolding trimmed_def by (intro trim_with_id) simp
  show "Disect (CHR ''{'' # t) = [CHR ''{'' # t]" using assms by simp
qed

text \<open>A line is one piece.\<close>

lemma line_piece:
  assumes "l \<noteq> []" and "CHR 0x0A \<notin> set l" and "hd l \<noteq> CHR ''{''"
  shows "Disect l = [l]" and "Disect (l @ CHR 0x0A # s) = l # Disect s"
proof -
  obtain c cs where l: "l = c # cs" using assms(1) by (cases l) auto
  have all: "takeWhile (\<lambda>x. x \<noteq> CHR 0x0A) cs = cs"
    using assms(2) l by (subst takeWhile_eq_all_conv) auto
  have tw: "takeWhile (\<lambda>x. x \<noteq> CHR 0x0A) (cs @ r) = cs @ takeWhile (\<lambda>x. x \<noteq> CHR 0x0A) r" for r
    using assms(2) l by (intro takeWhile_append2) auto
  have c: "c \<noteq> CHR 0x0A" "c \<noteq> CHR ''{''" using assms(2,3) l by auto
  then show "Disect l = [l]" "Disect (l @ CHR 0x0A # s) = l # Disect s"
    using tw [of "CHR 0x0A # s"] by (simp_all add: l Let_def all del: takeWhile_eq_all_conv)
qed

abbreviation line_ok :: "string \<Rightarrow> bool" where
  "line_ok l \<equiv> l \<noteq> [] \<and> CHR 0x0A \<notin> set l \<and> hd l \<noteq> CHR ''{''"

lemma lines_pieces: "list_all line_ok ls \<Longrightarrow> Disect (join_str [CHR 0x0A] ls) = ls"
proof (induction "[CHR 0x0A]" ls rule: join_str.induct)
  case (3 w v ws)
  then show ?case using line_piece(2) [of w "join_str [CHR 0x0A] (v # ws)"] by simp
qed (simp_all add: line_piece(1) del: Disect.simps(2))

text \<open>Texts that only change the work list.\<close>

lemma block_no_scheme: "scheme_index (CHR ''{'' # t) = -1"
  by (simp add: scheme_index_def isLetterOrNumber_def)

lemma read_split:
  assumes "r_base64 P s = ''''" and "r_json P s = None" and "r_yaml P s = None"
    and "r_parse_wg P (NewProxyEntity ''wireguard'') s = None" and "CHR 0x0A \<in> set s"
  shows "read_text P s = (map trimmed (Disect s), [])"
proof -
  have "decode_loop P 32 s = s" using assms(1) by (simp add: numeral_eq_Suc)
  with assms show ?thesis by (simp add: read_text_def read_other_def updateClash_def)
qed

lemma update_lines:
  assumes "list_all (\<lambda>l. fst (read_text P l) = []) ls"
  shows "read_loop P ls = Some (concat (map (\<lambda>l. snd (read_text P l)) ls))"
  using assms by (induction ls) (simp_all add: read_loop_simps(2))

lemma read_loop_cycle:
  assumes "read_text P s = ([s], ents)"
  shows "read_loop P [s] = None"
proof -
  have "(P', st) \<noteq> (P, [s])" if "read_loop P' st = Some y" for P' st y
    using that
    by (rule read_loop.raw_induct [where Pa = "\<lambda>x y. x \<noteq> (P, [s])", rotated])
      (use assms in \<open>fastforce simp: bind_eq_Some_conv\<close>)
  then show ?thesis by (cases "read_loop P [s]") auto
qed

section \<open>Properties\<close>

text \<open>C13. Reading does not end on a text of several lines that is one block of braces and that no reader
  takes: it is cut into one piece, the text itself, which goes back on the work list.\<close>

theorem braces_never_end:
  assumes "JsonEndIdx (CHR ''{'' # t) 0 = Some (length t)" and "CHR 0x0A \<in> set t"
    and "r_base64 P (CHR ''{'' # t) = ''''" and "r_json P (CHR ''{'' # t) = None" and "r_yaml P (CHR ''{'' # t) = None"
    and "r_parse_wg P (NewProxyEntity ''wireguard'') (CHR ''{'' # t) = None"
  shows "RawUpdater_update P (CHR ''{'' # t) = None"
proof -
  have "read_text P (CHR ''{'' # t) = ([CHR ''{'' # t], [])"
    using read_split [OF assms(3-6)] assms(2) block_piece [OF assms(1)] by simp
  then show ?thesis unfolding RawUpdater_update_def by (rule read_loop_cycle)
qed

definition no_reader :: readers where
  "no_reader = \<lparr> r_base64 = (\<lambda>_. ''''), r_decrypt = (\<lambda>_. ''''), r_json = (\<lambda>_. None), r_yaml = (\<lambda>_. None), r_url_host = (\<lambda>_. None),
     r_sanitize = id, r_v2rayn = id, r_parse_json = (\<lambda>_ _. None), r_parse_sip008 = (\<lambda>_ _. None), r_parse_yaml = (\<lambda>_ _. None),
     r_parse_wg = (\<lambda>_ _. None), r_parse_nekoray = (\<lambda>_ _. None), r_parse_link = (\<lambda>_ _. None) \<rparr>"

theorem braces_never_end_witness: "RawUpdater_update no_reader (''{'' @ [CHR 0x0A] @ ''[}'') = None"
  using braces_never_end [of "[CHR 0x0A] @ ''[}''" no_reader] by (simp add: no_reader_def JsonEndIdx_def)

text \<open>C24. A list of lines that no reader takes as a whole is read line by line: reading ends, and gives
  what the readers make of each line, in the order of the lines.\<close>

theorem lines_in_order:
  assumes "list_all line_ok ls" and "2 \<le> length ls" and "s = join_str [CHR 0x0A] ls"
    and "r_base64 P s = ''''" and "r_json P s = None" and "r_yaml P s = None"
    and "r_parse_wg P (NewProxyEntity ''wireguard'') s = None"
    and "list_all (\<lambda>l. fst (read_text P (trimmed l)) = []) ls"
  shows "RawUpdater_update P s = Some (concat (map (\<lambda>l. snd (read_text P (trimmed l))) ls))"
proof -
  obtain l l' r where "ls = l # l' # r" using assms(2) by (cases ls; cases "tl ls") auto
  then have "CHR 0x0A \<in> set s" by (simp add: assms(3))
  then have "read_text P s = (map trimmed ls, [])"
    using read_split [OF assms(4-7)] lines_pieces [OF assms(1)] by (simp add: assms(3))
  then show ?thesis
    using update_lines [of P "map trimmed ls"] assms(8) by (simp add: RawUpdater_update_def read_loop_simps(2) list_all_iff comp_def)
qed

definition link_reader :: readers where
  "link_reader = no_reader\<lparr>r_parse_link := (\<lambda>ent str. Some (ent\<lparr>e_serverAddress := str\<rparr>))\<rparr>"

theorem lines_in_order_witness:
  "map_option (map e_type) (RawUpdater_update link_reader (join_str [CHR 0x0A] [''ss://a'', ''# b'', ''hy2://c ''])) =
     Some [''shadowsocks'', ''hysteria2'']"
proof -
  have r: "map (\<lambda>l. read_text link_reader (trimmed l)) [''ss://a'', ''# b'', ''hy2://c ''] =
      [([], [(NewProxyEntity ''shadowsocks'')\<lparr>e_serverAddress := ''ss://a''\<rparr>]), ([], []),
       ([], [(NewProxyEntity ''hysteria2'')\<lparr>e_serverAddress := ''hy2://c''\<rparr>])]"
    by code_simp
  then show ?thesis
    using lines_in_order [of "[''ss://a'', ''# b'', ''hy2://c '']" _ link_reader, OF _ _ refl]
    by (simp add: link_reader_def no_reader_def NewProxyEntity_def)
qed

text \<open>The reader of Clash files knows a protocol by the program's own name only: servers of Clash's
  types \<open>ss\<close> and \<open>socks5\<close>, which a link of the same name brings in, are dropped although the
  file counts as read.\<close>

theorem clash_drops_short_names:
  assumes "r_yaml P str = Some nodes" and "list_all (\<lambda>(t, _). t \<in> {''ss'', ''socks5''}) nodes"
  shows "updateClash P str = ([], nodes \<noteq> []) \<and> isValid (NewProxyEntity (scheme_of ''ss'')) \<and> isValid (NewProxyEntity (scheme_of ''socks5''))"
proof -
  have t: "\<not> isValid (NewProxyEntity ''ss'')" "\<not> isValid (NewProxyEntity ''socks5'')"
    "isValid (NewProxyEntity (scheme_of ''ss''))" "isValid (NewProxyEntity (scheme_of ''socks5''))"
    by code_simp+
  have "clash_loop P ns b = ([], ns \<noteq> [] \<or> b)" if "list_all (\<lambda>(t, _). t \<in> {''ss'', ''socks5''}) ns" for ns b
    using that by (induction ns arbitrary: b) (use t(1,2) in \<open>auto simp: Let_def\<close>)
  with assms t(3,4) show ?thesis by (simp add: updateClash_def)
qed

theorem clash_drops_short_names_witness:
  "updateClash (no_reader\<lparr>r_yaml := (\<lambda>_. Some [(''ss'', ''cipher: aes-128-gcm'')])\<rparr>) ''proxies'' = ([], True)"
  using clash_drops_short_names [of "no_reader\<lparr>r_yaml := (\<lambda>_. Some [(''ss'', ''cipher: aes-128-gcm'')])\<rparr>" "''proxies''"] by simp

end
