(* ===== verification/Subscription.thy ===== *)
theory Subscription
  imports Sub_Reader Profile_Filter Manager_Props
begin

text \<open>
  Updating a group from its subscription (\<open>GroupUpdater\<close> of
  \<^verbatim>\<open>src/gharqad/configs/sub/GroupUpdater.cpp\<close>): the request, the comparison of what was read with the
  profiles of the group through the keys of \<open>Profile_Filter\<close>, and the calls of the profile
  manager that add and delete. The answer of the server, what the window asks the user, the clock,
  the title found in the answer's headers and the job that runs after an update are arguments; the
  texts for the log are left out. An update runs as one step of its thread.
\<close>

section \<open>State\<close>

record group_extra =
  x_url :: string
  x_info :: string
  x_sub_last_update :: int
  x_skip_auto_update :: bool
  x_enable_custom_payload :: bool
  x_javascript_payload :: string

text \<open>The details of the subscriptions are kept under the identifiers of their groups.\<close>

record updater =
  up_manager :: manager
  up_extra :: "int \<Rightarrow> group_extra"
  up_imported_count :: nat
  up_updating :: bool

record response =
  p_error :: string
  p_data :: string
  p_user_info :: string
  p_title :: string

record sub_env =
  v_hash :: "string \<Rightarrow> bytes"
  v_readers :: readers
  v_get :: "string \<Rightarrow> response"
  v_host :: "string \<Rightarrow> string"
  v_now :: int
  v_sub_clear :: bool
  v_ask :: "string \<Rightarrow> string \<times> bool \<times> bool"
  v_script :: "(group_extra \<Rightarrow> group_extra) option"
  v_PreFinishJob :: "gptr \<Rightarrow> manager \<Rightarrow> manager"

text \<open>An update that does not return, and one that dereferences a null pointer or uses a map whose
  order is none.\<close>

datatype failure = Endless | Undefined

section \<open>Comparing with the profiles of the group\<close>

definition bean_key :: "ptr option \<Rightarrow> filter_key" where
  "bean_key r = \<lparr> k_key = r, k_skip_compare_beans = False \<rparr>"

fun member_keys :: "int list \<Rightarrow> manager \<Rightarrow> manager \<times> filter_key list" where
  "member_keys [] s = (s, [])"
| "member_keys (i # ids) s =
     (case GetProfile i s of
        (s, r) \<Rightarrow> (case member_keys ids s of (s, ks) \<Rightarrow> (s, bean_key r # ks)))"

fun ignore_loop ::
  "(filter_key \<Rightarrow> filter_key \<Rightarrow> bool) \<Rightarrow> heap \<Rightarrow> filter_key list \<Rightarrow> (filter_key \<times> bool) list \<Rightarrow> int list
    \<Rightarrow> ((filter_key \<times> bool) list \<times> int list) option" where
  "ignore_loop lt h [] ignore_map ProfilesToDrop = Some (ignore_map, ProfilesToDrop)"
| "ignore_loop lt h (key # keys) ignore_map ProfilesToDrop =
     (if map_find lt key ignore_map = None
      then ignore_loop lt h keys (map_set lt key False ignore_map) ProfilesToDrop
      else case k_key key of
             None \<Rightarrow> None
           | Some p \<Rightarrow> ignore_loop lt h keys (map_set lt key False ignore_map) (ProfilesToDrop @ [e_id (h p)]))"

definition AddProxy ::
  "(filter_key \<Rightarrow> filter_key \<Rightarrow> bool) \<Rightarrow> ptr \<Rightarrow> (filter_key \<times> bool) list \<times> ptr list \<Rightarrow> (filter_key \<times> bool) list \<times> ptr list" where
  "AddProxy lt ent = (\<lambda>(ignore_map, proxies).
     if map_find lt (bean_key (Some ent)) ignore_map \<noteq> None
     then (map_set lt (bean_key (Some ent)) True ignore_map, proxies) else (ignore_map, proxies @ [ent]))"

text \<open>A map is walked in the order of its keys.\<close>

fun insert_ordered :: "('k \<Rightarrow> 'k \<Rightarrow> bool) \<Rightarrow> 'k \<times> 'v \<Rightarrow> ('k \<times> 'v) list \<Rightarrow> ('k \<times> 'v) list" where
  "insert_ordered lt x [] = [x]"
| "insert_ordered lt x (y # ys) = (if lt (fst x) (fst y) then x # y # ys else y # insert_ordered lt x ys)"

fun drop_loop :: "heap \<Rightarrow> (filter_key \<times> bool) list \<Rightarrow> int list \<Rightarrow> int list option" where
  "drop_loop h [] ProfilesToDrop = Some ProfilesToDrop"
| "drop_loop h ((key, save) # rest) ProfilesToDrop =
     (if save then drop_loop h rest ProfilesToDrop
      else case k_key key of
             None \<Rightarrow> None
           | Some p \<Rightarrow> drop_loop h rest (ProfilesToDrop @ [e_id (h p)]))"

definition keys_ok :: "('k \<Rightarrow> 'k \<Rightarrow> bool) \<Rightarrow> 'k list \<Rightarrow> 'k list \<Rightarrow> bool" where
  "keys_ok lt members new \<longleftrightarrow> members = [] \<or> weak_order_on lt members \<and> list_all (\<lambda>k. weak_order_on lt (members @ [k])) new"

text \<open>The profiles of the parsers, each a new object whose bean is alive.\<close>

fun NewProfiles :: "entity list \<Rightarrow> manager \<Rightarrow> manager \<times> ptr list" where
  "NewProfiles [] s = (s, [])"
| "NewProfiles (e # es) s =
     (case NewProfiles es (s\<lparr>m_heap := (m_heap s)(m_next s := e), m_bean_alive := (m_bean_alive s)(m_next s := True),
             m_next := Suc (m_next s)\<rparr>) of
        (t, ps) \<Rightarrow> (t, m_next s # ps))"

section \<open>An update\<close>

text \<open>The keys of the group's profiles, or none when they are all deleted beforehand, and the
  group's entry in storage.\<close>

definition old_keys :: "sub_env \<Rightarrow> gptr \<Rightarrow> manager \<Rightarrow> manager \<times> filter_key list" where
  "old_keys env g s =
     (let ids = g_profiles (m_gheap s g);
          (s, keys) = (if v_sub_clear env \<or> 1000 < length ids
                       then (set_group g (\<lambda>x. x\<lparr>g_profiles := []\<rparr>) (BatchDeleteProfiles ids (-999) s), [])
                       else member_keys ids s)
      in (Group_Save g s, keys))"

definition process_content ::
  "sub_env \<Rightarrow> string \<Rightarrow> int \<Rightarrow> filter_key list \<Rightarrow> manager \<Rightarrow> failure + manager \<times> ptr list" where
  "process_content env content gid keys s =
     (case RawUpdater_update (v_readers env) content of
        None \<Rightarrow> Inl Endless
      | Some ents \<Rightarrow>
          (let (s, ps) = NewProfiles ents s; h = m_heap s; lt = key_less (v_hash env) h
           in if \<not> keys_ok lt keys (map (\<lambda>p. bean_key (Some p)) ps) then Inl Undefined
              else case ignore_loop lt h keys [] [] of
                     None \<Rightarrow> Inl Undefined
                   | Some (ignore_map, dups) \<Rightarrow>
                       (let (ignore_map, proxies) = foldl (\<lambda>acc p. AddProxy lt p acc) (ignore_map, []) ps;
                            s = fst (AddProfileBatch proxies gid s)
                        in case drop_loop (m_heap s) (foldl (\<lambda>m x. insert_ordered lt x m) [] ignore_map) dups of
                             None \<Rightarrow> Inl Undefined
                           | Some ProfilesToDrop \<Rightarrow> Inr (BatchDeleteProfiles ProfilesToDrop (-1) s, proxies))))"

definition update_group :: "sub_env \<Rightarrow> string \<Rightarrow> string \<Rightarrow> int \<Rightarrow> gptr \<Rightarrow> updater \<Rightarrow> failure + updater" where
  "update_group env content sub_user_info gid g u =
     (let (s, keys) = old_keys env g (up_manager u);
          extra = (up_extra u)(g_id (m_gheap s g) := (up_extra u (g_id (m_gheap s g)))
                     \<lparr>x_sub_last_update := v_now env div 1000, x_info := sub_user_info\<rparr>)
      in case process_content env content gid keys s of
           Inl e \<Rightarrow> Inl e
         | Inr (s, proxies) \<Rightarrow> Inr (u\<lparr>up_manager := v_PreFinishJob env g s, up_extra := extra\<rparr>))"

definition import_content :: "sub_env \<Rightarrow> string \<Rightarrow> int \<Rightarrow> updater \<Rightarrow> failure + updater" where
  "import_content env content gid u =
     (case process_content env content gid [] (up_manager u) of
        Inl e \<Rightarrow> Inl e
      | Inr (s, proxies) \<Rightarrow> Inr (u\<lparr>up_manager := s, up_imported_count := length proxies\<rparr>))"

definition apply_content :: "sub_env \<Rightarrow> string \<Rightarrow> string \<Rightarrow> int \<Rightarrow> updater \<Rightarrow> failure + updater" where
  "apply_content env content sub_user_info gid u =
     (case GetGroup gid (up_manager u) of
        None \<Rightarrow> import_content env content gid u
      | Some g \<Rightarrow> update_group env content sub_user_info gid g u)"

definition name_group :: "sub_env \<Rightarrow> string \<Rightarrow> response \<Rightarrow> int \<Rightarrow> bool \<Rightarrow> updater \<Rightarrow> updater" where
  "name_group env originalUrl resp gid auto_name u =
     (case GetGroup gid (up_manager u) of
        None \<Rightarrow> u
      | Some g \<Rightarrow>
          if g_name (m_gheap (up_manager u) g) = '''' \<and> auto_name
          then u\<lparr>up_manager := set_group g (\<lambda>x. x\<lparr>g_name := if p_title resp \<noteq> '''' then p_title resp else v_host env originalUrl\<rparr>)
                   (up_manager u)\<rparr>
          else u)"

definition archived :: "int \<Rightarrow> updater \<Rightarrow> bool" where
  "archived gid u = (case GetGroup gid (up_manager u) of None \<Rightarrow> False | Some g \<Rightarrow> g_archive (m_gheap (up_manager u) g))"

definition request_content :: "sub_env \<Rightarrow> string \<Rightarrow> int \<Rightarrow> bool \<Rightarrow> bool \<Rightarrow> updater \<Rightarrow> failure + updater" where
  "request_content env content gid asURL auto_name u =
     (if archived gid u then Inr u
      else if asURL
      then (let resp = v_get env content
            in if p_error resp \<noteq> '''' then Inr u
               else apply_content env (p_data resp) (p_user_info resp) gid (name_group env content resp gid auto_name u))
      else apply_content env content '''' gid u)"

definition Update :: "sub_env \<Rightarrow> string \<Rightarrow> int \<Rightarrow> bool \<Rightarrow> bool \<Rightarrow> updater \<Rightarrow> failure + updater" where
  "Update env str gid not_sub_as_url auto_name u0 =
     (let u = u0\<lparr>up_imported_count := 0\<rparr>; asURL = (0 \<le> gid \<or> not_sub_as_url); content = trimmed str
      in if prefix ''happ://'' content
         then (let decrypted = r_decrypt (v_readers env) content
               in if decrypted \<noteq> '''' then request_content env decrypted gid True auto_name u else Inr u)
         else request_content env content gid asURL auto_name u)"

section \<open>Updates of the window\<close>

definition create_group :: "string \<Rightarrow> string \<Rightarrow> updater \<Rightarrow> updater \<times> int" where
  "create_group groupName url u =
     (let s = up_manager u; g = m_gnext s;
          s = s\<lparr>m_gheap := (m_gheap s)(g := NewGroup\<lparr>g_name := groupName, g_is_subscription := True\<rparr>), m_gnext := Suc g\<rparr>;
          s = fst (AddGroup g s); gid = g_id (m_gheap s g)
      in (u\<lparr>up_manager := s, up_extra := (up_extra u)(gid := (up_extra u gid)\<lparr>x_url := url\<rparr>)\<rparr>, gid))"

definition AsyncUpdate :: "sub_env \<Rightarrow> string \<Rightarrow> int \<Rightarrow> updater \<Rightarrow> failure + updater" where
  "AsyncUpdate env str gid u =
     (let content = trimmed str
      in if gid < 0 \<and> (prefix ''http://'' content \<or> prefix ''https://'' content \<or> prefix ''happ://'' content)
         then (case v_ask env content of
                 (groupName, ok, createNewGroup) \<Rightarrow>
                   if \<not> ok then Inr u
                   else if createNewGroup
                   then (case create_group groupName str u of (u, gid) \<Rightarrow> Update env str gid True (groupName = '''') u)
                   else Update env str gid (groupName \<noteq> ''link'') False u)
         else Update env str gid False False u)"

definition AsyncUpdateGroup :: "sub_env \<Rightarrow> gptr \<Rightarrow> updater \<Rightarrow> failure + updater" where
  "AsyncUpdateGroup env g u =
     (let grp = m_gheap (up_manager u) g; extra = up_extra u (g_id grp);
          extra = (case v_script env of
                     None \<Rightarrow> extra
                   | Some updater \<Rightarrow>
                       if x_enable_custom_payload extra \<and> x_javascript_payload extra \<noteq> '''' then updater extra else extra)
      in if g_is_subscription grp then AsyncUpdate env (x_url extra) (g_id grp) u else Inr u)"

definition should_skip_group :: "bool \<Rightarrow> updater \<Rightarrow> int \<Rightarrow> bool" where
  "should_skip_group onlyAllowed u i =
     (case GetGroup i (up_manager u) of
        None \<Rightarrow> True
      | Some g \<Rightarrow>
          (let grp = m_gheap (up_manager u) g
           in \<not> g_is_subscription grp \<or> g_archive grp \<or> (onlyAllowed \<and> x_skip_auto_update (up_extra u (g_id grp)))))"

text \<open>\<open>serialUpdateSubscription\<close> on the groups from \<open>_order\<close> on. The groups to pass over after
  this one are looked up before its update starts.\<close>

function serialUpdateSubscription :: "sub_env \<Rightarrow> bool \<Rightarrow> int list \<Rightarrow> updater \<Rightarrow> failure + updater" where
  "serialUpdateSubscription env onlyAllowed [] u = Inr (u\<lparr>up_updating := False\<rparr>)"
| "serialUpdateSubscription env onlyAllowed (gid # order) u =
     (if should_skip_group onlyAllowed u gid then serialUpdateSubscription env onlyAllowed order u
      else let nextOrder = dropWhile (should_skip_group onlyAllowed u) order
           in case GetGroup gid (up_manager u) of
                None \<Rightarrow> Inl Undefined
              | Some g \<Rightarrow>
                  (case AsyncUpdateGroup env g (u\<lparr>up_updating := True\<rparr>) of
                     Inl e \<Rightarrow> Inl e
                   | Inr u \<Rightarrow> serialUpdateSubscription env onlyAllowed nextOrder u))"
  by pat_completeness auto
termination
  by (relation "measure (\<lambda>(env, b, order, u). length order)") (auto simp: le_imp_less_Suc length_dropWhile_le)

definition UI_update_all_groups :: "sub_env \<Rightarrow> bool \<Rightarrow> updater \<Rightarrow> failure + updater" where
  "UI_update_all_groups env onlyAllowed u =
     (if up_updating u then Inr u
      else serialUpdateSubscription env onlyAllowed (m_groupsTabOrder (up_manager u)) u)"

end
