(* ===== verification/Subscription_Props.thy ===== *)
theory Subscription_Props
  imports Subscription
begin

text \<open>
  What an update of a subscription does to the profiles of its group, when it ends in undefined
  behaviour, and which groups the update of all groups visits.
\<close>

section \<open>Settled profiles\<close>

text \<open>A member of the group \<open>gid\<close> whose record is stored and readable, and whose object, if one is in
  memory, is as stored.\<close>

definition saved :: "manager \<Rightarrow> int \<Rightarrow> entity" where
  "saved s i = (case tb_Proxies (m_tables s) i of Some e \<Rightarrow> e\<lparr>e_no_save := False\<rparr> | None \<Rightarrow> NewProxyEntity '''')"

definition settled_member :: "int \<Rightarrow> manager \<Rightarrow> int \<Rightarrow> bool" where
  "settled_member gid s i \<longleftrightarrow> tb_Proxies (m_tables s) i \<noteq> None \<and> isValid (saved s i) \<and> e_gid (saved s i) = gid
     \<and> (case m_cached_profiles s i of Some p \<Rightarrow> m_heap s p = saved s i | None \<Rightarrow> True)
     \<and> (case map_of (m_weak_profiles s) i of Some p \<Rightarrow> m_heap s p = saved s i | None \<Rightarrow> True)"

lemma isValid_no_save [simp]: "isValid (e\<lparr>e_no_save := b\<rparr>) = isValid e"
  by (simp add: isValid_def)

lemma settled_mono:
  assumes "settled_member gid s i" and "tb_Proxies (m_tables t) i = tb_Proxies (m_tables s) i"
    and "\<And>p. m_cached_profiles t i = Some p \<Longrightarrow> m_cached_profiles s i = Some p"
    and "\<And>p. map_of (m_weak_profiles t) i = Some p \<Longrightarrow> map_of (m_weak_profiles s) i = Some p"
    and "\<And>p. m_cached_profiles s i = Some p \<or> map_of (m_weak_profiles s) i = Some p \<Longrightarrow> m_heap t p = m_heap s p"
  shows "settled_member gid t i"
  using assms by (auto simp: settled_member_def saved_def split: option.splits)

lemma settled_id: "minv s \<Longrightarrow> settled_member gid s i \<Longrightarrow> e_id (saved s i) = i \<and> 0 \<le> i \<and> i \<le> m_max_profile_id s"
  by (auto simp: settled_member_def saved_def dest: stored_id)

lemma GetProfile_settled:
  assumes "minv s" and "settled_member gid s i"
  obtains t p where "GetProfile i s = (t, Some p)" "m_heap t p = saved s i" "p < m_next t"
proof (rule GetProfile_cases [OF assms(1), of i])
  fix p assume "m_cached_profiles s i = Some p" "GetProfile i s = (s, Some p)"
  with assms(2) cached_known [OF assms(1)] that [of s p] show thesis by (auto simp: settled_member_def known_def)
next
  fix p w assume "map_of (m_weak_profiles s) i = Some p" "GetProfile i s = (s\<lparr>m_weak_profiles := w\<rparr>, Some p)"
  with assms(2) weak_known [OF assms(1)] that show thesis by (auto simp: settled_member_def known_def)
next
  fix e assume "tb_Proxies (m_tables s) i = Some e"
    "GetProfile i s = (s\<lparr>m_heap := (m_heap s)(m_next s := e\<lparr>e_no_save := False\<rparr>), m_bean_alive := (m_bean_alive s)(m_next s := False),
       m_next := Suc (m_next s), m_weak_profiles := weak_insert i (m_next s) (m_weak_profiles s)\<rparr>, Some (m_next s))"
  with that show thesis by (auto simp: saved_def)
next
  assume "\<forall>e. tb_Proxies (m_tables s) i = Some e \<longrightarrow> \<not> isValid e"
  then show thesis using assms(2) by (auto simp: settled_member_def saved_def)
qed

lemma settled_GetProfile:
  assumes "minv s" and "settled_member gid s i"
  shows "settled_member gid (fst (GetProfile j s)) i"
  using assms(1)
proof (cases rule: GetProfile_cases [where i = j])
  case (weak p w)
  then show ?thesis by (intro settled_mono [OF assms(2)]) simp_all
next
  case (loaded e)
  let ?t = "fst (GetProfile j s)"
  have old: "m_heap ?t p = m_heap s p" if "m_cached_profiles s i = Some p \<or> map_of (m_weak_profiles s) i = Some p" for p
    using that cached_known [OF assms(1)] weak_known [OF assms(1)] loaded(3) by (auto simp: known_def)
  show ?thesis
  proof (cases "i = j")
    case True
    have "map_of (m_weak_profiles ?t) j = Some (m_next s)"
      using lru.get_put [OF weak_ok [OF assms(1)], of j "m_next s"] loaded(3) by (simp add: weak_insert_def)
    with loaded True assms(2) old show ?thesis by (auto simp: settled_member_def saved_def split: option.splits)
  next
    case False
    have "map_of (m_weak_profiles s) i = Some p" if "map_of (m_weak_profiles ?t) i = Some p" for p
      using lru.get_put_other [OF weak_ok [OF assms(1)], of i j "m_next s" p] that False loaded(3) by (simp add: weak_insert_def)
    with old loaded(3) show ?thesis by (intro settled_mono [OF assms(2)]) auto
  qed
qed (use assms(2) in simp_all)

section \<open>The keys of the members\<close>

abbreviation pkey :: "ptr \<Rightarrow> filter_key" where
  "pkey p \<equiv> bean_key (Some p)"

lemma saved_same: "m_tables t = m_tables s \<Longrightarrow> saved t i = saved s i"
  by (simp add: saved_def)

lemma member_keys_settled:
  assumes "minv s" and "\<forall>i\<in>set ids. settled_member gid s i"
  obtains t ps where "member_keys ids s = (t, map pkey ps)" "minv t" "same_but_lookup s t"
    "map (m_heap t) ps = map (saved s) ids" "\<forall>p\<in>set ps. p < m_next t" "\<forall>i. settled_member gid s i \<longrightarrow> settled_member gid t i"
  using assms
proof (induction ids arbitrary: s thesis)
  case (Cons i ids)
  obtain t p where g: "GetProfile i s = (t, Some p)" "m_heap t p = saved s i" "p < m_next t"
    by (rule GetProfile_settled [OF Cons.prems(2), of gid i]) (use Cons.prems(3) in auto)
  have t: "minv t" "same_but_lookup s t" "\<forall>j. settled_member gid s j \<longrightarrow> settled_member gid t j"
    using GetProfile_minv [OF Cons.prems(2), of i] GetProfile_same [OF Cons.prems(2), of i] settled_GetProfile [OF Cons.prems(2)] g(1)
    by (auto simp: prod_eq_iff)
  then have s: "\<forall>j\<in>set ids. settled_member gid t j" using Cons.prems(3) by simp
  show ?case
  proof (rule Cons.IH [OF _ t(1) s])
    fix u ps
    assume u: "member_keys ids t = (u, map pkey ps)" "minv u" "same_but_lookup t u" "map (m_heap u) ps = map (saved t) ids"
      "\<forall>p\<in>set ps. p < m_next u" "\<forall>i. settled_member gid t i \<longrightarrow> settled_member gid u i"
    have "m_heap u p = m_heap t p" "p < m_next u" using u(3) g(3) by (auto simp: same_but_lookup_def)
    moreover have "map (saved t) ids = map (saved s) ids" using t(2) by (intro map_cong refl saved_same) (simp add: same_but_lookup_def)
    ultimately show thesis using g u t by (intro Cons.prems(1) [of u "p # ps"]) (auto intro: same_trans)
  qed
qed (auto simp: same_but_lookup_def)

text \<open>The order of two keys depends on the profiles alone.\<close>

definition entity_less :: "(string \<Rightarrow> bytes) \<Rightarrow> entity \<Rightarrow> entity \<Rightarrow> bool" where
  "entity_less hsh a b = key_less hsh (\<lambda>p. if p = 0 then a else b) (pkey 0) (pkey 1)"

lemma entity_less: "key_less hsh h (pkey p) (pkey q) = entity_less hsh (h p) (h q)"
  by (simp add: entity_less_def key_less_def bean_key_def)

lemma weak_order_map: "weak_order_on lt (map f xs) = weak_order_on (\<lambda>a b. lt (f a) (f b)) xs"
  by (simp add: weak_order_on_def list_all_iff)

lemma keys_ok_map: "keys_ok lt (map f xs) (map f ys) = keys_ok (\<lambda>a b. lt (f a) (f b)) xs ys"
proof -
  have "weak_order_on lt (map f xs @ [f y]) = weak_order_on (\<lambda>a b. lt (f a) (f b)) (xs @ [y])" for y
    using weak_order_map [of lt f "xs @ [y]"] by simp
  then show ?thesis by (simp add: keys_ok_def list_all_iff weak_order_map)
qed

lemma keys_ok_entities:
  "keys_ok (key_less hsh h) (map pkey ps) (map pkey qs) = keys_ok (entity_less hsh) (map h ps) (map h qs)"
  unfolding keys_ok_map entity_less by simp

lemma ids_differ:
  assumes "(word_of_int (e_id (h p)) :: int32) \<noteq> word_of_int (e_id (h q))"
  shows "\<not> equivalent (key_less hsh h) (pkey p) (pkey q)"
  using assms entity_compare_zero [of hsh "h p" "h q"] entity_compare_swap [of hsh "h p" "h q"]
  by (auto simp: equivalent_def key_less_def bean_key_def)

lemma int32_eq:
  assumes "- 1 \<le> i" "i < 2147483648" "- 1 \<le> j" "j < 2147483648"
  shows "(word_of_int i :: int32) = word_of_int j \<longleftrightarrow> i = j"
proof
  assume "(word_of_int i :: int32) = word_of_int j"
  then have "4294967296 dvd i - j" by (simp add: word_of_int_eq_iff take_bit_eq_mod mod_eq_dvd_iff)
  with dvd_imp_le_int [of "i - j" 4294967296] have "i = j \<or> 4294967296 \<le> \<bar>i - j\<bar>" by auto
  with assms show "i = j" by linarith
qed simp

section \<open>The map of the members\<close>

text \<open>No key meets an equal one: the map lists the members, every profile read is new, and every
  member is dropped.\<close>

lemma map_find_none: "map_find lt k m = None \<longleftrightarrow> (\<forall>k'\<in>set (map fst m). \<not> equivalent lt k k')"
  by (auto simp: map_find_def find_None_iff)

lemma ignore_loop_fresh:
  assumes "sorted_wrt (\<lambda>a b. \<not> equivalent lt b a) (map fst m @ keys)"
  shows "ignore_loop lt h keys m d = Some (m @ map (\<lambda>k. (k, False)) keys, d)"
  using assms
proof (induction keys arbitrary: m)
  case (Cons k keys)
  then have "map_find lt k m = None" unfolding map_find_none by (simp add: sorted_wrt_append)
  then have "map_set lt k False m = m @ [(k, False)]" "map_find lt k m = None" by (simp_all add: map_set_def)
  with Cons.IH [of "m @ [(k, False)]"] Cons.prems show ?case by simp
qed simp

lemma AddProxy_fresh:
  assumes "\<forall>p\<in>set ps. map_find lt (pkey p) m = None"
  shows "foldl (\<lambda>acc p. AddProxy lt p acc) (m, qs) ps = (m, qs @ ps)"
  using assms by (induction ps arbitrary: qs) (simp_all add: AddProxy_def)

lemma insert_ordered_mset: "mset (insert_ordered lt x ys) = add_mset x (mset ys)"
  by (induction ys) auto

lemma foldl_insert_ordered_mset: "mset (foldl (\<lambda>m x. insert_ordered lt x m) ys xs) = mset xs + mset ys"
  by (induction xs arbitrary: ys) (simp_all add: insert_ordered_mset)

lemma drop_loop_all:
  assumes "\<forall>x\<in>set items. \<exists>p. x = (pkey p, False)"
  shows "drop_loop h items d = Some (d @ map (\<lambda>(k, _). e_id (h (the (k_key k)))) items)"
  using assms by (induction items arbitrary: d) (auto simp: bean_key_def)

lemma drop_members:
  "\<exists>d. drop_loop h (foldl (\<lambda>m x. insert_ordered lt x m) [] (map (\<lambda>p. (pkey p, False)) ps)) [] = Some d
     \<and> set d = (\<lambda>p. e_id (h p)) ` set ps"
proof -
  let ?items = "foldl (\<lambda>m x. insert_ordered lt x m) [] (map (\<lambda>p. (pkey p, False)) ps)"
  have s: "set ?items = (\<lambda>p. (pkey p, False)) ` set ps"
    using arg_cong [OF foldl_insert_ordered_mset [of lt "[]" "map (\<lambda>p. (pkey p, False)) ps"], of set_mset] by (simp del: foldl_map)
  have "drop_loop h ?items [] = Some ([] @ map (\<lambda>(k, _). e_id (h (the (k_key k)))) ?items)"
    by (rule drop_loop_all) (auto simp: s)
  moreover have "set (map (\<lambda>(k, _). e_id (h (the (k_key k)))) ?items) = (\<lambda>p. e_id (h p)) ` set ps"
    unfolding set_map s by (auto simp: bean_key_def image_image)
  ultimately show ?thesis by simp
qed

section \<open>The profiles that were read\<close>

lemma NewProfiles_result:
  assumes "minv s" and "\<forall>e\<in>set es. e_id e = -1"
  shows "\<exists>t. NewProfiles es s = (t, [m_next s..<m_next s + length es]) \<and> minv t \<and> same_but_lookup s t
    \<and> m_weak_profiles t = m_weak_profiles s \<and> map (m_heap t) [m_next s..<m_next s + length es] = es
    \<and> m_next t = m_next s + length es"
  using assms
proof (induction es arbitrary: s)
  case (Cons e es)
  let ?s = "s\<lparr>m_heap := (m_heap s)(m_next s := e), m_bean_alive := (m_bean_alive s)(m_next s := True), m_next := Suc (m_next s)\<rparr>"
  have "0 \<le> m_max_profile_id s" using Cons.prems(1) by (simp add: minv_defs)
  then have "minv ?s" using Cons.prems by (intro alloc_minv) auto
  with Cons.IH [of ?s] Cons.prems(2) obtain t where t: "NewProfiles es ?s = (t, [Suc (m_next s)..<Suc (m_next s) + length es])"
    "minv t" "same_but_lookup ?s t" "m_weak_profiles t = m_weak_profiles s" "map (m_heap t) [Suc (m_next s)..<Suc (m_next s) + length es] = es"
    "m_next t = Suc (m_next s) + length es" by auto
  have "m_heap t (m_next s) = e" using t(3) by (simp add: same_but_lookup_def)
  moreover have "[m_next s..<m_next s + length (e # es)] = m_next s # [Suc (m_next s)..<Suc (m_next s) + length es]"
    by (simp add: upt_conv_Cons del: upt_Suc)
  moreover have "same_but_lookup s t" using t(3) by (simp add: same_but_lookup_def)
  ultimately show ?case using t by (simp del: upt_Suc)
qed (simp add: same_but_lookup_def)

lemma settled_lookup_free:
  assumes "minv s" and "same_but_lookup s t" and "m_weak_profiles t = m_weak_profiles s" and "settled_member gid s i"
  shows "settled_member gid t i"
  using assms(2,3) cached_known [OF assms(1)] weak_known [OF assms(1)]
  by (intro settled_mono [OF assms(4)]) (auto simp: same_but_lookup_def known_def)

lemma settled_Group_Save: "settled_member gid s i \<Longrightarrow> settled_member gid (Group_Save g s) i"
  by (erule settled_mono) (simp_all add: Group_Save_def Let_def)

text \<open>Adding keeps the caches for the identifiers so far, and caches every new profile.\<close>

lemma add_one_caches:
  assumes "minv s" and "m_max_profile_id s < 2147483647"
  shows "m_cached_profiles (add_one gid g p s) = (m_cached_profiles s)(m_max_profile_id s + 1 \<mapsto> p)"
    and "m_weak_profiles (add_one gid g p s) = m_weak_profiles s"
    and "m_started_id (add_one gid g p s) = m_started_id s"
proof -
  have "m_cached_profiles s (m_max_profile_id s + 1) = None"
  proof (cases "m_cached_profiles s (m_max_profile_id s + 1)")
    case (Some q)
    with cached_known [OF assms(1) Some] heap_id [OF assms(1), of q] show ?thesis by (simp add: known_def)
  qed
  with assms next_id_plus [of "m_max_profile_id s"] show
    "m_cached_profiles (add_one gid g p s) = (m_cached_profiles s)(m_max_profile_id s + 1 \<mapsto> p)"
    "m_weak_profiles (add_one gid g p s) = m_weak_profiles s" "m_started_id (add_one gid g p s) = m_started_id s"
    by (simp_all add: add_one_def Let_def minv_defs CacheProfile_def set_group_def set_entity_def)
qed

lemma add_loop_caches:
  assumes "minv s" and "set ents \<subseteq> {..<m_next s}" and "m_max_profile_id s + int (length ents) < 2147483648"
    and "distinct ents" and "\<forall>p\<in>set ents. e_id (m_heap s p) < 0"
  shows "(\<forall>i \<le> m_max_profile_id s. m_cached_profiles (add_loop gid g ents s) i = m_cached_profiles s i)
    \<and> m_weak_profiles (add_loop gid g ents s) = m_weak_profiles s \<and> m_started_id (add_loop gid g ents s) = m_started_id s
    \<and> m_groups (add_loop gid g ents s) = m_groups s
    \<and> list_all2 (\<lambda>i p. m_cached_profiles (add_loop gid g ents s) i = Some p) (new_ids s (length ents)) ents"
  using assms
proof (induction ents arbitrary: s)
  case (Cons p ents)
  have p: "p < m_next s" "e_id (m_heap s p) < 0" and lim: "m_max_profile_id s < 2147483647" using Cons.prems by auto
  let ?s = "add_one gid g p s"
  note f = add_one_fields [OF Cons.prems(1) lim, of gid g p] and c = add_one_caches [OF Cons.prems(1) lim, of gid g p]
  have "minv ?s" using add_one_minv [OF Cons.prems(1) p(2,1) lim] .
  from Cons.IH [OF this] Cons.prems f
  have IH: "\<forall>i \<le> m_max_profile_id s + 1. m_cached_profiles (add_loop gid g ents ?s) i = m_cached_profiles ?s i"
    "m_weak_profiles (add_loop gid g ents ?s) = m_weak_profiles s" "m_started_id (add_loop gid g ents ?s) = m_started_id s"
    "m_groups (add_loop gid g ents ?s) = m_groups s"
    "list_all2 (\<lambda>i p. m_cached_profiles (add_loop gid g ents ?s) i = Some p) (new_ids ?s (length ents)) ents"
    using c by auto
  have "add_loop gid g (p # ents) s = add_loop gid g ents ?s" using p(2) by (simp add: add_loop_Cons)
  with IH f(1) c(1) show ?case by (simp add: new_ids_Suc del: upt_Suc)
qed simp

section \<open>Deleting members\<close>

lemma delete_one_settled:
  assumes "minv s" and "settled_member gid s i" and "GetGroup gid s = Some g"
  obtains t gs b where "delete_one (-1) i s = (t, gs, b)" "minv t" "m_groups t = m_groups s" "m_started_id t = m_started_id s"
    "g_profiles (m_gheap t g) = filter (\<lambda>j. j \<noteq> i \<or> j = m_started_id s) (g_profiles (m_gheap s g))"
    "\<forall>j. settled_member gid s j \<longrightarrow> settled_member gid t j" "\<forall>j. j \<noteq> i \<longrightarrow> m_cached_profiles t j = m_cached_profiles s j"
    "\<forall>p<m_next s. m_heap t p = m_heap s p" "m_next s \<le> m_next t"
proof (cases "m_started_id s = i")
  case True
  have "filter (\<lambda>j. j \<noteq> i \<or> j = m_started_id s) xs = xs" for xs using True by (induction xs) auto
  with True assms show thesis by (intro that [of s "[]" False]) (simp_all add: delete_one_def)
next
  case False
  obtain t p where g: "GetProfile i s = (t, Some p)" "m_heap t p = saved s i" "p < m_next t"
    by (rule GetProfile_settled [OF assms(1,2)])
  have t: "same_but_lookup s t" "minv t" "\<forall>j. settled_member gid s j \<longrightarrow> settled_member gid t j"
    using GetProfile_same [OF assms(1), of i] GetProfile_minv [OF assms(1), of i] settled_GetProfile [OF assms(1)] g(1)
    by (auto simp: prod_eq_iff)
  let ?u = "UncacheProfile i True (set_group g (fst \<circ> RemoveProfile i) t)"
  have gid: "e_gid (m_heap t p) = gid" "0 \<le> i" using g(2) assms(1,2) settled_id [OF assms(1,2)] by (simp_all add: settled_member_def)
  have "GetGroup gid t = Some g" using t(1) assms(3) by (simp add: GetGroup_def same_but_lookup_def)
  then have d: "delete_one (-1) i s = (?u, [g], True)" using g(1) gid False by (simp add: delete_one_def Let_def)
  have m: "m_cached_profiles ?u = (m_cached_profiles t)(i := None)" "map_of (m_weak_profiles ?u) = (map_of (m_weak_profiles t))(i := None)"
    by (simp_all add: UncacheProfile_def Let_def lru_drop_lookup fun_eq_iff)
  have "settled_member gid ?u j" if "settled_member gid t j" for j
    by (rule settled_mono [OF that]) (simp_all add: m split: if_splits)
  moreover have "g_profiles (m_gheap ?u g) = filter (\<lambda>j. j \<noteq> i \<or> j = m_started_id s) (g_profiles (m_gheap s g))"
    using False t(1) by (auto simp: RemoveProfile_def HasProfile_def same_but_lookup_def removeAll_filter_not_eq intro!: filter_cong)
      (metis (mono_tags, lifting) filter_True)
  ultimately show thesis using t d m
    by (intro that [of ?u "[g]" True]) (simp_all add: same_but_lookup_def UncacheProfile_minv Remove_minv)
qed

lemma delete_loop_settled:
  assumes "minv s" and "\<forall>i\<in>set ids. settled_member gid s i" and "GetGroup gid s = Some g"
  shows "g_profiles (m_gheap (fst (delete_loop (-1) ids s ch del)) g) = filter (\<lambda>j. j \<notin> set ids \<or> j = m_started_id s) (g_profiles (m_gheap s g))
    \<and> (\<forall>j. j \<notin> set ids \<longrightarrow> m_cached_profiles (fst (delete_loop (-1) ids s ch del)) j = m_cached_profiles s j)
    \<and> (\<forall>p<m_next s. m_heap (fst (delete_loop (-1) ids s ch del)) p = m_heap s p)"
  using assms
proof (induction ids arbitrary: s ch del)
  case (Cons i ids)
  have "settled_member gid s i" using Cons.prems(2) by simp
  then show ?case
  proof (rule delete_one_settled [OF Cons.prems(1) _ Cons.prems(3)])
    fix t gs b
    assume d: "delete_one (-1) i s = (t, gs, b)" "minv t" "m_groups t = m_groups s" "m_started_id t = m_started_id s"
      "g_profiles (m_gheap t g) = filter (\<lambda>j. j \<noteq> i \<or> j = m_started_id s) (g_profiles (m_gheap s g))"
      "\<forall>j. settled_member gid s j \<longrightarrow> settled_member gid t j" "\<forall>j. j \<noteq> i \<longrightarrow> m_cached_profiles t j = m_cached_profiles s j"
      "\<forall>p<m_next s. m_heap t p = m_heap s p" "m_next s \<le> m_next t"
    have "\<forall>i\<in>set ids. settled_member gid t i" "GetGroup gid t = Some g" using Cons.prems(2,3) d(3,6) by (simp_all add: GetGroup_def)
    note IH = Cons.IH [OF d(2) this, of "foldl (\<lambda>c g. List.insert g c) ch gs" "if b then List.insert i del else del", unfolded d(4,5) filter_filter]
    have "filter (\<lambda>x. (x \<noteq> i \<or> x = m_started_id s) \<and> (x \<notin> set ids \<or> x = m_started_id s)) xs
        = filter (\<lambda>j. j \<notin> set (i # ids) \<or> j = m_started_id s) xs" for xs
      by (rule filter_cong) auto
    with IH d(7-9) show ?case by (simp add: delete_loop_Cons d(1))
  qed
qed simp

section \<open>Processing what was read\<close>

lemma distinct_sorted_wrt: "distinct (map f xs) \<Longrightarrow> (\<And>x y. x \<in> set xs \<Longrightarrow> y \<in> set xs \<Longrightarrow> f x \<noteq> f y \<Longrightarrow> R x y) \<Longrightarrow> sorted_wrt R xs"
  by (induction xs) auto

lemma keys_fresh:
  assumes "distinct (map (\<lambda>p. e_id (h p)) ps)" and "\<forall>p\<in>set ps. 0 \<le> e_id (h p) \<and> e_id (h p) < 2147483648"
    and "\<forall>q\<in>set qs. e_id (h q) = -1"
  shows "ignore_loop (key_less hsh h) h (map pkey ps) [] [] = Some (map (\<lambda>p. (pkey p, False)) ps, [])"
    and "foldl (\<lambda>acc p. AddProxy (key_less hsh h) p acc) (map (\<lambda>p. (pkey p, False)) ps, []) qs = (map (\<lambda>p. (pkey p, False)) ps, qs)"
proof -
  let ?eq = "equivalent (key_less hsh h)"
  have "\<not> ?eq (pkey p) (pkey q)" if "p \<in> set ps \<union> set qs" "q \<in> set ps" "e_id (h p) \<noteq> e_id (h q)" for p q
    using that assms(2,3) int32_eq [of "e_id (h p)" "e_id (h q)"] by (intro ids_differ) fastforce
  then have "sorted_wrt (\<lambda>a b. \<not> ?eq b a) (map pkey ps)" "\<forall>q\<in>set qs. \<forall>p\<in>set ps. \<not> ?eq (pkey q) (pkey p)"
    using assms by (auto simp: sorted_wrt_map intro!: distinct_sorted_wrt [OF assms(1)])
  then show "ignore_loop (key_less hsh h) h (map pkey ps) [] [] = Some (map (\<lambda>p. (pkey p, False)) ps, [])"
    "foldl (\<lambda>acc p. AddProxy (key_less hsh h) p acc) (map (\<lambda>p. (pkey p, False)) ps, []) qs = (map (\<lambda>p. (pkey p, False)) ps, qs)"
    using ignore_loop_fresh [of "key_less hsh h" "[]" "map pkey ps" h "[]"]
      AddProxy_fresh [of qs "key_less hsh h" "map (\<lambda>p. (pkey p, False)) ps" "[]"]
    by (simp_all add: map_find_none comp_def)
qed

lemma drop_settled:
  assumes "minv s" and "\<forall>i\<in>set ids. settled_member gid s i" and "GetGroup gid s = Some g" and "set d = set ids"
    and "g_profiles (m_gheap s g) = ids @ new" and "set new \<inter> set ids = {}"
  defines "m \<equiv> BatchDeleteProfiles d (-1) s"
  shows "g_profiles (m_gheap m g) = filter (\<lambda>i. i = m_started_id s) ids @ new"
    and "\<forall>j. j \<notin> set ids \<longrightarrow> m_cached_profiles m j = m_cached_profiles s j" and "\<forall>p<m_next s. m_heap m p = m_heap s p"
    and "\<forall>i\<in>set ids. i \<noteq> m_started_id s \<longrightarrow> (let u = run_nth (length (m_jobs s)) m in tb_Proxies (m_tables u) i = None \<and> GetProfile i u = (u, None))"
proof -
  obtain t gs ds where l: "delete_loop (-1) d s [] [] = (t, gs, ds)" by (metis prod_cases3)
  have f: "m_gheap m = m_gheap t" "m_cached_profiles m = m_cached_profiles t" "m_heap m = m_heap t"
    by (simp_all add: m_def BatchDeleteProfiles_def l runOnNewThread_def)
  note r = delete_loop_settled [OF assms(1) _ assms(3), of d "[]" "[]", unfolded l fst_conv assms(4), OF assms(2)]
  have "filter (\<lambda>j. j \<notin> set ids \<or> j = m_started_id s) ids = filter (\<lambda>i. i = m_started_id s) ids" by (rule filter_cong) auto
  moreover have "filter (\<lambda>j. j \<notin> set ids \<or> j = m_started_id s) new = new" using assms(6) by (auto simp: filter_id_conv)
  ultimately show "g_profiles (m_gheap m g) = filter (\<lambda>i. i = m_started_id s) ids @ new" using r assms(5) f by simp
  show "\<forall>j. j \<notin> set ids \<longrightarrow> m_cached_profiles m j = m_cached_profiles s j" "\<forall>p<m_next s. m_heap m p = m_heap s p"
    using r f by simp_all
  have v: "\<exists>e. tb_Proxies (m_tables s) i = Some e \<and> isValid e" if "i \<in> set ids" for i
    using bspec [OF assms(2) that] by (auto simp: settled_member_def saved_def)
  show "\<forall>i\<in>set ids. i \<noteq> m_started_id s \<longrightarrow> (let u = run_nth (length (m_jobs s)) m in tb_Proxies (m_tables u) i = None \<and> GetProfile i u = (u, None))"
  proof (intro ballI impI)
    fix i assume i: "i \<in> set ids" "i \<noteq> m_started_id s"
    obtain e where "tb_Proxies (m_tables s) i = Some e \<and> isValid e" using v [OF i(1)] ..
    with i assms(4) conjunct2 [OF delete_effect [OF assms(1), of d], rule_format, of i e]
    show "let u = run_nth (length (m_jobs s)) m in tb_Proxies (m_tables u) i = None \<and> GetProfile i u = (u, None)"
      unfolding m_def Let_def by simp
  qed
qed

lemma map_eq_list_all2: "list_all2 (\<lambda>x y. f x = g y) xs ys \<Longrightarrow> map f xs = map g ys"
  by (simp only: list.rel_eq [symmetric] list_all2_map1 list_all2_map2)

text \<open>Adding new profiles: the members stay settled_member, the new ones are found under their identifiers.\<close>

lemma add_batch_settled:
  assumes inv: "minv t" and gid: "0 \<le> gid" "GetGroup gid t = Some g" and qs: "distinct qs" "set qs \<subseteq> {..<m_next t}"
    and bound: "m_max_profile_id t + int (length qs) < 2147483648" and neg: "\<forall>q\<in>set qs. e_id (m_heap t q) < 0"
  defines "s \<equiv> fst (AddProfileBatch qs gid t)"
  shows "minv s" and "m_started_id s = m_started_id t" and "m_tables s = m_tables t" and "m_next s = m_next t"
    and "length (m_jobs s) = Suc (length (m_jobs t))" and "GetGroup gid s = Some g"
    and "g_profiles (m_gheap s g) = g_profiles (m_gheap t g) @ new_ids t (length qs)"
    and "0 \<le> e_id (m_heap t p) \<Longrightarrow> m_heap s p = m_heap t p" and "settled_member gid t i \<Longrightarrow> settled_member gid s i"
    and "list_all2 (\<lambda>i q. m_cached_profiles s i = Some q) (new_ids t (length qs)) qs"
    and "map (m_heap s) qs = map2 (\<lambda>p i. (m_heap t p)\<lparr>e_gid := gid, e_id := i\<rparr>) qs (new_ids t (length qs))"
proof -
  let ?l = "add_loop gid g qs t"
  note add = add_loop_minv [OF inv qs(2) bound, of gid g] and res = add_loop_result [OF inv qs(2) bound qs(1) neg, of gid g]
    and cache = add_loop_caches [OF inv qs(2) bound qs(1) neg, of gid g]
  have s: "s = runOnNewThread (Save_profiles g qs) ?l" using gid by (simp add: s_def AddProfileBatch_def)
  show "minv s" unfolding s_def by (rule AddProfileBatch_minv [OF inv qs(2) bound])
  show f: "m_started_id s = m_started_id t" "m_tables s = m_tables t" "m_next s = m_next t" "length (m_jobs s) = Suc (length (m_jobs t))"
    "GetGroup gid s = Some g" "g_profiles (m_gheap s g) = g_profiles (m_gheap t g) @ new_ids t (length qs)"
    using add cache res gid(2) by (simp_all add: s runOnNewThread_def GetGroup_def)
  show "list_all2 (\<lambda>i q. m_cached_profiles s i = Some q) (new_ids t (length qs)) qs"
    "map (m_heap s) qs = map2 (\<lambda>p i. (m_heap t p)\<lparr>e_gid := gid, e_id := i\<rparr>) qs (new_ids t (length qs))"
    using cache res by (simp_all add: s runOnNewThread_def)
  have keep: "m_heap s p = m_heap t p" if "0 \<le> e_id (m_heap t p)" for p using add that by (simp add: s runOnNewThread_def)
  then show "0 \<le> e_id (m_heap t p) \<Longrightarrow> m_heap s p = m_heap t p" .
  assume st: "settled_member gid t i"
  show "settled_member gid s i"
  proof (rule settled_mono [OF st])
    show "tb_Proxies (m_tables s) i = tb_Proxies (m_tables t) i" by (simp add: f)
    show "m_cached_profiles t i = Some p" if "m_cached_profiles s i = Some p" for p
      using cache that settled_id [OF inv st] by (simp add: s runOnNewThread_def)
    show "map_of (m_weak_profiles t) i = Some p" if "map_of (m_weak_profiles s) i = Some p" for p
      using cache that by (simp add: s runOnNewThread_def)
    show "m_heap s p = m_heap t p" if "m_cached_profiles t i = Some p \<or> map_of (m_weak_profiles t) i = Some p" for p
      using that cached_known [OF inv, of i p] weak_known [OF inv, of i p] by (intro keep) (auto simp: known_def)
  qed
qed

lemma process_content_settled:
  assumes inv: "minv s" and gid: "0 \<le> gid" "GetGroup gid s = Some g" and read: "RawUpdater_update (v_readers env) content = Some es"
    and es: "\<forall>e\<in>set es. e_id e = -1 \<and> \<not> e_no_save e" and ids: "g_profiles (m_gheap s g) = ids" "\<forall>i\<in>set ids. settled_member gid s i"
    and ps: "map (m_heap s) ps = map (saved s) ids" "\<forall>p\<in>set ps. p < m_next s"
    and order: "keys_ok (entity_less (v_hash env)) (map (saved s) ids) es"
    and bound: "m_max_profile_id s + int (length es) < 2147483648"
  shows "\<exists>m qs. process_content env content gid (map pkey ps) s = Inr (m, qs)
    \<and> g_profiles (m_gheap m g) = filter (\<lambda>i. i = m_started_id s) ids @ new_ids s (length es)
    \<and> (\<forall>i\<in>set ids. i \<noteq> m_started_id s \<longrightarrow>
        (let w = run_nth (Suc (length (m_jobs s))) m in tb_Proxies (m_tables w) i = None \<and> GetProfile i w = (w, None)))
    \<and> map (\<lambda>i. map_option (m_heap m) (snd (GetProfile i m))) (new_ids s (length es))
      = map2 (\<lambda>e i. Some (e\<lparr>e_gid := gid, e_id := i\<rparr>)) es (new_ids s (length es))"
proof -
  obtain t where t: "NewProfiles es s = (t, [m_next s..<m_next s + length es])" "minv t" "same_but_lookup s t"
    "m_weak_profiles t = m_weak_profiles s" "map (m_heap t) [m_next s..<m_next s + length es] = es" "m_next t = m_next s + length es"
    using NewProfiles_result [OF inv, of es] es by auto
  define qs where "qs = [m_next s..<m_next s + length es]"
  have qs: "distinct qs" "set qs \<subseteq> {..<m_next t}" "length qs = length es" "map (m_heap t) qs = es" "\<forall>q\<in>set qs. m_next s \<le> q"
    using t(5,6) by (auto simp: qs_def)
  have qh: "\<forall>q\<in>set qs. e_id (m_heap t q) = -1 \<and> \<not> e_no_save (m_heap t q)" using es qs(4) by (metis imageI list.set_map)
  have same: "m_gheap t = m_gheap s" "m_groups t = m_groups s" "m_jobs t = m_jobs s" "m_max_profile_id t = m_max_profile_id s"
    "m_started_id t = m_started_id s" "\<forall>p<m_next s. m_heap t p = m_heap s p" "m_tables t = m_tables s"
    using t(3) by (auto simp: same_but_lookup_def)
  have hp: "map (m_heap t) ps = map (saved s) ids" using ps same(6) by (metis (no_types, lifting) map_eq_conv)
  have sid: "e_id (saved s i) = i" "0 \<le> i" "i \<le> m_max_profile_id s" if "i \<in> set ids" for i
    using settled_id [OF inv] ids(2) that by auto
  have pid: "map (\<lambda>p. e_id (m_heap t p)) ps = ids"
    using arg_cong [OF hp, of "map e_id"] sid(1) by (simp add: comp_def map_idI cong: map_cong)
  have dist: "distinct ids" using group_members [OF inv, of g] ids(1) by (simp add: members_ok_def)
  have pok: "\<forall>p\<in>set ps. 0 \<le> e_id (m_heap t p) \<and> e_id (m_heap t p) < 2147483648"
    using sid(2,3) pid bound by (metis (no_types, lifting) imageI le_less_trans list.set_map of_nat_0_le_iff add_increasing2 order_refl)
  let ?lt = "key_less (v_hash env) (m_heap t)"
  have ok: "keys_ok ?lt (map pkey ps) (map (\<lambda>p. pkey p) qs)"
    using order unfolding keys_ok_entities hp qs(4) .
  note fresh = keys_fresh [of "m_heap t" ps qs "v_hash env", unfolded pid, OF dist pok]
  have tb: "GetGroup gid t = Some g" "m_max_profile_id t + int (length qs) < 2147483648" "\<forall>q\<in>set qs. e_id (m_heap t q) < 0"
    using gid(2) bound same(2,4) qs(3) qh by (auto simp: GetGroup_def)
  define s4 where "s4 = fst (AddProfileBatch qs gid t)"
  note add = add_batch_settled [OF t(2) gid(1) tb(1) qs(1,2) tb(2,3), folded s4_def, unfolded same(1,4) qs(3) ids(1)]
  have settled4: "settled_member gid s4 i" if "i \<in> set ids" for i
    using settled_lookup_free [OF inv t(3,4)] ids(2) that by (intro add(9)) simp
  obtain d where d: "drop_loop (m_heap s4) (foldl (\<lambda>m x. insert_ordered ?lt x m) [] (map (\<lambda>p. (pkey p, False)) ps)) [] = Some d"
    "set d = (\<lambda>p. e_id (m_heap s4 p)) ` set ps" using drop_members by blast
  have "(\<lambda>p. e_id (m_heap s4 p)) ` set ps = (\<lambda>p. e_id (m_heap t p)) ` set ps" using add(8) pok by (intro image_cong) auto
  then have sd: "set d = set ids" using d(2) arg_cong [OF pid, of set] by simp
  have new: "set (new_ids s (length es)) \<inter> set ids = {}" using sid(3) by fastforce
  let ?m = "BatchDeleteProfiles d (-1) s4"
  note drop = drop_settled [OF add(1) _ add(6) sd add(7) new]
  have p: "process_content env content gid (map pkey ps) s = Inr (?m, qs)"
    using ok fresh pok qh d(1) by (simp add: process_content_def read t(1) [folded qs_def] Let_def flip: s4_def)
  have known: "map_option (m_heap ?m) (snd (GetProfile i ?m)) = Some (m_heap s4 q)"
    if "m_cached_profiles s4 i = Some q" "i \<in> set (new_ids s (length es))" "q \<in> set qs" for i q
  proof -
    have "i \<notin> set ids" using new that(2) by blast
    then have "m_cached_profiles ?m i = Some q" using drop(2) settled4 that(1) by simp
    moreover have "m_heap ?m q = m_heap s4 q" using drop(3) settled4 that(3) qs(2) add(4) by auto
    ultimately show ?thesis by (simp add: GetProfile_def)
  qed
  have "map (\<lambda>i. map_option (m_heap ?m) (snd (GetProfile i ?m))) (new_ids s (length es)) = map (\<lambda>q. Some (m_heap s4 q)) qs"
    by (rule map_eq_list_all2, rule list.rel_mono_strong [OF add(10)]) (rule known)
  also have "\<dots> = map2 (\<lambda>e i. Some (e\<lparr>e_gid := gid, e_id := i\<rparr>)) es (new_ids s (length es))"
    using arg_cong [OF add(11), of "map Some"] by (simp add: comp_def case_prod_beta zip_map1 flip: qs(4))
  finally have new_eq: "map (\<lambda>i. map_option (m_heap ?m) (snd (GetProfile i ?m))) (new_ids s (length es)) = \<dots>" .
  show ?thesis
    using p drop(1,4) settled4 new_eq add(2,5) same(3,5) by (intro exI [of _ ?m] exI [of _ qs]) simp
qed

section \<open>Updating a group\<close>

lemma Update_group:
  assumes "0 \<le> gid" and "GetGroup gid (up_manager u) = Some g" and "\<not> g_archive (m_gheap (up_manager u) g)"
    and "\<not> prefix ''happ://'' (trimmed url)" and "p_error (v_get env (trimmed url)) = ''''"
  shows "Update env url gid False False u =
    update_group env (p_data (v_get env (trimmed url))) (p_user_info (v_get env (trimmed url))) gid g (u\<lparr>up_imported_count := 0\<rparr>)"
  using assms by (simp add: Update_def request_content_def archived_def apply_content_def name_group_def Let_def)

lemma same_Group_Save: "same_but_lookup s t \<Longrightarrow> m_heap (Group_Save g t) = m_heap t \<and> m_gheap (Group_Save g t) = m_gheap s
    \<and> m_groups (Group_Save g t) = m_groups s \<and> m_jobs (Group_Save g t) = m_jobs s \<and> m_next (Group_Save g t) = m_next t
    \<and> m_max_profile_id (Group_Save g t) = m_max_profile_id s \<and> m_started_id (Group_Save g t) = m_started_id s
    \<and> saved (Group_Save g t) = saved s"
  by (simp add: same_but_lookup_def Group_Save_def Let_def saved_def fun_eq_iff)

text \<open>C12. An update keeps no profile of its group: whatever was read, also the very servers the group has,
  every member is dropped and every profile read is added anew, because the keys compare the
  identifiers too. Only the running profile stays in the group, and nothing else is left of it when
  the answer holds no server. This is the update that compares: the user has not chosen to clear
  first and the group has at most 1000 members; the next property is the other case. The other conditions: the group is not archived, the address is
  not a \<open>happ\<close> link, the server answers without an error, the readers return new profiles, each member
  has a readable record of this group that its object in memory agrees with, the keys compared are
  ordered (\<open>keys_ok\<close>; without this the map itself is undefined), and the identifiers stay within
  32 bits.\<close>

theorem update_replaces_all:
  assumes "reachable (up_manager u)" and "0 \<le> gid" and "GetGroup gid (up_manager u) = Some g"
    and "\<not> g_archive (m_gheap (up_manager u) g)" and "\<not> v_sub_clear env"
    and "\<not> prefix ''happ://'' (trimmed url)" and "p_error (v_get env (trimmed url)) = ''''"
    and "RawUpdater_update (v_readers env) (p_data (v_get env (trimmed url))) = Some es"
    and "list_all (\<lambda>e. e_id e = -1 \<and> \<not> e_no_save e) es"
    and "g_profiles (m_gheap (up_manager u) g) = ids" and "length ids \<le> 1000" and "list_all (settled_member gid (up_manager u)) ids"
    and "keys_ok (entity_less (v_hash env)) (map (saved (up_manager u)) ids) es"
    and "m_max_profile_id (up_manager u) + int (length es) < 2147483648"
  shows "\<exists>m u'. Update env url gid False False u = Inr u' \<and> up_manager u' = v_PreFinishJob env g m
    \<and> g_profiles (m_gheap m g) = filter (\<lambda>i. i = m_started_id (up_manager u)) ids @ new_ids (up_manager u) (length es)
    \<and> list_all (\<lambda>i. i \<noteq> m_started_id (up_manager u) \<longrightarrow>
        (let w = run_nth (Suc (length (m_jobs (up_manager u)))) m in tb_Proxies (m_tables w) i = None \<and> GetProfile i w = (w, None))) ids
    \<and> map (\<lambda>i. map_option (m_heap m) (snd (GetProfile i m))) (new_ids (up_manager u) (length es))
      = map2 (\<lambda>e i. Some (e\<lparr>e_gid := gid, e_id := i\<rparr>)) es (new_ids (up_manager u) (length es))"
proof -
  let ?s = "up_manager u"
  have inv: "minv ?s" using assms(1) by (rule reachable_minv)
  have "\<forall>i\<in>set ids. settled_member gid ?s i" using assms(12) by (simp add: list_all_iff)
  then show ?thesis
  proof (rule member_keys_settled [OF inv])
    fix t ps
    assume t: "member_keys ids ?s = (t, map pkey ps)" "minv t" "same_but_lookup ?s t" "map (m_heap t) ps = map (saved ?s) ids"
      "\<forall>p\<in>set ps. p < m_next t" "\<forall>i. settled_member gid ?s i \<longrightarrow> settled_member gid t i"
    note f = same_Group_Save [OF t(3), of g]
    have k: "old_keys env g ?s = (Group_Save g t, map pkey ps)"
      using t(1) assms(5,10,11) by (simp add: old_keys_def)
    have "GetGroup gid (Group_Save g t) = Some g" using assms(3) f by (simp add: GetGroup_def)
    from process_content_settled [OF Group_Save_minv [OF t(2)] assms(2) this assms(8), of ids ps] f t(4,5,6) assms(9,10,12,13,14)
    show ?thesis
      by (auto simp: Update_group [OF assms(2-4,6,7)] update_group_def k list_all_iff settled_Group_Save)
  qed
qed

text \<open>A server that answers with one link, which is the profile that is stored already.\<close>

definition answer_env :: sub_env where
  "answer_env = \<lparr> v_hash = (\<lambda>_. []), v_readers = no_reader\<lparr>r_parse_link := (\<lambda>ent _. Some ent)\<rparr>,
     v_get = (\<lambda>_. \<lparr> p_error = '''', p_data = ''vmess://a'', p_user_info = '''', p_title = '''' \<rparr>), v_host = (\<lambda>_. ''''), v_now = 0,
     v_sub_clear = False, v_ask = (\<lambda>_. ('''', False, False)), v_script = None, v_PreFinishJob = (\<lambda>_ s. s) \<rparr>"

definition sample_updater :: updater where
  "sample_updater = \<lparr> up_manager = sample, up_extra = (\<lambda>_. \<lparr> x_url = ''http://s'', x_info = '''', x_sub_last_update = 0,
       x_skip_auto_update = False, x_enable_custom_payload = False, x_javascript_payload = '''' \<rparr>),
     up_imported_count = 0, up_updating = False \<rparr>"

lemma sample_read: "RawUpdater_update (v_readers answer_env) ''vmess://a'' = Some [NewProxyEntity ''vmess'']"
proof -
  have "read_text (v_readers answer_env) ''vmess://a'' = ([], [NewProxyEntity ''vmess''])" by code_simp
  then show ?thesis by (simp add: RawUpdater_update_def read_loop_simps(2))
qed

lemma sample_members:
  "GetGroup 1 sample = Some 0" "g_profiles (m_gheap sample 0) = [4]" "g_archive (m_gheap sample 0) = False"
  "saved sample 4 = sample_profile" "settled_member 1 sample 4" "m_max_profile_id sample = 4" "m_started_id sample = -1919" "m_jobs sample = []"
  by (simp_all add: sample_value blank_def GetGroup_def NewGroup_def settled_member_def saved_def sample_tables_def empty_tables_def
      sample_profile_def NewProxyEntity_def isValid_def OutboundTypes_def)

lemma sample_order: "keys_ok (entity_less (\<lambda>_. [])) [sample_profile] [NewProxyEntity ''vmess'']"
proof -
  have c: "entity_compare (\<lambda>_. []) sample_profile (NewProxyEntity ''vmess'') = 1"
    "entity_compare (\<lambda>_. []) sample_profile sample_profile = 0"
    "entity_compare (\<lambda>_. []) (NewProxyEntity ''vmess'') (NewProxyEntity ''vmess'') = 0"
    by code_simp+
  have "entity_compare (\<lambda>_. []) (NewProxyEntity ''vmess'') sample_profile = -1"
    using entity_compare_swap [of "\<lambda>_. []" "NewProxyEntity ''vmess''" sample_profile] c(1) by simp
  with c show ?thesis
    by (simp add: keys_ok_def weak_order_on_def entity_less_def key_less_def bean_key_def) (simp add: sample_profile_def NewProxyEntity_def)
qed

theorem update_replaces_all_witness:
  "map_sum id (\<lambda>u. g_profiles (m_gheap (up_manager u) 0)) (Update answer_env ''http://s'' 1 False False sample_updater) = Inr [5]"
proof -
  have e: "v_get answer_env (trimmed ''http://s'') = \<lparr> p_error = '''', p_data = ''vmess://a'', p_user_info = '''', p_title = '''' \<rparr>"
    "\<not> prefix ''happ://'' (trimmed ''http://s'')" "\<not> v_sub_clear answer_env" "v_PreFinishJob answer_env = (\<lambda>_ s. s)" "v_hash answer_env = (\<lambda>_. [])"
    by (simp_all add: answer_env_def trimmed_def trim_with_def qt_space_def)
  have u: "up_manager sample_updater = sample" by (simp add: sample_updater_def)
  have new: "e_id (NewProxyEntity ''vmess'') = -1" "\<not> e_no_save (NewProxyEntity ''vmess'')" by (simp_all add: NewProxyEntity_def)
  show ?thesis
    using update_replaces_all [of sample_updater 1 0 answer_env "''http://s''" "[NewProxyEntity ''vmess'']" "[4]", unfolded u] sample_reachable
    by (auto simp: e sample_members sample_read sample_order new)
qed

section \<open>An update that clears its group first\<close>








section \<open>A member without a record\<close>

lemma null_key: "equivalent (key_less hsh h) (bean_key None) k \<longleftrightarrow> k_key k = None"
  "equivalent (key_less hsh h) k (bean_key None) \<longleftrightarrow> k_key k = None"
  by (auto simp: equivalent_def key_less_def bean_key_def split: option.splits)

lemma ignore_loop_null:
  assumes "bean_key None \<in> set keys \<or> (bean_key None, False) \<in> set m"
    and "ignore_loop (key_less hsh h) h keys m d = Some (m', d')"
  shows "(bean_key None, False) \<in> set m'"
  using assms
proof (induction keys arbitrary: m d)
  case (Cons k keys)
  let ?lt = "key_less hsh h"
  have kept: "(bean_key None, False) \<in> set (map_set ?lt k False m)" if "(bean_key None, False) \<in> set m"
    using that by (force simp: map_set_def split: if_splits)
  show ?case
  proof (cases "map_find ?lt k m")
    case None
    then have "map_set ?lt k False m = m @ [(k, False)]" by (simp add: map_set_def)
    with Cons.prems None show ?thesis by (intro Cons.IH [of "map_set ?lt k False m" d]) auto
  next
    case (Some v)
    then obtain p where "k_key k = Some p" "ignore_loop ?lt h keys (map_set ?lt k False m) (d @ [e_id (h p)]) = Some (m', d')"
      using Cons.prems(2) by (auto split: option.splits)
    with Cons.prems(1) kept show ?thesis by (intro Cons.IH [of "map_set ?lt k False m"]) (auto simp: bean_key_def)
  qed
qed simp

lemma AddProxy_null:
  "(bean_key None, False) \<in> set (fst (foldl (\<lambda>acc p. AddProxy (key_less hsh h) p acc) (m, qs) ps))" if "(bean_key None, False) \<in> set m"
  using that
proof (induction ps arbitrary: m qs)
  case (Cons p ps)
  have "(bean_key None, False) \<in> set (map_set (key_less hsh h) (pkey p) True m)"
    using Cons.prems null_key [of hsh h "pkey p"] by (force simp: map_set_def bean_key_def split: if_splits)
  with Cons show ?case by (simp add: AddProxy_def)
qed simp

lemma drop_loop_null: "(bean_key None, False) \<in> set items \<Longrightarrow> drop_loop h items d = None"
  by (induction items arbitrary: d) (auto simp: bean_key_def split: option.split)

lemma process_content_null:
  assumes "bean_key None \<in> set keys" and "RawUpdater_update (v_readers env) content = Some es"
  shows "process_content env content gid keys s = Inl Undefined"
proof -
  obtain t ps where t: "NewProfiles es s = (t, ps)" by force
  let ?lt = "key_less (v_hash env) (m_heap t)"
  show ?thesis
  proof (cases "ignore_loop ?lt (m_heap t) keys [] []")
    case (Some r)
    obtain m d where r: "r = (m, d)" by force
    obtain m' qs where f: "foldl (\<lambda>acc p. AddProxy ?lt p acc) (m, []) ps = (m', qs)" by force
    have "(bean_key None, False) \<in> set m'"
      using AddProxy_null [of m "v_hash env" "m_heap t" "[]" ps] ignore_loop_null [of keys "[]"] assms(1) Some r f by simp
    then have "(bean_key None, False) \<in> set (foldl (\<lambda>m x. insert_ordered ?lt x m) [] m')"
      using arg_cong [OF foldl_insert_ordered_mset [of ?lt "[]" m'], of set_mset] by simp
    then have "drop_loop h (foldl (\<lambda>m x. insert_ordered ?lt x m) [] m') d = None" for h by (rule drop_loop_null)
    with Some t r f assms(2) show ?thesis by (simp add: process_content_def Let_def)
  qed (use t assms(2) in \<open>simp add: process_content_def Let_def\<close>)
qed

lemma member_keys_null:
  assumes "minv s" and "i \<in> set ids" and "forgotten s i" and "\<forall>e. tb_Proxies (m_tables s) i = Some e \<longrightarrow> \<not> isValid e"
  shows "bean_key None \<in> set (snd (member_keys ids s))"
  using assms
proof (induction ids arbitrary: s)
  case (Cons j ids)
  obtain t r where g: "GetProfile j s = (t, r)" by force
  show ?case
  proof (cases "j = i")
    case True
    have "r = None" using Cons.prems(1)
      by (cases rule: GetProfile_cases [where i = i]) (use Cons.prems(3,4) g True in \<open>auto simp: forgotten_def\<close>)
    with g show ?thesis by (simp split: prod.split)
  next
    case False
    have "minv t" "forgotten t i" "m_tables t = m_tables s"
      using GetProfile_minv [OF Cons.prems(1), of j] GetProfile_same [OF Cons.prems(1), of j] GetProfile_forgets [OF Cons.prems(1,3) False] g
      by (auto simp: same_but_lookup_def)
    with Cons.IH [of t] Cons.prems(2,4) False g show ?thesis by (auto split: prod.splits)
  qed
qed simp

text \<open>C14. When a group lists a profile whose record is gone and that no cache holds, an update that
  compares ends in undefined behaviour (a null pointer, or a map whose order is none), whatever
  servers the answer holds, an empty list among them. The update compares when the user has not chosen to clear first and the
  group has at most 1000 members; the group is not archived, the address is not a \<open>happ\<close> link, and
  the server answers without an error and with a text whose reading ends. Otherwise the members are not read.\<close>

theorem missing_member_undefined:
  assumes "reachable (up_manager u)" and "0 \<le> gid" and "GetGroup gid (up_manager u) = Some g"
    and "\<not> g_archive (m_gheap (up_manager u) g)" and "\<not> v_sub_clear env"
    and "\<not> prefix ''happ://'' (trimmed url)" and "p_error (v_get env (trimmed url)) = ''''"
    and "RawUpdater_update (v_readers env) (p_data (v_get env (trimmed url))) = Some es"
    and "length (g_profiles (m_gheap (up_manager u) g)) \<le> 1000" and "i \<in> set (g_profiles (m_gheap (up_manager u) g))"
    and "m_cached_profiles (up_manager u) i = None" and "map_of (m_weak_profiles (up_manager u)) i = None"
    and "tb_Proxies (m_tables (up_manager u)) i = None"
  shows "Update env url gid False False u = Inl Undefined"
proof -
  obtain t keys where k: "member_keys (g_profiles (m_gheap (up_manager u) g)) (up_manager u) = (t, keys)" by force
  have "bean_key None \<in> set keys"
    using member_keys_null [OF reachable_minv [OF assms(1)] assms(10)] k assms(11-13) by (simp add: forgotten_def)
  then have "process_content env content gid keys s = Inl Undefined" if "RawUpdater_update (v_readers env) content = Some es" for content s
    using that by (rule process_content_null)
  with k assms(5,8,9) show ?thesis by (simp add: Update_group [OF assms(2-4,6,7)] update_group_def old_keys_def Let_def)
qed

definition lost_tables :: tables where
  "lost_tables = empty_tables\<lparr>tb_Proxies := [5 \<mapsto> sample_profile\<lparr>e_id := 5\<rparr>],
     tb_Groups := [1 \<mapsto> NewGroup\<lparr>g_id := 1, g_is_subscription := True, g_profiles := [4]\<rparr>]\<rparr>"

definition lost_updater :: updater where
  "lost_updater = sample_updater\<lparr>up_manager := LoadManager ''Default'' [] [5] [1] (blank lost_tables)\<rparr>"

lemma lost_reachable: "reachable (up_manager lost_updater)"
proof -
  have "start_state [] [5] [1] (blank lost_tables)"
    by (auto simp: start_state_def blank_def lost_tables_def sample_profile_def empty_tables_def NewProxyEntity_def NewGroup_def
        members_ok_def highest_def split: if_splits)
  then show ?thesis unfolding lost_updater_def by (simp add: reachable.start)
qed

lemma lost_value:
  "up_manager lost_updater = (blank lost_tables)\<lparr>m_gheap := (\<lambda>_. NewGroup)(0 := NewGroup\<lparr>g_id := 1, g_is_subscription := True, g_profiles := [4]\<rparr>),
     m_gnext := 1, m_groups := [(1, 0)], m_groupsTabOrder := [1], m_max_profile_id := 5, m_max_group_id := 1\<rparr>"
  by (simp add: lost_updater_def LoadManager_def blank_def lost_tables_def empty_tables_def LoadGroup_def NewGroup_def Let_def)

theorem missing_member_undefined_witness: "Update answer_env ''http://s'' 1 False False lost_updater = Inl Undefined"
proof -
  have e: "v_get answer_env (trimmed ''http://s'') = \<lparr> p_error = '''', p_data = ''vmess://a'', p_user_info = '''', p_title = '''' \<rparr>"
    "\<not> prefix ''happ://'' (trimmed ''http://s'')" "\<not> v_sub_clear answer_env"
    by (simp_all add: answer_env_def trimmed_def trim_with_def qt_space_def)
  show ?thesis
    using missing_member_undefined [of lost_updater 1 0 answer_env "''http://s''" "[NewProxyEntity ''vmess'']" 4] lost_reachable
    by (simp add: e sample_read) (simp add: lost_value blank_def lost_tables_def empty_tables_def GetGroup_def NewGroup_def)
qed

section \<open>Updating all groups\<close>

text \<open>What an update never changes: which groups there are, which of them are subscriptions, archived
  or left out of automatic updates.\<close>

definition flags :: "manager \<Rightarrow> (int \<times> gptr) list \<times> (gptr \<Rightarrow> int \<times> bool \<times> bool)" where
  "flags s = (m_groups s, \<lambda>g. (g_id (m_gheap s g), g_is_subscription (m_gheap s g), g_archive (m_gheap s g)))"

definition same_skips :: "updater \<Rightarrow> updater \<Rightarrow> bool" where
  "same_skips u u' \<longleftrightarrow> flags (up_manager u') = flags (up_manager u)
     \<and> (\<forall>i. x_skip_auto_update (up_extra u' i) = x_skip_auto_update (up_extra u i))"

lemma flags_set_group:
  "(\<And>x. g_id (f x) = g_id x \<and> g_is_subscription (f x) = g_is_subscription x \<and> g_archive (f x) = g_archive x) \<Longrightarrow>
    flags (set_group g f s) = flags s"
  by (auto simp: flags_def fun_eq_iff)

lemma flags_more [simp]:
  "flags (UncacheProfile i b s) = flags s" "flags (Group_Save g s) = flags s" "flags (runOnNewThread j s) = flags s"
  "flags (CacheProfile p s) = flags s" "flags (set_entity p h s) = flags s" "flags (s\<lparr>m_max_profile_id := k\<rparr>) = flags s"
  "flags (s\<lparr>m_heap := hp, m_bean_alive := al, m_next := nx\<rparr>) = flags s"
  by (simp_all add: flags_def UncacheProfile_def Group_Save_def runOnNewThread_def CacheProfile_def set_entity_def Let_def)

lemma flags_Remove [simp]: "flags (set_group g (fst \<circ> RemoveProfile i) s) = flags s"
  by (rule flags_set_group) (simp add: RemoveProfile_def)

lemma flags_GetProfile [simp]: "flags (fst (GetProfile i s)) = flags s"
  by (auto simp: GetProfile_def flags_def Let_def split: option.split prod.split)

lemma flags_member_keys [simp]: "flags (fst (member_keys ids s)) = flags s"
proof (induction ids arbitrary: s)
  case (Cons i ids)
  obtain t r where g: "GetProfile i s = (t, r)" by force
  then have "flags t = flags s" using flags_GetProfile [of i s] by simp
  with Cons [of t] g show ?case by (simp split: prod.split) (metis fst_conv)
qed simp

lemma flags_delete_loop [simp]: "flags (fst (delete_loop groupid ids s ch del)) = flags s"
proof (induction ids arbitrary: s ch del)
  case (Cons i ids)
  obtain t gs b where d: "delete_one groupid i s = (t, gs, b)" by (metis prod_cases3)
  obtain s1 r where g: "GetProfile i s = (s1, r)" by force
  then have "flags s1 = flags s" using flags_GetProfile [of i s] by simp
  then have "flags t = flags s" using d g
    by (auto simp: delete_one_def Let_def split: if_splits option.splits)
  with Cons d show ?case by (simp add: delete_loop_Cons)
qed simp

lemma flags_BatchDelete [simp]: "flags (BatchDeleteProfiles ids groupid s) = flags s"
  using flags_delete_loop [of groupid ids s "[]" "[]"] by (auto simp: BatchDeleteProfiles_def split: prod.split simp del: flags_delete_loop)

lemma flags_NewProfiles [simp]: "flags (fst (NewProfiles es s)) = flags s"
proof (induction es arbitrary: s)
  case (Cons e es)
  show ?case using Cons [of "s\<lparr>m_heap := (m_heap s)(m_next s := e), m_bean_alive := (m_bean_alive s)(m_next s := True), m_next := Suc (m_next s)\<rparr>"]
    by (auto split: prod.split)
qed simp

lemma flags_add_loop [simp]: "flags (add_loop gid g ents s) = flags s"
proof (induction ents arbitrary: s)
  case (Cons p ents)
  have "flags (add_one gid g p s) = flags s"
    by (simp add: add_one_def Let_def flags_set_group)
  with Cons show ?case by (simp add: add_loop_Cons)
qed simp

lemma flags_AddProfileBatch [simp]: "flags (fst (AddProfileBatch ents gid s)) = flags s"
  by (simp add: AddProfileBatch_def Let_def split: option.split)

lemma flags_old_keys [simp]: "flags (fst (old_keys env g s)) = flags s"
  using flags_member_keys [of "g_profiles (m_gheap s g)" s] by (auto simp: old_keys_def Let_def flags_set_group split: prod.split simp del: flags_member_keys)

lemma flags_process_content: "process_content env content gid keys s = Inr (t, ps) \<Longrightarrow> flags t = flags s"
proof -
  assume p: "process_content env content gid keys s = Inr (t, ps)"
  obtain es where es: "RawUpdater_update (v_readers env) content = Some es" using p by (auto simp: process_content_def split: option.splits)
  obtain s1 qs where n: "NewProfiles es s = (s1, qs)" by force
  then have "flags s1 = flags s" using flags_NewProfiles [of es s] by simp
  with p es n show ?thesis by (auto simp: process_content_def Let_def split: option.splits if_splits prod.splits)
qed

lemma same_skips_apply_content:
  assumes "\<And>g s. flags (v_PreFinishJob env g s) = flags s" and "apply_content env content info gid u = Inr u'"
  shows "same_skips u u'"
proof (cases "GetGroup gid (up_manager u)")
  case None
  with assms(2) show ?thesis
    by (auto simp: apply_content_def import_content_def same_skips_def dest: flags_process_content split: sum.splits)
next
  case (Some g)
  obtain s keys where k: "old_keys env g (up_manager u) = (s, keys)" by force
  then have "flags s = flags (up_manager u)" using flags_old_keys [of env g "up_manager u"] by simp
  with Some k assms show ?thesis
    by (auto simp: apply_content_def update_group_def same_skips_def Let_def dest: flags_process_content split: sum.splits if_splits)
qed

lemma same_skips_name_group: "same_skips u (name_group env url resp gid auto_name u)"
  by (simp add: name_group_def same_skips_def flags_set_group split: option.split)

lemma same_skips_trans: "same_skips u v \<Longrightarrow> same_skips v w \<Longrightarrow> same_skips u w"
  by (simp add: same_skips_def)

lemma same_skips_request:
  assumes "\<And>g s. flags (v_PreFinishJob env g s) = flags s" and "request_content env content gid asURL auto_name u = Inr u'"
  shows "same_skips u u'"
proof -
  have "same_skips u u" by (simp add: same_skips_def)
  with assms(2) show ?thesis
    by (auto simp: request_content_def Let_def split: if_splits
        dest!: same_skips_apply_content [OF assms(1)] intro: same_skips_trans same_skips_name_group)
qed

lemma same_skips_Update:
  assumes "\<And>g s. flags (v_PreFinishJob env g s) = flags s" and "Update env url gid b auto_name u = Inr u'"
  shows "same_skips u u'"
proof -
  have "same_skips u (u\<lparr>up_imported_count := 0\<rparr>)" by (simp add: same_skips_def)
  with assms(2) show ?thesis
    by (auto simp: Update_def Let_def split: if_splits dest!: same_skips_request [OF assms(1)] intro: same_skips_trans)
qed

lemma same_skips_AsyncUpdateGroup:
  assumes "\<And>g s. flags (v_PreFinishJob env g s) = flags s" and "0 \<le> g_id (m_gheap (up_manager u) g)"
    and "AsyncUpdateGroup env g (u\<lparr>up_updating := True\<rparr>) = Inr u'"
  shows "same_skips u u'"
proof -
  have "same_skips u (u\<lparr>up_updating := True\<rparr>)" by (simp add: same_skips_def)
  with assms(2,3) show ?thesis
    by (auto simp: AsyncUpdateGroup_def AsyncUpdate_def Let_def split: if_splits dest!: same_skips_Update [OF assms(1)] intro: same_skips_trans)
qed

lemma skip_same: "same_skips u u' \<Longrightarrow> should_skip_group b u' = should_skip_group b u"
  by (auto simp: same_skips_def should_skip_group_def flags_def GetGroup_def Let_def fun_eq_iff split: option.splits)

text \<open>The reference: the given groups one after another, until one fails.\<close>

fun update_each :: "sub_env \<Rightarrow> int list \<Rightarrow> updater \<Rightarrow> failure + updater" where
  "update_each env [] u = Inr u"
| "update_each env (gid # gids) u =
     (case GetGroup gid (up_manager u) of
        None \<Rightarrow> Inl Undefined
      | Some g \<Rightarrow>
          (case AsyncUpdateGroup env g (u\<lparr>up_updating := True\<rparr>) of Inl e \<Rightarrow> Inl e | Inr u \<Rightarrow> update_each env gids u))"

lemma filter_dropWhile: "filter (\<lambda>x. \<not> P x) (dropWhile P xs) = filter (\<lambda>x. \<not> P x) xs"
  by (induction xs) auto

lemma serial_update_each:
  assumes "\<And>g s. flags (v_PreFinishJob env g s) = flags s" and "\<forall>i g. GetGroup i (up_manager u) = Some g \<longrightarrow> 0 \<le> g_id (m_gheap (up_manager u) g)"
  shows "serialUpdateSubscription env b order u =
    map_sum id (\<lambda>u. u\<lparr>up_updating := False\<rparr>) (update_each env (filter (\<lambda>i. \<not> should_skip_group b u i) order) u)"
  using assms(2)
proof (induction "length order" arbitrary: order u rule: less_induct)
  case less
  show ?case
  proof (cases order)
    case (Cons gid rest)
    show ?thesis
    proof (cases "should_skip_group b u gid")
      case True
      with less.hyps [of rest u] less.prems Cons show ?thesis by simp
    next
      case False
      then obtain g where g: "GetGroup gid (up_manager u) = Some g" by (auto simp: should_skip_group_def split: option.splits)
      show ?thesis
      proof (cases "AsyncUpdateGroup env g (u\<lparr>up_updating := True\<rparr>)")
        case (Inr u')
        have same: "same_skips u u'" by (rule same_skips_AsyncUpdateGroup [OF assms(1) _ Inr]) (use less.prems g in auto)
        then have "\<forall>i g. GetGroup i (up_manager u') = Some g \<longrightarrow> 0 \<le> g_id (m_gheap (up_manager u') g)"
          using less.prems by (simp add: same_skips_def flags_def GetGroup_def fun_eq_iff)
        with less.hyps [of "dropWhile (should_skip_group b u) rest" u'] Cons
        have "serialUpdateSubscription env b (dropWhile (should_skip_group b u) rest) u' =
          map_sum id (\<lambda>u. u\<lparr>up_updating := False\<rparr>) (update_each env (filter (\<lambda>i. \<not> should_skip_group b u i) rest) u')"
          by (simp add: skip_same [OF same] filter_dropWhile le_imp_less_Suc length_dropWhile_le)
        with False g Inr Cons show ?thesis by simp
      qed (use False g Cons in simp)
    qed
  qed simp
qed

text \<open>C23. Updating all groups updates the subscriptions that are neither archived nor left out, each once
  and in the order of the tabs, one after the other ended, as long as none fails.\<close>

theorem update_all_in_order:
  assumes "reachable (up_manager u)" and "\<not> up_updating u" and "\<And>g s. flags (v_PreFinishJob env g s) = flags s"
  shows "UI_update_all_groups env onlyAllowed u =
    map_sum id (\<lambda>u. u\<lparr>up_updating := False\<rparr>)
      (update_each env (filter (\<lambda>i. \<not> should_skip_group onlyAllowed u i) (m_groupsTabOrder (up_manager u))) u)"
proof -
  have "\<forall>i g. GetGroup i (up_manager u) = Some g \<longrightarrow> 0 \<le> g_id (m_gheap (up_manager u) g)"
    using Manager_Steps.group_keys [OF reachable_minv [OF assms(1)]] by (auto simp: GetGroup_def)
  from serial_update_each [OF assms(3) this, of onlyAllowed] assms(2) show ?thesis by (simp add: UI_update_all_groups_def)
qed

definition offline_env :: sub_env where
  "offline_env = answer_env\<lparr>v_get := (\<lambda>_. \<lparr> p_error = ''timeout'', p_data = '''', p_user_info = '''', p_title = '''' \<rparr>)\<rparr>"

theorem update_all_in_order_witness:
  "UI_update_all_groups offline_env True (lost_updater\<lparr>up_imported_count := 7\<rparr>) = Inr lost_updater"
proof -
  let ?u = "lost_updater\<lparr>up_imported_count := 7\<rparr>"
  have x: "up_extra lost_updater 1 = \<lparr> x_url = ''http://s'', x_info = '''', x_sub_last_update = 0,
      x_skip_auto_update = False, x_enable_custom_payload = False, x_javascript_payload = '''' \<rparr>"
    "up_updating lost_updater = False" "up_imported_count lost_updater = 0"
    by (simp_all add: lost_updater_def sample_updater_def)
  have g: "GetGroup 1 (up_manager lost_updater) = Some 0" "m_gheap (up_manager lost_updater) 0 = NewGroup\<lparr>g_id := 1, g_is_subscription := True, g_profiles := [4]\<rparr>"
    "m_groupsTabOrder (up_manager lost_updater) = [1]"
    by (simp_all add: lost_value blank_def GetGroup_def)
  have t: "trimmed ''http://s'' = ''http://s''" by (simp add: trimmed_def trim_with_def qt_space_def)
  have "\<not> should_skip_group True ?u 1" by (simp add: should_skip_group_def g x NewGroup_def)
  moreover have "update_each offline_env [1] ?u = Inr (lost_updater\<lparr>up_updating := True, up_imported_count := 0\<rparr>)"
    by (simp add: g x t AsyncUpdateGroup_def AsyncUpdate_def Update_def request_content_def archived_def Let_def offline_env_def answer_env_def NewGroup_def)
  moreover have "lost_updater\<lparr>up_imported_count := 0, up_updating := False\<rparr> = lost_updater" using x by (cases lost_updater) simp
  moreover have "flags (v_PreFinishJob offline_env g s) = flags s" for g s by (simp add: offline_env_def answer_env_def)
  ultimately show ?thesis
    using update_all_in_order [of ?u offline_env True] lost_reachable by (simp add: g x del: update_each.simps)
qed

end
