(* ===== verification/Spec2Isabelle.thy ===== *)
theory Spec2Isabelle
  imports Release_Check Route_Profiles Site_Search Docs_Page Route_Chain Group_Load Route_Table Manager_Props Profile_Filter
    Config_Test Config_Props Tester_Props Config_Typing Traffic Route_Import
    Subscription_Props
begin

text \<open>
  A verification development of NekoBox, a desktop proxy client. The repository holds a window
  written in C++ with Qt (\<^verbatim>\<open>src/src\<close>), the core that carries the traffic, a separate process
  written in Go (\<^verbatim>\<open>src/core\<close>), the scripts the window runs in a JavaScript engine of its own
  (\<^verbatim>\<open>src/res\<close>), and the documentation site with its scripts (\<^verbatim>\<open>src/pages\<close>). The
  development models the logic of the window and all scripts of the program and of the site.

  \<^bold>\<open>How the parts work together.\<close> The user keeps proxies as \<^emph>\<open>profiles\<close> in \<^emph>\<open>groups\<close>, and routing
  rules in \<^emph>\<open>routing profiles\<close>. All of them are stored objects, written as JSON or in a binary form
  into a key-value database or into files. The profile manager owns profiles and groups in memory;
  each write is a thread of its own. When a profile is started, the configuration builder turns the
  profile, its chain of hops, the routing rules, DNS and the inbounds into the JSON configuration
  of the core. While the core runs, its traffic counters are added to those of the profiles, and the
  automatic tester measures profiles in rounds and switches when the running one fails. Scripts
  look for releases and for routing profiles and install updates.

  \<^bold>\<open>Which theory models what.\<close> Paths are under \<^verbatim>\<open>src/src/gharqad\<close> unless they begin with another
  directory of \<^verbatim>\<open>src\<close>.

  \<^item> \<open>Nb_Prelude\<close>: operations on text shared by all, the collections of laws. \<open>Qt_Base\<close>: JSON
    values and the Qt operations on text and objects; an object is a list with sorted keys, and the
    locale \<open>keyed_store\<close> is what is used of it.
  \<^item> \<open>Js_Text\<close>, \<open>Updater_Js\<close>, \<open>Release_Check\<close>, \<open>Route_Profiles\<close>: the scripts
    \<^verbatim>\<open>res/public/*.js\<close> and \<^verbatim>\<open>res/updater.js\<close>: text encodings, the choice of a release, version
    comparison, the decision to update, the catalogue of routing profiles. The locale
    \<open>consistent_comparator\<close> is what \<open>Array.prototype.sort\<close> needs.
  \<^item> \<open>Site_Search\<close>, \<open>Docs_Page\<close>: the site's scripts \<^verbatim>\<open>pages/static\<close>: search and its teasers,
    theme, table of contents, copy buttons.
  \<^item> \<open>Config_Item\<close>, \<open>Config_Typing\<close>, \<open>Db_Store\<close>, \<open>Group_Load\<close>: stored objects
    (\<^verbatim>\<open>dataStore/ConfigItem.cpp\<close>), their JSON and binary forms and their typing, and the storage
    behind them (\<^verbatim>\<open>dataStore/Database.cpp\<close>, \<^verbatim>\<open>dataStore/Configs.cpp\<close>), which relies on the
    locale \<open>stored_format\<close>. What a class does after a read besides is part of its format: the
    fallback object that splits a group of an older version (\<^verbatim>\<open>dataStore/Group.cpp\<close>), and the storage
    type that the settings put in force (\<open>SetConfigType\<close>).
  \<^item> \<open>Route_Rule\<close>, \<open>Route_Chain\<close>, \<open>Route_Table\<close>, \<open>Route_Import\<close>
    (\<^verbatim>\<open>dataStore/RouteEntity.cpp\<close>, and \<^verbatim>\<open>Database.cpp\<close> for the table): rules and their JSON, the
    editor's fields, routing profiles and their simple rules, the manager's routing profiles, the
    import of rules.
  \<^item> \<open>Proxy_Entity\<close>, \<open>Profile_Filter\<close>, \<open>Profile_Group\<close>, \<open>Profile_Cache\<close>,
    \<open>Profile_Manager\<close>, \<open>Manager_Steps\<close>, \<open>Manager_Props\<close>
    (\<^verbatim>\<open>dataStore/ProxyEntity.cpp\<close>, \<^verbatim>\<open>ProfileFilter.cpp\<close>, \<^verbatim>\<open>Group.cpp\<close>, \<^verbatim>\<open>Database.cpp\<close>, and the
    bounded cache \<^verbatim>\<open>3rdparty/LRUCache\<close>, locale \<open>bounded_cache\<close>): profiles on a heap of shared
    objects, the manager's operations, its threads as jobs that run in any order, the destructor of
    a profile as a step of its own (not inside an operation), the step relation \<open>mstep\<close> and the states
    it reaches.
  \<^item> \<open>Config_Json\<close>, \<open>Chain_Builder\<close>, \<open>Game_Mod\<close>, \<open>Config_Builder\<close>, with the
    properties in \<open>Config_Links\<close>, \<open>Config_References\<close>, \<open>Config_Test\<close>, \<open>Config_Props\<close>
    (\<^verbatim>\<open>configs/ConfigBuilder.cpp\<close>, \<^verbatim>\<open>ui/setting/GameModCatalog.cpp\<close>): the configuration of a start,
    of a full configuration and of a latency test.
  \<^item> \<open>Auto_Tester\<close>, \<open>Tester_Props\<close> (\<^verbatim>\<open>stats/autotester/ProxyAutoTester.cpp\<close>): the automatic
    tester over the manager, which it uses through the locale \<open>profile_source\<close>.
  \<^item> \<open>Traffic\<close> (\<^verbatim>\<open>stats/traffic/TrafficLooper.cpp\<close>, the log of \<^verbatim>\<open>Database.cpp\<close>): counters as
    words of 64 bits, sessions as lists of starts, stops, passes of the loop and crashes of the core, the
    log's totals and usage times.
  \<^item> \<open>Sub_Reader\<close>, \<open>Subscription\<close>, \<open>Subscription_Props\<close> (\<^verbatim>\<open>configs/sub/GroupUpdater.cpp\<close>): how
    the text of a subscription is taken apart, and the update of a group, which compares what was
    read with the members through the keys of \<open>Profile_Filter\<close> and calls the profile manager.

  \<^bold>\<open>What the lemmas show.\<close> For storage: what is saved is what is loaded, whichever form and place it
  has, and other objects are not touched; a read takes every item from its own name and leaves an
  object in its class; a group of an older version is split into the group and its subscription.
  For the manager: an invariant of every reachable state, and what each operation leaves in memory
  and, after its thread, in storage. For rules: the editor's fields, the JSON of a rule, the simple
  rules as a normal form of their text, and the exact rules an import makes of an export. For
  configurations: traffic dials through the hops in order, tags are distinct and every reference
  resolves, in a start and in a test, whose tags give each profile its result. For the tester: which profiles a round tests, that none is left
  out for ever, which one a failover starts, and that a round is always released. For traffic: what
  an update makes of the core's bytes in both directions and in all four totals, and that no session
  loses what its updates counted. For subscriptions: what an update that compares and one that clears
  first leave of a group, when an update ends in undefined behaviour, on which texts reading ends and on which it does not, and which groups the
  update of all groups visits. For the scripts: which release is offered, that an update starts only
  on the stated conditions, the order of versions, and the encodings.
  Several theorems state where the code departs from what it means to do: they are named as
  findings in the manifest.

  \<^bold>\<open>Conventions.\<close> Machine integers are words or \<open>int\<close> with the wrap written out where a value
  can leave its width (identifiers, binary forms, traffic counters, where signed overflow wraps);
  elsewhere they are \<open>int\<close>
  within the bounds a theorem states, such as identifiers below 2^31. Text is text below code unit
  256, except in the UTF-8 encoder. Undefined behaviour (a read outside a list, a map with an order
  that is none) is \<open>None\<close> or an error value. Shared objects are addresses on a heap. A thread is
  a job or a step that runs as a whole; the steps run in any order.

  \<^bold>\<open>Fuel.\<close> \<open>getOutboundObject\<close> and \<open>IsValid\<close> follow the members of chains and do not end on a
  chain that contains itself; with acyclic chains any fuel above the rank of the profile gives the
  result, and a chain that begins with itself has none for any fuel (\<open>getOutboundObject_total\<close>,
  \<open>IsValid_returns\<close> and their counterparts \<open>_self_chain\<close>). The binary reader
  spends one unit for each item, since the codecs are arguments: any fuel above the size of the
  object is enough. The reader of subscriptions need not end either and is a partial function: \<open>None\<close> is a work
  list that never becomes empty (\<open>braces_never_end\<close>, \<open>lines_in_order\<close>).
  All other loops are structural or have a termination proof. The bounded cache
  holds at most 300 + 100 entries.

  \<^bold>\<open>Arguments of the model.\<close> What is not under \<^verbatim>\<open>src\<close>, or is input, is an argument: the codecs of
  \<open>QDataStream\<close>, the JSON printer and parser, the hash, the INI form, the success of each disk
  operation and the order of a directory; URLs and their parts, name resolution; the object each
  protocol's bean builds and whether it can be parsed; the core's answers and its check of a
  configuration; clocks; the catalogue of Game Mod; what the browser or the user decides; for
  subscriptions, the server's answer, the YAML parser, the corrections of foreign configurations and
  the job that runs after an update.
  Hypotheses on them state documented behaviour (a codec reads back what it wrote), and each
  property with hypotheses has a witness on concrete functions. Log lines of the builder and
  dialogues are left out; those of the tester are events.

  \<^bold>\<open>Bounds of the model of loading.\<close> The INI form is an argument, and a class's fallback in it is not
  modelled: the theorems on storage are for the three other types. The identifier in a group's data is
  its record's, as the loader of groups demands. The settings' storage type has one of its four values.

  \<^bold>\<open>Bounds of the builder's model.\<close> It is the build without the Windows-only code and without
  \<^verbatim>\<open>USE_CPP_PROXY_CONFIGURATOR\<close>. A full configuration uses a copy of the
  routing profile, so the corrected actions of its rules are not written back.

  \<^bold>\<open>Not modelled.\<close> The core and the updater in Go and the RPC layer between them and the window
  (\<^verbatim>\<open>core\<close>, \<^verbatim>\<open>api\<close>: another program, and code generated from \<^verbatim>\<open>libcore.thrift\<close>); the beans of the
  protocols with their links (\<^verbatim>\<open>configs/proxy\<close>), the corrections of foreign configurations and
  the titles of subscriptions (in \<^verbatim>\<open>configs/sub\<close>): field-by-field translations whose result is an
  argument here; windows and
  dialogues (\<^verbatim>\<open>ui\<close>), system integration (\<^verbatim>\<open>sys\<close>, \<^verbatim>\<open>global\<close>), the list of connections, HTTP
  requests and the host functions of the scripts (\<^verbatim>\<open>js\<close>): calls of libraries and of the system;
  the notes of groups and routing profiles, the storage of subscription details, the variant store and
  the country names of displayed profiles; third-party code, the site's generated styles
  (\<^verbatim>\<open>pages/src/daisyui*.js\<close>), translations, resources, packaging and build files.
\<close>

end
